(* ===== verification/Rust_Std.thy ===== *)
theory Rust_Std
  imports Main "HOL-Library.Word" "HOL-Library.Monad_Syntax" "HOL-Library.Multiset"
    "HOL-Library.Sublist"
begin

text \<open>
  The prelude: the part of Rust and of its standard library that the modelled code uses,
  and the generic lemmas the components share.

  \<^item> A Rust function that may panic returns an \<open>option\<close>; \<open>None\<close> is the panic.
    A \<open>Result\<close> is a sum, \<open>Inl\<close> the error and \<open>Inr\<close> the value.
  \<^item> \<open>u64\<close> and \<open>usize\<close> are 64 bits wide and wrap around, as in the release
    profile (\<^verbatim>\<open>Cargo.toml\<close> sets no \<^verbatim>\<open>overflow-checks\<close>).
  \<^item> A \<open>Duration\<close> is its number of nanoseconds; its operations panic where the
    64-bit second counter would overflow.
  \<^item> A \<open>&str\<close> is the list of its UTF-8 bytes, an Isabelle \<open>string\<close>.
\<close>

section \<open>Types and collections of facts\<close>

type_synonym byte = "8 word"
type_synonym u16 = "16 word"
type_synonym u32 = "32 word"
type_synonym u64 = "64 word"
type_synonym datagram = "byte list"
type_synonym 'a may_panic = "'a option"

named_theorems bytes_simps \<open>rewriting of byte encodings\<close>
named_theorems str_simps \<open>rewriting of string operations\<close>
named_theorems dur_simps \<open>unfolding of checked durations\<close>

abbreviation u64_limit :: nat where "u64_limit \<equiv> 2 ^ 64"
abbreviation u32_limit :: nat where "u32_limit \<equiv> 2 ^ 32"

text \<open>\<open>usize\<close> addition in the release profile.\<close>

definition usize_add :: "nat \<Rightarrow> nat \<Rightarrow> nat" where
  "usize_add a b = (a + b) mod u64_limit"

lemma usize_add_exact: "a + b < u64_limit \<Longrightarrow> usize_add a b = a + b"
  by (simp add: usize_add_def)

lemma unat_inc: "unat c + 1 < u64_limit \<Longrightarrow> unat (c + 1 :: u64) = unat c + 1"
  using unat_add_lem [of c 1] by simp

section \<open>Durations\<close>

type_synonym duration = nat

text \<open>\<open>Duration::MAX\<close> is \<open>u64::MAX\<close> seconds and 999999999 nanoseconds.\<close>

definition dur_limit :: nat where
  "dur_limit = u64_limit * 1000000000"

definition dur_mul :: "duration \<Rightarrow> nat \<Rightarrow> duration may_panic" where
  "dur_mul d k = (if d * k < dur_limit then Some (d * k) else None)"

definition dur_add :: "duration \<Rightarrow> duration \<Rightarrow> duration may_panic" where
  "dur_add d e = (if d + e < dur_limit then Some (d + e) else None)"

text \<open>An \<open>Instant\<close> is the monotonic clock in nanoseconds, of which the seconds are an \<open>i64\<close>; adding a duration to it panics when
  it leaves that range.\<close>

definition instant_limit :: nat where
  "instant_limit = 2 ^ 63 * 1000000000"

definition instant_add :: "nat \<Rightarrow> duration \<Rightarrow> nat may_panic" where
  "instant_add t d = (if t + d < instant_limit then Some (t + d) else None)"

definition from_millis :: "nat \<Rightarrow> duration" where
  "from_millis ms = ms * 1000000"

definition from_secs :: "nat \<Rightarrow> duration" where
  "from_secs s = s * 1000000000"

text \<open>\<open>Duration::from_nanos(x as u64)\<close>: the cast keeps the low 64 bits.\<close>

definition from_nanos_u64 :: "nat \<Rightarrow> duration" where
  "from_nanos_u64 n = n mod u64_limit"

lemma dur_mul_eq_Some [dur_simps]: "dur_mul d k = Some e \<longleftrightarrow> d * k < dur_limit \<and> e = d * k"
  by (auto simp: dur_mul_def)

lemma dur_add_eq_Some [dur_simps]: "dur_add d k = Some e \<longleftrightarrow> d + k < dur_limit \<and> e = d + k"
  by (auto simp: dur_add_def)

section \<open>Big-endian and little-endian bytes\<close>

fun to_be :: "nat \<Rightarrow> nat \<Rightarrow> byte list" where
  "to_be 0 n = []"
| "to_be (Suc k) n = to_be k (n div 256) @ [of_nat n]"

definition be_nat :: "byte list \<Rightarrow> nat" where
  "be_nat bs = foldl (\<lambda>acc b. acc * 256 + unat b) 0 bs"

definition to_le :: "nat \<Rightarrow> nat \<Rightarrow> byte list" where
  "to_le k n = rev (to_be k n)"

lemma unat_byte_less: "unat (b :: byte) < 256"
  using unsigned_less [of b, where ?'a = nat] by simp

lemma length_to_be [simp]: "length (to_be k n) = k"
  by (induction k arbitrary: n) auto

lemma be_nat_Nil [simp]: "be_nat [] = 0"
  by (simp add: be_nat_def)

lemma be_nat_snoc [simp]: "be_nat (bs @ [b]) = be_nat bs * 256 + unat b"
  by (simp add: be_nat_def)

lemma be_nat_bound: "be_nat bs < 256 ^ length bs"
proof (induction bs rule: rev_induct)
  case (snoc b bs)
  then have "Suc (be_nat bs) * 256 \<le> 256 ^ length bs * 256"
    by (intro mult_le_mono1) simp
  with unat_byte_less [of b] show ?case by (simp add: mult.commute)
qed simp

lemma be_nat_to_be [bytes_simps]: "be_nat (to_be k n) = n mod 256 ^ k"
proof (induction k arbitrary: n)
  case (Suc k)
  have "(n div 256) mod 256 ^ k * 256 + n mod 256 = n mod 256 ^ Suc k"
    by (metis add.commute mod_mult2_eq mult.commute power_Suc)
  with Suc show ?case by (simp add: unat_of_nat)
qed simp

lemma to_be_be_nat [bytes_simps]: "to_be (length bs) (be_nat bs) = bs"
proof (induction bs rule: rev_induct)
  case (snoc b bs)
  have "(of_nat (be_nat bs * 256) :: byte) = 0"
    by (simp only: word_of_nat_eq_0_iff) simp
  then have "(of_nat (be_nat bs * 256 + unat b) :: byte) = b"
    by (simp only: of_nat_add) simp
  with snoc unat_byte_less [of b] show ?case by simp
qed simp

lemma to_be_inj: "to_be k m = to_be k n \<Longrightarrow> m < 256 ^ k \<Longrightarrow> n < 256 ^ k \<Longrightarrow> m = n"
  by (metis be_nat_to_be mod_less)

section \<open>Strings\<close>

fun strip_prefix :: "string \<Rightarrow> string \<Rightarrow> string option" where
  "strip_prefix [] s = Some s"
| "strip_prefix (p # ps) [] = None"
| "strip_prefix (p # ps) (c # s) = (if p = c then strip_prefix ps s else None)"

lemma strip_prefix_eq_Some [str_simps]: "strip_prefix p s = Some r \<longleftrightarrow> s = p @ r"
  by (induction p s rule: strip_prefix.induct) auto

lemma strip_prefix_append [simp]: "strip_prefix p (p @ r) = Some r"
  by (simp add: strip_prefix_eq_Some)

text \<open>
  The UTF-8 encodings of the characters with the Unicode property \<open>White_Space\<close>: what
  \<open>str::trim\<close> and \<open>str::split_whitespace\<close> take as white space.
\<close>

definition byte_chars :: "nat list \<Rightarrow> string" where
  "byte_chars ns = map char_of ns"

definition white_space :: "string list" where
  "white_space = map byte_chars
     ([[9], [10], [11], [12], [13], [32], [194, 133], [194, 160], [225, 154, 128]] @
      map (\<lambda>k. [226, 128, 128 + k]) [0..<11] @
      [[226, 128, 168], [226, 128, 169], [226, 128, 175], [226, 129, 159], [227, 128, 128]])"

lemma white_space_code [code]: "white_space =
  [[CHR 0x09], [CHR 0x0A], [CHR 0x0B], [CHR 0x0C], [CHR 0x0D], [CHR 0x20], [CHR 0xC2, CHR 0x85], [CHR 0xC2, CHR 0xA0],
   [CHR 0xE1, CHR 0x9A, CHR 0x80], [CHR 0xE2, CHR 0x80, CHR 0x80], [CHR 0xE2, CHR 0x80, CHR 0x81], [CHR 0xE2, CHR 0x80, CHR 0x82],
   [CHR 0xE2, CHR 0x80, CHR 0x83], [CHR 0xE2, CHR 0x80, CHR 0x84], [CHR 0xE2, CHR 0x80, CHR 0x85], [CHR 0xE2, CHR 0x80, CHR 0x86],
   [CHR 0xE2, CHR 0x80, CHR 0x87], [CHR 0xE2, CHR 0x80, CHR 0x88], [CHR 0xE2, CHR 0x80, CHR 0x89], [CHR 0xE2, CHR 0x80, CHR 0x8A],
   [CHR 0xE2, CHR 0x80, CHR 0xA8], [CHR 0xE2, CHR 0x80, CHR 0xA9], [CHR 0xE2, CHR 0x80, CHR 0xAF], [CHR 0xE2, CHR 0x81, CHR 0x9F],
   [CHR 0xE3, CHR 0x80, CHR 0x80]]"
  unfolding white_space_def byte_chars_def by code_simp

fun strip_any :: "string list \<Rightarrow> string \<Rightarrow> string option" where
  "strip_any [] s = None"
| "strip_any (w # ws) s = (case strip_prefix w s of Some r \<Rightarrow> Some r | None \<Rightarrow> strip_any ws s)"

lemma strip_any_shorter:
  "strip_any ws s = Some r \<Longrightarrow> [] \<notin> set ws \<Longrightarrow> length r < length s"
  by (induction ws) (auto simp: strip_prefix_eq_Some split: option.splits)

lemma white_space_nonempty [simp]:
  "[] \<notin> set white_space" "[] \<notin> set (map rev white_space)"
  by (auto simp: white_space_def byte_chars_def)

function trim_with :: "string list \<Rightarrow> string \<Rightarrow> string" where
  "trim_with ws s =
     (if [] \<in> set ws then s
      else case strip_any ws s of None \<Rightarrow> s | Some r \<Rightarrow> trim_with ws r)"
  by pat_completeness auto
termination
  by (relation "measure (\<lambda>(ws, s). length s)") (auto dest: strip_any_shorter)

declare trim_with.simps [simp del]

definition trim_start :: "string \<Rightarrow> string" where
  "trim_start = trim_with white_space"

definition trim_end :: "string \<Rightarrow> string" where
  "trim_end s = rev (trim_with (map rev white_space) (rev s))"

definition trim :: "string \<Rightarrow> string" where
  "trim s = trim_end (trim_start s)"

lemma trim_with_suffix: "suffix (trim_with ws s) s"
proof (induction ws s rule: trim_with.induct)
  case (1 ws s)
  show ?case
  proof (cases "[] \<in> set ws \<or> strip_any ws s = None")
    case True then show ?thesis by (auto simp: trim_with.simps [of ws s])
  next
    case False
    then obtain r where r: "strip_any ws s = Some r" and ne: "[] \<notin> set ws" by auto
    have "suffix r s"
      using r by (induction ws) (auto simp: strip_prefix_eq_Some suffix_def split: option.splits)
    with "1.IH" [OF ne r] r ne show ?thesis
      by (simp add: trim_with.simps [of ws s])
  qed
qed

lemma trim_sublist: "sublist (trim s) s"
proof -
  have "suffix (trim_start s) s"
    by (simp add: trim_start_def trim_with_suffix)
  moreover have "prefix (trim_end t) t" for t
    by (metis rev_rev_ident suffix_to_prefix trim_end_def trim_with_suffix)
  ultimately show ?thesis
    unfolding trim_def by (auto simp: prefix_def suffix_def sublist_def) (metis append.assoc)
qed

text \<open>A string that begins and ends with visible ASCII characters is not changed by trimming.\<close>

definition visible :: "char \<Rightarrow> bool" where
  "visible c \<longleftrightarrow> 32 < (of_char c :: nat) \<and> (of_char c :: nat) < 128"

lemma white_space_ends:
  assumes "w \<in> set white_space"
  shows "\<not> visible (hd w)" and "\<not> visible (last w)"
  using assms unfolding white_space_def byte_chars_def visible_def by auto

lemma strip_any_visible:
  assumes "s \<noteq> []" and "visible (hd s)" and "\<forall>w \<in> set ws. w \<noteq> [] \<and> \<not> visible (hd w)"
  shows "strip_any ws s = None"
  using assms(3)
proof (induction ws)
  case (Cons w ws)
  have "strip_prefix w s = None"
  proof (rule ccontr)
    assume "strip_prefix w s \<noteq> None"
    then obtain r where "s = w @ r" by (auto simp: strip_prefix_eq_Some)
    with Cons.prems assms(2) show False by auto
  qed
  with Cons show ?case by simp
qed simp

lemma trim_visible:
  assumes "s \<noteq> []" and "visible (hd s)" and "visible (last s)"
  shows "trim s = s"
proof -
  have "strip_any white_space s = None"
    using assms white_space_nonempty(1) white_space_ends(1) by (intro strip_any_visible) auto
  then have start: "trim_start s = s" by (simp add: trim_start_def trim_with.simps [of _ s])
  have "\<forall>w \<in> set (map rev white_space). w \<noteq> [] \<and> \<not> visible (hd w)"
    using white_space_nonempty(1) by (auto simp: hd_rev white_space_ends)
  then have "strip_any (map rev white_space) (rev s) = None"
    using assms by (intro strip_any_visible) (simp_all add: hd_rev)
  then show ?thesis by (simp add: trim_def start trim_end_def trim_with.simps [of _ "rev s"])
qed

function split_ws_from :: "string \<Rightarrow> string \<Rightarrow> string list" where
  "split_ws_from cur [] = (if cur = [] then [] else [rev cur])"
| "split_ws_from cur (c # s) =
     (case strip_any white_space (c # s) of
        Some r \<Rightarrow> (if cur = [] then [] else [rev cur]) @ split_ws_from [] r
      | None \<Rightarrow> split_ws_from (c # cur) s)"
  by pat_completeness auto
termination
  by (relation "measure (\<lambda>(cur, s). length s)") (auto dest: strip_any_shorter [OF _ white_space_nonempty(1)])

definition split_whitespace :: "string \<Rightarrow> string list" where
  "split_whitespace s = split_ws_from [] s"

definition to_ascii_lower :: "char \<Rightarrow> char" where
  "to_ascii_lower c =
     (let n = of_char c :: nat in if 65 \<le> n \<and> n \<le> 90 then char_of (n + 32) else c)"

definition to_ascii_lowercase :: "string \<Rightarrow> string" where
  "to_ascii_lowercase s = map to_ascii_lower s"

definition eq_ignore_ascii_case :: "string \<Rightarrow> string \<Rightarrow> bool" where
  "eq_ignore_ascii_case a b \<longleftrightarrow> to_ascii_lowercase a = to_ascii_lowercase b"

text \<open>\<open>slice.windows(k).position(|w| w == pat)\<close> and \<open>str::find\<close>: the first occurrence.\<close>

fun find_sub :: "'a list \<Rightarrow> 'a list \<Rightarrow> nat option" where
  "find_sub pat [] = (if pat = [] then Some 0 else None)"
| "find_sub pat (c # s) =
     (if prefix pat (c # s) then Some 0 else map_option Suc (find_sub pat s))"

lemma find_sub_Some:
  "find_sub pat s = Some i \<Longrightarrow> s = take i s @ pat @ drop (i + length pat) s"
proof (induction pat s arbitrary: i rule: find_sub.induct)
  case (2 pat c s)
  then show ?case by (cases i) (auto simp: prefix_def split: if_splits)
qed (auto split: if_splits)

lemma find_sub_None: "find_sub pat s = None \<Longrightarrow> \<not> sublist pat s"
  by (induction pat s rule: find_sub.induct) (auto simp: sublist_Cons_right split: if_splits)

lemma find_sub_eq_None: "find_sub pat s = None \<longleftrightarrow> \<not> sublist pat s"
proof
  assume n: "\<not> sublist pat s"
  show "find_sub pat s = None"
  proof (rule ccontr)
    assume "find_sub pat s \<noteq> None"
    then obtain i where "find_sub pat s = Some i" by auto
    from find_sub_Some [OF this] have "sublist pat s" unfolding sublist_def by blast
    with n show False ..
  qed
qed (rule find_sub_None)

lemma find_sub_skip: "pat \<noteq> [] \<Longrightarrow> hd pat \<notin> set xs \<Longrightarrow> find_sub pat (xs @ ys) = map_option ((+) (length xs)) (find_sub pat ys)"
proof (induction xs)
  case (Cons x xs)
  then have "\<not> prefix pat (x # xs @ ys)" by (cases pat) auto
  with Cons show ?case by (cases "find_sub pat ys") auto
qed (cases "find_sub pat ys"; simp)

lemma find_sub_first:
  "find_sub pat s = Some i \<Longrightarrow> j < i \<Longrightarrow> \<not> prefix pat (drop j s)"
proof (induction pat s arbitrary: i j rule: find_sub.induct)
  case (2 pat c s)
  then show ?case by (cases j) (auto split: if_splits)
qed (auto split: if_splits)

text \<open>\<open>split_once\<close> splits at the first, \<open>rsplit_once\<close> at the last occurrence.\<close>

fun split_once :: "char \<Rightarrow> string \<Rightarrow> (string \<times> string) option" where
  "split_once c [] = None"
| "split_once c (x # s) =
     (if x = c then Some ([], s)
      else map_option (\<lambda>(a, b). (x # a, b)) (split_once c s))"

definition rsplit_once :: "char \<Rightarrow> string \<Rightarrow> (string \<times> string) option" where
  "rsplit_once c s = map_option (\<lambda>(a, b). (rev b, rev a)) (split_once c (rev s))"

lemma split_once_eq_Some [str_simps]:
  "split_once c s = Some (a, b) \<longleftrightarrow> s = a @ c # b \<and> c \<notin> set a"
proof (induction c s arbitrary: a rule: split_once.induct)
  case (2 c x s)
  show ?case
  proof (cases a)
    case Nil then show ?thesis by auto
  next
    case (Cons y ys)
    with 2 show ?thesis by (auto split: if_splits)
  qed
qed simp

lemma split_once_eq_None [str_simps]: "split_once c s = None \<longleftrightarrow> c \<notin> set s"
  by (induction c s rule: split_once.induct) auto

lemma rsplit_once_eq_Some [str_simps]:
  "rsplit_once c s = Some (a, b) \<longleftrightarrow> s = a @ c # b \<and> c \<notin> set b"
proof -
  have "rsplit_once c s = Some (a, b) \<longleftrightarrow> split_once c (rev s) = Some (rev b, rev a)"
    by (auto simp: rsplit_once_def)
  then show ?thesis
    by (simp add: split_once_eq_Some) (metis append.assoc append_Cons append_Nil rev.simps(2)
        rev_append rev_rev_ident)
qed

lemma rsplit_once_eq_None [str_simps]: "rsplit_once c s = None \<longleftrightarrow> c \<notin> set s"
  by (simp add: rsplit_once_def split_once_eq_None)

text \<open>\<open>str::split(c)\<close>: all pieces between separators, at least one.\<close>

fun split_char :: "char \<Rightarrow> string \<Rightarrow> string list" where
  "split_char c [] = [[]]"
| "split_char c (x # s) =
     (if x = c then [] # split_char c s
      else (case split_char c s of [] \<Rightarrow> [[x]] | p # ps \<Rightarrow> (x # p) # ps))"

lemma split_char_nonempty [simp]: "split_char c s \<noteq> []"
  by (cases s) (auto split: list.splits)

section \<open>Decimal and hexadecimal numbers\<close>

text \<open>\<open>char::to_digit\<close> and \<open>from_str_radix\<close> for an unsigned type with values below \<open>lim\<close>.\<close>

definition to_digit :: "nat \<Rightarrow> char \<Rightarrow> nat option" where
  "to_digit radix c =
     (let n = of_char c;
          v = (if 48 \<le> n \<and> n \<le> 57 then n - 48
               else if 97 \<le> n \<and> n \<le> 122 then n - 87
               else if 65 \<le> n \<and> n \<le> 90 then n - 55
               else radix)
      in if v < radix then Some v else None)"

fun parse_digits :: "nat \<Rightarrow> nat \<Rightarrow> nat \<Rightarrow> string \<Rightarrow> nat option" where
  "parse_digits radix lim acc [] = Some acc"
| "parse_digits radix lim acc (c # s) =
     (case to_digit radix c of
        None \<Rightarrow> None
      | Some d \<Rightarrow>
          if acc * radix + d < lim then parse_digits radix lim (acc * radix + d) s else None)"

definition from_str_radix :: "nat \<Rightarrow> nat \<Rightarrow> string \<Rightarrow> nat option" where
  "from_str_radix radix lim s =
     (case s of
        [] \<Rightarrow> None
      | c # r \<Rightarrow>
          if c = CHR ''+'' then (if r = [] then None else parse_digits radix lim 0 r)
          else parse_digits radix lim 0 s)"

definition parse_u64 :: "string \<Rightarrow> nat option" where
  "parse_u64 = from_str_radix 10 u64_limit"

definition parse_u16 :: "string \<Rightarrow> nat option" where
  "parse_u16 = from_str_radix 10 (2 ^ 16)"

fun show_nat :: "nat \<Rightarrow> string" where
  "show_nat n = (if n < 10 then [char_of (48 + n)] else show_nat (n div 10) @ [char_of (48 + n mod 10)])"

declare show_nat.simps [simp del]

lemma parse_digits_append:
  "parse_digits r lim acc (s @ t) =
     (case parse_digits r lim acc s of None \<Rightarrow> None | Some a \<Rightarrow> parse_digits r lim a t)"
  by (induction r lim acc s rule: parse_digits.induct) (auto split: option.splits)

lemma parse_digits_bound: "parse_digits r lim acc s = Some n \<Longrightarrow> acc < lim \<Longrightarrow> n < lim"
  by (induction r lim acc s rule: parse_digits.induct) (auto split: option.splits if_splits)

lemma from_str_radix_bound: "from_str_radix r lim s = Some n \<Longrightarrow> 0 < lim \<Longrightarrow> n < lim"
  by (auto simp: from_str_radix_def simp del: parse_digits.simps split: list.splits if_splits
      dest: parse_digits_bound)

lemma to_digit_char [simp]: "d < 10 \<Longrightarrow> to_digit 10 (char_of (48 + d)) = Some d"
  by (simp add: to_digit_def)

lemma parse_digits_show [str_simps]: "n < lim \<Longrightarrow> parse_digits 10 lim 0 (show_nat n) = Some n"
proof (induction n rule: show_nat.induct)
  case (1 n)
  show ?case
  proof (cases "n < 10")
    case True
    with 1 show ?thesis by (simp add: show_nat.simps [of n])
  next
    case False
    with 1 have "parse_digits 10 lim 0 (show_nat (n div 10)) = Some (n div 10)" by auto
    moreover have "n div 10 * 10 + n mod 10 = n" by simp
    ultimately show ?thesis
      using False "1.prems" by (simp add: show_nat.simps [of n] parse_digits_append)
  qed
qed

lemma show_nat_digits: "c \<in> set (show_nat n) \<Longrightarrow> 48 \<le> (of_char c :: nat) \<and> (of_char c :: nat) \<le> 57"
proof (induction n rule: show_nat.induct)
  case (1 n)
  have d: "n mod 10 < 10" by simp
  from 1 d show ?case by (subst (asm) (2) show_nat.simps) (auto split: if_splits)
qed

lemma show_nat_nonempty [simp]: "show_nat n \<noteq> []"
  by (subst show_nat.simps) simp

lemma parse_show_nat [str_simps]: "n < lim \<Longrightarrow> from_str_radix 10 lim (show_nat n) = Some n"
proof -
  assume "n < lim"
  then have p: "parse_digits 10 lim 0 (show_nat n) = Some n" by (rule parse_digits_show)
  obtain c r where cr: "show_nat n = c # r" by (cases "show_nat n") auto
  with show_nat_digits [of c n] have "c \<noteq> CHR ''+''" by auto
  with cr p show ?thesis by (simp add: from_str_radix_def)
qed

end
