(* ===== verification/Rust_Float.thy ===== *)
theory Rust_Float
  imports Rust_Std "HOL-Library.Log_Nat" Complex_Main
begin

text \<open>
  Rust's \<open>f32\<close> and \<open>f64\<close> as the IEEE 754 binary formats of precision 24 and 53:
  a finite value is the rational number it stands for, and every operation is the exact
  rational operation followed by rounding to the nearest value of the format, ties to even
  (\<open>fl p\<close>). The exponent range is not bounded: the modelled code computes with
  durations below \<open>2^64\<close> seconds, byte counts below \<open>2^64\<close> and quotients of
  these, whose binary exponents stay between \<open>-200\<close> and \<open>+200\<close> and so
  neither overflow nor become subnormal in \<open>f64\<close>; its \<open>f32\<close> values lie between
  \<open>2^-60\<close> and \<open>2^94\<close>.
\<close>

section \<open>Rounding to nearest, ties to even\<close>

definition rne :: "rat \<Rightarrow> int" where
  "rne x = (let f = \<lfloor>x\<rfloor>; r = x - of_int f in
     if r < 1 / 2 then f else if 1 / 2 < r then f + 1 else if even f then f else f + 1)"

definition ilog2 :: "rat \<Rightarrow> int" where
  "ilog2 x = (let (n, d) = quotient_of x; k = bitlen n - bitlen d
              in if 2 powi k \<le> x then k else k - 1)"

definition ulp :: "nat \<Rightarrow> rat \<Rightarrow> rat" where
  "ulp p x = 2 powi (ilog2 x - int p + 1)"

definition fl :: "nat \<Rightarrow> rat \<Rightarrow> rat" where
  "fl p x = (if x = 0 then 0
             else if 0 < x then of_int (rne (x / ulp p x)) * ulp p x
             else - (of_int (rne (- x / ulp p (- x))) * ulp p (- x)))"

lemma rne_of_int [simp]: "rne (of_int i) = i"
  by (simp add: rne_def)

lemma rne_mono: "x \<le> y \<Longrightarrow> rne x \<le> rne y"
proof -
  assume le: "x \<le> y"
  show ?thesis
  proof (cases "\<lfloor>x\<rfloor> = \<lfloor>y\<rfloor>")
    case True
    with le show ?thesis by (auto simp: rne_def Let_def)
  next
    case False
    with le have "\<lfloor>x\<rfloor> + 1 \<le> \<lfloor>y\<rfloor>" by (simp add: floor_mono order_neq_le_trans zless_imp_add1_zle)
    then show ?thesis by (auto simp: rne_def Let_def)
  qed
qed

lemma rne_error: "\<bar>of_int (rne x) - x\<bar> \<le> 1 / 2"
proof -
  define f where "f = (of_int \<lfloor>x\<rfloor> :: rat)"
  have "f \<le> x" "x < f + 1" unfolding f_def by linarith+
  then show ?thesis by (auto simp: rne_def Let_def abs_le_iff simp flip: f_def)
qed

lemma bitlen_powi:
  assumes "0 < n"
  shows "2 powi (bitlen n - 1) \<le> (of_int n :: rat)" and "(of_int n :: rat) < 2 powi bitlen n"
proof -
  have b: "2 ^ nat (bitlen n - 1) \<le> n" "n < 2 ^ nat (bitlen n)"
    using bitlen_bounds [OF assms] by auto
  have pos: "0 \<le> bitlen n - 1" "0 \<le> bitlen n"
    using assms bitlen_eq_zero_iff [of n] bitlen_nonneg [of n] by linarith+
  have "(of_int (2 ^ nat (bitlen n - 1)) :: rat) \<le> of_int n"
    using b(1) by (simp only: of_int_le_iff)
  then show "2 powi (bitlen n - 1) \<le> (of_int n :: rat)"
    using pos by (simp add: power_int_def)
  have "(of_int n :: rat) < of_int (2 ^ nat (bitlen n))"
    using b(2) by (simp only: of_int_less_iff)
  then show "(of_int n :: rat) < 2 powi bitlen n"
    using pos by (simp add: power_int_def)
qed

lemma ilog2_bounds:
  assumes "0 < x"
  shows "2 powi ilog2 x \<le> x" and "x < 2 powi (ilog2 x + 1)"
proof -
  obtain n d where q: "quotient_of x = (n, d)" by (cases "quotient_of x")
  have x: "x = of_int n / of_int d" and d: "0 < d"
    using q quotient_of_div quotient_of_denom_pos by blast+
  with assms have n: "0 < n" by (simp add: zero_less_divide_iff)
  note N = bitlen_powi [OF n] and D = bitlen_powi [OF d]
  let ?k = "bitlen n - bitlen d"
  have "of_int n < (2 powi (?k + 1) * 2 powi (bitlen d - 1) :: rat)"
    using N(2) by (simp flip: power_int_add)
  also have "\<dots> \<le> 2 powi (?k + 1) * of_int d"
    using D(1) by (intro mult_left_mono) auto
  finally have up: "x < 2 powi (?k + 1)" using d x by (simp add: divide_less_eq)
  have "(2 powi (?k - 1) * of_int d :: rat) \<le> 2 powi (?k - 1) * 2 powi bitlen d"
    using D(2) by (intro mult_left_mono) auto
  also have "\<dots> = 2 powi (bitlen n - 1)" by (simp flip: power_int_add)
  also have "\<dots> \<le> of_int n" by (rule N(1))
  finally have lo: "2 powi (?k - 1) \<le> x" using d x by (simp add: le_divide_eq)
  from up lo show "2 powi ilog2 x \<le> x" "x < 2 powi (ilog2 x + 1)"
    by (auto simp: ilog2_def q Let_def)
qed

lemma ulp_pos [simp]: "0 < ulp p x" and ulp_nz [simp]: "ulp p x \<noteq> 0"
  and ulp_nonneg [simp]: "0 \<le> ulp p x"
  by (auto simp: ulp_def)

lemma powi_ulp: "(2 :: rat) powi (ilog2 x - int p + 1 + int k) = of_int (2 ^ k) * ulp p x"
  by (simp add: ulp_def power_int_add mult.commute)

lemma ilog2_mono: "0 < x \<Longrightarrow> x \<le> y \<Longrightarrow> ilog2 x \<le> ilog2 y"
proof -
  assume a: "0 < x" "x \<le> y"
  then have "(2 :: rat) powi ilog2 x < 2 powi (ilog2 y + 1)"
    using ilog2_bounds(1) [of x] ilog2_bounds(2) [of y] by linarith
  then show ?thesis
    by (metis linorder_not_less one_less_numeral_iff power_int_strict_increasing semiring_norm(76)
        zle_add1_eq_le power_int_increasing one_le_numeral order_less_imp_le)
qed

text \<open>The rounded value of a positive number stays in the number's binade.\<close>

lemma fl_binade:
  assumes "0 < x" and "0 < p"
  shows "2 powi ilog2 x \<le> fl p x" and "fl p x \<le> 2 powi (ilog2 x + 1)"
proof -
  have P: "(2 :: rat) powi ilog2 x = of_int (2 ^ (p - 1)) * ulp p x"
    using powi_ulp [of x p "p - 1"] assms(2) by (simp add: of_nat_diff)
  have P': "(2 :: rat) powi (ilog2 x + 1) = of_int (2 ^ p) * ulp p x"
    using powi_ulp [of x p p] by (simp add: add.commute)
  have "of_int (2 ^ (p - 1)) \<le> x / ulp p x"
    using ilog2_bounds(1) [OF assms(1)] P by (simp add: le_divide_eq)
  then have "2 ^ (p - 1) \<le> rne (x / ulp p x)"
    using rne_mono rne_of_int by metis
  then have "of_int (2 ^ (p - 1)) \<le> (of_int (rne (x / ulp p x)) :: rat)"
    by (simp only: of_int_le_iff)
  then show "2 powi ilog2 x \<le> fl p x"
    unfolding P using assms(1) by (simp add: fl_def)
  have "x / ulp p x \<le> of_int (2 ^ p)"
    using ilog2_bounds(2) [OF assms(1)] P' by (simp add: divide_le_eq)
  then have "rne (x / ulp p x) \<le> 2 ^ p"
    using rne_mono rne_of_int by metis
  then have "(of_int (rne (x / ulp p x)) :: rat) \<le> of_int (2 ^ p)"
    by (simp only: of_int_le_iff)
  then show "fl p x \<le> 2 powi (ilog2 x + 1)"
    unfolding P' using assms(1) by (simp add: fl_def)
qed

lemma fl_nonneg [simp]: "0 \<le> x \<Longrightarrow> 0 \<le> fl p x"
proof -
  assume "0 \<le> x"
  then have "0 \<le> rne (x / ulp p x)"
    using rne_mono [of 0 "x / ulp p x"] rne_of_int [of 0] by simp
  with \<open>0 \<le> x\<close> show ?thesis by (simp add: fl_def)
qed

lemma fl_pos: "0 < x \<Longrightarrow> 0 < p \<Longrightarrow> 0 < fl p x"
  by (rule less_le_trans [OF _ fl_binade(1)]) simp_all

lemma fl_zero [simp]: "fl p 0 = 0"
  by (simp add: fl_def)

lemma fl_mono:
  assumes "0 \<le> x" and "x \<le> y" and p: "0 < p"
  shows "fl p x \<le> fl p y"
proof (cases "x = 0")
  case True
  with assms show ?thesis by simp
next
  case False
  with assms have x: "0 < x" and y: "0 < y" by auto
  show ?thesis
  proof (cases "ilog2 x = ilog2 y")
    case True
    then have u: "ulp p x = ulp p y" by (simp add: ulp_def)
    have "rne (x / ulp p x) \<le> rne (y / ulp p y)"
      unfolding u by (intro rne_mono divide_right_mono) (use assms in auto)
    then have "(of_int (rne (x / ulp p x)) :: rat) \<le> of_int (rne (y / ulp p y))" by simp
    then show ?thesis using x y u by (simp add: fl_def)
  next
    case False
    with ilog2_mono [OF x assms(2)] have "ilog2 x + 1 \<le> ilog2 y" by simp
    then have "(2 :: rat) powi (ilog2 x + 1) \<le> 2 powi ilog2 y"
      by (intro power_int_increasing) auto
    then show ?thesis using fl_binade(2) [OF x p] fl_binade(1) [OF y p] by linarith
  qed
qed

text \<open>Values of the format are not changed by rounding; integers below \<open>2^p\<close> are values.\<close>

lemma fl_exact:
  assumes x: "x = of_nat m * 2 powi e" and m: "m < 2 ^ p"
  shows "fl p x = x"
proof (cases "m = 0")
  case True
  with x show ?thesis by simp
next
  case False
  with x have pos: "0 < x" by simp
  have "(of_nat m :: rat) < of_nat (2 ^ p)" using m by (simp only: of_nat_less_iff)
  then have "x < 2 powi (int p) * 2 powi e" using x by simp
  then have "(2 :: rat) powi ilog2 x < 2 powi (int p + e)"
    using ilog2_bounds(1) [OF pos] by (simp add: power_int_add)
  then have "ilog2 x < int p + e"
    by (metis linorder_not_less one_le_numeral power_int_increasing)
  then obtain k where k: "e = ilog2 x - int p + 1 + int k"
    using zle_iff_zadd [of "ilog2 x - int p + 1" e] by auto
  then have "x = of_int (int m * 2 ^ k) * ulp p x"
    using x powi_ulp [of x p k] by simp
  then have "x / ulp p x = of_int (int m * 2 ^ k)" by (metis nonzero_mult_div_cancel_right ulp_nz)
  then show ?thesis using pos by (simp add: fl_def) (metis divide_eq_eq of_int_mult ulp_nz rne_of_int of_int_of_nat_eq of_int_power of_int_numeral)
qed

lemma fl_of_nat: "n < 2 ^ p \<Longrightarrow> fl p (of_nat n) = of_nat n"
  by (rule fl_exact [where e = 0]) simp_all

lemma fl_one [simp]: "0 < p \<Longrightarrow> fl p 1 = 1"
  using fl_of_nat [of 1 p] one_less_power [of "2 :: nat" p] by simp

text \<open>The relative error of one rounding is at most \<open>2^-p\<close>.\<close>

lemma fl_error:
  assumes "0 \<le> x"
  shows "\<bar>fl p x - x\<bar> \<le> x / 2 ^ p"
proof (cases "x = 0")
  case False
  with assms have x: "0 < x" by simp
  have "fl p x - x = (of_int (rne (x / ulp p x)) - x / ulp p x) * ulp p x"
    using x by (simp add: fl_def left_diff_distrib)
  then have "\<bar>fl p x - x\<bar> = \<bar>of_int (rne (x / ulp p x)) - x / ulp p x\<bar> * ulp p x"
    by (simp add: abs_mult)
  also have "\<dots> \<le> 1 / 2 * ulp p x"
    by (intro mult_right_mono rne_error) simp
  finally have e: "\<bar>fl p x - x\<bar> \<le> ulp p x / 2" by simp
  have "ulp p x * 2 ^ p = 2 * 2 powi ilog2 x"
    using powi_ulp [of x p p] by (simp add: power_int_add mult.commute)
  then have "ulp p x / 2 = 2 powi ilog2 x / 2 ^ p" by (simp add: field_simps)
  also have "\<dots> \<le> x / 2 ^ p"
    using ilog2_bounds(1) [OF x] by (intro divide_right_mono) auto
  finally show ?thesis using e by linarith
qed simp

section \<open>Operations of f64 and f32\<close>

type_synonym f64 = rat

text \<open>An \<open>f32\<close> the code may divide by zero to make: finite or \<open>+inf\<close>.\<close>

datatype f32 = Fin rat | PInf

abbreviation fl64 :: "rat \<Rightarrow> rat" where "fl64 \<equiv> fl 53"
abbreviation fl32 :: "rat \<Rightarrow> rat" where "fl32 \<equiv> fl 24"

text \<open>\<open>x as u64\<close> for a non-negative \<open>f64\<close>: truncation, saturating at \<open>u64::MAX\<close>.\<close>

definition f64_as_u64 :: "f64 \<Rightarrow> nat" where
  "f64_as_u64 x = min (u64_limit - 1) (nat \<lfloor>x\<rfloor>)"

text \<open>\<open>f64::round\<close> of a non-negative value: half away from zero.\<close>

definition f64_round :: "f64 \<Rightarrow> nat" where
  "f64_round x = nat \<lfloor>x + 1 / 2\<rfloor>"

text \<open>\<open>Duration::as_secs_f64\<close>: \<open>(secs as f64) + (nanos as f64) / (1e9 as f64)\<close>.\<close>

definition as_secs_f64 :: "duration \<Rightarrow> f64" where
  "as_secs_f64 d = fl64 (fl64 (of_nat (d div 1000000000)) +
                         fl64 (fl64 (of_nat (d mod 1000000000)) / 1000000000))"

text \<open>\<open>Duration::from_secs_f64\<close> of a non-negative value rounds to nanoseconds, ties to even.\<close>

definition from_secs_f64 :: "f64 \<Rightarrow> duration may_panic" where
  "from_secs_f64 x = (let n = nat (rne (x * 1000000000)) in if n < dur_limit then Some n else None)"

text \<open>Integer square root, and the correctly rounded \<open>f32::sqrt\<close> of an integer value.\<close>

fun isqrt :: "nat \<Rightarrow> nat" where
  "isqrt n = (if n = 0 then 0
     else let s = 2 * isqrt (n div 4) in if (s + 1) * (s + 1) \<le> n then s + 1 else s)"

declare isqrt.simps [simp del]

lemma isqrt_bounds: "isqrt n * isqrt n \<le> n \<and> n < (isqrt n + 1) * (isqrt n + 1)"
proof (induction n rule: isqrt.induct)
  case (1 n)
  show ?case
  proof (cases "n = 0")
    case True
    then show ?thesis by (simp add: isqrt.simps [of 0])
  next
    case False
    define r where "r = isqrt (n div 4)"
    from 1 False have "r * r \<le> n div 4" "n div 4 < (r + 1) * (r + 1)"
      by (auto simp: r_def)
    then have "4 * (r * r) \<le> n" and "n < 4 * ((r + 1) * (r + 1))" by linarith+
    with False show ?thesis
      by (simp add: isqrt.simps [of n] Let_def flip: r_def)
  qed
qed

lemma isqrt_mono: "m \<le> n \<Longrightarrow> isqrt m \<le> isqrt n"
proof (rule ccontr)
  assume "m \<le> n" and "\<not> isqrt m \<le> isqrt n"
  then have "isqrt n + 1 \<le> isqrt m" by simp
  then have "(isqrt n + 1) * (isqrt n + 1) \<le> isqrt m * isqrt m" using mult_le_mono by blast
  with isqrt_bounds [of m] isqrt_bounds [of n] \<open>m \<le> n\<close> show False by linarith
qed

lemma isqrt_square: "isqrt (k * k) = k"
proof (rule antisym)
  have "isqrt (k * k) * isqrt (k * k) \<le> k * k" using isqrt_bounds by blast
  then show "isqrt (k * k) \<le> k" by (metis linorder_not_le mult_strict_mono' zero_le)
  have "k * k < (isqrt (k * k) + 1) * (isqrt (k * k) + 1)" using isqrt_bounds by blast
  then have "k < isqrt (k * k) + 1" by (metis linorder_not_le mult_le_mono)
  then show "k \<le> isqrt (k * k)" by simp
qed

text \<open>
  \<open>sqrt n\<close> lies strictly between \<open>s / 2^40\<close> and \<open>(s + 1) / 2^40\<close> when it is not
  equal to \<open>s / 2^40\<close>. For \<open>n < 2^34\<close> no \<open>f32\<close> value and no midpoint of two
  neighbouring \<open>f32\<close> values lies strictly inside such an interval, so rounding the middle
  of the interval rounds \<open>sqrt n\<close>.
\<close>

definition twice_root :: "nat \<Rightarrow> nat" where
  "twice_root N = (let s = isqrt N in if s * s = N then 2 * s else 2 * s + 1)"

definition f32_sqrt :: "nat \<Rightarrow> rat" where
  "f32_sqrt n = fl32 (of_nat (twice_root (n * 4 ^ 40)) / 2 ^ 41)"

lemma twice_root_mono: "M \<le> N \<Longrightarrow> twice_root M \<le> twice_root N"
proof -
  assume MN: "M \<le> N"
  then have le: "isqrt M \<le> isqrt N" by (rule isqrt_mono)
  have "isqrt M * isqrt M \<le> M" using isqrt_bounds by blast
  with MN le show ?thesis
    by (cases "isqrt M = isqrt N") (auto simp: twice_root_def Let_def)
qed

lemma twice_root_square: "twice_root (k * k) = 2 * k"
  by (simp add: twice_root_def isqrt_square)

lemma f32_sqrt_square: "f32_sqrt (k * k) = fl32 (of_nat k)"
proof -
  have "k * k * 4 ^ 40 = (k * 2 ^ 40) * (k * 2 ^ 40)" by simp
  then have "twice_root (k * k * 4 ^ 40) = k * 2 ^ 41" by (simp only: twice_root_square) simp
  then show ?thesis by (simp add: f32_sqrt_def)
qed

lemma f32_sqrt_mono: "m \<le> n \<Longrightarrow> f32_sqrt m \<le> f32_sqrt n"
  unfolding f32_sqrt_def by (intro fl_mono divide_right_mono) (auto simp: twice_root_mono)

lemma f32_sqrt_ge1: "0 < n \<Longrightarrow> 1 \<le> f32_sqrt n"
  using f32_sqrt_mono [of 1 n] f32_sqrt_square [of 1] by simp

section \<open>Durations as floating-point seconds\<close>

lemma as_secs_f64_nonneg [simp]: "0 \<le> as_secs_f64 d"
  by (simp add: as_secs_f64_def)

lemma as_secs_f64_zero [simp]: "as_secs_f64 0 = 0"
  by (simp add: as_secs_f64_def)

lemma as_secs_f64_pos: "0 < d \<Longrightarrow> 0 < as_secs_f64 d"
proof -
  assume "0 < d"
  then have "0 < d div 1000000000 \<or> 0 < d mod 1000000000"
    by (metis div_mult_mod_eq gr0I mult_0 add_0 less_numeral_extra(3))
  then have "0 < fl64 (of_nat (d div 1000000000)) +
               fl64 (fl64 (of_nat (d mod 1000000000)) / 1000000000)"
  proof
    assume "0 < d div 1000000000"
    then show ?thesis by (intro add_pos_nonneg fl_pos) auto
  next
    assume "0 < d mod 1000000000"
    then show ?thesis by (intro add_nonneg_pos fl_pos divide_pos_pos) auto
  qed
  then show ?thesis by (simp add: as_secs_f64_def fl_pos)
qed

lemma f64_as_u64_mono: "x \<le> y \<Longrightarrow> f64_as_u64 x \<le> f64_as_u64 y"
  by (auto simp: f64_as_u64_def nat_mono floor_mono min_le_iff_disj intro: min.mono)

lemma f64_as_u64_bound: "f64_as_u64 x < u64_limit"
  by (simp add: f64_as_u64_def)

lemma f64_as_u64_trunc:
  assumes "0 \<le> x"
  shows "of_nat (f64_as_u64 x) \<le> x"
    and "f64_as_u64 x \<noteq> u64_limit - 1 \<Longrightarrow> x - 1 < of_nat (f64_as_u64 x)"
proof -
  have f: "(of_nat (nat \<lfloor>x\<rfloor>) :: rat) = of_int \<lfloor>x\<rfloor>" using assms by (simp add: of_nat_nat)
  have "(of_nat (f64_as_u64 x) :: rat) \<le> of_nat (nat \<lfloor>x\<rfloor>)"
    unfolding f64_as_u64_def by (rule of_nat_mono) (rule min.cobounded2)
  then show "of_nat (f64_as_u64 x) \<le> x" unfolding f by linarith
  assume "f64_as_u64 x \<noteq> u64_limit - 1"
  then have "f64_as_u64 x = nat \<lfloor>x\<rfloor>" unfolding f64_as_u64_def by linarith
  then show "x - 1 < of_nat (f64_as_u64 x)" unfolding f by linarith
qed

lemma f64_as_u64_le: "x \<le> of_nat n \<Longrightarrow> f64_as_u64 x \<le> n"
  by (simp add: f64_as_u64_def min_le_iff_disj nat_le_iff floor_le_iff le_less_trans)

section \<open>Accumulated relative error\<close>

text \<open>\<open>rel_err lo hi x y\<close>: the computed \<open>y\<close> is between \<open>lo\<close> and \<open>hi\<close> times the exact \<open>x\<close>.\<close>

definition rel_err :: "rat \<Rightarrow> rat \<Rightarrow> rat \<Rightarrow> rat \<Rightarrow> bool" where
  "rel_err lo hi x y \<longleftrightarrow> 0 \<le> lo \<and> 0 \<le> hi \<and> 0 \<le> x \<and> x * lo \<le> y \<and> y \<le> x * hi"

lemma rel_err_fl:
  assumes "rel_err lo hi x y"
  shows "rel_err (lo * (1 - 1 / 2 ^ p)) (hi * (1 + 1 / 2 ^ p)) x (fl p y)"
proof -
  have "0 \<le> x * lo" using assms by (simp add: rel_err_def)
  then have y: "0 \<le> y" using assms unfolding rel_err_def by linarith
  have e: "y * (1 - 1 / 2 ^ p) \<le> fl p y" "fl p y \<le> y * (1 + 1 / 2 ^ p)"
    using fl_error [OF y, of p] by (auto simp: abs_le_iff field_simps)
  have u: "0 \<le> 1 - 1 / (2 :: rat) ^ p" by simp
  have "x * lo * (1 - 1 / 2 ^ p) \<le> y * (1 - 1 / 2 ^ p)"
    using assms u by (intro mult_right_mono) (auto simp: rel_err_def)
  moreover have "y * (1 + 1 / 2 ^ p) \<le> x * hi * (1 + 1 / 2 ^ p)"
    using assms by (intro mult_right_mono) (auto simp: rel_err_def)
  ultimately show ?thesis using assms e u by (auto simp: rel_err_def mult.assoc)
qed

lemma rel_err_refl: "0 \<le> x \<Longrightarrow> rel_err 1 1 x x"
  by (simp add: rel_err_def)

lemma rel_err_add: "rel_err lo hi x y \<Longrightarrow> rel_err lo hi z w \<Longrightarrow> rel_err lo hi (x + z) (y + w)"
  by (simp add: rel_err_def distrib_right)

lemma rel_err_nonneg: "rel_err lo hi x y \<Longrightarrow> 0 \<le> y"
  by (meson mult_nonneg_nonneg order_trans rel_err_def)

lemma rel_err_mult:
  assumes "rel_err lo hi x y" and "rel_err lo' hi' z w"
  shows "rel_err (lo * lo') (hi * hi') (x * z) (y * w)"
proof -
  have "(x * lo) * (z * lo') \<le> y * w" "y * w \<le> (x * hi) * (z * hi')"
    using assms rel_err_nonneg [OF assms(1)] rel_err_nonneg [OF assms(2)]
    by (auto simp: rel_err_def intro!: mult_mono mult_nonneg_nonneg)
  then show ?thesis using assms by (simp add: rel_err_def algebra_simps)
qed

lemma rel_err_inverse:
  assumes "rel_err lo hi x y" and "0 < lo" and "0 < x" and "0 < hi"
  shows "rel_err (1 / hi) (1 / lo) (1 / x) (1 / y)"
proof -
  have "0 < x * lo" using assms by simp
  moreover have "x * lo \<le> y" "y \<le> x * hi" using assms by (auto simp: rel_err_def)
  ultimately have y: "0 < y" by linarith
  have "1 / (x * hi) \<le> 1 / y" "1 / y \<le> 1 / (x * lo)"
    using y \<open>x * lo \<le> y\<close> \<open>y \<le> x * hi\<close> \<open>0 < x * lo\<close> by (intro frac_le; simp)+
  then show ?thesis using assms by (simp add: rel_err_def)
qed

lemma rel_err_weaken:
  "rel_err lo hi x y \<Longrightarrow> 0 \<le> lo' \<Longrightarrow> lo' \<le> lo \<Longrightarrow> hi \<le> hi' \<Longrightarrow> rel_err lo' hi' x y"
  by (auto simp: rel_err_def intro: order_trans mult_left_mono)

text \<open>A duration in floating-point seconds is off by at most two roundings.\<close>

abbreviation eps64 :: rat where "eps64 \<equiv> 1 / 2 ^ 53"

lemma as_secs_f64_rel_err:
  "rel_err ((1 - eps64) ^ 2) ((1 + eps64) ^ 2) (of_nat d / 1000000000) (as_secs_f64 d)"
proof -
  let ?s = "of_nat (d div 1000000000) :: rat" and ?n = "of_nat (d mod 1000000000) :: rat"
  have "d mod 1000000000 < 2 ^ 53" by (rule less_trans [OF mod_less_divisor]) simp_all
  then have n: "fl64 ?n = ?n" by (rule fl_of_nat)
  have a: "rel_err (1 * (1 - eps64)) (1 * (1 + eps64)) ?s (fl64 ?s)"
    by (intro rel_err_fl rel_err_refl) simp
  have b: "rel_err (1 * (1 - eps64)) (1 * (1 + eps64)) (?n / 1000000000) (fl64 (?n / 1000000000))"
    by (intro rel_err_fl rel_err_refl) simp
  have "rel_err (1 * (1 - eps64) * (1 - eps64)) (1 * (1 + eps64) * (1 + eps64))
      (?s + ?n / 1000000000) (fl64 (fl64 ?s + fl64 (?n / 1000000000)))"
    by (rule rel_err_fl [OF rel_err_add [OF a b]])
  moreover have "?s + ?n / 1000000000 = of_nat d / 1000000000"
  proof -
    have "(of_nat d :: rat) = of_nat (d div 1000000000 * 1000000000 + d mod 1000000000)" by simp
    then show ?thesis by (simp only: of_nat_add of_nat_mult) (simp add: field_simps)
  qed
  ultimately show ?thesis
    unfolding as_secs_f64_def n by (simp only: power2_eq_square mult_1)
qed

end
