(* ===== verification/Oracle.thy ===== *)
theory Oracle
  imports Rust_Float
begin

text \<open>
  The timing model the scheduler reads: \<open>OracleParams\<close>, \<open>SubstrateKind\<close> and
  \<open>SubstrateError\<close> of \<^verbatim>\<open>crates/quicmix/src/lib.rs\<close>, and the online estimator of
  \<^verbatim>\<open>crates/quicmix/src/oracle.rs\<close> (a bounded window of round-trip times and the cumulative
  packet counts of a connection, from which measured parameters are derived).
\<close>

section \<open>lib.rs: kinds, errors and parameters\<close>

datatype substrate_kind = Datagram | Stream

datatype substrate_error =
    Closed | Timeout | Malformed | AuthFailed | RemoteRejected | Backpressure | Io string

fun display_error :: "substrate_error \<Rightarrow> string" where
  "display_error Closed = ''substrate closed''"
| "display_error Timeout = ''substrate timeout''"
| "display_error Malformed = ''malformed substrate frame''"
| "display_error AuthFailed = ''substrate auth failed''"
| "display_error RemoteRejected = ''substrate remote rejected''"
| "display_error Backpressure = ''substrate send queue full (backpressure)''"
| "display_error (Io e) = ''substrate io: '' @ e"

record oracle_params =
  hops :: u32
  mean_hop_delay :: duration
  drop_prob :: f64
  slot_interval :: duration
  mtu :: u64

definition rtt :: "oracle_params \<Rightarrow> duration may_panic" where
  "rtt p = do { d \<leftarrow> dur_mul (mean_hop_delay p) (unat (hops p)); dur_mul d 2 }"

text \<open>The product \<open>2 * hops.max(1)\<close> is a \<open>u32\<close> and wraps; \<open>3.1 / 0.0\<close> is infinite.\<close>

definition loss_time_threshold :: "oracle_params \<Rightarrow> f32" where
  "loss_time_threshold p =
     (let n = nat \<lfloor>fl32 (of_nat (unat (2 * max (hops p) 1)))\<rfloor>
      in if n = 0 then PInf
         else Fin (max (fl32 (1 + fl32 (fl32 (31 / 10) / f32_sqrt n))) (3 / 2)))"

section \<open>oracle.rs: the estimator\<close>

definition MAX_RTT_SAMPLES :: nat where
  "MAX_RTT_SAMPLES = 256"

record estimator =
  rtt_ns :: "nat list"
  e_sent :: u64
  e_lost :: u64
  e_hops :: u32
  e_mtu :: u64
  e_slot_interval :: duration

definition new_estimator :: "u32 \<Rightarrow> u64 \<Rightarrow> duration \<Rightarrow> estimator" where
  "new_estimator h m slot =
     \<lparr>rtt_ns = [], e_sent = 0, e_lost = 0, e_hops = max h 1, e_mtu = m, e_slot_interval = slot\<rparr>"

text \<open>\<open>Vec::remove(0)\<close> on a non-empty vector drops its first element.\<close>

definition record_rtt :: "duration \<Rightarrow> estimator \<Rightarrow> estimator" where
  "record_rtt r e =
     (let w = (if MAX_RTT_SAMPLES \<le> length (rtt_ns e) then tl (rtt_ns e) else rtt_ns e)
      in e\<lparr>rtt_ns := w @ [r]\<rparr>)"

definition record_acks :: "u64 \<Rightarrow> u64 \<Rightarrow> estimator \<Rightarrow> estimator" where
  "record_acks s l e = e\<lparr>e_sent := s, e_lost := l\<rparr>"

definition samples :: "estimator \<Rightarrow> nat" where
  "samples e = length (rtt_ns e)"

definition sorted_rtts :: "estimator \<Rightarrow> nat list" where
  "sorted_rtts e = sort (rtt_ns e)"

text \<open>\<open>v[i]\<close>: an index out of range panics.\<close>

definition index :: "'a list \<Rightarrow> nat \<Rightarrow> 'a may_panic" where
  "index xs i = (if i < length xs then Some (xs ! i) else None)"

definition pick_quantile :: "nat list \<Rightarrow> rat \<Rightarrow> duration may_panic" where
  "pick_quantile v q =
     do { x \<leftarrow> index v (f64_round (fl64 (fl64 (of_nat (length v - 1)) * fl64 q)));
          Some (from_nanos_u64 x) }"

definition rtt_percentiles :: "estimator \<Rightarrow> (duration \<times> duration \<times> duration) may_panic" where
  "rtt_percentiles e =
     (let v = sorted_rtts e
      in if v = [] then Some (0, 0, 0)
         else do { p50 \<leftarrow> pick_quantile v (50 / 100);
                   p90 \<leftarrow> pick_quantile v (90 / 100);
                   p99 \<leftarrow> pick_quantile v (99 / 100);
                   Some (p50, p90, p99) })"

text \<open>What the estimator reads of a live \<open>quinn::Connection\<close>: its round-trip time and counts.\<close>

record conn_stats =
  c_rtt :: duration
  c_sent_packets :: u64
  c_lost_packets :: u64

definition observe_connection :: "conn_stats \<Rightarrow> estimator \<Rightarrow> estimator" where
  "observe_connection c e = record_acks (c_sent_packets c) (c_lost_packets c) (record_rtt (c_rtt c) e)"

definition median_rtt_ns :: "estimator \<Rightarrow> nat may_panic" where
  "median_rtt_ns e = (let v = sorted_rtts e in if v = [] then Some 0 else index v (length v div 2))"

definition jitter_ratio :: "estimator \<Rightarrow> rat may_panic" where
  "jitter_ratio e =
     (if length (rtt_ns e) < 2 then Some 0
      else let v = sorted_rtts e in
        do { m \<leftarrow> index v (length v div 2);
             let idx = min (f64_as_u64 (fl32 (fl32 (of_nat (length v)) * fl32 (999 / 1000))))
                           (length v - 1);
             x \<leftarrow> index v idx;
             let med = fl32 (of_nat m);
             let p999 = fl32 (of_nat x);
             Some (if 0 < med then max (fl32 (p999 / med)) (3 / 2) else 0) })"

text \<open>An integer division by zero panics.\<close>

definition checked_div :: "nat \<Rightarrow> nat \<Rightarrow> nat may_panic" where
  "checked_div a b = (if b = 0 then None else Some (a div b))"

definition estimate :: "estimator \<Rightarrow> oracle_params may_panic" where
  "estimate e =
     do { m \<leftarrow> median_rtt_ns e;
          per_hop \<leftarrow> checked_div (m div 2) (unat (e_hops e));
          let drop = (if 0 < e_sent e
                      then fl64 (fl64 (of_nat (unat (e_lost e))) / fl64 (of_nat (unat (e_sent e))))
                      else 0);
          Some \<lparr>hops = e_hops e, mean_hop_delay = from_nanos_u64 per_hop, drop_prob = drop,
                slot_interval = e_slot_interval e, mtu = e_mtu e\<rparr> }"

section \<open>The window invariant\<close>

text \<open>The events that change an estimator, and a run of them from \<open>OracleEstimator::new\<close>.\<close>

datatype est_op = RecordRtt duration | RecordAcks u64 u64 | Observe conn_stats

fun est_step :: "est_op \<Rightarrow> estimator \<Rightarrow> estimator" where
  "est_step (RecordRtt r) e = record_rtt r e"
| "est_step (RecordAcks s l) e = record_acks s l e"
| "est_step (Observe c) e = observe_connection c e"

fun op_rtts :: "est_op list \<Rightarrow> nat list" where
  "op_rtts [] = []"
| "op_rtts (RecordRtt r # os) = r # op_rtts os"
| "op_rtts (RecordAcks s l # os) = op_rtts os"
| "op_rtts (Observe c # os) = c_rtt c # op_rtts os"

definition last_n :: "nat \<Rightarrow> 'a list \<Rightarrow> 'a list" where
  "last_n k xs = drop (length xs - k) xs"

definition est_wf :: "estimator \<Rightarrow> bool" where
  "est_wf e \<longleftrightarrow> 1 \<le> e_hops e \<and> length (rtt_ns e) \<le> MAX_RTT_SAMPLES"

lemma last_n_append: "last_n k (last_n k xs @ ys) = last_n k (xs @ ys)"
  by (cases "k \<le> length xs") (auto simp: last_n_def add.commute)

lemma record_rtt_window: "est_wf e \<Longrightarrow> rtt_ns (record_rtt r e) = last_n MAX_RTT_SAMPLES (rtt_ns e @ [r])"
  by (auto simp: record_rtt_def last_n_def Let_def est_wf_def MAX_RTT_SAMPLES_def drop_Suc)

lemma est_wf_new [simp]: "est_wf (new_estimator h m s)"
  by (simp add: est_wf_def new_estimator_def)

lemma est_step_wf: "est_wf e \<Longrightarrow> est_wf (est_step op e)"
  by (cases op) (auto simp: est_wf_def record_rtt_def record_acks_def observe_connection_def Let_def
      MAX_RTT_SAMPLES_def)

lemma est_run_wf: "est_wf e \<Longrightarrow> est_wf (fold est_step os e)"
  by (induction os arbitrary: e) (auto simp: est_step_wf)

lemma est_step_window:
  "est_wf e \<Longrightarrow> rtt_ns (est_step op e) = last_n MAX_RTT_SAMPLES (rtt_ns e @ op_rtts [op])"
  by (cases op) (auto simp: record_rtt_window record_acks_def observe_connection_def last_n_def est_wf_def)

lemma op_rtts_Cons: "op_rtts (op # os) = op_rtts [op] @ op_rtts os"
  by (cases op) auto

lemma est_run_window:
  "est_wf e \<Longrightarrow>
   last_n MAX_RTT_SAMPLES (rtt_ns (fold est_step os e)) = last_n MAX_RTT_SAMPLES (rtt_ns e @ op_rtts os)"
proof (induction os arbitrary: e)
  case (Cons op os)
  then have "last_n MAX_RTT_SAMPLES (rtt_ns (fold est_step (op # os) e)) =
      last_n MAX_RTT_SAMPLES (rtt_ns (est_step op e) @ op_rtts os)"
    by (simp add: est_step_wf)
  also have "\<dots> = last_n MAX_RTT_SAMPLES (rtt_ns e @ op_rtts (op # os))"
    using Cons.prems by (simp add: est_step_window last_n_append op_rtts_Cons [of op os])
  finally show ?case .
qed simp

lemma last_n_short: "length xs \<le> k \<Longrightarrow> last_n k xs = xs"
  by (simp add: last_n_def)

text \<open>C11: after any sequence of recordings, the window of a fresh estimator holds exactly the last
  256 recorded round trips, oldest first; the hop count stays at least one.\<close>

theorem estimator_window:
  fixes os h m slot
  defines "e \<equiv> fold est_step os (new_estimator h m slot)"
  shows "rtt_ns e = last_n 256 (op_rtts os) \<and> samples e \<le> 256 \<and> 1 \<le> e_hops e"
proof -
  have wf: "est_wf e" by (simp add: e_def est_run_wf)
  then have "rtt_ns e = last_n 256 (rtt_ns e)"
    by (simp add: last_n_short est_wf_def MAX_RTT_SAMPLES_def)
  also have "\<dots> = last_n 256 (op_rtts os)"
    using est_run_window [OF est_wf_new, of os h m slot]
    by (simp add: e_def MAX_RTT_SAMPLES_def) (simp add: new_estimator_def)
  finally show ?thesis using wf by (simp add: samples_def est_wf_def MAX_RTT_SAMPLES_def)
qed

section \<open>Percentiles, jitter and the estimate\<close>

lemma index_Some [simp]: "i < length xs \<Longrightarrow> index xs i = Some (xs ! i)"
  by (simp add: index_def)

lemma f64_round_mono: "x \<le> y \<Longrightarrow> f64_round x \<le> f64_round y"
  by (simp add: f64_round_def nat_mono floor_mono)

lemma f64_round_of_nat [simp]: "f64_round (of_nat n) = n"
proof -
  have "\<lfloor>of_nat n + 1 / 2 :: rat\<rfloor> = int n" by (simp add: floor_unique)
  then show ?thesis by (simp add: f64_round_def)
qed

definition quantile_index :: "nat \<Rightarrow> rat \<Rightarrow> nat" where
  "quantile_index n q = f64_round (fl64 (fl64 (of_nat (n - 1)) * fl64 q))"

lemma quantile_index_mono:
  "0 \<le> q \<Longrightarrow> q \<le> r \<Longrightarrow> quantile_index n q \<le> quantile_index n r"
  unfolding quantile_index_def
  by (intro f64_round_mono fl_mono mult_left_mono mult_nonneg_nonneg) auto

lemma quantile_index_less:
  assumes "0 < n" and "n \<le> 2 ^ 53" and "0 \<le> q" and "q \<le> 1"
  shows "quantile_index n q < n"
proof -
  have "quantile_index n q \<le> quantile_index n 1"
    using assms by (intro quantile_index_mono) auto
  also have "\<dots> = n - 1"
    using assms by (cases n) (simp_all add: quantile_index_def fl_of_nat del: of_nat_Suc)
  finally show ?thesis using assms(1) by linarith
qed

lemma pick_quantile_eq:
  assumes "v \<noteq> []" and "length v \<le> 2 ^ 53" and "0 \<le> q" and "q \<le> 1"
  shows "pick_quantile v q = Some (from_nanos_u64 (v ! quantile_index (length v) q))"
proof -
  have "quantile_index (length v) q < length v"
    using assms by (intro quantile_index_less) auto
  then show ?thesis
    unfolding pick_quantile_def quantile_index_def by (simp only: index_Some bind.bind_lunit)
qed

text \<open>On a well-formed estimator with at least one sample and round trips below \<open>2^64\<close>
  nanoseconds, \<open>rtt_percentiles\<close> does not panic, its three values are ordered, and each is
  one of the recorded round trips.\<close>

theorem rtt_percentiles_ordered:
  assumes "est_wf e" and "rtt_ns e \<noteq> []" and "list_all (\<lambda>r. r < 2 ^ 64) (rtt_ns e)"
  shows "\<exists>p50 p90 p99. rtt_percentiles e = Some (p50, p90, p99) \<and>
           p50 \<le> p90 \<and> p90 \<le> p99 \<and> {p50, p90, p99} \<subseteq> set (rtt_ns e)"
proof -
  define v where "v = sorted_rtts e"
  have v: "sorted v" "set v = set (rtt_ns e)" "length v = length (rtt_ns e)" "v \<noteq> []"
    using assms(2) by (auto simp: v_def sorted_rtts_def simp flip: set_empty2)
  have len: "length v \<le> 2 ^ 53" using assms(1) v(3) by (simp add: est_wf_def MAX_RTT_SAMPLES_def)
  let ?i = "quantile_index (length v)"
  have i: "?i q < length v" if "0 \<le> q" "q \<le> 1" for q
    using quantile_index_less [of "length v" q] that v(4) len by simp
  have val: "from_nanos_u64 (v ! ?i q) = v ! ?i q" and mem: "v ! ?i q \<in> set (rtt_ns e)"
    if "0 \<le> q" "q \<le> 1" for q
    using nth_mem [OF i [OF that]] v(2) assms(3)
    by (auto simp: from_nanos_u64_def list_all_iff)
  have mono: "v ! ?i q \<le> v ! ?i r" if "0 \<le> q" "q \<le> r" "r \<le> 1" for q r
    using sorted_nth_mono [OF v(1) quantile_index_mono [OF that(1,2)] i] that by auto
  have "rtt_percentiles e = Some (v ! ?i (50/100), v ! ?i (90/100), v ! ?i (99/100))"
    using v(4) len by (simp add: rtt_percentiles_def Let_def pick_quantile_eq val flip: v_def)
  moreover have "v ! ?i (50/100) \<le> v ! ?i (90/100)" "v ! ?i (90/100) \<le> v ! ?i (99/100)"
    by (rule mono; simp)+
  moreover have "{v ! ?i (50/100), v ! ?i (90/100), v ! ?i (99/100)} \<subseteq> set (rtt_ns e)"
    by (simp add: mem)
  ultimately show ?thesis by blast
qed

theorem rtt_percentiles_ordered_witness:
  "let e = fold est_step [RecordRtt 30, RecordRtt 10, RecordRtt 20] (new_estimator 3 1200 0)
   in est_wf e \<and> rtt_ns e \<noteq> [] \<and> (\<exists>p50 p90 p99. rtt_percentiles e = Some (p50, p90, p99) \<and>
      p50 \<le> p90 \<and> p90 \<le> p99 \<and> {p50, p90, p99} \<subseteq> set (rtt_ns e))"
proof -
  define e where "e = fold est_step [RecordRtt 30, RecordRtt 10, RecordRtt 20] (new_estimator 3 1200 0)"
  have w: "rtt_ns e = [30, 10, 20]"
    by (simp add: e_def record_rtt_def new_estimator_def MAX_RTT_SAMPLES_def)
  have "est_wf e" unfolding e_def by (rule est_run_wf) simp
  with w rtt_percentiles_ordered [of e] show ?thesis
    unfolding e_def [symmetric] Let_def by simp
qed

lemma median_eq:
  "median_rtt_ns e = Some (if rtt_ns e = [] then 0 else sort (rtt_ns e) ! (length (rtt_ns e) div 2))"
proof (cases "rtt_ns e")
  case (Cons x xs)
  then have "sort (rtt_ns e) \<noteq> []" by (metis list.distinct(1) length_0_conv length_sort)
  with Cons show ?thesis
    by (simp add: median_rtt_ns_def sorted_rtts_def Let_def index_def del: sort_key_simps)
qed (simp add: median_rtt_ns_def sorted_rtts_def)

lemma median_bound:
  "list_all (\<lambda>r. r < b) (rtt_ns e) \<Longrightarrow> 0 < b \<Longrightarrow> median_rtt_ns e = Some m \<Longrightarrow> m < b"
proof -
  assume a: "list_all (\<lambda>r. r < b) (rtt_ns e)" "0 < b" "median_rtt_ns e = Some m"
  show ?thesis
  proof (cases "rtt_ns e = []")
    case False
    then have "length (rtt_ns e) div 2 < length (sort (rtt_ns e))" by simp
    then have "m \<in> set (sort (rtt_ns e))"
      using a(3) False nth_mem by (fastforce simp: median_eq simp del: set_sort)
    with a(1) show ?thesis by (auto simp: list_all_iff)
  qed (use a in \<open>auto simp: median_eq\<close>)
qed

lemma estimate_total: "est_wf e \<Longrightarrow> \<exists>p. estimate e = Some p"
proof -
  assume "est_wf e"
  then have "unat (e_hops e) \<noteq> 0" by (auto simp: est_wf_def word_le_nat_alt)
  then show ?thesis by (auto simp: estimate_def median_eq checked_div_def)
qed

lemma halve_per_hop:
  fixes m h :: nat
  assumes "1 \<le> h"
  shows "m div 2 div h * h * 2 \<le> m" and "m < m div 2 div h * h * 2 + 2 * h"
proof -
  have "m div 2 div h * h \<le> m div 2" by simp
  moreover have "m div 2 < m div 2 div h * h + h"
    using assms by (metis add.commute div_mult_mod_eq less_add_same_cancel1 mod_less_divisor
        nat_add_left_cancel_less zero_less_one order_less_le_trans)
  ultimately show "m div 2 div h * h * 2 \<le> m" "m < m div 2 div h * h * 2 + 2 * h" by linarith+
qed

lemma estimate_rtt:
  assumes "est_wf e" and "list_all (\<lambda>r. r < 2 ^ 64) (rtt_ns e)"
  shows "\<exists>p m r. estimate e = Some p \<and> median_rtt_ns e = Some m \<and> rtt p = Some r \<and>
           r \<le> m \<and> m < r + 2 * unat (e_hops e) \<and>
           hops p = e_hops e \<and> mtu p = e_mtu e \<and> slot_interval p = e_slot_interval e"
proof -
  obtain m where m: "median_rtt_ns e = Some m" by (simp add: median_eq)
  then have mb: "m < 2 ^ 64" using median_bound [OF assms(2)] by simp
  define h where "h = unat (e_hops e)"
  have h: "1 \<le> h"
    using assms(1) by (auto simp: h_def est_wf_def word_le_nat_alt)
  obtain p where p: "estimate e = Some p" "hops p = e_hops e" "mtu p = e_mtu e"
    "slot_interval p = e_slot_interval e" "mean_hop_delay p = from_nanos_u64 (m div 2 div h)"
    using h by (auto simp: estimate_def m checked_div_def h_def)
  have q: "m div 2 div h \<le> m" by (meson div_le_dividend le_trans)
  then have d: "mean_hop_delay p = m div 2 div h"
    using p(5) mb by (simp add: from_nanos_u64_def)
  have "m div 2 div h * h * 2 < dur_limit" "m div 2 div h * h < dur_limit"
    using halve_per_hop(1) [OF h, of m] mb unfolding dur_limit_def by linarith+
  then have "rtt p = Some (m div 2 div h * h * 2)"
    using p(2) d by (simp add: rtt_def dur_mul_def h_def)
  with p m halve_per_hop [OF h, of m] show ?thesis by (auto simp: h_def)
qed

text \<open>On a well-formed estimator whose round trips are below \<open>2^64\<close> nanoseconds, \<open>estimate\<close>
  does not panic, and the round trip of the measured parameters is the observed median, short of it
  by less than two nanoseconds per hop (the two integer divisions).\<close>

theorem estimate_matches_median:
  assumes "est_wf e" and "list_all (\<lambda>r. r < 2 ^ 64) (rtt_ns e)"
  shows "\<exists>p m r. estimate e = Some p \<and> median_rtt_ns e = Some m \<and> rtt p = Some r \<and>
           r \<le> m \<and> m < r + 2 * unat (e_hops e) \<and>
           hops p = e_hops e \<and> mtu p = e_mtu e \<and> slot_interval p = e_slot_interval e"
  using assms by (rule estimate_rtt)

theorem estimate_matches_median_witness:
  "let e = fold est_step [RecordRtt 60000000, RecordAcks 1000 20] (new_estimator 3 1200 1000000)
   in est_wf e \<and> (\<exists>p m r. estimate e = Some p \<and> median_rtt_ns e = Some m \<and> rtt p = Some r \<and>
        r \<le> m \<and> m < r + 2 * unat (e_hops e) \<and> hops p = e_hops e \<and> mtu p = e_mtu e \<and>
        slot_interval p = e_slot_interval e)"
proof -
  define e where
    "e = fold est_step [RecordRtt 60000000, RecordAcks 1000 20] (new_estimator 3 1200 1000000)"
  have w: "rtt_ns e = [60000000]"
    by (simp add: e_def record_rtt_def record_acks_def new_estimator_def MAX_RTT_SAMPLES_def)
  have "est_wf e" unfolding e_def by (rule est_run_wf) simp
  with w estimate_matches_median [of e] show ?thesis
    unfolding e_def [symmetric] Let_def by simp
qed

lemma rat_of_nat_mono: "m \<le> n \<Longrightarrow> (of_nat m :: rat) \<le> of_nat n"
  by simp

lemma fl_quotient_le1:
  assumes "0 \<le> x" and "x \<le> y" and "0 < p"
  shows "fl p (fl p x / fl p y) \<le> 1"
proof -
  have "fl p x \<le> fl p y" using assms by (intro fl_mono)
  moreover have "0 \<le> fl p x" using assms by simp
  ultimately have "fl p x / fl p y \<le> 1" by (metis divide_le_eq_1 order_le_less order_trans)
  then have "fl p (fl p x / fl p y) \<le> fl p 1"
    using assms \<open>0 \<le> fl p x\<close> by (intro fl_mono divide_nonneg_nonneg) auto
  then show ?thesis using assms(3) by simp
qed

text \<open>Whenever the connection has not lost more packets than it sent, the measured drop
  probability is a probability; with nothing sent yet it is zero.\<close>

theorem estimate_drop_prob:
  assumes "estimate e = Some p" and "e_lost e \<le> e_sent e"
  shows "0 \<le> drop_prob p \<and> drop_prob p \<le> 1 \<and> (e_sent e = 0 \<longrightarrow> drop_prob p = 0)"
proof -
  have "drop_prob p = (if 0 < e_sent e
      then fl64 (fl64 (of_nat (unat (e_lost e))) / fl64 (of_nat (unat (e_sent e)))) else 0)"
    using assms(1) by (auto simp: estimate_def bind_eq_Some_conv)
  moreover have "fl64 (fl64 (of_nat (unat (e_lost e))) / fl64 (of_nat (unat (e_sent e)))) \<le> 1"
    using assms(2)
    by (intro fl_quotient_le1 of_nat_0_le_iff rat_of_nat_mono) (simp_all add: word_le_nat_alt)
  moreover have "0 \<le> fl64 (fl64 (of_nat (unat (e_lost e))) / fl64 (of_nat (unat (e_sent e))))"
    by (intro fl_nonneg divide_nonneg_nonneg of_nat_0_le_iff)
  ultimately show ?thesis by simp
qed

theorem estimate_drop_prob_witness:
  "let e = record_acks 1000 20 (new_estimator 3 1200 0); p = the (estimate e)
   in estimate e = Some p \<and> e_lost e \<le> e_sent e \<and> 0 \<le> drop_prob p \<and> drop_prob p \<le> 1"
proof -
  define e where "e = record_acks 1000 20 (new_estimator 3 1200 0)"
  have "est_wf e" by (simp add: e_def est_wf_def record_acks_def new_estimator_def)
  then obtain p where p: "estimate e = Some p"
    using estimate_total by blast
  have le: "e_lost e \<le> e_sent e" by (simp add: e_def record_acks_def)
  with estimate_drop_prob [OF p le] p show ?thesis by (simp flip: e_def)
qed

lemma jitter_total: "\<exists>j. jitter_ratio e = Some j"
  by (cases "length (rtt_ns e) < 2") (auto simp: jitter_ratio_def Let_def sorted_rtts_def)

text \<open>The jitter ratio never panics and is either zero (fewer than two samples, or a zero
  median: "not trusted") or a loss threshold of at least 1.5.\<close>

theorem jitter_ratio_range:
  "\<exists>j. jitter_ratio e = Some j \<and> (j = 0 \<or> 3 / 2 \<le> j)"
proof (cases "length (rtt_ns e) < 2")
  case False
  define v where "v = sorted_rtts e"
  have len: "length v = length (rtt_ns e)" by (simp add: v_def sorted_rtts_def)
  with False have "length v div 2 < length v" "min k (length v - 1) < length v" for k by auto
  with False show ?thesis
    by (auto simp: jitter_ratio_def Let_def simp flip: v_def)
qed (simp add: jitter_ratio_def)

section \<open>The loss-time threshold\<close>

lemma f32_sqrt_2_ge: "11 / 8 \<le> f32_sqrt 2"
proof -
  have "(11 * 2 ^ 37) * (11 * 2 ^ 37) \<le> (2 * 4 ^ 40 :: nat)" by simp
  then have "twice_root ((11 * 2 ^ 37) * (11 * 2 ^ 37)) \<le> twice_root (2 * 4 ^ 40)"
    by (rule twice_root_mono)
  then have "2 * (11 * 2 ^ 37) \<le> twice_root (2 * 4 ^ 40)" by (simp only: twice_root_square)
  then have "(of_nat (2 * (11 * 2 ^ 37)) :: rat) \<le> of_nat (twice_root (2 * 4 ^ 40))"
    by (simp only: of_nat_le_iff)
  then have "fl32 (11 / 8) \<le> f32_sqrt 2"
    unfolding f32_sqrt_def by (intro fl_mono) (simp_all add: field_simps)
  moreover have "fl32 (11 / 8) = 11 / 8"
    by (rule fl_exact [where m = 11 and e = "-3"]) (simp_all add: power_int_minus)
  ultimately show ?thesis by simp
qed

definition threshold_of :: "nat \<Rightarrow> rat" where
  "threshold_of n = max (fl32 (1 + fl32 (fl32 (31 / 10) / f32_sqrt n))) (3 / 2)"

lemma threshold_antimono: "0 < m \<Longrightarrow> m \<le> n \<Longrightarrow> threshold_of n \<le> threshold_of m"
proof -
  assume a: "0 < m" "m \<le> n"
  have s: "1 \<le> f32_sqrt m" "f32_sqrt m \<le> f32_sqrt n"
    using a f32_sqrt_ge1 f32_sqrt_mono by auto
  then have "fl32 (31 / 10) / f32_sqrt n \<le> fl32 (31 / 10) / f32_sqrt m"
    by (intro divide_left_mono mult_pos_pos) auto
  then have "fl32 (1 + fl32 (fl32 (31 / 10) / f32_sqrt n)) \<le> fl32 (1 + fl32 (fl32 (31 / 10) / f32_sqrt m))"
    using s by (intro fl_mono add_left_mono add_nonneg_nonneg fl_nonneg divide_nonneg_nonneg) auto
  then show ?thesis unfolding threshold_of_def by (rule max.mono) simp
qed

lemma threshold_le: "2 \<le> n \<Longrightarrow> threshold_of n \<le> 7 / 2"
proof -
  assume "2 \<le> n"
  then have "threshold_of n \<le> threshold_of 2" by (intro threshold_antimono) auto
  have ex: "fl32 (25 / 8) = 25 / 8" "fl32 (5 / 2) = 5 / 2" "fl32 (7 / 2) = 7 / 2"
    by (rule fl_exact [where m = 25 and e = "-3"] fl_exact [where m = 5 and e = "-1"]
        fl_exact [where m = 7 and e = "-1"]; simp add: power_int_minus)+
  have "fl32 (31 / 10) \<le> fl32 (25 / 8)" by (intro fl_mono) auto
  then have "fl32 (31 / 10) / f32_sqrt 2 \<le> (25 / 8) / (11 / 8)"
    using f32_sqrt_2_ge ex by (intro frac_le) auto
  then have "fl32 (fl32 (31 / 10) / f32_sqrt 2) \<le> fl32 (5 / 2)"
    using f32_sqrt_2_ge by (intro fl_mono divide_nonneg_nonneg) auto
  then have "fl32 (1 + fl32 (fl32 (31 / 10) / f32_sqrt 2)) \<le> fl32 (7 / 2)"
    using f32_sqrt_2_ge ex
    by (intro fl_mono add_nonneg_nonneg fl_nonneg divide_nonneg_nonneg) auto
  then have "threshold_of 2 \<le> 7 / 2" using ex by (simp add: threshold_of_def)
  with \<open>threshold_of n \<le> threshold_of 2\<close> show ?thesis by simp
qed

definition rtt_legs :: "u32 \<Rightarrow> nat" where
  "rtt_legs h = nat \<lfloor>fl32 (of_nat (unat (2 * max h 1)))\<rfloor>"

lemma unat_legs: "h < 2 ^ 31 \<Longrightarrow> unat (2 * max h 1 :: u32) = 2 * max (unat h) 1"
proof -
  assume "h < 2 ^ 31"
  then have "unat h < 2 ^ 31" by (simp add: word_less_nat_alt)
  then have "2 * unat (max h 1) < 2 ^ 32"
    by (auto simp: max_def)
  then have "unat (2 * max h 1 :: u32) = 2 * unat (max h 1)"
    by (simp add: unat_word_ariths)
  moreover have "unat (max h 1) = max (unat h) 1"
    by (auto simp: max_def word_le_nat_alt)
  ultimately show ?thesis by simp
qed

lemma rtt_legs_ge2: "h < 2 ^ 31 \<Longrightarrow> 2 \<le> rtt_legs h"
proof -
  assume h: "h < 2 ^ 31"
  have "fl32 (of_nat 2) \<le> fl32 (of_nat (unat (2 * max h 1)))"
    unfolding unat_legs [OF h] by (intro fl_mono) auto
  then have "2 \<le> fl32 (of_nat (unat (2 * max h 1)))"
    using fl_of_nat [of 2 24] by simp
  then show ?thesis by (simp add: rtt_legs_def le_nat_iff le_floor_iff)
qed

lemma rtt_legs_mono: "g \<le> h \<Longrightarrow> h < 2 ^ 31 \<Longrightarrow> rtt_legs g \<le> rtt_legs h"
proof -
  assume a: "g \<le> h" "h < 2 ^ 31"
  then have g: "g < 2 ^ 31" by simp
  have "2 * max (unat g) 1 \<le> 2 * max (unat h) 1"
    using a(1) by (auto simp: word_le_nat_alt)
  then show ?thesis
    unfolding rtt_legs_def unat_legs [OF a(2)] unat_legs [OF g]
    by (intro nat_mono floor_mono fl_mono of_nat_0_le_iff rat_of_nat_mono) simp_all
qed

lemma loss_time_threshold_eq:
  "hops p < 2 ^ 31 \<Longrightarrow> loss_time_threshold p = Fin (threshold_of (rtt_legs (hops p)))"
proof -
  assume "hops p < 2 ^ 31"
  then have "rtt_legs (hops p) \<noteq> 0" using rtt_legs_ge2 by fastforce
  moreover have "loss_time_threshold p =
      (let n = rtt_legs (hops p) in if n = 0 then PInf else Fin (threshold_of n))"
    by (simp only: loss_time_threshold_def threshold_of_def rtt_legs_def)
  ultimately show ?thesis by simp
qed

text \<open>For every hop count below \<open>2^31\<close> the loss-detection threshold is finite and lies in
  \<open>[1.5, 3.5]\<close>, and a longer path never gets a wider threshold (more hops, lower relative jitter).\<close>

theorem loss_time_threshold_tightens:
  assumes "hops p \<le> hops q" and "hops q < 2 ^ 31"
  shows "\<exists>s t. loss_time_threshold p = Fin s \<and> loss_time_threshold q = Fin t \<and>
           3 / 2 \<le> t \<and> t \<le> s \<and> s \<le> 7 / 2"
proof -
  have p: "hops p < 2 ^ 31" using assms by simp
  have "threshold_of (rtt_legs (hops q)) \<le> threshold_of (rtt_legs (hops p))"
    using assms rtt_legs_ge2 [OF p] by (intro threshold_antimono rtt_legs_mono) auto
  moreover have "threshold_of (rtt_legs (hops p)) \<le> 7 / 2"
    using rtt_legs_ge2 [OF p] by (rule threshold_le)
  moreover have "3 / 2 \<le> threshold_of (rtt_legs (hops q))"
    by (simp add: threshold_of_def)
  ultimately show ?thesis
    using loss_time_threshold_eq [OF p] loss_time_threshold_eq [OF assms(2)] by simp
qed

theorem loss_time_threshold_tightens_witness:
  "let p = \<lparr>hops = 1, mean_hop_delay = 30000000, drop_prob = 0, slot_interval = 0, mtu = 1200\<rparr>;
       q = p\<lparr>hops := 3\<rparr>
   in hops p \<le> hops q \<and> hops q < 2 ^ 31 \<and>
      (\<exists>s t. loss_time_threshold p = Fin s \<and> loss_time_threshold q = Fin t \<and> 3 / 2 \<le> t \<and> t \<le> s \<and> s \<le> 7 / 2)"
  unfolding Let_def
  by (intro conjI loss_time_threshold_tightens) simp_all

text \<open>At \<open>2^31\<close> hops the 32-bit product wraps to zero and the threshold becomes infinite: a
  lost packet would never be declared lost by time.\<close>

theorem loss_time_threshold_overflow: "hops p = 2 ^ 31 \<Longrightarrow> loss_time_threshold p = PInf"
proof -
  assume "hops p = 2 ^ 31"
  then have "2 * max (hops p) 1 = 0" by (simp add: max_def word_le_nat_alt)
  then show ?thesis by (simp add: loss_time_threshold_def)
qed

theorem loss_time_threshold_overflow_witness:
  "loss_time_threshold \<lparr>hops = 2147483648, mean_hop_delay = 1, drop_prob = 0, slot_interval = 0, mtu = 1200\<rparr> = PInf"
  by (rule loss_time_threshold_overflow) simp

end
