(* ===== verification/Congestion.thy ===== *)
theory Congestion
  imports Oracle
begin

text \<open>
  The oracle-fed congestion control: the fixed-window controller of
  \<^verbatim>\<open>crates/quicmix/src/sched.rs\<close> and the client-side plug points of
  \<^verbatim>\<open>crates/quicmix/src/client.rs\<close> (bandwidth-delay product, congestion plans, the measured
  controller and the client profile).

  A \<open>quinn::TransportConfig\<close> is the record of the settings this code makes on
  \<open>TransportConfig::default()\<close>; \<open>None\<close> leaves quinn's default in place. The conversion
  \<open>IdleTimeout::try_from\<close> belongs to quinn and is the parameter \<open>idle_try_from\<close>.
\<close>

section \<open>sched.rs: the controller\<close>

record oracle_controller =
  window :: u64

record oracle_cc =
  cc_window :: u64

datatype cc_event = CongestionEvent bool u64 | MtuUpdate u16

definition on_congestion_event :: "bool \<Rightarrow> u64 \<Rightarrow> oracle_controller \<Rightarrow> oracle_controller" where
  "on_congestion_event is_persistent_congestion lost_bytes c = c"

definition on_mtu_update :: "u16 \<Rightarrow> oracle_controller \<Rightarrow> oracle_controller" where
  "on_mtu_update new_mtu c = c"

definition initial_window :: "oracle_controller \<Rightarrow> u64" where
  "initial_window c = window c"

definition build_controller :: "oracle_cc \<Rightarrow> u16 \<Rightarrow> oracle_controller" where
  "build_controller f current_mtu = \<lparr>window = cc_window f\<rparr>"

fun cc_step :: "cc_event \<Rightarrow> oracle_controller \<Rightarrow> oracle_controller" where
  "cc_step (CongestionEvent ipc lost) c = on_congestion_event ipc lost c"
| "cc_step (MtuUpdate m) c = on_mtu_update m c"

text \<open>
  The contract of a rate-exogenous controller: no event of the connection moves its window.
\<close>

locale exogenous_controller =
  fixes step :: "'e \<Rightarrow> 'c \<Rightarrow> 'c"
    and win :: "'c \<Rightarrow> u64"
  assumes step_window: "win (step e c) = win c"
begin

lemma run_window: "win (fold step es c) = win c"
  by (induction es arbitrary: c) (simp_all add: step_window)

end

interpretation oracle_ctl: exogenous_controller cc_step window
proof
  fix e c show "window (cc_step e c) = window c"
    by (cases e) (simp_all add: on_congestion_event_def on_mtu_update_def)
qed

section \<open>client.rs: bandwidth-delay product\<close>

definition bdp_bytes :: "oracle_params \<Rightarrow> nat may_panic" where
  "bdp_bytes p =
     do { d \<leftarrow> dur_mul (mean_hop_delay p) (unat (hops p));
          d2 \<leftarrow> dur_mul d 2;
          let rtt = as_secs_f64 d2;
          if slot_interval p = 0 then Some (16 * 1024 * 1024)
          else let rate = fl64 (fl64 (of_nat (unat (mtu p))) / as_secs_f64 (slot_interval p))
               in Some (max (f64_as_u64 (fl64 (rate * rtt))) (unat (mtu p * 2))) }"

definition bdp_packets :: "oracle_params \<Rightarrow> nat may_panic" where
  "bdp_packets p = do { b \<leftarrow> bdp_bytes p; Some (max (b div unat (max (mtu p) 1)) 16) }"

section \<open>client.rs: congestion plans\<close>

datatype congestion = Stock | Timers | Quicmix

record transport_config =
  initial_rtt :: "duration option"
  packet_threshold :: "nat option"
  time_threshold :: "f32 option"
  max_idle_timeout :: "nat option"
  cc_factory :: "oracle_cc option"

definition default_transport :: transport_config where
  "default_transport = \<lparr>initial_rtt = None, packet_threshold = None, time_threshold = None,
     max_idle_timeout = None, cc_factory = None\<rparr>"

definition tolerant ::
  "(duration \<Rightarrow> nat option) \<Rightarrow> oracle_params \<Rightarrow> f32 \<Rightarrow> transport_config may_panic" where
  "tolerant idle_try_from p thr =
     do { r \<leftarrow> rtt p;
          r' \<leftarrow> rtt p;
          r40 \<leftarrow> dur_mul r' 40;
          let idle = max (from_secs 30) r40;
          let t = default_transport\<lparr>initial_rtt := Some r, packet_threshold := Some 1000,
                    time_threshold := Some thr\<rparr>;
          Some (case idle_try_from idle of
                  Some t_idle \<Rightarrow> t\<lparr>max_idle_timeout := Some t_idle\<rparr>
                | None \<Rightarrow> t) }"

fun cc_label :: "congestion \<Rightarrow> string" where
  "cc_label Stock = ''cubic''"
| "cc_label Timers = ''cubic+timers''"
| "cc_label Quicmix = ''quicmix''"

definition quicmix_transport_with_jitter ::
  "(duration \<Rightarrow> nat option) \<Rightarrow> oracle_params \<Rightarrow> rat \<Rightarrow> transport_config may_panic" where
  "quicmix_transport_with_jitter idle_try_from p jitter =
     (let thr = (if 3 / 2 \<le> jitter then Fin jitter else loss_time_threshold p)
      in do { t \<leftarrow> tolerant idle_try_from p thr;
              w \<leftarrow> bdp_bytes p;
              Some (t\<lparr>cc_factory := Some \<lparr>cc_window = of_nat w\<rparr>\<rparr>) })"

fun transport :: "(duration \<Rightarrow> nat option) \<Rightarrow> congestion \<Rightarrow> oracle_params \<Rightarrow> transport_config may_panic"
where
  "transport idle_try_from Stock p = Some default_transport"
| "transport idle_try_from Timers p = tolerant idle_try_from p (loss_time_threshold p)"
| "transport idle_try_from Quicmix p = quicmix_transport_with_jitter idle_try_from p 0"

section \<open>client.rs: oracle sources, the measured controller and the profile\<close>

datatype oracle_source = FixedOracle oracle_params | MeasuredOracle estimator

fun source_params :: "oracle_source \<Rightarrow> oracle_params may_panic" where
  "source_params (FixedOracle p) = Some p"
| "source_params (MeasuredOracle e) = estimate e"

record measured_cc =
  m_est :: estimator
  m_last :: "oracle_params option"

definition new_measured :: "u32 \<Rightarrow> u64 \<Rightarrow> duration \<Rightarrow> measured_cc" where
  "new_measured h m slot = \<lparr>m_est = new_estimator h m slot, m_last = None\<rparr>"

definition m_observe :: "conn_stats \<Rightarrow> measured_cc \<Rightarrow> measured_cc" where
  "m_observe c mc = mc\<lparr>m_est := observe_connection c (m_est mc)\<rparr>"

definition m_record_rtt :: "duration \<Rightarrow> measured_cc \<Rightarrow> measured_cc" where
  "m_record_rtt r mc = mc\<lparr>m_est := record_rtt r (m_est mc)\<rparr>"

definition m_current :: "measured_cc \<Rightarrow> oracle_params may_panic" where
  "m_current mc = estimate (m_est mc)"

definition m_rtt_percentiles :: "measured_cc \<Rightarrow> (duration \<times> duration \<times> duration) may_panic" where
  "m_rtt_percentiles mc = rtt_percentiles (m_est mc)"

definition m_samples :: "measured_cc \<Rightarrow> nat" where
  "m_samples mc = samples (m_est mc)"

text \<open>
  \<open>MeasuredCc::transport\<close> returns the configuration, the controller with its remembered
  parameters, and what it logs: the old and the new parameters, when they differ. Formatting the
  log line computes both round trips.
\<close>

definition m_transport ::
  "(duration \<Rightarrow> nat option) \<Rightarrow> measured_cc \<Rightarrow>
   (transport_config \<times> measured_cc \<times> (oracle_params \<times> oracle_params) option) may_panic" where
  "m_transport idle_try_from mc =
     do { p \<leftarrow> estimate (m_est mc);
          jitter \<leftarrow> jitter_ratio (m_est mc);
          (mc', logged) \<leftarrow>
            (if m_last mc \<noteq> Some p
             then (case m_last mc of
                     Some old \<Rightarrow>
                       do { _ \<leftarrow> rtt old; _ \<leftarrow> rtt p;
                            Some (mc\<lparr>m_last := Some p\<rparr>, Some (old, p)) }
                   | None \<Rightarrow> Some (mc\<lparr>m_last := Some p\<rparr>, None))
             else Some (mc, None));
          t \<leftarrow> quicmix_transport_with_jitter idle_try_from p jitter;
          Some (t, mc', logged) }"

record rotation_policy =
  pool_size :: nat

definition default_rotation_policy :: rotation_policy where
  "default_rotation_policy = \<lparr>pool_size = 4\<rparr>"

record client_profile =
  cp_oracle :: oracle_source
  cp_congestion :: congestion
  cp_rotation :: rotation_policy

definition profile_transport :: "(duration \<Rightarrow> nat option) \<Rightarrow> client_profile \<Rightarrow> transport_config may_panic" where
  "profile_transport idle_try_from cp =
     do { p \<leftarrow> source_params (cp_oracle cp); transport idle_try_from (cp_congestion cp) p }"

section \<open>The window is the bandwidth-delay product\<close>

definition exact_bdp :: "oracle_params \<Rightarrow> rat" where
  "exact_bdp p = of_nat (unat (mtu p)) * of_nat (mean_hop_delay p * unat (hops p) * 2) / of_nat (slot_interval p)"

lemma bdp_bytes_capped:
  assumes "rtt p = Some r" and "slot_interval p \<noteq> 0"
  shows "bdp_bytes p =
    Some (max (f64_as_u64 (fl64 (fl64 (fl64 (of_nat (unat (mtu p))) / as_secs_f64 (slot_interval p)) * as_secs_f64 r)))
              (unat (mtu p * 2)))"
  using assms by (auto simp: bdp_bytes_def rtt_def bind_eq_Some_conv Let_def)

lemma rate_rtt_rel_err:
  assumes "0 < slot"
  shows "rel_err (1 - 1 / 2 ^ 50) (1 + 1 / 2 ^ 50)
    (of_nat m * of_nat r / of_nat slot)
    (fl64 (fl64 (fl64 (of_nat m) / as_secs_f64 slot) * as_secs_f64 r))"
proof -
  let ?l = "1 - eps64" and ?h = "1 + eps64"
  have m: "rel_err (1 * ?l) (1 * ?h) (of_nat m) (fl64 (of_nat m))"
    by (intro rel_err_fl rel_err_refl) simp
  have s: "rel_err (1 / ?h ^ 2) (1 / ?l ^ 2) (1 / (of_nat slot / 1000000000)) (1 / as_secs_f64 slot)"
    using assms by (intro rel_err_inverse as_secs_f64_rel_err) simp_all
  note rate = rel_err_fl [OF rel_err_mult [OF m s], of 53]
  note prod = rel_err_fl [OF rel_err_mult [OF rate as_secs_f64_rel_err [of r]], of 53]
  have e: "of_nat m * (1 / (of_nat slot / 1000000000)) * (of_nat r / 1000000000) =
      of_nat m * of_nat r / (of_nat slot :: rat)"
    using assms by simp
  have e': "fl64 (of_nat m) * (1 / as_secs_f64 slot) = fl64 (of_nat m) / as_secs_f64 slot" by simp
  have lo: "1 - 1 / 2 ^ 50 \<le> 1 * ?l * (1 / ?h ^ 2) * ?l * ?l ^ 2 * ?l"
    and hi: "1 * ?h * (1 / ?l ^ 2) * ?h * ?h ^ 2 * ?h \<le> 1 + 1 / 2 ^ 50"
    by (simp_all add: power2_eq_square)
  show ?thesis
    by (rule rel_err_weaken [OF prod [unfolded e e'] _ lo hi]) simp
qed

lemma bdp_window:
  assumes "rtt p = Some r" and "slot_interval p \<noteq> 0" and "mtu p < 2 ^ 63"
  shows "\<exists>w. bdp_bytes p = Some w \<and> 2 * unat (mtu p) \<le> w \<and> w < 2 ^ 64 \<and>
     (w = 2 * unat (mtu p) \<or> of_nat w \<le> exact_bdp p * (1 + 1 / 2 ^ 50)) \<and>
     (w = 2 ^ 64 - 1 \<or> exact_bdp p * (1 - 1 / 2 ^ 50) - 1 < of_nat w)"
proof -
  define x where
    "x = fl64 (fl64 (fl64 (of_nat (unat (mtu p))) / as_secs_f64 (slot_interval p)) * as_secs_f64 r)"
  have r: "r = mean_hop_delay p * unat (hops p) * 2"
    using assms(1) by (auto simp: rtt_def bind_eq_Some_conv dur_simps)
  have re: "rel_err (1 - 1 / 2 ^ 50) (1 + 1 / 2 ^ 50) (exact_bdp p) x"
    using rate_rtt_rel_err [of "slot_interval p" "unat (mtu p)" r] assms(2)
    by (simp only: exact_bdp_def x_def r)
  then have x: "exact_bdp p * (1 - 1 / 2 ^ 50) \<le> x" "x \<le> exact_bdp p * (1 + 1 / 2 ^ 50)" "0 \<le> x"
    using rel_err_nonneg [OF re] unfolding rel_err_def by blast+
  have m: "unat (mtu p * 2) = 2 * unat (mtu p)" "2 * unat (mtu p) < 2 ^ 64"
    using assms(3) by (simp_all add: unat_word_ariths word_less_nat_alt)
  define w where "w = max (f64_as_u64 x) (2 * unat (mtu p))"
  have "bdp_bytes p = Some w"
    using bdp_bytes_capped [OF assms(1,2)] by (simp only: x_def w_def m)
  moreover have "w < 2 ^ 64" using m(2) f64_as_u64_bound [of x] by (simp add: w_def)
  moreover have "w = 2 * unat (mtu p) \<or> of_nat w \<le> exact_bdp p * (1 + 1 / 2 ^ 50)"
    using f64_as_u64_trunc(1) [OF x(3)] x(2) by (auto simp: w_def max_def)
  moreover have "w = 2 ^ 64 - 1 \<or> exact_bdp p * (1 - 1 / 2 ^ 50) - 1 < of_nat w"
  proof (cases "f64_as_u64 x = u64_limit - 1")
    case True
    with m(2) show ?thesis by (simp add: w_def)
  next
    case False
    have "(of_nat (f64_as_u64 x) :: rat) \<le> of_nat w" by (simp add: w_def)
    with f64_as_u64_trunc(2) [OF x(3) False] x(1) show ?thesis by linarith
  qed
  ultimately show ?thesis by (auto simp: w_def)
qed

text \<open>C6: the fixed window of a rate-capped path. For every oracle whose round trip is representable,
  with a non-zero slot and a cell size below \<open>2^63\<close>, \<open>bdp_bytes\<close> is at least two cells, and
  where it exceeds two cells it is the exact bandwidth-delay product up to a relative error of
  \<open>2^-50\<close>, one byte of truncation and saturation at \<open>u64::MAX\<close>.\<close>

theorem bdp_bytes_accurate:
  assumes "rtt p = Some r" and "slot_interval p \<noteq> 0" and "mtu p < 2 ^ 63"
  shows "\<exists>w. bdp_bytes p = Some w \<and> 2 * unat (mtu p) \<le> w \<and> w < 2 ^ 64 \<and>
     (w = 2 * unat (mtu p) \<or> of_nat w \<le> exact_bdp p * (1 + 1 / 2 ^ 50)) \<and>
     (w = 2 ^ 64 - 1 \<or> exact_bdp p * (1 - 1 / 2 ^ 50) - 1 < of_nat w)"
  by (rule bdp_window [OF assms])

definition nym_like :: oracle_params where
  "nym_like = \<lparr>hops = 3, mean_hop_delay = 470000000, drop_prob = 0, slot_interval = 158000000, mtu = 1200\<rparr>"

lemma nym_like_rtt: "rtt nym_like = Some 2820000000"
  by (simp add: nym_like_def rtt_def dur_mul_def dur_limit_def)

theorem bdp_bytes_accurate_witness:
  "rtt nym_like = Some 2820000000 \<and> slot_interval nym_like \<noteq> 0 \<and> mtu nym_like < 2 ^ 63 \<and>
   (\<exists>w. bdp_bytes nym_like = Some w \<and> 2 * unat (mtu nym_like) \<le> w \<and> w < 2 ^ 64 \<and>
     (w = 2 * unat (mtu nym_like) \<or> of_nat w \<le> exact_bdp nym_like * (1 + 1 / 2 ^ 50)) \<and>
     (w = 2 ^ 64 - 1 \<or> exact_bdp nym_like * (1 - 1 / 2 ^ 50) - 1 < of_nat w))"
proof -
  have h: "slot_interval nym_like \<noteq> 0" "mtu nym_like < 2 ^ 63" by (simp_all add: nym_like_def)
  show ?thesis using h nym_like_rtt bdp_bytes_accurate [OF nym_like_rtt h] by blast
qed

lemma bdp_bytes_total: "rtt p = Some r \<Longrightarrow> \<exists>w. bdp_bytes p = Some w \<and> w < 2 ^ 64"
proof (cases "slot_interval p = 0")
  case True
  assume "rtt p = Some r"
  with True show ?thesis by (auto simp: bdp_bytes_def rtt_def bind_eq_Some_conv Let_def)
next
  case False
  assume "rtt p = Some r"
  then show ?thesis
    using False bdp_bytes_capped unsigned_less [of "mtu p * 2", where ?'a = nat] f64_as_u64_bound by force
qed

lemma bdp_uncapped: "rtt p = Some r \<Longrightarrow> slot_interval p = 0 \<Longrightarrow> bdp_bytes p = Some 16777216"
  by (auto simp: bdp_bytes_def rtt_def bind_eq_Some_conv Let_def)

text \<open>The queue depth \<open>bdp_packets\<close> derives from the oracle is never below sixteen packets (so
  the bounded queues it sizes can always hold a datagram), and a path with no rate cap gets the
  16 MiB window.\<close>

theorem bdp_packets_floor:
  assumes "rtt p = Some r"
  shows "\<exists>n w. bdp_packets p = Some n \<and> bdp_bytes p = Some w \<and> 16 \<le> n \<and>
           n = max (w div max (unat (mtu p)) 1) 16 \<and> (slot_interval p = 0 \<longrightarrow> w = 16 * 1024 * 1024)"
proof -
  obtain w where w: "bdp_bytes p = Some w" using bdp_bytes_total [OF assms] by blast
  have "unat (max (mtu p) 1) = max (unat (mtu p)) 1" by (auto simp: max_def word_le_nat_alt)
  with w show ?thesis using bdp_uncapped [OF assms] by (auto simp: bdp_packets_def)
qed

theorem bdp_packets_floor_witness:
  "\<exists>n w. bdp_packets nym_like = Some n \<and> bdp_bytes nym_like = Some w \<and> 16 \<le> n \<and>
     n = max (w div max (unat (mtu nym_like)) 1) 16 \<and> (slot_interval nym_like = 0 \<longrightarrow> w = 16 * 1024 * 1024)"
  by (rule bdp_packets_floor [OF nym_like_rtt])

section \<open>What a quicmix transport is configured to do\<close>

lemma tolerant_eq:
  assumes "rtt p = Some r" and "dur_mul r 40 = Some r40"
  shows "tolerant idle p thr = Some (default_transport\<lparr>initial_rtt := Some r,
    packet_threshold := Some 1000, time_threshold := Some thr,
    max_idle_timeout := idle (max (from_secs 30) r40)\<rparr>)"
  using assms by (auto simp: tolerant_def default_transport_def Let_def split: option.splits)

lemma quicmix_transport_eq:
  assumes "rtt p = Some r" and "dur_mul r 40 = Some r40" and "bdp_bytes p = Some w"
  shows "quicmix_transport_with_jitter idle p j = Some (default_transport\<lparr>initial_rtt := Some r,
    packet_threshold := Some 1000,
    time_threshold := Some (if 3 / 2 \<le> j then Fin j else loss_time_threshold p),
    max_idle_timeout := idle (max (from_secs 30) r40),
    cc_factory := Some \<lparr>cc_window = of_nat w\<rparr>\<rparr>)"
  using assms tolerant_eq [OF assms(1,2)] by (simp add: quicmix_transport_with_jitter_def Let_def)

lemma plan_builds:
  assumes "rtt p = Some r" and "dur_mul r 40 = Some r40"
  shows "\<exists>t. transport idle cc p = Some t"
proof -
  obtain w where w: "bdp_bytes p = Some w" using bdp_bytes_total [OF assms(1)] by blast
  show ?thesis by (cases cc) (simp_all add: quicmix_transport_eq [OF assms w] tolerant_eq [OF assms])
qed

text \<open>C5: a quicmix plan over any oracle whose forty-fold round trip is representable builds without a
  panic; it seeds the round trip from the oracle, asks for an idle timeout of at least 30 s and at
  least 40 round trips, and installs a controller whose window is the bandwidth-delay product and is
  still exactly that after any sequence of congestion and MTU events.\<close>

theorem quicmix_window_constant:
  assumes "rtt p = Some r" and "dur_mul r 40 = Some r40"
  shows "\<exists>t w f. transport idle Quicmix p = Some t \<and> bdp_bytes p = Some w \<and>
     initial_rtt t = Some r \<and> max_idle_timeout t = idle (max (from_secs 30) (40 * r)) \<and>
     time_threshold t = Some (loss_time_threshold p) \<and> cc_factory t = Some f \<and>
     (\<forall>m es. unat (window (fold cc_step es (build_controller f m))) = w)"
proof -
  obtain w where w: "bdp_bytes p = Some w" "w < 2 ^ 64" using bdp_bytes_total [OF assms(1)] by blast
  have "r40 = 40 * r" using assms(2) by (simp add: dur_simps)
  moreover have "unat (window (fold cc_step es (build_controller \<lparr>cc_window = of_nat w\<rparr> m))) = w" for m es
    using w(2) by (simp add: oracle_ctl.run_window build_controller_def unat_of_nat)
  ultimately show ?thesis
    using quicmix_transport_eq [OF assms w(1), of idle 0] w(1) by auto
qed

theorem quicmix_window_constant_witness:
  "dur_mul 2820000000 40 = Some 112800000000 \<and>
   (\<exists>t w f. transport (\<lambda>d. Some (d div 1000000)) Quicmix nym_like = Some t \<and> bdp_bytes nym_like = Some w \<and>
     initial_rtt t = Some 2820000000 \<and>
     max_idle_timeout t = Some (max (from_secs 30) (40 * 2820000000) div 1000000) \<and>
     time_threshold t = Some (loss_time_threshold nym_like) \<and> cc_factory t = Some f \<and>
     (\<forall>m es. unat (window (fold cc_step es (build_controller f m))) = w))"
proof -
  have h: "dur_mul 2820000000 40 = Some 112800000000" by (simp add: dur_mul_def dur_limit_def)
  show ?thesis
    using h quicmix_window_constant [OF nym_like_rtt h, of "\<lambda>d. Some (d div 1000000)"] by blast
qed

section \<open>Measured parameters reach the next circuit only\<close>

text \<open>\<open>MeasuredCc::transport\<close> rebuilds from the latest measurement and remembers it: it changes
  nothing but the remembered parameters, and asking again without a new measurement yields the same
  transport and logs no change.\<close>

theorem measured_transport_stable:
  assumes "m_transport idle mc = Some (t, mc', logged)"
  shows "m_est mc' = m_est mc \<and> m_last mc' = m_current mc \<and>
         m_transport idle mc' = Some (t, mc', None) \<and>
         (\<forall>old new. logged = Some (old, new) \<longrightarrow> m_last mc = Some old \<and> m_current mc = Some new \<and> old \<noteq> new)"
proof -
  obtain p j where p: "estimate (m_est mc) = Some p" "jitter_ratio (m_est mc) = Some j"
    "quicmix_transport_with_jitter idle p j = Some t"
    using assms by (auto simp: m_transport_def bind_eq_Some_conv)
  have mc': "mc' = mc\<lparr>m_last := Some p\<rparr>"
    using assms p by (auto simp: m_transport_def bind_eq_Some_conv split: if_splits option.splits)
  moreover have "logged = Some (old, new) \<Longrightarrow> m_last mc = Some old \<and> p = new \<and> old \<noteq> new" for old new
    using assms p by (auto simp: m_transport_def bind_eq_Some_conv split: if_splits option.splits)
  ultimately show ?thesis using p by (auto simp: m_current_def m_transport_def)
qed

theorem measured_transport_stable_witness:
  "\<exists>t mc' logged. let mc = m_record_rtt 60000000 (new_measured 3 1200 1000000) in
     m_transport Some mc = Some (t, mc', logged) \<and> m_est mc' = m_est mc \<and> m_last mc' = m_current mc \<and>
     m_transport Some mc' = Some (t, mc', None)"
proof -
  define mc where "mc = m_record_rtt 60000000 (new_measured 3 1200 1000000)"
  have e: "m_est mc = fold est_step [RecordRtt 60000000] (new_estimator 3 1200 1000000)"
    by (simp add: mc_def m_record_rtt_def new_measured_def)
  then have wf: "est_wf (m_est mc)" using est_run_wf est_wf_new by metis
  have rtts: "rtt_ns (m_est mc) = [60000000]"
    by (simp add: e record_rtt_def new_estimator_def MAX_RTT_SAMPLES_def)
  have med: "median_rtt_ns (m_est mc) = Some 60000000" by (simp add: median_eq rtts)
  obtain p where p: "estimate (m_est mc) = Some p" using estimate_total [OF wf] by blast
  have "e_hops (m_est mc) = 3"
    by (simp add: e record_rtt_def new_estimator_def max_def word_le_nat_alt)
  then have "hops p = 3" "mean_hop_delay p = 10000000"
    using p by (auto simp: estimate_def med checked_div_def from_nanos_u64_def bind_eq_Some_conv)
  then have r: "rtt p = Some 60000000" "dur_mul 60000000 40 = Some 2400000000"
    by (simp_all add: rtt_def dur_mul_def dur_limit_def)
  obtain w where "bdp_bytes p = Some w" using bdp_bytes_total [OF r(1)] by blast
  then obtain t mc' logged where t: "m_transport Some mc = Some (t, mc', logged)"
    using p quicmix_transport_eq [OF r] jitter_total [of "m_est mc"]
    by (auto simp: m_transport_def mc_def m_record_rtt_def new_measured_def)
  with measured_transport_stable [OF t] show ?thesis unfolding mc_def [symmetric] Let_def by blast
qed

section \<open>Measured controllers are sound\<close>

text \<open>
  A typing of the controller's state: a well-formed window of round trips that fit 64 bits of nanoseconds, and
  remembered parameters whose round trip is a duration. The events of its life are the samples and the
  rebuilding of the transport.
\<close>

definition fits_u64 :: "duration \<Rightarrow> bool" where
  "fits_u64 d \<longleftrightarrow> d < 2 ^ 64"

definition mcc_typed :: "measured_cc \<Rightarrow> bool" where
  "mcc_typed mc \<longleftrightarrow> est_wf (m_est mc) \<and> list_all fits_u64 (rtt_ns (m_est mc)) \<and>
     (case m_last mc of Some p \<Rightarrow> rtt p \<noteq> None | None \<Rightarrow> True)"

datatype mcc_op = MObserve conn_stats | MRecord duration | MTransport

fun mcc_step :: "(duration \<Rightarrow> nat option) \<Rightarrow> mcc_op \<Rightarrow> measured_cc \<Rightarrow> measured_cc may_panic" where
  "mcc_step idle (MObserve c) mc = Some (m_observe c mc)"
| "mcc_step idle (MRecord r) mc = Some (m_record_rtt r mc)"
| "mcc_step idle MTransport mc = map_option (\<lambda>(_, mc', _). mc') (m_transport idle mc)"

fun mcc_run :: "(duration \<Rightarrow> nat option) \<Rightarrow> mcc_op list \<Rightarrow> measured_cc \<Rightarrow> measured_cc may_panic" where
  "mcc_run idle [] mc = Some mc"
| "mcc_run idle (op # ops) mc = Option.bind (mcc_step idle op mc) (mcc_run idle ops)"

fun op_typed :: "mcc_op \<Rightarrow> bool" where
  "op_typed (MObserve c) = fits_u64 (c_rtt c)"
| "op_typed (MRecord r) = fits_u64 r"
| "op_typed MTransport = True"

lemma record_rtt_fits: "list_all fits_u64 (rtt_ns e) \<Longrightarrow> fits_u64 r \<Longrightarrow> list_all fits_u64 (rtt_ns (record_rtt r e))"
  by (cases "rtt_ns e") (auto simp: record_rtt_def Let_def)

lemma all_fits: "list_all fits_u64 xs \<longleftrightarrow> list_all (\<lambda>r. r < 2 ^ 64) xs"
  by (simp add: list_all_iff fits_u64_def)

lemma typed_transport:
  assumes "mcc_typed mc"
  shows "\<exists>t p r w logged. m_transport idle mc = Some (t, mc\<lparr>m_last := Some p\<rparr>, logged) \<and> m_current mc = Some p \<and>
    rtt p = Some r \<and> initial_rtt t = Some r \<and> bdp_bytes p = Some w \<and> cc_factory t = Some \<lparr>cc_window = of_nat w\<rparr>"
proof -
  have e: "est_wf (m_est mc)" "list_all (\<lambda>r. r < 2 ^ 64) (rtt_ns (m_est mc))"
    using assms by (simp_all add: mcc_typed_def all_fits)
  obtain p m r where p: "estimate (m_est mc) = Some p" "median_rtt_ns (m_est mc) = Some m" "rtt p = Some r" "r \<le> m"
    using estimate_rtt [OF e] by blast
  have "m < 2 ^ 64" using median_bound [OF e(2) _ p(2)] by simp
  then have r40: "dur_mul r 40 = Some (r * 40)" using p(4) by (simp add: dur_mul_def dur_limit_def)
  obtain w where w: "bdp_bytes p = Some w" using bdp_bytes_total [OF p(3)] by blast
  obtain j where j: "jitter_ratio (m_est mc) = Some j" using jitter_total by blast
  have "\<exists>logged. m_transport idle mc =
      Option.bind (quicmix_transport_with_jitter idle p j) (\<lambda>t. Some (t, mc\<lparr>m_last := Some p\<rparr>, logged))"
  proof (cases "m_last mc = Some p")
    case True
    with p(1) j show ?thesis by (intro exI [of _ None], cases mc) (simp add: m_transport_def)
  next
    case False
    with assms p(1,3) j show ?thesis by (auto simp: m_transport_def mcc_typed_def split: option.splits)
  qed
  then show ?thesis using quicmix_transport_eq [OF p(3) r40 w, of idle j] p w by (auto simp: m_current_def)
qed

lemma mcc_step_typed:
  assumes "mcc_typed mc" and "op_typed op"
  shows "\<exists>mc'. mcc_step idle op mc = Some mc' \<and> mcc_typed mc'"
proof (cases op)
  case (MObserve c)
  then have "est_wf (observe_connection c (m_est mc))"
    using est_step_wf [of "m_est mc" "Observe c"] assms(1) by (simp add: mcc_typed_def)
  moreover have "rtt_ns (observe_connection c (m_est mc)) = rtt_ns (record_rtt (c_rtt c) (m_est mc))"
    by (simp add: observe_connection_def record_acks_def)
  ultimately show ?thesis
    using MObserve assms record_rtt_fits by (simp add: m_observe_def mcc_typed_def)
next
  case (MRecord r)
  with assms est_step_wf [of "m_est mc" "RecordRtt r"] record_rtt_fits show ?thesis
    by (simp add: m_record_rtt_def mcc_typed_def)
next
  case MTransport
  obtain t p r logged where "m_transport idle mc = Some (t, mc\<lparr>m_last := Some p\<rparr>, logged)" "rtt p = Some r"
    using typed_transport [OF assms(1)] by blast
  with MTransport assms(1) show ?thesis by (simp add: mcc_typed_def)
qed

lemma mcc_run_typed:
  "mcc_typed mc \<Longrightarrow> list_all op_typed ops \<Longrightarrow> \<exists>mc'. mcc_run idle ops mc = Some mc' \<and> mcc_typed mc'"
proof (induction ops arbitrary: mc)
  case (Cons op ops)
  then obtain mc1 where "mcc_step idle op mc = Some mc1" "mcc_typed mc1" using mcc_step_typed by fastforce
  with Cons show ?case by simp
qed simp

text \<open>C10: a measured controller never panics. From \<open>MeasuredCc::new\<close>, through any sequence of observed and recorded round trips that
  fit 64 bits of nanoseconds and of rebuilt transports, every operation returns and leaves a well-typed state;
  and there the percentiles are defined and the next transport is built from the current estimate, with its
  round trip and its bandwidth-delay product.\<close>

theorem measured_cc_sound:
  assumes "list_all op_typed ops"
  shows "\<exists>mc. mcc_run idle ops (new_measured h m slot) = Some mc \<and> mcc_typed mc \<and> m_rtt_percentiles mc \<noteq> None \<and>
    (\<exists>t p r w logged. m_transport idle mc = Some (t, mc\<lparr>m_last := Some p\<rparr>, logged) \<and> m_current mc = Some p \<and>
      rtt p = Some r \<and> initial_rtt t = Some r \<and> bdp_bytes p = Some w \<and> cc_factory t = Some \<lparr>cc_window = of_nat w\<rparr>)"
proof -
  have "mcc_typed (new_measured h m slot)" by (simp add: mcc_typed_def new_measured_def) (simp add: new_estimator_def)
  then obtain mc where mc: "mcc_run idle ops (new_measured h m slot) = Some mc" "mcc_typed mc"
    using mcc_run_typed [OF _ assms] by blast
  have "rtt_percentiles (m_est mc) \<noteq> None"
  proof (cases "rtt_ns (m_est mc) = []")
    case True
    then show ?thesis by (simp add: rtt_percentiles_def sorted_rtts_def)
  next
    case False
    then show ?thesis using rtt_percentiles_ordered [of "m_est mc"] mc(2) by (auto simp: mcc_typed_def all_fits)
  qed
  with mc typed_transport [OF mc(2)] show ?thesis by (auto simp: m_rtt_percentiles_def)
qed

theorem measured_cc_sound_witness:
  "\<exists>mc. mcc_run Some [MRecord 60000000, MTransport, MObserve \<lparr>c_rtt = 80000000, c_sent_packets = 10, c_lost_packets = 1\<rparr>, MTransport]
      (new_measured 3 1200 1000000) = Some mc \<and> mcc_typed mc \<and> m_rtt_percentiles mc \<noteq> None"
  using measured_cc_sound [of "[MRecord 60000000, MTransport, MObserve \<lparr>c_rtt = 80000000, c_sent_packets = 10, c_lost_packets = 1\<rparr>, MTransport]" Some 3 1200 1000000]
  by (auto simp: fits_u64_def)


end
