(* ===== verification/Framing.thy ===== *)
theory Framing
  imports Oracle
begin

text \<open>
  Datagrams over a byte stream: the length-prefixed framing of
  \<^verbatim>\<open>crates/quicmix/src/tor.rs\<close> (\<open>StreamDatagram\<close>) and its inverse on the gateway,
  \<^verbatim>\<open>crates/quicmix/src/stream_bridge.rs\<close>.

  The read half of a stream is the bytes still to arrive and the error that
  \<open>read_exact\<close> reports once they run out (\<open>UnexpectedEof\<close> for a stream that was
  closed). The write half is the bytes written so far and the outcomes of the next write and flush
  calls: \<open>None\<close> succeeds, \<open>Some (e, k)\<close> fails with \<open>e\<close> after \<open>k\<close> bytes of
  the buffer went out; calls past the end of the list succeed.
\<close>

section \<open>Byte streams\<close>

datatype io_error = UnexpectedEof | OtherIo string

record rstream =
  r_bytes :: "byte list"
  r_end :: io_error

record wstream =
  w_out :: "byte list"
  w_faults :: "(io_error \<times> nat) option list"

definition read_exact :: "nat \<Rightarrow> rstream \<Rightarrow> (io_error + byte list) \<times> rstream" where
  "read_exact n r =
     (if n \<le> length (r_bytes r)
      then (Inr (take n (r_bytes r)), r\<lparr>r_bytes := drop n (r_bytes r)\<rparr>)
      else (Inl (r_end r), r\<lparr>r_bytes := []\<rparr>))"

definition write_all :: "byte list \<Rightarrow> wstream \<Rightarrow> (io_error + unit) \<times> wstream" where
  "write_all bs w =
     (case w_faults w of
        Some (e, k) # fs \<Rightarrow> (Inl e, w\<lparr>w_out := w_out w @ take k bs, w_faults := fs\<rparr>)
      | None # fs \<Rightarrow> (Inr (), w\<lparr>w_out := w_out w @ bs, w_faults := fs\<rparr>)
      | [] \<Rightarrow> (Inr (), w\<lparr>w_out := w_out w @ bs\<rparr>))"

definition flush :: "wstream \<Rightarrow> (io_error + unit) \<times> wstream" where
  "flush w = write_all [] w"

lemma read_exact_append [simp]:
  "length xs = n \<Longrightarrow> read_exact n (r\<lparr>r_bytes := xs @ ys\<rparr>) = (Inr xs, r\<lparr>r_bytes := ys\<rparr>)"
  by (simp add: read_exact_def)

lemma write_all_healthy [simp]:
  "w_faults w = [] \<Longrightarrow> write_all bs w = (Inr (), w\<lparr>w_out := w_out w @ bs\<rparr>)"
  by (simp add: write_all_def)

section \<open>tor.rs: StreamDatagram\<close>

fun map_io :: "io_error \<Rightarrow> substrate_error" where
  "map_io UnexpectedEof = Closed"
| "map_io (OtherIo e) = Io (''tor stream: '' @ e)"

text \<open>\<open>(datagram.len() as u32).to_be_bytes()\<close>: the cast keeps the low 32 bits.\<close>

definition len_prefix :: "byte list \<Rightarrow> byte list" where
  "len_prefix dg = to_be 4 (length dg)"

definition sd_try_send :: "datagram \<Rightarrow> wstream \<Rightarrow> (substrate_error + unit) \<times> wstream" where
  "sd_try_send dg w =
     (case write_all (len_prefix dg) w of
        (Inl e, w1) \<Rightarrow> (Inl (map_io e), w1)
      | (Inr _, w1) \<Rightarrow>
          (case write_all dg w1 of
             (Inl e, w2) \<Rightarrow> (Inl (map_io e), w2)
           | (Inr _, w2) \<Rightarrow>
               (case flush w2 of
                  (Inl e, w3) \<Rightarrow> (Inl (map_io e), w3)
                | (Inr _, w3) \<Rightarrow> (Inr (), w3))))"

definition sd_try_recv :: "rstream \<Rightarrow> (substrate_error + datagram) \<times> rstream" where
  "sd_try_recv r =
     (case read_exact 4 r of
        (Inl e, r1) \<Rightarrow> (Inl (map_io e), r1)
      | (Inr len, r1) \<Rightarrow>
          (let n = be_nat len in
           if 2 ^ 20 < n then (Inl Malformed, r1)
           else (case read_exact n r1 of
                   (Inl e, r2) \<Rightarrow> (Inl (map_io e), r2)
                 | (Inr buf, r2) \<Rightarrow> (Inr buf, r2))))"

definition sd_send :: "datagram \<Rightarrow> wstream \<Rightarrow> wstream" where
  "sd_send dg w = snd (sd_try_send dg w)"

definition sd_recv :: "rstream \<Rightarrow> datagram option \<times> rstream" where
  "sd_recv r = (case sd_try_recv r of (Inl _, r') \<Rightarrow> (None, r') | (Inr dg, r') \<Rightarrow> (Some dg, r'))"

text \<open>Receiving until the first error: what a receive pump over the stream delivers.\<close>

lemma read_exact_shrinks:
  "read_exact n r = (Inr bs, r') \<Longrightarrow> length (r_bytes r) = n + length (r_bytes r') \<and> length bs = n"
  by (auto simp: read_exact_def split: if_splits)

lemma sd_try_recv_shrinks:
  "sd_try_recv r = (Inr dg, r') \<Longrightarrow> length (r_bytes r') < length (r_bytes r)"
  by (auto simp: sd_try_recv_def Let_def dest!: read_exact_shrinks split: sum.splits prod.splits if_splits)

function sd_recv_all :: "rstream \<Rightarrow> datagram list \<times> substrate_error" where
  "sd_recv_all r =
     (case sd_try_recv r of
        (Inl e, _) \<Rightarrow> ([], e)
      | (Inr dg, r') \<Rightarrow> (let (dgs, e) = sd_recv_all r' in (dg # dgs, e)))"
  by pat_completeness auto
termination
  by (relation "measure (\<lambda>r. length (r_bytes r))") (auto dest: sd_try_recv_shrinks [OF sym])

declare sd_recv_all.simps [simp del]

section \<open>stream_bridge.rs\<close>

definition MAX_DATAGRAM :: nat where
  "MAX_DATAGRAM = 2 ^ 20"

text \<open>
  One turn of the TCP to UDP loop up to the send: \<open>None\<close> is each of its \<open>break\<close>s. The
  outcome of \<open>udp.send\<close> is the next element of \<open>oks\<close> (past its end, success).
\<close>

definition bridge_next :: "rstream \<Rightarrow> (datagram \<times> rstream) option" where
  "bridge_next r =
     (case read_exact 4 r of
        (Inl _, _) \<Rightarrow> None
      | (Inr len, r1) \<Rightarrow>
          (let n = be_nat len in
           if n = 0 \<or> MAX_DATAGRAM < n then None
           else (case read_exact n r1 of
                   (Inl _, _) \<Rightarrow> None
                 | (Inr buf, r2) \<Rightarrow> Some (buf, r2))))"

lemma bridge_next_shrinks:
  "bridge_next r = Some (dg, r') \<Longrightarrow> length (r_bytes r') < length (r_bytes r)"
  by (auto simp: bridge_next_def Let_def dest!: read_exact_shrinks split: sum.splits prod.splits if_splits)

function to_udp :: "bool list \<Rightarrow> rstream \<Rightarrow> datagram list" where
  "to_udp oks r =
     (case bridge_next r of
        None \<Rightarrow> []
      | Some (buf, r') \<Rightarrow>
          (case oks of
             False # _ \<Rightarrow> []
           | True # oks' \<Rightarrow> buf # to_udp oks' r'
           | [] \<Rightarrow> buf # to_udp [] r'))"
  by pat_completeness auto
termination
  by (relation "measure (\<lambda>(oks, r). length (r_bytes r))") (auto dest: bridge_next_shrinks)

declare to_udp.simps [simp del]

text \<open>
  The UDP to TCP loop, over what \<open>udp.recv\<close> yields: a datagram, cut to the 65535-byte
  buffer, or an error that ends the loop.
\<close>

fun to_tcp :: "datagram option list \<Rightarrow> wstream \<Rightarrow> wstream" where
  "to_tcp [] w = w"
| "to_tcp (None # _) w = w"
| "to_tcp (Some dg # rest) w =
     (let buf = take 65535 dg in
      case write_all (to_be 4 (length buf)) w of
        (Inl _, w1) \<Rightarrow> w1
      | (Inr _, w1) \<Rightarrow>
          (case write_all buf w1 of
             (Inl _, w2) \<Rightarrow> w2
           | (Inr _, w2) \<Rightarrow>
               (case flush w2 of (Inl _, w3) \<Rightarrow> w3 | (Inr _, w3) \<Rightarrow> to_tcp rest w3)))"

section \<open>The framing contract\<close>

text \<open>
  A codec writes one frame per datagram and reads frames back one at a time; \<open>ok\<close> are the
  datagrams it can carry. \<open>decode_all\<close> reads frames until the codec stops, with the number of
  bytes as an upper bound on the number of frames.
\<close>

fun decode_all :: "('b list \<Rightarrow> ('d \<times> 'b list) option) \<Rightarrow> nat \<Rightarrow> 'b list \<Rightarrow> 'd list" where
  "decode_all dec 0 bs = []"
| "decode_all dec (Suc k) bs =
     (case dec bs of None \<Rightarrow> [] | Some (d, rest) \<Rightarrow> d # decode_all dec k rest)"

locale frame_codec =
  fixes enc :: "'d \<Rightarrow> 'b list"
    and dec :: "'b list \<Rightarrow> ('d \<times> 'b list) option"
    and ok :: "'d \<Rightarrow> bool"
  assumes dec_enc: "ok d \<Longrightarrow> dec (enc d @ rest) = Some (d, rest)"
    and dec_Nil: "dec [] = None"
begin

lemma enc_nonempty: "ok d \<Longrightarrow> enc d \<noteq> []"
  using dec_enc [of d "[]"] dec_Nil by auto

lemma length_stream: "list_all ok ds \<Longrightarrow> length ds \<le> length (concat (map enc ds))"
proof (induction ds)
  case (Cons d ds)
  then have "1 \<le> length (enc d)" using enc_nonempty by (simp add: Suc_le_eq)
  with Cons.IH Cons.prems have "Suc (length ds) \<le> length (enc d) + length (concat (map enc ds))"
    by (simp del: length_concat)
  then show ?case by (simp del: length_concat)
qed simp

lemma decode_stream:
  "list_all ok ds \<Longrightarrow> length ds \<le> k \<Longrightarrow> dec rest = None \<Longrightarrow>
   decode_all dec k (concat (map enc ds) @ rest) = ds"
proof (induction ds arbitrary: k)
  case Nil
  then show ?case by (cases k) auto
next
  case (Cons d ds)
  then obtain j where "k = Suc j" by (cases k) auto
  with Cons show ?case by (simp add: dec_enc)
qed

lemma stream_inj:
  assumes "list_all ok ds" and "list_all ok es" and "concat (map enc ds) = concat (map enc es)"
  shows "ds = es"
proof -
  have ds: "decode_all dec (length (concat (map enc ds))) (concat (map enc ds) @ []) = ds"
    by (rule decode_stream [OF assms(1) length_stream [OF assms(1)] dec_Nil])
  have es: "decode_all dec (length (concat (map enc es))) (concat (map enc es) @ []) = es"
    by (rule decode_stream [OF assms(2) length_stream [OF assms(2)] dec_Nil])
  show ?thesis using ds es unfolding assms(3) by (rule subst)
qed

end

definition frame :: "datagram \<Rightarrow> byte list" where
  "frame dg = len_prefix dg @ dg"

definition sd_dec :: "byte list \<Rightarrow> (datagram \<times> byte list) option" where
  "sd_dec bs =
     (case sd_try_recv \<lparr>r_bytes = bs, r_end = UnexpectedEof\<rparr> of
        (Inl _, _) \<Rightarrow> None
      | (Inr dg, r) \<Rightarrow> Some (dg, r_bytes r))"

definition bridge_dec :: "byte list \<Rightarrow> (datagram \<times> byte list) option" where
  "bridge_dec bs =
     map_option (\<lambda>(dg, r). (dg, r_bytes r)) (bridge_next \<lparr>r_bytes = bs, r_end = UnexpectedEof\<rparr>)"

definition sd_ok :: "datagram \<Rightarrow> bool" where
  "sd_ok dg \<longleftrightarrow> length dg \<le> 2 ^ 20"

definition bridge_ok :: "datagram \<Rightarrow> bool" where
  "bridge_ok dg \<longleftrightarrow> dg \<noteq> [] \<and> length dg \<le> MAX_DATAGRAM"

lemma len_prefix_value [simp]: "length dg \<le> 2 ^ 20 \<Longrightarrow> be_nat (len_prefix dg) = length dg"
  by (simp add: len_prefix_def be_nat_to_be)

lemma length_len_prefix [simp]: "length (len_prefix dg) = 4"
  by (simp add: len_prefix_def)

lemma sd_try_recv_frame:
  assumes "sd_ok dg"
  shows "sd_try_recv \<lparr>r_bytes = frame dg @ rest, r_end = e\<rparr> = (Inr dg, \<lparr>r_bytes = rest, r_end = e\<rparr>)"
  using assms by (simp add: sd_try_recv_def sd_ok_def frame_def read_exact_def)

lemma bridge_next_frame:
  assumes "bridge_ok dg"
  shows "bridge_next \<lparr>r_bytes = frame dg @ rest, r_end = e\<rparr> = Some (dg, \<lparr>r_bytes = rest, r_end = e\<rparr>)"
  using assms by (simp add: bridge_next_def bridge_ok_def MAX_DATAGRAM_def frame_def read_exact_def)

interpretation sd_codec: frame_codec frame sd_dec sd_ok
proof
  fix d rest assume "sd_ok d"
  then show "sd_dec (frame d @ rest) = Some (d, rest)" by (simp add: sd_dec_def sd_try_recv_frame)
next
  show "sd_dec [] = None" by (simp add: sd_dec_def sd_try_recv_def read_exact_def)
qed

interpretation bridge_codec: frame_codec frame bridge_dec bridge_ok
proof
  fix d rest assume "bridge_ok d"
  then show "bridge_dec (frame d @ rest) = Some (d, rest)" by (simp add: bridge_dec_def bridge_next_frame)
next
  show "bridge_dec [] = None" by (simp add: bridge_dec_def bridge_next_def read_exact_def)
qed

section \<open>Sending and receiving frames\<close>

lemma sd_try_send_healthy:
  "w_faults w = [] \<Longrightarrow> sd_try_send dg w = (Inr (), w\<lparr>w_out := w_out w @ frame dg\<rparr>)"
  by (simp add: sd_try_send_def flush_def frame_def)

lemma sd_send_healthy:
  "w_faults w = [] \<Longrightarrow> w_out (fold sd_send dgs w) = w_out w @ concat (map frame dgs) \<and>
   w_faults (fold sd_send dgs w) = []"
  by (induction dgs arbitrary: w) (simp_all add: sd_send_def sd_try_send_healthy)

lemma to_tcp_healthy:
  "w_faults w = [] \<Longrightarrow> w_out (to_tcp (map Some dgs) w) = w_out w @ concat (map (frame \<circ> take 65535) dgs)"
  by (induction dgs arbitrary: w) (simp_all add: flush_def frame_def len_prefix_def Let_def)

lemma sd_recv_all_frames:
  "list_all sd_ok dgs \<Longrightarrow>
   sd_recv_all \<lparr>r_bytes = concat (map frame dgs) @ rest, r_end = e\<rparr> =
     (let (ds, err) = sd_recv_all \<lparr>r_bytes = rest, r_end = e\<rparr> in (dgs @ ds, err))"
proof (induction dgs)
  case (Cons d dgs)
  have "sd_recv_all \<lparr>r_bytes = concat (map frame (d # dgs)) @ rest, r_end = e\<rparr> =
      (let (ds, err) = sd_recv_all \<lparr>r_bytes = concat (map frame dgs) @ rest, r_end = e\<rparr> in (d # ds, err))"
    using Cons.prems sd_try_recv_frame [of d "concat (map frame dgs) @ rest" e]
    by (subst sd_recv_all.simps) simp
  with Cons show ?case by (simp split: prod.splits)
qed simp

lemma sd_recv_all_end: "sd_recv_all \<lparr>r_bytes = [], r_end = e\<rparr> = ([], map_io e)"
  by (subst sd_recv_all.simps) (simp add: sd_try_recv_def read_exact_def)

lemma to_udp_frames:
  "list_all bridge_ok dgs \<Longrightarrow>
   to_udp [] \<lparr>r_bytes = concat (map frame dgs) @ rest, r_end = e\<rparr> = dgs @ to_udp [] \<lparr>r_bytes = rest, r_end = e\<rparr>"
proof (induction dgs)
  case (Cons d dgs)
  have "to_udp [] \<lparr>r_bytes = concat (map frame (d # dgs)) @ rest, r_end = e\<rparr> =
      d # to_udp [] \<lparr>r_bytes = concat (map frame dgs) @ rest, r_end = e\<rparr>"
    using Cons.prems bridge_next_frame [of d "concat (map frame dgs) @ rest" e]
    by (subst to_udp.simps) simp
  with Cons show ?case by simp
qed simp

lemma to_udp_end [simp]: "to_udp oks \<lparr>r_bytes = [], r_end = e\<rparr> = []"
  by (subst to_udp.simps) (simp add: bridge_next_def read_exact_def)

lemma bridge_to_stream:
  assumes "list_all (\<lambda>dg. length dg \<le> 65535) dgs" and "w_faults w = []" and "w_out w = []"
  shows "sd_recv_all \<lparr>r_bytes = w_out (to_tcp (map Some dgs) w), r_end = e\<rparr> = (dgs, map_io e)"
proof -
  have "list_all sd_ok dgs"
    using assms(1) by (auto simp: list_all_iff sd_ok_def)
  then have "sd_recv_all \<lparr>r_bytes = concat (map frame dgs), r_end = e\<rparr> = (dgs, map_io e)"
    using sd_recv_all_frames [of dgs "[]" e] by (simp add: sd_recv_all_end)
  moreover have m: "map (frame \<circ> take 65535) dgs = map frame dgs"
    using assms(1) by (simp add: list_all_iff)
  ultimately show ?thesis
    by (simp only: to_tcp_healthy [OF assms(2)] m assms(3) append_Nil)
qed

text \<open>C4: the client-to-gateway direction of a stream substrate. Datagrams of 1 byte to 1 MiB that a
  \<open>StreamDatagram\<close> sends over a healthy stream, and that the bridge can all send on by UDP, arrive at the gateway
  bridge's UDP side exactly, all of them, in the order sent, whatever the end of the stream.\<close>

theorem stream_to_bridge_delivery:
  assumes "list_all bridge_ok dgs" and "w_faults w = []" and "w_out w = []"
  shows "to_udp [] \<lparr>r_bytes = w_out (fold sd_send dgs w), r_end = e\<rparr> = dgs"
  using assms to_udp_frames [of dgs "[]" e] by (simp add: sd_send_healthy)

theorem stream_to_bridge_delivery_witness:
  "list_all bridge_ok [[1, 2, 3], [4]] \<and>
   to_udp [] \<lparr>r_bytes = w_out (fold sd_send [[1, 2, 3], [4]] \<lparr>w_out = [], w_faults = []\<rparr>), r_end = UnexpectedEof\<rparr>
     = [[1, 2, 3], [4]]"
proof -
  have h: "list_all bridge_ok [[1, 2, 3], [4]]" by (simp add: bridge_ok_def MAX_DATAGRAM_def)
  then show ?thesis
    using stream_to_bridge_delivery [OF h, of "\<lparr>w_out = [], w_faults = []\<rparr>"] by simp
qed

text \<open>The gateway-to-client direction. UDP datagrams (at most 65535 bytes, empty ones included)
  that the bridge frames onto a healthy stream are what the client's receive loop delivers, in order,
  and the loop then reports how the stream ended.\<close>

theorem bridge_to_stream_delivery:
  assumes "list_all (\<lambda>dg. length dg \<le> 65535) dgs" and "w_faults w = []" and "w_out w = []"
  shows "sd_recv_all \<lparr>r_bytes = w_out (to_tcp (map Some dgs) w), r_end = e\<rparr> = (dgs, map_io e)"
  using assms by (rule bridge_to_stream)

theorem bridge_to_stream_delivery_witness:
  "sd_recv_all \<lparr>r_bytes = w_out (to_tcp (map Some [[7], [], [8, 9]]) \<lparr>w_out = [], w_faults = []\<rparr>),
      r_end = UnexpectedEof\<rparr> = ([[7], [], [8, 9]], Closed)"
  using bridge_to_stream_delivery [of "[[7], [], [8, 9]]" "\<lparr>w_out = [], w_faults = []\<rparr>" UnexpectedEof]
  by simp

text \<open>The two ends of the framed stream disagree on empty datagrams. \<open>StreamDatagram\<close> frames
  an empty datagram and would read it back, but the bridge stops at it: nothing sent after it over
  that stream ever reaches the gateway.\<close>

theorem bridge_stops_at_empty_datagram:
  assumes "list_all bridge_ok dgs" and "w_faults w = []" and "w_out w = []"
  shows "to_udp [] \<lparr>r_bytes = w_out (fold sd_send (dgs @ [] # later) w), r_end = e\<rparr> = dgs"
proof -
  have "to_udp [] \<lparr>r_bytes = frame [] @ rest, r_end = e\<rparr> = []" for rest
    by (subst to_udp.simps) (simp add: bridge_next_def read_exact_def frame_def)
  then have "to_udp [] \<lparr>r_bytes = concat (map frame dgs) @ frame [] @ concat (map frame later), r_end = e\<rparr> = dgs"
    using to_udp_frames [OF assms(1)] by simp
  moreover have "w_out (fold sd_send (dgs @ [] # later) w) =
      concat (map frame dgs) @ frame [] @ concat (map frame later)"
    using sd_send_healthy [OF assms(2), of "dgs @ [] # later"] assms(3)
    by (simp del: fold_append fold_simps)
  ultimately show ?thesis by (simp only:)
qed

theorem bridge_stops_at_empty_datagram_witness:
  "to_udp [] \<lparr>r_bytes = w_out (fold sd_send ([[1]] @ [] # [[2]]) \<lparr>w_out = [], w_faults = []\<rparr>),
      r_end = UnexpectedEof\<rparr> = [[1]]"
  using bridge_stops_at_empty_datagram [of "[[1]]" "\<lparr>w_out = [], w_faults = []\<rparr>" "[[2]]" UnexpectedEof]
  by (simp add: bridge_ok_def MAX_DATAGRAM_def)

end
