(* ===== verification/Net.thy ===== *)
theory Net
  imports Rust_Std
begin

text \<open>
  IP and socket addresses of the Rust standard library: the address classes the promotion gate
  tests, the parser behind \<open>str::parse::<SocketAddr>()\<close> and \<open>parse::<IpAddr>()\<close>, and
  the printed form of IPv4 addresses. The parser follows \<^verbatim>\<open>core::net::parser\<close>: a reader
  returns the value and the rest of the input, and an address is accepted only when nothing is left.
\<close>

unbundle bit_operations_syntax

section \<open>Addresses\<close>

datatype ip_addr = V4 byte byte byte byte | V6 "u16 list"

datatype socket_addr = SockAddr (sa_ip: ip_addr) (sa_port: u16)

definition segment :: "u16 list \<Rightarrow> nat \<Rightarrow> u16" where
  "segment segs i = (if i < length segs then segs ! i else 0)"

fun is_loopback :: "ip_addr \<Rightarrow> bool" where
  "is_loopback (V4 a b c d) = (a = 127)"
| "is_loopback (V6 segs) = (segs = [0, 0, 0, 0, 0, 0, 0, 1])"

fun is_unspecified :: "ip_addr \<Rightarrow> bool" where
  "is_unspecified (V4 a b c d) = (a = 0 \<and> b = 0 \<and> c = 0 \<and> d = 0)"
| "is_unspecified (V6 segs) = (segs = [0, 0, 0, 0, 0, 0, 0, 0])"

fun v4_is_private :: "byte \<Rightarrow> byte \<Rightarrow> bool" where
  "v4_is_private a b = (a = 10 \<or> (a = 172 \<and> 16 \<le> b \<and> b \<le> 31) \<or> (a = 192 \<and> b = 168))"

fun v4_is_link_local :: "byte \<Rightarrow> byte \<Rightarrow> bool" where
  "v4_is_link_local a b = (a = 169 \<and> b = 254)"

section \<open>The parser\<close>

type_synonym 'a reader = "string \<Rightarrow> ('a \<times> string) option"

fun take_digits :: "nat \<Rightarrow> string \<Rightarrow> nat list \<times> string" where
  "take_digits radix [] = ([], [])"
| "take_digits radix (c # s) =
     (case to_digit radix c of
        None \<Rightarrow> ([], c # s)
      | Some d \<Rightarrow> (let (ds, r) = take_digits radix s in (d # ds, r)))"

definition digits_value :: "nat \<Rightarrow> nat list \<Rightarrow> nat" where
  "digits_value radix ds = foldl (\<lambda>acc d. acc * radix + d) 0 ds"

text \<open>
  \<open>read_number(radix, max_digits, allow_zero_prefix)\<close> for a type with values below
  \<open>lim\<close>: every digit is consumed; too many digits, a value out of range, no digit, or a
  forbidden leading zero make it fail.
\<close>

definition read_number :: "nat \<Rightarrow> nat option \<Rightarrow> bool \<Rightarrow> nat \<Rightarrow> nat reader" where
  "read_number radix max_digits allow_zero lim s =
     (let (ds, r) = take_digits radix s; v = digits_value radix ds in
      if ds = [] then None
      else if (case max_digits of Some k \<Rightarrow> k < length ds | None \<Rightarrow> False) then None
      else if \<not> allow_zero \<and> hd ds = 0 \<and> 1 < length ds then None
      else if v < lim then Some (v, r) else None)"

definition read_char :: "char \<Rightarrow> unit reader" where
  "read_char c s = (case s of x # r \<Rightarrow> if x = c then Some ((), r) else None | [] \<Rightarrow> None)"

definition read_sep :: "char \<Rightarrow> bool \<Rightarrow> 'a reader \<Rightarrow> 'a reader" where
  "read_sep c sep inner s = (if sep then do { (_, r) \<leftarrow> read_char c s; inner r } else inner s)"

definition read_octet :: "bool \<Rightarrow> nat reader" where
  "read_octet sep = read_sep (CHR ''.'') sep (read_number 10 (Some 3) False 256)"

definition read_ipv4 :: "(byte \<times> byte \<times> byte \<times> byte) reader" where
  "read_ipv4 s =
     do { (a, s1) \<leftarrow> read_octet False s; (b, s2) \<leftarrow> read_octet True s1;
          (c, s3) \<leftarrow> read_octet True s2; (d, s4) \<leftarrow> read_octet True s3;
          Some ((of_nat a, of_nat b, of_nat c, of_nat d), s4) }"

text \<open>
  \<open>read_groups\<close> fills at most \<open>limit\<close> groups, starting at index \<open>i\<close>; it
  returns the groups read, whether it ended with an embedded IPv4 address, and the rest.
\<close>

fun read_groups :: "nat \<Rightarrow> nat \<Rightarrow> string \<Rightarrow> u16 list \<times> bool \<times> string" where
  "read_groups 0 i s = ([], False, s)"
| "read_groups (Suc left) i s =
     (case (if 0 < left then read_sep (CHR '':'') (0 < i) read_ipv4 s else None) of
        Some ((a, b, c, d), r) \<Rightarrow>
          ([of_nat (be_nat [a, b]), of_nat (be_nat [c, d])], True, r)
      | None \<Rightarrow>
          (case read_sep (CHR '':'') (0 < i) (read_number 16 (Some 4) True 65536) s of
             None \<Rightarrow> ([], False, s)
           | Some (g, r) \<Rightarrow>
               (let (gs, v4, r') = read_groups left (Suc i) r in (of_nat g # gs, v4, r'))))"

definition read_ipv6 :: "u16 list reader" where
  "read_ipv6 s =
     (let (head, head_v4, r) = read_groups 8 0 s in
      if length head = 8 then Some (head, r)
      else if head_v4 then None
      else do { (_, r1) \<leftarrow> read_char (CHR '':'') r;
                (_, r2) \<leftarrow> read_char (CHR '':'') r1;
                let (tail, _, r3) = read_groups (8 - (length head + 1)) 0 r2;
                Some (head @ replicate (8 - length head - length tail) 0 @ tail, r3) })"

definition read_port :: "nat reader" where
  "read_port s = do { (_, r) \<leftarrow> read_char (CHR '':'') s; read_number 10 None True 65536 r }"

definition read_scope_id :: "nat reader" where
  "read_scope_id s = do { (_, r) \<leftarrow> read_char (CHR ''%'') s; read_number 10 None True u32_limit r }"

definition read_socket_v4 :: "socket_addr reader" where
  "read_socket_v4 s =
     do { ((a, b, c, d), r) \<leftarrow> read_ipv4 s; (p, r') \<leftarrow> read_port r;
          Some (SockAddr (V4 a b c d) (of_nat p), r') }"

definition read_socket_v6 :: "socket_addr reader" where
  "read_socket_v6 s =
     do { (_, r1) \<leftarrow> read_char (CHR ''['') s;
          (segs, r2) \<leftarrow> read_ipv6 r1;
          let r3 = (case read_scope_id r2 of Some (_, r) \<Rightarrow> r | None \<Rightarrow> r2);
          (_, r4) \<leftarrow> read_char (CHR '']'') r3;
          (p, r5) \<leftarrow> read_port r4;
          Some (SockAddr (V6 segs) (of_nat p), r5) }"

definition parse_all :: "'a reader \<Rightarrow> string \<Rightarrow> 'a option" where
  "parse_all rd s = (case rd s of Some (x, []) \<Rightarrow> Some x | _ \<Rightarrow> None)"

definition or_else :: "'a reader \<Rightarrow> 'a reader \<Rightarrow> 'a reader" where
  "or_else f g s = (case f s of Some x \<Rightarrow> Some x | None \<Rightarrow> g s)"

definition parse_socket_addr :: "string \<Rightarrow> socket_addr option" where
  "parse_socket_addr = parse_all (or_else read_socket_v4 read_socket_v6)"

definition read_ip :: "ip_addr reader" where
  "read_ip = or_else
     (\<lambda>s. map_option (\<lambda>((a, b, c, d), r). (V4 a b c d, r)) (read_ipv4 s))
     (\<lambda>s. map_option (\<lambda>(segs, r). (V6 segs, r)) (read_ipv6 s))"

definition parse_ip_addr :: "string \<Rightarrow> ip_addr option" where
  "parse_ip_addr = parse_all read_ip"

section \<open>Printing IPv4 socket addresses, and the round trip\<close>

definition show_v4 :: "byte \<Rightarrow> byte \<Rightarrow> byte \<Rightarrow> byte \<Rightarrow> string" where
  "show_v4 a b c d = show_nat (unat a) @ ''.'' @ show_nat (unat b) @ ''.'' @ show_nat (unat c) @ ''.'' @
     show_nat (unat d)"

definition show_socket_v4 :: "byte \<Rightarrow> byte \<Rightarrow> byte \<Rightarrow> byte \<Rightarrow> u16 \<Rightarrow> string" where
  "show_socket_v4 a b c d p = show_v4 a b c d @ '':'' @ show_nat (unat p)"

text \<open>\<open>Display\<close> of an IPv6 address: the first longest run of at least two zero groups is \<open>::\<close>.\<close>

fun show_hex :: "nat \<Rightarrow> string" where
  "show_hex n = (if n < 16 then [''0123456789abcdef'' ! n] else show_hex (n div 16) @ [''0123456789abcdef'' ! (n mod 16)])"

declare show_hex.simps [simp del]

fun zero_run :: "nat \<Rightarrow> nat \<times> nat \<Rightarrow> nat \<times> nat \<Rightarrow> u16 list \<Rightarrow> nat \<times> nat" where
  "zero_run i longest cur [] = longest"
| "zero_run i longest (st, n) (g # gs) =
     (if g = 0
      then (let cur = (if n = 0 then i else st, n + 1)
            in zero_run (i + 1) (if snd longest < snd cur then cur else longest) cur gs)
      else zero_run (i + 1) longest (0, 0) gs)"

fun show_groups :: "u16 list \<Rightarrow> string" where
  "show_groups [] = []"
| "show_groups [g] = show_hex (unat g)"
| "show_groups (g # gs) = show_hex (unat g) @ '':'' @ show_groups gs"

definition show_v6 :: "u16 list \<Rightarrow> string" where
  "show_v6 segs =
     (if length segs = 8 \<and> take 6 segs = [0, 0, 0, 0, 0, 0xffff]
      then (let hi = unat (segs ! 6); lo = unat (segs ! 7)
            in ''::ffff:'' @ show_v4 (of_nat (hi div 256)) (of_nat hi) (of_nat (lo div 256)) (of_nat lo))
      else (let (st, n) = zero_run 0 (0, 0) (0, 0) segs
            in if 1 < n then show_groups (take st segs) @ ''::'' @ show_groups (drop (st + n) segs)
               else show_groups segs))"

fun show_socket_addr :: "socket_addr \<Rightarrow> string" where
  "show_socket_addr (SockAddr (V4 a b c d) p) = show_socket_v4 a b c d p"
| "show_socket_addr (SockAddr (V6 segs) p) = ''['' @ show_v6 segs @ '']:'' @ show_nat (unat p)"

definition non_digit :: "string \<Rightarrow> bool" where
  "non_digit s \<longleftrightarrow> (case s of [] \<Rightarrow> True | c # _ \<Rightarrow> to_digit 10 c = None)"

lemma take_digits_append:
  "non_digit r \<Longrightarrow> list_all (\<lambda>c. to_digit 10 c \<noteq> None) s \<Longrightarrow>
   take_digits 10 (s @ r) = (map (\<lambda>c. the (to_digit 10 c)) s, r)"
proof (induction s)
  case Nil
  then show ?case by (cases r) (auto simp: non_digit_def)
qed (auto split: option.splits)

lemma show_nat_all_digits: "list_all (\<lambda>c. to_digit 10 c \<noteq> None) (show_nat n)"
proof -
  have "to_digit 10 c \<noteq> None" if "c \<in> set (show_nat n)" for c
    using show_nat_digits [OF that] by (auto simp: to_digit_def Let_def)
  then show ?thesis by (auto simp: list_all_iff)
qed

lemma digits_value_show: "digits_value 10 (map (\<lambda>c. the (to_digit 10 c)) (show_nat n)) = n"
proof (induction n rule: show_nat.induct)
  case (1 n)
  show ?case
  proof (cases "n < 10")
    case True
    then show ?thesis by (simp add: show_nat.simps [of n] digits_value_def)
  next
    case False
    with 1 have "digits_value 10 (map (\<lambda>c. the (to_digit 10 c)) (show_nat (n div 10))) = n div 10" by blast
    with False show ?thesis by (simp add: show_nat.simps [of n] digits_value_def)
  qed
qed

lemma show_nat_no_leading_zero:
  "1 < length (show_nat n) \<Longrightarrow> the (to_digit 10 (hd (show_nat n))) \<noteq> 0"
proof (induction n rule: show_nat.induct)
  case (1 n)
  show ?case
  proof (cases "n < 10")
    case True
    with 1 show ?thesis by (simp add: show_nat.simps [of n])
  next
    case False
    have hd: "hd (show_nat n) = hd (show_nat (n div 10))"
      using False by (simp add: show_nat.simps [of n])
    show ?thesis
    proof (cases "1 < length (show_nat (n div 10))")
      case True
      with 1 False hd show ?thesis by simp
    next
      case short: False
      then have "n div 10 < 10" by (subst (asm) show_nat.simps) (auto split: if_splits)
      then show ?thesis using False hd by (simp add: show_nat.simps [of "n div 10"])
    qed
  qed
qed

lemma length_show_nat: "n < 1000 \<Longrightarrow> length (show_nat n) \<le> 3"
  by (subst show_nat.simps, subst show_nat.simps, subst show_nat.simps) auto

lemma read_number_show:
  assumes "n < lim" and "non_digit r" and "case k of Some m \<Rightarrow> length (show_nat n) \<le> m | None \<Rightarrow> True"
  shows "read_number 10 k z lim (show_nat n @ r) = Some (n, r)"
  using assms show_nat_no_leading_zero [of n] show_nat_nonempty [of n]
  by (auto simp: read_number_def take_digits_append [OF assms(2) show_nat_all_digits] digits_value_show hd_map
      Let_def split: option.splits)

lemma read_octet_show:
  "non_digit r \<Longrightarrow> read_octet False (show_nat (unat (a :: byte)) @ r) = Some (unat a, r)"
  "non_digit r \<Longrightarrow> read_octet True (CHR ''.'' # show_nat (unat (a :: byte)) @ r) = Some (unat a, r)"
  using unat_byte_less [of a]
  by (simp_all add: read_octet_def read_sep_def read_char_def read_number_show length_show_nat)

lemma non_digit_simps [simp]:
  "non_digit []" "non_digit (CHR ''.'' # s)" "non_digit (CHR '':'' # s)"
  by (simp_all add: non_digit_def to_digit_def)

lemma read_ipv4_show: "non_digit r \<Longrightarrow> read_ipv4 (show_v4 a b c d @ r) = Some ((a, b, c, d), r)"
  by (simp add: read_ipv4_def show_v4_def read_octet_show)

lemma parse_show_socket_v4 [str_simps]:
  "parse_socket_addr (show_socket_v4 a b c d p) = Some (SockAddr (V4 a b c d) p)"
proof -
  have "unat p < 65536" using unsigned_less [of p, where ?'a = nat] by simp
  then have "read_port (CHR '':'' # show_nat (unat p)) = Some (unat p, [])"
    using read_number_show [of "unat p" 65536 "[]" None True] by (simp add: read_port_def read_char_def)
  then show ?thesis
    by (simp add: parse_socket_addr_def parse_all_def or_else_def read_socket_v4_def show_socket_v4_def
        read_ipv4_show)
qed

end
