(* ===== verification/Directory.thy ===== *)
theory Directory
  imports Net "HOL-Library.AList"
begin

text \<open>
  The gateway directory and the promotion gate of \<^verbatim>\<open>crates/quicmix/src/directory.rs\<close>.

  The \<open>HashMap\<close> is an association list with distinct keys; its iteration order, which the
  library leaves open, is the order of the list. \<open>Instant\<close>s are nanoseconds of a monotonic
  clock, and the current one is an argument of every operation that reads the clock.
  \<open>duration_since\<close> saturates at zero. Random choice (\<open>SliceRandom\<close>) belongs to the \<^verbatim>\<open>rand\<close> crate
  and is the parameter \<open>pick_rand\<close>.
\<close>

unbundle bit_operations_syntax

section \<open>The directory\<close>

record gateway_info =
  g_addr :: socket_addr
  g_cert :: "byte list"
  g_last_seen :: nat

record gateway_directory =
  gateways :: "(socket_addr \<times> gateway_info) list"
  ttl :: duration

definition new_directory :: "duration \<Rightarrow> gateway_directory" where
  "new_directory t = \<lparr>gateways = [], ttl = t\<rparr>"

definition announce :: "nat \<Rightarrow> socket_addr \<Rightarrow> byte list \<Rightarrow> gateway_directory \<Rightarrow> gateway_directory" where
  "announce now addr cert d =
     d\<lparr>gateways := AList.update addr \<lparr>g_addr = addr, g_cert = cert, g_last_seen = now\<rparr> (gateways d)\<rparr>"

definition live :: "nat \<Rightarrow> gateway_directory \<Rightarrow> gateway_info list \<times> gateway_directory" where
  "live now d =
     (let g = filter (\<lambda>(_, v). now - g_last_seen v < ttl d) (gateways d)
      in (map snd g, d\<lparr>gateways := g\<rparr>))"

definition sample ::
  "(gateway_info list \<Rightarrow> gateway_info option) \<Rightarrow> nat \<Rightarrow> gateway_directory \<Rightarrow>
   gateway_info option \<times> gateway_directory" where
  "sample pick_rand now d = (let (gs, d') = live now d in (pick_rand gs, d'))"

section \<open>The promotion gate\<close>

fun is_private :: "ip_addr \<Rightarrow> bool" where
  "is_private (V4 a b c d) = (v4_is_private a b \<or> v4_is_link_local a b)"
| "is_private (V6 segs) =
     (let s0 = segment segs 0
      in (s0 AND 0xfe00) = 0xfc00 \<or> (s0 AND 0xffc0) = 0xfe80)"

definition qualifies_as_gateway :: "socket_addr \<Rightarrow> bool" where
  "qualifies_as_gateway addr =
     (let ip = sa_ip addr in \<not> (is_loopback ip \<or> is_unspecified ip \<or> is_private ip))"

section \<open>The expiring-map contract\<close>

text \<open>
  What the users of the directory rely on: an announced entry is seen, with its certificate, for
  less than the time to live; other entries are not touched; looking never revives an entry.
  \<open>entry now d a\<close> is what a lookup at time \<open>now\<close> would see for \<open>a\<close>.
\<close>

locale expiring_map =
  fixes put :: "nat \<Rightarrow> 'a \<Rightarrow> 'v \<Rightarrow> 'd \<Rightarrow> 'd"
    and entry :: "nat \<Rightarrow> 'd \<Rightarrow> 'a \<Rightarrow> 'v option"
    and look :: "nat \<Rightarrow> 'd \<Rightarrow> 'd"
    and lifetime :: "'d \<Rightarrow> nat"
    and inv :: "'d \<Rightarrow> bool"
  assumes entry_put_same: "now \<le> t \<Longrightarrow> entry t (put now a v d) a = (if t - now < lifetime d then Some v else None)"
    and entry_put_other: "a \<noteq> b \<Longrightarrow> entry t (put now a v d) b = entry t d b"
    and entry_look: "inv d \<Longrightarrow> now \<le> t \<Longrightarrow> entry t (look now d) a = entry t d a"
    and lifetime_put: "lifetime (put now a v d) = lifetime d"
    and lifetime_look: "lifetime (look now d) = lifetime d"
    and inv_put: "inv d \<Longrightarrow> inv (put now a v d)"
    and inv_look: "inv d \<Longrightarrow> inv (look now d)"
begin

text \<open>One refresh round announces the peers that answered; the last answer of a peer counts.\<close>

lemma lifetime_round: "lifetime (fold (\<lambda>(t, a, v). put t a v) ups d) = lifetime d"
  by (induction ups arbitrary: d) (auto simp: lifetime_put)

lemma entry_unannounced:
  "a \<notin> fst ` snd ` set ups \<Longrightarrow> entry t (fold (\<lambda>(s, b, v). put s b v) ups d) a = entry t d a"
proof (induction ups arbitrary: d)
  case (Cons u ups)
  obtain s b v where u: "u = (s, b, v)" by (cases u) auto
  with Cons.prems have "b \<noteq> a" by auto
  with Cons u show ?case by (simp add: entry_put_other)
qed simp

lemma entry_announced:
  assumes "a \<notin> fst ` snd ` set later" and "now \<le> t" and "t - now < lifetime d"
  shows "entry t (fold (\<lambda>(s, b, v). put s b v) (earlier @ (now, a, v) # later) d) a = Some v"
  using assms by (simp add: entry_unannounced entry_put_same lifetime_round)

end

definition dir_wf :: "gateway_directory \<Rightarrow> bool" where
  "dir_wf d \<longleftrightarrow> distinct (map fst (gateways d)) \<and> list_all (\<lambda>(k, v). g_addr v = k) (gateways d)"

definition dir_entry :: "nat \<Rightarrow> gateway_directory \<Rightarrow> socket_addr \<Rightarrow> byte list option" where
  "dir_entry now d a =
     (case map_of (gateways d) a of
        Some v \<Rightarrow> if now - g_last_seen v < ttl d then Some (g_cert v) else None
      | None \<Rightarrow> None)"

lemma ttl_new [simp]: "ttl (new_directory t) = t"
  by (simp add: new_directory_def)

lemma dir_wf_new [simp]: "dir_wf (new_directory t)"
  by (simp add: dir_wf_def new_directory_def)

lemma dir_wf_announce: "dir_wf d \<Longrightarrow> dir_wf (announce now a c d)"
proof -
  assume wf: "dir_wf d"
  have "(k, v) \<in> set (AList.update a x al) \<Longrightarrow> (k, v) \<in> set al \<or> (k, v) = (a, x)" for k v x al
    by (induction al) (auto split: if_splits)
  with wf show ?thesis
    by (force simp: dir_wf_def announce_def list_all_iff distinct_update)
qed

lemma dir_wf_live: "dir_wf d \<Longrightarrow> dir_wf (snd (live now d))"
  by (auto simp: dir_wf_def live_def Let_def list_all_iff distinct_map_filter)

lemma map_of_filter_distinct:
  "distinct (map fst xs) \<Longrightarrow>
   map_of (filter P xs) a = (case map_of xs a of Some v \<Rightarrow> if P (a, v) then Some v else None | None \<Rightarrow> None)"
  by (induction xs) (auto simp: map_of_eq_None_iff split: option.splits dest: map_of_SomeD)

interpretation dir_map: expiring_map announce dir_entry "\<lambda>now d. snd (live now d)" ttl dir_wf
proof
  fix now t :: nat and a :: socket_addr and c and d :: gateway_directory
  assume "now \<le> t"
  then show "dir_entry t (announce now a c d) a = (if t - now < ttl d then Some c else None)"
    by (simp add: dir_entry_def announce_def update_conv')
next
  fix a b :: socket_addr and t now c and d :: gateway_directory
  assume "a \<noteq> b"
  then show "dir_entry t (announce now a c d) b = dir_entry t d b"
    by (simp add: dir_entry_def announce_def update_conv' split: option.split)
next
  fix d :: gateway_directory and now t :: nat and a :: socket_addr
  assume "dir_wf d" and "now \<le> t"
  then show "dir_entry t (snd (live now d)) a = dir_entry t d a"
    by (auto simp: dir_entry_def live_def Let_def dir_wf_def map_of_filter_distinct split: option.splits)
next
  fix now and a :: socket_addr and c and d :: gateway_directory
  show "ttl (announce now a c d) = ttl d" by (simp add: announce_def)
next
  fix now and d :: gateway_directory
  show "ttl (snd (live now d)) = ttl d" by (simp add: live_def Let_def)
qed (auto simp: dir_wf_announce dir_wf_live)

lemma live_entry:
  assumes "dir_wf d"
  shows "(\<exists>g \<in> set (fst (live now d)). g_addr g = a \<and> g_cert g = c) \<longleftrightarrow> dir_entry now d a = Some c"
proof -
  have "(\<exists>g \<in> set (fst (live now d)). g_addr g = a \<and> g_cert g = c) \<longleftrightarrow>
      (\<exists>g. (a, g) \<in> set (gateways d) \<and> now - g_last_seen g < ttl d \<and> g_cert g = c)"
    using assms by (force simp: live_def Let_def dir_wf_def list_all_iff)
  also have "\<dots> \<longleftrightarrow> dir_entry now d a = Some c"
    using map_of_eq_Some_iff [of "gateways d" a] assms unfolding dir_wf_def dir_entry_def
    by (cases "map_of (gateways d) a") force+
  finally show ?thesis .
qed

section \<open>Properties\<close>

text \<open>C26: a gateway is listed live exactly while less than the time to live has passed since its last
  announcement, with the certificate of that announcement; announcements of other gateways and
  earlier calls of \<open>live\<close> make no difference.\<close>

theorem directory_live_iff_fresh:
  fixes earlier later :: "(nat \<times> socket_addr \<times> byte list) list"
  assumes "dir_wf d" and "a \<notin> fst ` snd ` set later" and "now \<le> t" and "t' \<le> t"
    and d'_def: "d' = fold (\<lambda>(s, b, v). announce s b v) (earlier @ (now, a, c) # later) d"
  shows "(\<exists>g \<in> set (fst (live t (snd (live t' d')))). g_addr g = a \<and> g_cert g = c') \<longleftrightarrow>
         t - now < ttl d \<and> c' = c"
proof -
  have wf: "dir_wf (fold (\<lambda>(s, b, v). announce s b v) us d0)" if "dir_wf d0" for us d0
    using that by (induction us arbitrary: d0) (auto simp: dir_wf_announce)
  have "dir_wf d'" unfolding d'_def using assms(1) by (rule wf)
  then have "(\<exists>g \<in> set (fst (live t (snd (live t' d')))). g_addr g = a \<and> g_cert g = c') \<longleftrightarrow>
      dir_entry t d' a = Some c'"
    using assms(4) by (simp add: live_entry dir_map.inv_look dir_map.entry_look)
  also have "dir_entry t d' a = (if t - now < ttl d then Some c else None)"
    using assms(2,3) unfolding d'_def
    by (simp add: dir_map.entry_unannounced dir_map.entry_put_same dir_map.lifetime_round)
  finally show ?thesis by auto
qed

abbreviation addr_a :: socket_addr where "addr_a \<equiv> SockAddr (V4 8 8 8 8) 443"
abbreviation addr_b :: socket_addr where "addr_b \<equiv> SockAddr (V4 1 1 1 1) 443"

theorem directory_live_iff_fresh_witness:
  "(\<exists>g \<in> set (fst (live 40 (snd (live 30 (fold (\<lambda>(s, b, v). announce s b v)
       ([] @ (10, addr_a, [1, 2, 3]) # [(20, addr_b, [4])]) (new_directory 50)))))). g_addr g = addr_a \<and> g_cert g = [1, 2, 3]) \<longleftrightarrow>
     40 - 10 < ttl (new_directory 50) \<and> [1, 2, 3] = [1, 2, 3 :: byte]"
  by (rule directory_live_iff_fresh [OF _ _ _ _ refl]) simp_all

text \<open>\<open>sample\<close> returns a live gateway whenever there is one: with a random choice that picks
  an element of every non-empty list, the result is none exactly when no announcement is fresh.\<close>

theorem sample_live:
  assumes "\<And>xs. pick_rand xs = None \<longleftrightarrow> xs = []" and "\<And>xs x. pick_rand xs = Some x \<Longrightarrow> x \<in> set xs"
    and "dir_wf d"
  shows "case fst (sample pick_rand now d) of
           Some g \<Rightarrow> dir_entry now d (g_addr g) = Some (g_cert g)
         | None \<Rightarrow> (\<forall>a. dir_entry now d a = None)"
proof (cases "fst (sample pick_rand now d)")
  case None
  then have "fst (live now d) = []" using assms(1) by (simp add: sample_def case_prod_beta)
  then have "dir_entry now d a \<noteq> Some c" for a c using live_entry [OF assms(3), of now a c] by simp
  with None show ?thesis by (auto intro: option.exhaust)
next
  case (Some g)
  then have "g \<in> set (fst (live now d))" using assms(2) by (simp add: sample_def case_prod_beta)
  with Some show ?thesis using live_entry [OF assms(3), of now "g_addr g" "g_cert g"] by auto
qed

definition pick_first :: "'a list \<Rightarrow> 'a option" where
  "pick_first xs = (case xs of [] \<Rightarrow> None | x # _ \<Rightarrow> Some x)"

theorem sample_live_witness:
  "case fst (sample pick_first 15 (announce 10 addr_a [1] (new_directory 50))) of
     Some g \<Rightarrow> dir_entry 15 (announce 10 addr_a [1] (new_directory 50)) (g_addr g) = Some (g_cert g)
   | None \<Rightarrow> (\<forall>a. dir_entry 15 (announce 10 addr_a [1] (new_directory 50)) a = None)"
  by (rule sample_live) (auto simp: pick_first_def dir_wf_announce split: list.splits)

text \<open>The IPv4 promotion gate is exactly "not loopback, not 0.0.0.0, not RFC 1918, not
  link-local".\<close>

theorem gate_v4:
  "qualifies_as_gateway (SockAddr (V4 a b c d) p) =
   (\<not> (a = 127 \<or> a = 10 \<or> (a = 169 \<and> b = 254) \<or> (a = 192 \<and> b = 168) \<or>
        (a = 172 \<and> 16 \<le> b \<and> b \<le> 31) \<or> (a = 0 \<and> b = 0 \<and> c = 0 \<and> d = 0)))"
  by (auto simp: qualifies_as_gateway_def)

text \<open>The gate promotes addresses that are not publicly routable: the broadcast address, carrier
  NAT space, multicast, and private IPv4 addresses in their IPv4-mapped IPv6 form.\<close>

theorem gate_admits_unroutable:
  "qualifies_as_gateway (SockAddr (V4 255 255 255 255) p) \<and>
   qualifies_as_gateway (SockAddr (V4 100 64 b c) p) \<and>
   qualifies_as_gateway (SockAddr (V4 224 0 0 1) p) \<and>
   qualifies_as_gateway (SockAddr (V6 [0, 0, 0, 0, 0, 0xffff, 0x0a00, 1]) p)"
  by (simp add: qualifies_as_gateway_def segment_def)

end
