(* ===== verification/Rust_Io.thy ===== *)
theory Rust_Io
  imports Framing Net
begin

text \<open>
  Fallible code over a connected socket: computations that thread the socket through and stop at
  the first error (the \<open>?\<close> operator). A socket has a read and a write half as in
  theory Framing. Lines of a child process arrive as a list of events.
\<close>

type_synonym ('s, 'e, 'a) io = "'s \<Rightarrow> ('e + 'a) \<times> 's"

definition io_return :: "'a \<Rightarrow> ('s, 'e, 'a) io" where
  "io_return a s = (Inr a, s)"

definition io_fail :: "'e \<Rightarrow> ('s, 'e, 'a) io" where
  "io_fail e s = (Inl e, s)"

definition io_bind :: "('s, 'e, 'a) io \<Rightarrow> ('a \<Rightarrow> ('s, 'e, 'b) io) \<Rightarrow> ('s, 'e, 'b) io" where
  "io_bind m f s = (case m s of (Inl e, s') \<Rightarrow> (Inl e, s') | (Inr a, s') \<Rightarrow> f a s')"

definition io_lift :: "'e + 'a \<Rightarrow> ('s, 'e, 'a) io" where
  "io_lift x s = (x, s)"

definition io_context :: "('e \<Rightarrow> 'f) \<Rightarrow> ('s, 'e, 'a) io \<Rightarrow> ('s, 'f, 'a) io" where
  "io_context c m s = (case m s of (Inl e, s') \<Rightarrow> (Inl (c e), s') | (Inr a, s') \<Rightarrow> (Inr a, s'))"

named_theorems io_simps \<open>when a computation succeeds\<close>

lemma io_return_ok [io_simps]: "io_return a s = (Inr b, s') \<longleftrightarrow> b = a \<and> s' = s"
  by (auto simp: io_return_def)

lemma io_fail_ok [io_simps]: "io_fail e s \<noteq> (Inr b, s')"
  by (simp add: io_fail_def)

lemma io_bind_ok [io_simps]:
  "io_bind m f s = (Inr b, s') \<longleftrightarrow> (\<exists>a s1. m s = (Inr a, s1) \<and> f a s1 = (Inr b, s'))"
  by (auto simp: io_bind_def split: prod.splits sum.splits)

lemma io_context_ok [io_simps]: "io_context c m s = (Inr b, s') \<longleftrightarrow> m s = (Inr b, s')"
  by (auto simp: io_context_def split: prod.splits sum.splits)

lemma io_lift_ok [io_simps]: "io_lift x s = (Inr b, s') \<longleftrightarrow> x = Inr b \<and> s' = s"
  by (auto simp: io_lift_def)

section \<open>Sockets\<close>

record tcp_stream =
  t_read :: rstream
  t_write :: wstream

definition tcp_read_exact :: "nat \<Rightarrow> (tcp_stream, io_error, byte list) io" where
  "tcp_read_exact n s = (let (x, r) = read_exact n (t_read s) in (x, s\<lparr>t_read := r\<rparr>))"

definition tcp_write_all :: "byte list \<Rightarrow> (tcp_stream, io_error, unit) io" where
  "tcp_write_all bs s = (let (x, w) = write_all bs (t_write s) in (x, s\<lparr>t_write := w\<rparr>))"

lemma tcp_read_exact_ok [io_simps]:
  "tcp_read_exact n s = (Inr bs, s') \<longleftrightarrow>
   length bs = n \<and> r_bytes (t_read s) = bs @ r_bytes (t_read s') \<and>
   r_end (t_read s') = r_end (t_read s) \<and> t_write s' = t_write s"
proof -
  have "tcp_read_exact n s = (Inr bs, s') \<longleftrightarrow>
      n \<le> length (r_bytes (t_read s)) \<and> bs = take n (r_bytes (t_read s)) \<and>
      s' = s\<lparr>t_read := (t_read s)\<lparr>r_bytes := drop n (r_bytes (t_read s))\<rparr>\<rparr>"
    by (auto simp: tcp_read_exact_def read_exact_def)
  also have "\<dots> \<longleftrightarrow> length bs = n \<and> r_bytes (t_read s) = bs @ r_bytes (t_read s') \<and>
      r_end (t_read s') = r_end (t_read s) \<and> t_write s' = t_write s"
    by (cases s, cases s') (auto simp: append_eq_conv_conj)
  finally show ?thesis .
qed

definition write_fails :: "wstream \<Rightarrow> bool" where
  "write_fails w \<longleftrightarrow> (case w_faults w of Some _ # _ \<Rightarrow> True | _ \<Rightarrow> False)"

lemma tcp_write_all_ok [io_simps]:
  "tcp_write_all bs s = (Inr u, s') \<longleftrightarrow>
   \<not> write_fails (t_write s) \<and>
   s' = s\<lparr>t_write := \<lparr>w_out = w_out (t_write s) @ bs, w_faults = tl (w_faults (t_write s))\<rparr>\<rparr>"
  by (cases s; cases "t_write s")
     (auto simp: tcp_write_all_def write_all_def write_fails_def split: list.splits option.splits)

section \<open>Text\<close>

definition string_bytes :: "string \<Rightarrow> byte list" where
  "string_bytes s = map (\<lambda>c. of_nat (of_char c)) s"

definition bytes_string :: "byte list \<Rightarrow> string" where
  "bytes_string bs = map (\<lambda>b. char_of (unat b)) bs"

lemma length_string_bytes [simp]: "length (string_bytes s) = length s"
  by (simp add: string_bytes_def)

lemma bytes_string_bytes [simp]: "bytes_string (string_bytes s) = s"
  by (auto simp: bytes_string_def string_bytes_def comp_def unat_of_nat take_bit_nat_def
      intro!: map_idI)

lemma string_bytes_string [simp]: "string_bytes (bytes_string bs) = bs"
  by (auto simp: bytes_string_def string_bytes_def comp_def unat_byte_less
      intro!: map_idI)

lemma string_bytes_append [simp]: "string_bytes (s @ t) = string_bytes s @ string_bytes t"
  by (simp add: string_bytes_def)

text \<open>
  What \<open>next_line\<close> on a child's output yields under a timeout: a line, the end of the output,
  an error, or the timeout firing first.
\<close>

datatype line_event = Line string | EndOfOutput | LineError io_error | TimedOut

end
