(* ===== verification/Tor.thy ===== *)
theory Tor
  imports Rust_Io
begin

text \<open>
  The Tor substrate: the SOCKS5 client, the circuit to a gateway's stream bridge and the supervised
  daemon of \<^verbatim>\<open>crates/quicmix/src/tor.rs\<close>, and the wrapper
  \<^verbatim>\<open>substrates/quicmix-tor/src/lib.rs\<close>.

  \<open>TcpStream::connect\<close> is an argument: a function from the proxy address to the connected
  socket or an error. An \<open>anyhow\<close> error is a constructor of \<open>tor_error\<close> with the data of
  its message. The environment is a function from variable names to values that are set and UTF-8.
\<close>

datatype tor_error =
    ConnectSocks socket_addr io_error
  | SocksIo io_error
  | NoAuthRejected "byte list"
  | HostTooLong
  | ConnectRefused byte string u16
  | BadAtyp byte
  | NoPort string
  | BadPort string
  | CircuitTo string tor_error
  | BindFailed io_error
  | SpawnTor io_error
  | NoStdout
  | TorExited
  | TorLineError io_error
  | TorBootTimeout

type_synonym environment = "string \<Rightarrow> string option"

definition tor_socks_addr :: "environment \<Rightarrow> socket_addr may_panic" where
  "tor_socks_addr env =
     (case Option.bind (env ''QUICMIX_TOR_SOCKS'') parse_socket_addr of
        Some a \<Rightarrow> Some a
      | None \<Rightarrow> parse_socket_addr ''127.0.0.1:9050'')"

definition tor_socks_reachable :: "(socket_addr \<Rightarrow> (io_error + tcp_stream) option) \<Rightarrow> socket_addr \<Rightarrow> bool" where
  "tor_socks_reachable connect_in_time socks =
     (case connect_in_time socks of Some (Inr _) \<Rightarrow> True | _ \<Rightarrow> False)"

section \<open>SOCKS5\<close>

definition socks_request :: "string \<Rightarrow> u16 \<Rightarrow> byte list" where
  "socks_request host port =
     [5, 1, 0, 3, of_nat (length host)] @ string_bytes host @ to_be 2 (unat port)"

definition socks_bound_len :: "byte \<Rightarrow> (tcp_stream, tor_error, nat) io" where
  "socks_bound_len atyp =
     (if atyp = 1 then io_return 4
      else if atyp = 4 then io_return 16
      else if atyp = 3 then io_bind (io_context SocksIo (tcp_read_exact 1)) (\<lambda>l. io_return (unat (l ! 0)))
      else io_fail (BadAtyp atyp))"

text \<open>The dialogue over the connected socket.\<close>

definition socks5_dialogue :: "string \<Rightarrow> u16 \<Rightarrow> (tcp_stream, tor_error, unit) io" where
  "socks5_dialogue host port =
     io_bind (io_context SocksIo (tcp_write_all [5, 1, 0])) (\<lambda>_.
     io_bind (io_context SocksIo (tcp_read_exact 2)) (\<lambda>sel.
     if sel \<noteq> [5, 0] then io_fail (NoAuthRejected sel)
     else if 255 < length host then io_fail HostTooLong
     else
       io_bind (io_context SocksIo (tcp_write_all (socks_request host port))) (\<lambda>_.
       io_bind (io_context SocksIo (tcp_read_exact 4)) (\<lambda>head.
       if head ! 1 \<noteq> 0 then io_fail (ConnectRefused (head ! 1) host port)
       else
         io_bind (socks_bound_len (head ! 3)) (\<lambda>addr_len.
         io_bind (io_context SocksIo (tcp_read_exact (addr_len + 2))) (\<lambda>_.
         io_return ()))))))"

definition socks5_connect ::
  "(socket_addr \<Rightarrow> io_error + tcp_stream) \<Rightarrow> socket_addr \<Rightarrow> string \<Rightarrow> u16 \<Rightarrow> tor_error + tcp_stream" where
  "socks5_connect connect socks host port =
     (case connect socks of
        Inl e \<Rightarrow> Inl (ConnectSocks socks e)
      | Inr s \<Rightarrow>
          (case socks5_dialogue host port s of
             (Inl e, _) \<Rightarrow> Inl e
           | (Inr _, s') \<Rightarrow> Inr s'))"

section \<open>The circuit\<close>

definition split_host_port :: "string \<Rightarrow> tor_error + string \<times> u16" where
  "split_host_port s =
     (case rsplit_once CHR '':'' s of
        None \<Rightarrow> Inl (NoPort s)
      | Some (h, p) \<Rightarrow>
          (case parse_u16 p of None \<Rightarrow> Inl (BadPort s) | Some n \<Rightarrow> Inr (h, of_nat n)))"

record stream_datagram =
  sd_read :: rstream
  sd_write :: wstream
  sd_oracle :: oracle_params

definition new_stream_datagram :: "tcp_stream \<Rightarrow> oracle_params \<Rightarrow> stream_datagram" where
  "new_stream_datagram s oracle = \<lparr>sd_read = t_read s, sd_write = t_write s, sd_oracle = oracle\<rparr>"

definition tor_stream_to ::
  "(socket_addr \<Rightarrow> io_error + tcp_stream) \<Rightarrow> socket_addr \<Rightarrow> string \<Rightarrow> oracle_params \<Rightarrow>
   tor_error + stream_datagram" where
  "tor_stream_to connect socks gateway_bridge oracle =
     (case split_host_port gateway_bridge of
        Inl e \<Rightarrow> Inl e
      | Inr (host, port) \<Rightarrow>
          (case socks5_connect connect socks host port of
             Inl e \<Rightarrow> Inl (CircuitTo gateway_bridge e)
           | Inr stream \<Rightarrow> Inr (new_stream_datagram stream oracle)))"

section \<open>The supervised daemon\<close>

record tor_daemon =
  td_socks :: socket_addr
  td_args :: "string list"
  td_pending :: "line_event list"
  td_killed :: bool

fun await_bootstrap :: "line_event list \<Rightarrow> (tor_error + line_event list) option" where
  "await_bootstrap [] = None"
| "await_bootstrap (TimedOut # _) = Some (Inl TorBootTimeout)"
| "await_bootstrap (LineError e # _) = Some (Inl (TorLineError e))"
| "await_bootstrap (EndOfOutput # _) = Some (Inl TorExited)"
| "await_bootstrap (Line l # evs) =
     (if find_sub ''Bootstrapped 100%'' l \<noteq> None then Some (Inr evs) else await_bootstrap evs)"

text \<open>
  The arguments are the outcome of binding an ephemeral port, the outcome of spawning \<open>tor\<close> with its
  arguments (\<open>None\<close> inside: a child without a piped stdout) and the name of the data directory. The
  outer \<open>option\<close> is a panic; the second one is a child that has not yet decided the outcome,
  which the 90 s timeout excludes.
\<close>

definition launch_daemon ::
  "io_error + u16 \<Rightarrow> (string list \<Rightarrow> io_error + line_event list option) \<Rightarrow> string \<Rightarrow>
   (tor_error + tor_daemon) option may_panic" where
  "launch_daemon bound spawn data_dir =
     (case bound of
        Inl e \<Rightarrow> Some (Some (Inl (BindFailed e)))
      | Inr port \<Rightarrow>
          (case parse_socket_addr (''127.0.0.1:'' @ show_nat (unat port)) of
             None \<Rightarrow> None
           | Some socks \<Rightarrow>
               (let args = [''--SocksPort'', show_nat (unat port), ''--DataDirectory'', data_dir,
                            ''--Log'', ''notice stdout'', ''--ClientOnly'', ''1'']
                in case spawn args of
                     Inl e \<Rightarrow> Some (Some (Inl (SpawnTor e)))
                   | Inr None \<Rightarrow> Some (Some (Inl NoStdout))
                   | Inr (Some evs) \<Rightarrow>
                       (case await_bootstrap evs of
                          None \<Rightarrow> Some None
                        | Some (Inl e) \<Rightarrow> Some (Some (Inl e))
                        | Some (Inr rest) \<Rightarrow>
                            Some (Some (Inr \<lparr>td_socks = socks, td_args = args, td_pending = rest, td_killed = False\<rparr>))))))"

definition drop_daemon :: "tor_daemon \<Rightarrow> tor_daemon" where
  "drop_daemon d = d\<lparr>td_killed := True\<rparr>"

section \<open>quicmix-tor: TorSubstrate\<close>

record tor_substrate =
  ts_inner :: stream_datagram
  ts_daemon :: "tor_daemon option"

definition tor_connect ::
  "(socket_addr \<Rightarrow> io_error + tcp_stream) \<Rightarrow> environment \<Rightarrow> string \<Rightarrow> oracle_params \<Rightarrow>
   (tor_error + tor_substrate) may_panic" where
  "tor_connect connect env gateway oracle =
     map_option (\<lambda>socks.
       case tor_stream_to connect socks gateway oracle of
         Inl e \<Rightarrow> Inl e
       | Inr inner \<Rightarrow> Inr \<lparr>ts_inner = inner, ts_daemon = None\<rparr>)
     (tor_socks_addr env)"

definition tor_connect_managed ::
  "(tor_error + tor_daemon) \<Rightarrow> (socket_addr \<Rightarrow> io_error + tcp_stream) \<Rightarrow> string \<Rightarrow> oracle_params \<Rightarrow>
   tor_error + tor_substrate" where
  "tor_connect_managed launched connect gateway oracle =
     (case launched of
        Inl e \<Rightarrow> Inl e
      | Inr daemon \<Rightarrow>
          (case tor_stream_to connect (td_socks daemon) gateway oracle of
             Inl e \<Rightarrow> Inl e
           | Inr inner \<Rightarrow> Inr \<lparr>ts_inner = inner, ts_daemon = Some daemon\<rparr>))"

definition tor_try_send :: "datagram \<Rightarrow> tor_substrate \<Rightarrow> (substrate_error + unit) \<times> tor_substrate" where
  "tor_try_send dg t =
     (let (r, w) = sd_try_send dg (sd_write (ts_inner t))
      in (r, t\<lparr>ts_inner := (ts_inner t)\<lparr>sd_write := w\<rparr>\<rparr>))"

definition tor_try_recv :: "tor_substrate \<Rightarrow> (substrate_error + datagram) \<times> tor_substrate" where
  "tor_try_recv t =
     (let (r, rs) = sd_try_recv (sd_read (ts_inner t))
      in (r, t\<lparr>ts_inner := (ts_inner t)\<lparr>sd_read := rs\<rparr>\<rparr>))"

definition tor_oracle :: "tor_substrate \<Rightarrow> oracle_params" where
  "tor_oracle t = sd_oracle (ts_inner t)"

section \<open>The proxy's side of the dialogue\<close>

text \<open>
  The reply grammar of RFC 1928: the method selection, then version, success, reserved and the
  bound address by type, then a port. \<open>request_of\<close> reads a CONNECT request by domain name.
\<close>

definition bound_address :: "byte \<Rightarrow> byte list \<Rightarrow> bool" where
  "bound_address atyp bs \<longleftrightarrow>
     (atyp = 1 \<and> length bs = 4) \<or> (atyp = 4 \<and> length bs = 16) \<or>
     (atyp = 3 \<and> (case bs of [] \<Rightarrow> False | l # name \<Rightarrow> length name = unat l))"

definition socks_accepts :: "byte list \<Rightarrow> bool" where
  "socks_accepts bs \<longleftrightarrow>
     8 \<le> length bs \<and> take 2 bs = [5, 0] \<and> bs ! 3 = 0 \<and>
     bound_address (bs ! 5) (take (length bs - 8) (drop 6 bs))"

definition request_of :: "byte list \<Rightarrow> (string \<times> u16 \<times> byte list) option" where
  "request_of bs =
     (if 8 \<le> length bs \<and> take 7 bs = [5, 1, 0, 5, 1, 0, 3]
         \<and> 10 + unat (bs ! 7) \<le> length bs
      then (let n = unat (bs ! 7); rest = drop 8 bs
            in Some (bytes_string (take n rest), of_nat (be_nat (take 2 (drop n rest))), drop (n + 2) rest))
      else None)"

lemma request_of_dialogue:
  assumes "length host \<le> 255"
  shows "request_of ([5, 1, 0] @ socks_request host port @ rest) = Some (host, port, rest)"
proof -
  have n: "unat (of_nat (length host) :: byte) = length host"
    using assms by (simp add: unat_of_nat take_bit_nat_def)
  have "unat port < 256 ^ 2" using unsigned_less [of port, where ?'a = nat] by simp
  then have p: "be_nat (to_be 2 (unat port)) = unat port" by (simp add: be_nat_to_be)
  show ?thesis
    by (simp add: request_of_def socks_request_def n p Let_def)
qed

lemma length6: "length xs = 6 \<Longrightarrow> \<exists>a b c d e f. xs = [a, b, c, d, e, f]"
  by (auto simp: length_Suc_conv eval_nat_numeral)

lemma socks_accepts_iff:
  "socks_accepts bs \<longleftrightarrow>
   (\<exists>v rsv atyp b p. bs = [5, 0, v, 0, rsv, atyp] @ b @ p \<and> bound_address atyp b \<and> length p = 2)"
proof
  assume h: "socks_accepts bs"
  then have len: "8 \<le> length bs" by (simp add: socks_accepts_def)
  have "length (take 6 bs) = 6" using len by simp
  then obtain a0 a1 v a3 rsv atyp where six: "take 6 bs = [a0, a1, v, a3, rsv, atyp]"
    using length6 by blast
  define b where "b = take (length bs - 8) (drop 6 bs)"
  define p where "p = drop (length bs - 8) (drop 6 bs)"
  have "length p = 2" using len by (simp add: p_def)
  have bs: "bs = [a0, a1, v, a3, rsv, atyp] @ b @ p"
    using append_take_drop_id [of 6 bs] append_take_drop_id [of "length bs - 8" "drop 6 bs"]
    unfolding six b_def p_def by metis
  have "bound_address atyp b"
    using h six \<open>length p = 2\<close> by (simp add: socks_accepts_def bs)
  moreover have "a0 = 5 \<and> a1 = 0 \<and> a3 = 0" using h by (simp add: socks_accepts_def bs)
  ultimately show "\<exists>v rsv atyp b p. bs = [5, 0, v, 0, rsv, atyp] @ b @ p \<and> bound_address atyp b \<and> length p = 2"
    using bs \<open>length p = 2\<close> by auto
qed (auto simp: socks_accepts_def)

lemma bound_skip_ok:
  "(\<exists>n s1 skip. socks_bound_len atyp s = (Inr n, s1) \<and> tcp_read_exact (n + 2) s1 = (Inr skip, s')) \<longleftrightarrow>
   (\<exists>b p. bound_address atyp b \<and> length p = 2 \<and> r_bytes (t_read s) = b @ p @ r_bytes (t_read s')) \<and>
   r_end (t_read s') = r_end (t_read s) \<and> t_write s' = t_write s" (is "?lhs \<longleftrightarrow> ?rhs")
proof
  assume ?lhs
  then obtain n s1 skip where len: "socks_bound_len atyp s = (Inr n, s1)"
    and rd: "tcp_read_exact (n + 2) s1 = (Inr skip, s')" by blast
  define b p where "b = take n skip" and "p = drop n skip"
  have skip: "skip = b @ p" "length b = n" "length p = 2"
    using rd by (auto simp: b_def p_def io_simps)
  show ?rhs
  proof (cases "atyp = 3")
    case True
    with len obtain l where "r_bytes (t_read s) = [l] @ r_bytes (t_read s1)" "n = unat l"
      "r_end (t_read s1) = r_end (t_read s)" "t_write s1 = t_write s"
      by (auto simp: socks_bound_len_def io_simps length_Suc_conv)
    moreover from this True skip have "bound_address atyp (l # b)" by (simp add: bound_address_def)
    moreover have "r_bytes (t_read s1) = b @ p @ r_bytes (t_read s')" "t_write s' = t_write s1"
      "r_end (t_read s') = r_end (t_read s1)"
      using rd skip by (simp_all add: io_simps)
    ultimately show ?thesis using skip(3) by (metis append_Cons append_Nil)
  next
    case False
    with len rd skip show ?thesis
      by (auto simp: socks_bound_len_def io_simps bound_address_def split: if_splits)
  qed
next
  assume rhs: ?rhs
  then obtain b p where b: "bound_address atyp b" and p: "length p = 2"
    and bytes: "r_bytes (t_read s) = b @ p @ r_bytes (t_read s')" by blast
  show ?lhs
  proof (cases "atyp = 3")
    case True
    with b obtain l name where bl: "b = l # name" "length name = unat l"
      by (auto simp: bound_address_def split: list.splits)
    define s1 where "s1 = s\<lparr>t_read := (t_read s)\<lparr>r_bytes := name @ p @ r_bytes (t_read s')\<rparr>\<rparr>"
    have "tcp_read_exact 1 s = (Inr [l], s1)" using bytes bl by (simp add: io_simps s1_def)
    then have "socks_bound_len atyp s = (Inr (unat l), s1)"
      using True by (simp add: socks_bound_len_def io_bind_def io_context_def io_return_def)
    moreover have "tcp_read_exact (unat l + 2) s1 = (Inr (name @ p), s')"
      using rhs bl p by (simp add: io_simps s1_def)
    ultimately show ?thesis by blast
  next
    case False
    with b have "socks_bound_len atyp s = (Inr (length b), s)"
      by (auto simp: bound_address_def socks_bound_len_def io_return_def)
    moreover have "tcp_read_exact (length b + 2) s = (Inr (b @ p), s')"
      using rhs bytes p by (simp add: io_simps)
    ultimately show ?thesis by blast
  qed
qed

section \<open>Properties\<close>

lemma socks5_dialogue_ok:
  assumes "w_faults (t_write s) = []"
  shows "socks5_dialogue host port s = (Inr u, s') \<longleftrightarrow>
    length host \<le> 255 \<and> (\<exists>reply. socks_accepts reply \<and> r_bytes (t_read s) = reply @ r_bytes (t_read s')) \<and>
    r_end (t_read s') = r_end (t_read s) \<and>
    t_write s' = (t_write s)\<lparr>w_out := w_out (t_write s) @ [5, 1, 0] @ socks_request host port\<rparr>"
  (is "?lhs \<longleftrightarrow> ?rhs")
proof
  define w1 where "w1 = (t_write s)\<lparr>w_out := w_out (t_write s) @ [5, 1, 0]\<rparr>"
  define w2 where "w2 = (t_write s)\<lparr>w_out := w_out (t_write s) @ [5, 1, 0] @ socks_request host port\<rparr>"
  have nf: "\<not> write_fails (t_write s)" "\<not> write_fails w1" using assms by (simp_all add: write_fails_def w1_def)
  {
    assume ?lhs
    then obtain sel s2 head s4 where h: "tcp_read_exact 2 (s\<lparr>t_write := w1\<rparr>) = (Inr sel, s2)" "sel = [5, 0]" "length host \<le> 255"
      "tcp_read_exact 4 (s2\<lparr>t_write := w2\<rparr>) = (Inr head, s4)" "head ! 1 = 0"
      "\<exists>n s5 skip. socks_bound_len (head ! 3) s4 = (Inr n, s5) \<and> tcp_read_exact (n + 2) s5 = (Inr skip, s')"
      using assms
      by (cases "t_write s") (fastforce simp: socks5_dialogue_def io_simps w1_def w2_def write_fails_def split: if_splits)
    from h(4) have "length head = 4" by (simp add: io_simps)
    then obtain v rep rsv atyp where hd: "head = [v, rep, rsv, atyp]"
      by (auto simp: length_Suc_conv eval_nat_numeral)
    from h(6) obtain b p where "bound_address atyp b" "length p = 2" "r_bytes (t_read s4) = b @ p @ r_bytes (t_read s')"
      "r_end (t_read s') = r_end (t_read s4)" "t_write s' = t_write s4"
      unfolding bound_skip_ok by (auto simp: hd)
    moreover from this h hd have "socks_accepts ([5, 0, v, 0, rsv, atyp] @ b @ p)"
      unfolding socks_accepts_iff by auto
    ultimately show ?rhs using h hd
      by (auto simp: io_simps w2_def)
  next
    assume r: ?rhs
    then obtain v rsv atyp b p where b: "bound_address atyp b" "length p = 2"
      and bytes: "r_bytes (t_read s) = [5, 0] @ [v, 0, rsv, atyp] @ b @ p @ r_bytes (t_read s')"
      unfolding socks_accepts_iff by auto
    define s2 where "s2 = s\<lparr>t_write := w1, t_read := (t_read s)\<lparr>r_bytes := [v, 0, rsv, atyp] @ b @ p @ r_bytes (t_read s')\<rparr>\<rparr>"
    define s4 where "s4 = s\<lparr>t_write := w2, t_read := (t_read s)\<lparr>r_bytes := b @ p @ r_bytes (t_read s')\<rparr>\<rparr>"
    have "tcp_write_all [5, 1, 0] s = (Inr (), s\<lparr>t_write := w1\<rparr>)"
      "tcp_read_exact 2 (s\<lparr>t_write := w1\<rparr>) = (Inr [5, 0], s2)"
      "tcp_write_all (socks_request host port) s2 = (Inr (), s2\<lparr>t_write := w2\<rparr>)"
      "tcp_read_exact 4 (s2\<lparr>t_write := w2\<rparr>) = (Inr [v, 0, rsv, atyp], s4)"
      using nf bytes assms by (simp_all add: io_simps s2_def s4_def w1_def w2_def)
    moreover have "\<exists>n s5 skip. socks_bound_len atyp s4 = (Inr n, s5) \<and> tcp_read_exact (n + 2) s5 = (Inr skip, s')"
      unfolding bound_skip_ok using b r by (auto simp: s4_def w2_def)
    ultimately show ?lhs using r
      by (auto simp: socks5_dialogue_def io_bind_def io_context_def io_return_def)
  }
qed


text \<open>C17: the SOCKS5 client. Over a connected socket with healthy writes, \<open>socks5_connect\<close> succeeds
  exactly when the host name fits in 255 bytes and the proxy's bytes begin with an accepting reply;
  then the greeting and a CONNECT by domain name are all that was written (the name is not resolved
  locally) and the next byte to read is the first one after the reply.\<close>

theorem socks5_connect_iff:
  assumes "connect socks = Inr s" and "w_faults (t_write s) = []"
  shows "socks5_connect connect socks host port = Inr s' \<longleftrightarrow>
    length host \<le> 255 \<and> (\<exists>reply. socks_accepts reply \<and> r_bytes (t_read s) = reply @ r_bytes (t_read s')) \<and>
    r_end (t_read s') = r_end (t_read s) \<and>
    t_write s' = (t_write s)\<lparr>w_out := w_out (t_write s) @ [5, 1, 0] @ socks_request host port\<rparr>"
proof -
  have "socks5_connect connect socks host port = Inr s' \<longleftrightarrow> socks5_dialogue host port s = (Inr (), s')"
    using assms(1) by (auto simp: socks5_connect_def split: prod.splits sum.splits)
  with socks5_dialogue_ok [OF assms(2), of host port "()" s'] show ?thesis by (simp only:)
qed

definition proxy_socket :: "byte list \<Rightarrow> tcp_stream" where
  "proxy_socket bs = \<lparr>t_read = \<lparr>r_bytes = bs, r_end = UnexpectedEof\<rparr>, t_write = \<lparr>w_out = [], w_faults = []\<rparr>\<rparr>"

abbreviation socks_local :: socket_addr where "socks_local \<equiv> SockAddr (V4 127 0 0 1) 9050"

theorem socks5_connect_iff_witness:
  "socks5_connect (\<lambda>_. Inr (proxy_socket [5, 0, 5, 0, 0, 1, 0, 0, 0, 0, 0, 0, 42])) socks_local ''a.onion'' 443 =
   Inr \<lparr>t_read = \<lparr>r_bytes = [42], r_end = UnexpectedEof\<rparr>,
        t_write = \<lparr>w_out = [5, 1, 0] @ socks_request ''a.onion'' 443, w_faults = []\<rparr>\<rparr>"
  by (subst socks5_connect_iff [where s = "proxy_socket [5, 0, 5, 0, 0, 1, 0, 0, 0, 0, 0, 0, 42]"])
     (auto simp: proxy_socket_def socks_accepts_def bound_address_def
       intro!: exI [of _ "[5, 0, 5, 0, 0, 1, 0, 0, 0, 0, 0, 0]"])

text \<open>A Tor circuit end to end. When \<open>tor_stream_to\<close> succeeds, the proxy is asked for exactly the
  host and port of \<open>gateway_bridge\<close>; the bytes that follow the request are frames whose datagrams
  the gateway's stream bridge forwards exactly and in order; and the frames that the bridge sends
  after the proxy's reply are what the client receives.\<close>

theorem tor_circuit_carries_datagrams:
  assumes "connect socks = Inr s" and "t_write s = \<lparr>w_out = [], w_faults = []\<rparr>"
    and "socks_accepts reply" and "t_read s = \<lparr>r_bytes = reply @ w_out (to_tcp (map Some back) w0), r_end = e\<rparr>"
    and "w0 = \<lparr>w_out = [], w_faults = []\<rparr>" and "list_all (\<lambda>dg. length dg \<le> 65535) back"
    and "list_all bridge_ok dgs" and "split_host_port gw = Inr (host, port)" and "length host \<le> 255"
  shows "\<exists>sd rest. tor_stream_to connect socks gw oracle = Inr sd \<and>
      request_of (w_out (fold sd_send dgs (sd_write sd))) = Some (host, port, rest) \<and>
      to_udp [] \<lparr>r_bytes = rest, r_end = e'\<rparr> = dgs \<and> sd_recv_all (sd_read sd) = (back, map_io e)"
proof -
  define s' where "s' = \<lparr>t_read = \<lparr>r_bytes = w_out (to_tcp (map Some back) w0), r_end = e\<rparr>,
    t_write = \<lparr>w_out = [5, 1, 0] @ socks_request host port, w_faults = []\<rparr>\<rparr>"
  have "socks5_dialogue host port s = (Inr (), s')"
    using assms(2-4,9) by (subst socks5_dialogue_ok) (auto simp: s'_def)
  then have "tor_stream_to connect socks gw oracle = Inr (new_stream_datagram s' oracle)"
    using assms(1,8) by (simp add: tor_stream_to_def socks5_connect_def)
  moreover have "w_out (fold sd_send dgs (t_write s')) = [5, 1, 0] @ socks_request host port @ concat (map frame dgs)"
    using sd_send_healthy [of "t_write s'" dgs] by (simp add: s'_def)
  moreover have "to_udp [] \<lparr>r_bytes = concat (map frame dgs), r_end = e'\<rparr> = dgs"
    using to_udp_frames [OF assms(7), of "[]" e'] by simp
  moreover have "sd_recv_all (t_read s') = (back, map_io e)"
    using bridge_to_stream [OF assms(6), of w0 e] assms(5) by (simp add: s'_def)
  ultimately show ?thesis
    using request_of_dialogue [OF assms(9)] by (simp add: new_stream_datagram_def)
qed

definition demo_oracle :: oracle_params where
  "demo_oracle = \<lparr>hops = 3, mean_hop_delay = from_millis 50, drop_prob = 0, slot_interval = 0, mtu = 1200\<rparr>"

theorem tor_circuit_carries_datagrams_witness:
  "\<exists>sd rest. tor_stream_to (\<lambda>_. Inr (proxy_socket ([5, 0, 5, 0, 0, 1, 0, 0, 0, 0, 0, 0] @
         w_out (to_tcp (map Some [[9]]) \<lparr>w_out = [], w_faults = []\<rparr>)))) socks_local ''gw.example:4443'' demo_oracle = Inr sd \<and>
      request_of (w_out (fold sd_send [[1, 2]] (sd_write sd))) = Some (''gw.example'', 4443, rest) \<and>
      to_udp [] \<lparr>r_bytes = rest, r_end = UnexpectedEof\<rparr> = [[1, 2]] \<and>
      sd_recv_all (sd_read sd) = ([[9]], map_io UnexpectedEof)"
proof (rule tor_circuit_carries_datagrams [OF refl _ _ _ refl])
  show "socks_accepts [5, 0, 5, 0, 0, 1, 0, 0, 0, 0, 0, 0]" by (simp add: socks_accepts_def bound_address_def)
  show "split_host_port ''gw.example:4443'' = Inr (''gw.example'', 4443)"
    by (simp add: split_host_port_def rsplit_once_def parse_u16_def from_str_radix_def to_digit_def)
qed (simp_all add: proxy_socket_def bridge_ok_def MAX_DATAGRAM_def)

lemma localhost_addr_parses:
  "parse_socket_addr (''127.0.0.1:'' @ show_nat (unat p)) = Some (SockAddr (V4 127 0 0 1) p)"
proof -
  have "''127.0.0.1:'' @ show_nat (unat p) = show_socket_v4 127 0 0 1 p"
    by (simp add: show_socket_v4_def show_v4_def show_nat.simps) code_simp
  then show ?thesis using parse_show_socket_v4 by metis
qed

lemma await_bootstrap_quiet:
  "list_all (\<lambda>e. case e of Line l \<Rightarrow> \<not> sublist ''Bootstrapped 100%'' l | _ \<Rightarrow> False) pre \<Longrightarrow>
   await_bootstrap (pre @ evs) = await_bootstrap evs"
proof (induction pre)
  case (Cons e pre)
  then show ?case
    by (cases e) (simp_all add: find_sub_eq_None)
qed simp

text \<open>C18: the supervised daemon never panics, and it is handed out exactly when the child printed a
  line containing \<open>Bootstrapped 100%\<close> before it exited, failed or ran into the timeout; its SOCKS
  address is the loopback port that was reserved and passed to \<open>tor\<close>, and the log lines after that
  one are still to be drained.\<close>

theorem launch_daemon_ready:
  assumes "\<And>args. spawn args = Inr (Some (pre @ ev # rest))"
    and "list_all (\<lambda>e. case e of Line l \<Rightarrow> \<not> sublist ''Bootstrapped 100%'' l | _ \<Rightarrow> False) pre"
    and "case ev of Line l \<Rightarrow> sublist ''Bootstrapped 100%'' l | _ \<Rightarrow> True"
  shows "case launch_daemon (Inr port) spawn dir of
      Some (Some (Inr d)) \<Rightarrow> (\<exists>l. ev = Line l) \<and> td_socks d = SockAddr (V4 127 0 0 1) port \<and>
        take 2 (td_args d) = [''--SocksPort'', show_nat (unat port)] \<and> td_pending d = rest
    | Some (Some (Inl e)) \<Rightarrow> (ev = TimedOut \<and> e = TorBootTimeout) \<or> (ev = EndOfOutput \<and> e = TorExited) \<or>
        (\<exists>i. ev = LineError i \<and> e = TorLineError i)
    | _ \<Rightarrow> False"
proof -
  have "find_sub ''Bootstrapped 100%'' l \<noteq> None" if "ev = Line l" for l
    using assms(3) that find_sub_None by auto
  then show ?thesis
    using await_bootstrap_quiet [OF assms(2), of "ev # rest"]
    by (cases ev) (auto simp: launch_daemon_def localhost_addr_parses assms(1) Let_def simp del: append_Cons)
qed

theorem launch_daemon_ready_witness:
  "case launch_daemon (Inr 9050) (\<lambda>_. Inr (Some ([Line ''x''] @ TimedOut # []))) ''/tmp'' of
      Some (Some (Inr d)) \<Rightarrow> (\<exists>l. TimedOut = Line l) \<and> td_socks d = SockAddr (V4 127 0 0 1) 9050 \<and>
        take 2 (td_args d) = [''--SocksPort'', show_nat (unat (9050 :: u16))] \<and> td_pending d = []
    | Some (Some (Inl e)) \<Rightarrow> (TimedOut = TimedOut \<and> e = TorBootTimeout) \<or> (TimedOut = EndOfOutput \<and> e = TorExited) \<or>
        (\<exists>i. TimedOut = LineError i \<and> e = TorLineError i)
    | _ \<Rightarrow> False"
  by (rule launch_daemon_ready) (simp, code_simp, simp)

end
