(* ===== verification/Transport.thy ===== *)
theory Transport
  imports Oracle "HOL-Library.Multiset"
begin

text \<open>
  The contract of a datagram substrate, the trait \<open>MixTransport\<close> of
  \<^verbatim>\<open>crates/quicmix/src/lib.rs\<close>, as a locale, and runs of a transport.

  A transport has a state, a fallible send and receive (\<open>None\<close>: the receive would wait), internal
  steps of its background tasks, and the multiset of datagrams it holds. The contract is that it may
  lose, delay and reorder datagrams but neither invents nor duplicates them.
\<close>

section \<open>The default methods of the trait\<close>

definition default_try_send :: "(datagram \<Rightarrow> 's \<Rightarrow> 's) \<Rightarrow> datagram \<Rightarrow> 's \<Rightarrow> (substrate_error + unit) \<times> 's" where
  "default_try_send send dg s = (Inr (), send dg s)"

definition default_try_recv ::
  "('s \<Rightarrow> (datagram option \<times> 's) option) \<Rightarrow> 's \<Rightarrow> ((substrate_error + datagram) \<times> 's) option" where
  "default_try_recv recv s =
     map_option (\<lambda>(r, s'). (case r of Some dg \<Rightarrow> Inr dg | None \<Rightarrow> Inl Closed, s')) (recv s)"

section \<open>Runs\<close>

text \<open>\<open>transport_run \<dots> s sent got s'\<close>: from \<open>s\<close> to \<open>s'\<close>, with the datagrams submitted and received on the way.\<close>

inductive transport_run ::
  "(datagram \<Rightarrow> 's \<Rightarrow> (substrate_error + unit) \<times> 's) \<Rightarrow>
   ('s \<Rightarrow> ((substrate_error + datagram) \<times> 's) option) \<Rightarrow> ('s \<Rightarrow> 's \<Rightarrow> bool) \<Rightarrow>
   's \<Rightarrow> datagram list \<Rightarrow> datagram list \<Rightarrow> 's \<Rightarrow> bool"
  for snd_op rcv_op step where
  run_start: "transport_run snd_op rcv_op step s [] [] s"
| run_send: "transport_run snd_op rcv_op step s sent got s1 \<Longrightarrow> snd_op dg s1 = (r, s2) \<Longrightarrow>
    transport_run snd_op rcv_op step s (sent @ [dg]) got s2"
| run_recv: "transport_run snd_op rcv_op step s sent got s1 \<Longrightarrow> rcv_op s1 = Some (Inr dg, s2) \<Longrightarrow>
    transport_run snd_op rcv_op step s sent (got @ [dg]) s2"
| run_recv_err: "transport_run snd_op rcv_op step s sent got s1 \<Longrightarrow> rcv_op s1 = Some (Inl e, s2) \<Longrightarrow>
    transport_run snd_op rcv_op step s sent got s2"
| run_step: "transport_run snd_op rcv_op step s sent got s1 \<Longrightarrow> step s1 s2 \<Longrightarrow>
    transport_run snd_op rcv_op step s sent got s2"

locale mix_transport =
  fixes try_send :: "datagram \<Rightarrow> 's \<Rightarrow> (substrate_error + unit) \<times> 's"
    and try_recv :: "'s \<Rightarrow> ((substrate_error + datagram) \<times> 's) option"
    and step :: "'s \<Rightarrow> 's \<Rightarrow> bool"
    and held :: "'s \<Rightarrow> datagram multiset"
  assumes try_send_held: "try_send dg s = (r, s') \<Longrightarrow> held s' \<subseteq># add_mset dg (held s)"
    and try_recv_held: "try_recv s = Some (Inr dg, s') \<Longrightarrow> add_mset dg (held s') \<subseteq># held s"
    and try_recv_err_held: "try_recv s = Some (Inl e, s') \<Longrightarrow> held s' \<subseteq># held s"
    and step_held: "step s s' \<Longrightarrow> held s' \<subseteq># held s"
begin

lemma run_held:
  "transport_run try_send try_recv step s sent got s' \<Longrightarrow>
   mset got + held s' \<subseteq># mset sent + held s"
proof (induction rule: transport_run.induct)
  case (run_send s sent got s1 dg r s2)
  have "mset got + held s2 \<subseteq># mset got + add_mset dg (held s1)"
    using try_send_held [OF run_send.hyps(2)] by (rule subset_mset.add_left_mono)
  also have "\<dots> = add_mset dg (mset got + held s1)" by simp
  also have "\<dots> \<subseteq># add_mset dg (mset sent + held s)" using run_send.IH by simp
  finally show ?case by simp
next
  case (run_recv s sent got s1 dg s2)
  have "mset (got @ [dg]) + held s2 = mset got + add_mset dg (held s2)" by simp
  also have "\<dots> \<subseteq># mset got + held s1"
    using try_recv_held [OF run_recv.hyps(2)] by (rule subset_mset.add_left_mono)
  also note run_recv.IH
  finally show ?case .
next
  case (run_recv_err s sent got s1 e s2)
  then show ?case
    using try_recv_err_held [OF run_recv_err.hyps(2)] by (meson subset_mset.add_left_mono subset_mset.order_trans)
next
  case (run_step s sent got s1 s2)
  then show ?case using step_held by (meson subset_mset.add_left_mono subset_mset.order_trans)
qed simp

lemma no_invention:
  assumes "transport_run try_send try_recv step s sent got s'" and "held s = {#}"
  shows "mset got \<subseteq># mset sent"
proof -
  have "mset got \<subseteq># mset got + held s'" by simp
  also note run_held [OF assms(1)]
  finally show ?thesis using assms(2) by simp
qed

end

end
