(* ===== verification/Emulator.thy ===== *)
theory Emulator
  imports Transport
begin

text \<open>
  The in-process mixnet of \<^verbatim>\<open>crates/quicmix-eval/src/emulator.rs\<close>: a base drop and a random delay
  per datagram (stage 1), then a finite buffer drained one cell per slot (stage 2).

  The state holds the queues of the three channels, the datagrams whose delay has not run out, the
  egress buffer and the clock. The tasks are the functions below; their interleavings are the steps
  of \<open>em_step\<close>. Random numbers are arguments in \<open>[0, 1)\<close>; \<open>f64::ln\<close>, whose
  precision the standard library leaves open, is the parameter \<open>ln64\<close>. The tasks run as long as
  the transport is held, unless the first stage panics: then its channel closes once the last delay has run
  out, the second stage ends when it has passed on what is left, and a receive reports the end.
\<close>

record emulator =
  em_params :: oracle_params
  em_max_queue :: nat
  em_in :: "datagram list"
  em_delayed :: "(nat \<times> datagram) list"
  em_ready :: "datagram list"
  em_q :: "datagram list"
  em_out :: "datagram list"
  em_next_tick :: nat
  em_now :: nat
  em_stage1_up :: bool
  em_closed :: bool
  em_stage2_up :: bool

definition with_queue :: "nat \<Rightarrow> oracle_params \<Rightarrow> nat \<Rightarrow> emulator" where
  "with_queue now p max_queue =
     \<lparr>em_params = p, em_max_queue = max_queue, em_in = [], em_delayed = [], em_ready = [], em_q = [],
      em_out = [], em_next_tick = now, em_now = now, em_stage1_up = True, em_closed = False, em_stage2_up = True\<rparr>"

definition new_emulator :: "nat \<Rightarrow> oracle_params \<Rightarrow> emulator" where
  "new_emulator now p = with_queue now p (u64_limit - 1)"

definition em_send :: "datagram \<Rightarrow> emulator \<Rightarrow> emulator" where
  "em_send dg e = (if em_stage1_up e then e\<lparr>em_in := em_in e @ [dg]\<rparr> else e)"

definition em_recv :: "emulator \<Rightarrow> (datagram option \<times> emulator) option" where
  "em_recv e =
     (case em_out e of
        [] \<Rightarrow> if em_stage2_up e then None else Some (None, e)
      | dg # rest \<Rightarrow> Some (Some dg, e\<lparr>em_out := rest\<rparr>))"

text \<open>The sum of \<open>hops\<close> exponential delays; \<open>us\<close> are the random numbers it draws.\<close>

fun path_delay :: "(f64 \<Rightarrow> f64) \<Rightarrow> duration \<Rightarrow> f64 list \<Rightarrow> f64 \<Rightarrow> f64" where
  "path_delay ln64 mean [] secs = secs"
| "path_delay ln64 mean (r # us) secs =
     (let u = max r (fl64 (1 / 10 ^ 12))
      in path_delay ln64 mean us (fl64 (secs + fl64 (- as_secs_f64 mean * ln64 u))))"

text \<open>Stage 1 on the next datagram. A delay that is negative or too long panics and ends the task.\<close>

definition em_stage1 :: "(f64 \<Rightarrow> f64) \<Rightarrow> f64 \<Rightarrow> f64 list \<Rightarrow> emulator \<Rightarrow> emulator option" where
  "em_stage1 ln64 r us e =
     (case em_in e of
        [] \<Rightarrow> None
      | dg # rest \<Rightarrow>
          (let p = em_params e;
               dropped = r < drop_prob p;
               secs = path_delay ln64 (mean_hop_delay p) us 0
           in case (if secs < 0 then None else from_secs_f64 secs) of
                None \<Rightarrow> Some (e\<lparr>em_in := [], em_stage1_up := False\<rparr>)
              | Some delay \<Rightarrow>
                  Some (if dropped then e\<lparr>em_in := rest\<rparr>
                        else e\<lparr>em_in := rest, em_delayed := em_delayed e @ [(em_now e + delay, dg)]\<rparr>)))"

definition em_wake :: "nat \<Rightarrow> emulator \<Rightarrow> emulator option" where
  "em_wake i e =
     (if i < length (em_delayed e) \<and> fst (em_delayed e ! i) \<le> em_now e
      then Some (e\<lparr>em_delayed := take i (em_delayed e) @ drop (Suc i) (em_delayed e),
                   em_ready := em_ready e @ [snd (em_delayed e ! i)]\<rparr>)
      else None)"

text \<open>Stage 2: taking a datagram that is ready, or noticing that none can come any more, and a tick of the slot timer.\<close>

definition em_drained :: "emulator \<Rightarrow> bool" where
  "em_drained e \<longleftrightarrow> \<not> em_stage1_up e \<and> em_delayed e = [] \<and> em_ready e = []"

definition em_accept :: "emulator \<Rightarrow> emulator option" where
  "em_accept e =
     (if \<not> em_stage2_up e then None
      else case em_ready e of
        [] \<Rightarrow>
          (if em_drained e
           then Some (if slot_interval (em_params e) = 0 then e\<lparr>em_stage2_up := False\<rparr> else e\<lparr>em_closed := True\<rparr>)
           else None)
      | dg # rest \<Rightarrow>
          (if slot_interval (em_params e) = 0 then Some (e\<lparr>em_ready := rest, em_out := em_out e @ [dg]\<rparr>)
           else if length (em_q e) < em_max_queue e then Some (e\<lparr>em_ready := rest, em_q := em_q e @ [dg]\<rparr>)
           else Some (e\<lparr>em_ready := rest\<rparr>)))"

definition em_tick :: "emulator \<Rightarrow> emulator option" where
  "em_tick e =
     (if \<not> em_stage2_up e \<or> slot_interval (em_params e) = 0 \<or> em_now e < em_next_tick e then None
      else (let e' = e\<lparr>em_next_tick := em_next_tick e + slot_interval (em_params e)\<rparr>
            in case em_q e of
                 [] \<Rightarrow> Some (if em_closed e then e'\<lparr>em_stage2_up := False\<rparr> else e')
               | dg # rest \<Rightarrow> Some (e'\<lparr>em_q := rest, em_out := em_out e @ [dg]\<rparr>)))"

inductive em_step :: "(f64 \<Rightarrow> f64) \<Rightarrow> emulator \<Rightarrow> emulator \<Rightarrow> bool" for ln64 where
  step_stage1: "0 \<le> r \<Longrightarrow> r < 1 \<Longrightarrow> length us = unat (hops (em_params e)) \<Longrightarrow> em_stage1 ln64 r us e = Some e' \<Longrightarrow> em_step ln64 e e'"
| step_wake: "em_wake i e = Some e' \<Longrightarrow> em_step ln64 e e'"
| step_accept: "em_accept e = Some e' \<Longrightarrow> em_step ln64 e e'"
| step_tick: "em_tick e = Some e' \<Longrightarrow> em_step ln64 e e'"
| step_clock: "em_now e \<le> t \<Longrightarrow> em_step ln64 e (e\<lparr>em_now := t\<rparr>)"

abbreviation em_try_send :: "datagram \<Rightarrow> emulator \<Rightarrow> (substrate_error + unit) \<times> emulator" where
  "em_try_send \<equiv> default_try_send em_send"

abbreviation em_try_recv :: "emulator \<Rightarrow> ((substrate_error + datagram) \<times> emulator) option" where
  "em_try_recv \<equiv> default_try_recv em_recv"

definition em_held :: "emulator \<Rightarrow> datagram multiset" where
  "em_held e = mset (em_in e) + mset (map snd (em_delayed e)) + mset (em_ready e) + mset (em_q e) + mset (em_out e)"

section \<open>The emulator is a transport\<close>

lemma em_send_held: "em_stage1_up e \<Longrightarrow> em_held (em_send dg e) = add_mset dg (em_held e)"
  by (simp add: em_held_def em_send_def)

lemma em_recv_held:
  "em_recv e = Some (r, e') \<Longrightarrow> (case r of Some dg \<Rightarrow> add_mset dg (em_held e') = em_held e | None \<Rightarrow> \<not> em_stage2_up e \<and> e' = e)"
  by (auto simp: em_recv_def em_held_def split: list.splits if_splits)

lemma em_send_down: "\<not> em_stage1_up e \<Longrightarrow> em_send dg e = e"
  by (simp add: em_send_def)

lemma em_try_recv_iff:
  "em_try_recv e = Some (Inr dg, e') \<longleftrightarrow> em_recv e = Some (Some dg, e')"
  "em_try_recv e = Some (Inl x, e') \<longleftrightarrow> x = Closed \<and> em_recv e = Some (None, e')"
  by (auto simp: default_try_recv_def split: option.splits)

lemma em_wake_held: "em_wake i e = Some e' \<Longrightarrow> em_held e' = em_held e"
proof -
  assume h: "em_wake i e = Some e'"
  then have i: "i < length (em_delayed e)" by (auto simp: em_wake_def split: if_splits)
  have "map snd (em_delayed e) =
      map snd (take i (em_delayed e)) @ snd (em_delayed e ! i) # map snd (drop (Suc i) (em_delayed e))"
    using id_take_nth_drop [OF i] by (metis list.simps(9) map_append)
  with h show ?thesis by (auto simp: em_wake_def em_held_def split: if_splits)
qed

lemma em_stage1_held: "em_stage1 ln64 r us e = Some e' \<Longrightarrow> em_held e' \<subseteq># em_held e"
  by (auto simp: em_stage1_def em_held_def Let_def split: list.splits if_splits option.splits)

lemma em_accept_held: "em_accept e = Some e' \<Longrightarrow> em_held e' \<subseteq># em_held e"
  by (auto simp: em_accept_def em_held_def split: list.splits if_splits)

lemma em_tick_held: "em_tick e = Some e' \<Longrightarrow> em_held e' = em_held e"
  by (auto simp: em_tick_def em_held_def Let_def split: list.splits if_splits)

lemma em_step_held: "em_step ln64 e e' \<Longrightarrow> em_held e' \<subseteq># em_held e"
proof (induction rule: em_step.induct)
  case (step_clock e t)
  show ?case by (simp add: em_held_def)
qed (simp_all add: em_stage1_held em_accept_held em_wake_held em_tick_held)

interpretation emu: mix_transport em_try_send em_try_recv "em_step ln64" em_held for ln64
proof
  fix dg e r e'
  assume "em_try_send dg e = (r, e')"
  then have "e' = em_send dg e" by (simp add: default_try_send_def)
  then show "em_held e' \<subseteq># add_mset dg (em_held e)"
    by (cases "em_stage1_up e") (simp_all add: em_send_held em_send_down)
next
  fix e dg e'
  assume "em_try_recv e = Some (Inr dg, e')"
  then show "add_mset dg (em_held e') \<subseteq># em_held e"
    using em_recv_held [of e "Some dg" e'] by (auto simp: em_try_recv_iff)
next
  fix e x e'
  assume "em_try_recv e = Some (Inl x, e')"
  then show "em_held e' \<subseteq># em_held e" using em_recv_held [of e None e'] by (simp add: em_try_recv_iff)
next
  fix e e'
  assume "em_step ln64 e e'"
  then show "em_held e' \<subseteq># em_held e" by (rule em_step_held)
qed

section \<open>Losses and pacing\<close>

text \<open>What no operation changes, and what the queue bound keeps.\<close>

definition em_frame :: "emulator \<Rightarrow> emulator \<Rightarrow> bool" where
  "em_frame e e' \<longleftrightarrow> em_params e' = em_params e \<and> em_max_queue e' = em_max_queue e \<and>
     (em_stage1_up e' \<longrightarrow> em_stage1_up e) \<and>
     (length (em_q e) \<le> em_max_queue e \<longrightarrow> length (em_q e') \<le> em_max_queue e')"

lemma em_frame_ops:
  "em_frame e (em_send dg e)"
  "em_recv e = Some (r, e') \<Longrightarrow> em_frame e e'"
  "em_stage1 ln64 u us e = Some e' \<Longrightarrow> em_frame e e'"
  "em_wake i e = Some e' \<Longrightarrow> em_frame e e'"
  "em_accept e = Some e' \<Longrightarrow> em_frame e e'"
  "em_tick e = Some e' \<Longrightarrow> em_frame e e'"
  by (auto simp: em_frame_def em_send_def em_recv_def em_stage1_def em_wake_def em_accept_def em_tick_def Let_def
      split: list.splits if_splits option.splits)

lemma em_step_frame: "em_step ln64 e e' \<Longrightarrow> em_frame e e'"
  by (induction rule: em_step.induct) (auto simp: em_frame_ops intro: em_frame_ops, simp add: em_frame_def)

lemma em_frame_trans: "em_frame a b \<Longrightarrow> em_frame b c \<Longrightarrow> em_frame a c"
  by (auto simp: em_frame_def)

lemma em_run_frame:
  "transport_run em_try_send em_try_recv (em_step ln64) s sent got e \<Longrightarrow> em_frame s e"
proof (induction rule: transport_run.induct)
  case (run_start s)
  show ?case by (simp add: em_frame_def)
next
  case (run_send s sent got s1 dg r s2)
  then show ?case using em_frame_ops(1) em_frame_trans by (auto simp: default_try_send_def)
next
  case (run_recv s sent got s1 dg s2)
  then show ?case using em_frame_ops(2) em_frame_trans by (fastforce simp: default_try_recv_def)
next
  case (run_recv_err s sent got s1 x s2)
  then show ?case using em_frame_ops(2) em_frame_trans by (fastforce simp: default_try_recv_def)
next
  case (run_step s sent got s1 s2)
  then show ?case using em_step_frame em_frame_trans by blast
qed

lemma em_stage1_keeps:
  "em_stage1 ln64 r us e = Some e' \<Longrightarrow> em_stage1_up e' \<Longrightarrow> em_stage1_up e \<Longrightarrow> drop_prob (em_params e) \<le> r \<Longrightarrow> em_held e' = em_held e"
  by (auto simp: em_stage1_def em_held_def Let_def split: list.splits if_splits option.splits)

lemma em_accept_keeps:
  "em_accept e = Some e' \<Longrightarrow> size (em_held e) \<le> em_max_queue e \<Longrightarrow> em_held e' = em_held e"
  by (auto simp: em_accept_def em_held_def split: list.splits if_splits)

lemma em_step_keeps:
  assumes "em_step ln64 e e'" and "em_stage1_up e'" and "drop_prob (em_params e) \<le> 0"
    and "size (em_held e) \<le> em_max_queue e"
  shows "em_held e' = em_held e"
  using assms(1)
proof cases
  case (step_stage1 r us)
  with assms em_step_frame [OF assms(1)] show ?thesis
    using em_stage1_keeps [of ln64 r us e e'] by (auto simp: em_frame_def)
next
  case (step_clock t)
  then show ?thesis by (simp add: em_held_def)
qed (auto simp: em_wake_held em_tick_held em_accept_keeps assms(4))

text \<open>C27: with no base drop probability and the unbounded egress buffer, the emulator loses nothing:
  until its delay computation panics, every datagram sent has been received or is still inside,
  once.\<close>

theorem emulator_lossless:
  assumes "transport_run em_try_send em_try_recv (em_step ln64) (new_emulator now p) sent got e"
    and "drop_prob p \<le> 0" and "length sent < u64_limit" and "em_stage1_up e"
  shows "mset sent = mset got + em_held e"
  using assms
proof (induction "new_emulator now p" sent got e rule: transport_run.induct)
  case run_start
  then show ?case by (simp add: new_emulator_def with_queue_def em_held_def)
next
  case (run_send sent got s1 dg r s2)
  then show ?case
    using em_frame_ops(1) [of s1 dg] by (auto simp: default_try_send_def em_send_held em_frame_def)
next
  case (run_recv sent got s1 dg s2)
  then have r: "em_recv s1 = Some (Some dg, s2)" by (simp add: em_try_recv_iff)
  then have "em_frame s1 s2" by (rule em_frame_ops)
  with run_recv em_recv_held [OF r] show ?case by (auto simp: em_frame_def)
next
  case (run_recv_err sent got s1 x s2)
  then show ?case by (auto simp: em_try_recv_iff dest!: em_recv_held)
next
  case (run_step sent got s1 s2)
  then have up: "em_stage1_up s1" using em_step_frame by (auto simp: em_frame_def)
  with run_step have eq: "mset sent = mset got + em_held s1" by blast
  have "size (em_held s1) \<le> size (mset sent)" unfolding eq by simp
  then have "size (em_held s1) \<le> u64_limit - 1" using run_step.prems(2) by simp
  moreover have "em_params s1 = p" "em_max_queue s1 = u64_limit - 1"
    using em_run_frame [OF run_step.hyps(1)] by (simp_all add: em_frame_def new_emulator_def with_queue_def)
  ultimately have "em_held s2 = em_held s1"
    using run_step.hyps(3) run_step.prems by (intro em_step_keeps) auto
  with eq show ?case by simp
qed

definition quiet_params :: oracle_params where
  "quiet_params = \<lparr>hops = 0, mean_hop_delay = 0, drop_prob = 0, slot_interval = 0, mtu = 1200\<rparr>"

lemma quiet_stage1:
  "em_in e = dg # rest \<Longrightarrow> em_params e = quiet_params \<Longrightarrow>
   em_step ln64 e (e\<lparr>em_in := rest, em_delayed := em_delayed e @ [(em_now e, dg)]\<rparr>)"
  by (rule step_stage1 [of 0 "[]"])
     (simp_all add: em_stage1_def quiet_params_def from_secs_f64_def rne_def dur_limit_def)

text \<open>Two datagrams sent, the second one overtaking and received.\<close>

lemma quiet_run:
  "transport_run em_try_send em_try_recv (em_step ln64) (new_emulator 0 quiet_params) [[1], [2]] [[2]]
     \<lparr>em_params = quiet_params, em_max_queue = u64_limit - 1, em_in = [], em_delayed = [(0, [1])], em_ready = [],
      em_q = [], em_out = [], em_next_tick = 0, em_now = 0, em_stage1_up = True, em_closed = False, em_stage2_up = True\<rparr>"
  (is "transport_run _ _ _ _ _ _ ?end")
proof -
  let ?run = "transport_run em_try_send em_try_recv (em_step ln64) (new_emulator 0 quiet_params)"
  note defs = new_emulator_def with_queue_def em_send_def default_try_send_def
  have "?run [[1]] [] (em_send [1] (new_emulator 0 quiet_params))"
    using run_send [OF run_start, of em_try_send "[1]" "new_emulator 0 quiet_params"] by (simp add: default_try_send_def)
  then have "?run [[1], [2]] [] (em_send [2] (em_send [1] (new_emulator 0 quiet_params)))"
    using run_send [of em_try_send em_try_recv "em_step ln64" _ "[[1]]" "[]" _ "[2]"] by (simp add: default_try_send_def)
  then have "?run [[1], [2]] [] (?end\<lparr>em_in := [[1], [2]], em_delayed := []\<rparr>)" by (simp add: defs)
  then have "?run [[1], [2]] [] (?end\<lparr>em_in := [[2]]\<rparr>)"
    by (rule run_step) (use quiet_stage1 [of "?end\<lparr>em_in := [[1], [2]], em_delayed := []\<rparr>"] in simp)
  then have "?run [[1], [2]] [] (?end\<lparr>em_delayed := [(0, [1]), (0, [2])]\<rparr>)"
    by (rule run_step) (use quiet_stage1 [of "?end\<lparr>em_in := [[2]]\<rparr>"] in simp)
  then have "?run [[1], [2]] [] (?end\<lparr>em_ready := [[2]]\<rparr>)"
    by (rule run_step) (rule step_wake [of 1], simp add: em_wake_def)
  then have "?run [[1], [2]] [] (?end\<lparr>em_out := [[2]]\<rparr>)"
    by (rule run_step) (rule step_accept, simp add: em_accept_def quiet_params_def)
  then have "?run [[1], [2]] ([] @ [[2]]) ?end"
    by (rule run_recv) (simp add: default_try_recv_def em_recv_def)
  then show ?thesis by simp
qed

theorem emulator_lossless_witness:
  "mset [[1], [2]] = mset [[2]] + em_held
     \<lparr>em_params = quiet_params, em_max_queue = u64_limit - 1, em_in = [], em_delayed = [(0, [1])], em_ready = [],
      em_q = [], em_out = [], em_next_tick = 0, em_now = 0, em_stage1_up = True, em_closed = False, em_stage2_up = True\<rparr>"
  by (rule emulator_lossless [OF quiet_run]) (simp_all add: quiet_params_def)

text \<open>The slot timer: after \<open>k\<close> ticks at most \<open>k\<close> datagrams have left, and the last tick was due.\<close>

definition em_paced :: "nat \<Rightarrow> oracle_params \<Rightarrow> nat \<Rightarrow> emulator \<Rightarrow> bool" where
  "em_paced start p n e \<longleftrightarrow>
     (\<exists>k. em_next_tick e = start + k * slot_interval p \<and> n + length (em_out e) \<le> k \<and>
          em_next_tick e \<le> em_now e + slot_interval p) \<and> em_params e = p \<and> start \<le> em_now e"

lemma em_paced_tick:
  assumes "em_paced start p n e" and "em_tick e = Some e'"
  shows "em_paced start p n e'"
proof -
  from assms(1) obtain k where k: "em_next_tick e = start + k * slot_interval p" "n + length (em_out e) \<le> k"
    by (auto simp: em_paced_def)
  from assms have "em_next_tick e' = start + Suc k * slot_interval p"
    "n + length (em_out e') \<le> Suc k" "em_next_tick e' \<le> em_now e' + slot_interval p" "em_params e' = p" "start \<le> em_now e'"
    using k by (auto simp: em_paced_def em_tick_def Let_def split: if_splits list.splits)
  then show ?thesis unfolding em_paced_def by blast
qed

lemma em_paced_step:
  assumes "em_step ln64 e e'" and "em_paced start p n e" and "slot_interval p \<noteq> 0"
  shows "em_paced start p n e'"
  using assms(1)
proof cases
  case (step_tick)
  with assms(2) show ?thesis by (rule em_paced_tick)
next
  case (step_clock t)
  with assms(2) show ?thesis by (fastforce simp: em_paced_def)
next
  case (step_stage1 r us)
  then have "em_next_tick e' = em_next_tick e \<and> em_out e' = em_out e \<and> em_now e' = em_now e \<and> em_params e' = em_params e"
    by (auto simp: em_stage1_def Let_def split: list.splits if_splits option.splits)
  with assms(2) show ?thesis by (simp add: em_paced_def)
next
  case (step_wake i)
  with assms(2) show ?thesis by (auto simp: em_paced_def em_wake_def split: if_splits)
next
  case step_accept
  then have "em_next_tick e' = em_next_tick e \<and> em_out e' = em_out e \<and> em_now e' = em_now e \<and> em_params e' = em_params e"
    using assms(2,3) by (auto simp: em_paced_def em_accept_def split: list.splits if_splits)
  with assms(2) show ?thesis by (simp add: em_paced_def)
qed

lemma em_run_paced:
  assumes "transport_run em_try_send em_try_recv (em_step ln64) (with_queue now p max_queue) sent got e"
    and "slot_interval p \<noteq> 0"
  shows "em_paced now p (length got) e"
  using assms
proof (induction "with_queue now p max_queue" sent got e rule: transport_run.induct)
  case run_start
  then show ?case by (auto simp: em_paced_def with_queue_def)
next
  case (run_send sent got s1 dg r s2)
  then show ?case by (auto simp: em_paced_def default_try_send_def em_send_def)
next
  case (run_recv sent got s1 dg s2)
  then show ?case by (auto simp: em_paced_def em_try_recv_iff em_recv_def split: list.splits if_splits)
next
  case (run_recv_err sent got s1 x s2)
  then show ?case by (auto simp: em_try_recv_iff dest!: em_recv_held)
next
  case (run_step sent got s1 s2)
  then show ?case using em_paced_step by blast
qed

text \<open>A paced emulator enforces the constant-rate budget and the finite buffer: by any time, at most
  one datagram per elapsed slot (and the one of the first tick) has come out, and the egress buffer
  never exceeds its bound.\<close>

theorem emulator_paced:
  assumes "transport_run em_try_send em_try_recv (em_step ln64) (with_queue now p max_queue) sent got e"
    and "slot_interval p \<noteq> 0"
  shows "length got + length (em_out e) \<le> (em_now e - now) div slot_interval p + 1 \<and> length (em_q e) \<le> max_queue"
proof
  from em_run_paced [OF assms] obtain k where k: "em_next_tick e = now + k * slot_interval p"
    "length got + length (em_out e) \<le> k" "em_next_tick e \<le> em_now e + slot_interval p" "now \<le> em_now e"
    unfolding em_paced_def by blast
  have "(k - 1) * slot_interval p \<le> em_now e - now" using k by (simp add: diff_mult_distrib)
  then have "k - 1 \<le> (em_now e - now) div slot_interval p"
    using assms(2) by (simp add: less_eq_div_iff_mult_less_eq)
  with k(2) show "length got + length (em_out e) \<le> (em_now e - now) div slot_interval p + 1" by linarith
  show "length (em_q e) \<le> max_queue"
    using em_run_frame [OF assms(1)] by (simp add: em_frame_def with_queue_def)
qed

theorem emulator_paced_witness:
  "length ([] :: datagram list) + length (em_out (with_queue 5 (quiet_params\<lparr>slot_interval := 10\<rparr>) 3)) \<le>
     (em_now (with_queue 5 (quiet_params\<lparr>slot_interval := 10\<rparr>) 3) - 5) div slot_interval (quiet_params\<lparr>slot_interval := 10\<rparr>) + 1 \<and>
   length (em_q (with_queue 5 (quiet_params\<lparr>slot_interval := 10\<rparr>) 3)) \<le> 3"
  by (rule emulator_paced [OF run_start]) simp

end
