(* ===== verification/Striped.thy ===== *)
theory Striped
  imports Emulator
begin

text \<open>
  Round-robin striping over several substrates, \<^verbatim>\<open>crates/quicmix-eval/src/striped.rs\<close>: the state
  has the substrates, the shared turn counter (a \<open>usize\<close> that wraps) and the queue the receive
  tasks merge into. The substrates are of one arbitrary state type with their operations as arguments,
  as the code has \<open>Arc<dyn MixTransport>\<close>.
\<close>

record 's striped =
  st_subs :: "'s list"
  st_next :: u64
  st_merged :: "datagram list"
  st_oracle :: oracle_params

text \<open>One turn of the loop of \<open>blend\<close>: the rate, the longest path and the drop probabilities so far.\<close>

definition blend_add :: "oracle_params \<Rightarrow> f64 \<times> duration \<times> f64 \<Rightarrow> (f64 \<times> duration \<times> f64) may_panic" where
  "blend_add p acc =
     (case acc of (rate, max_path, drop_sum) \<Rightarrow>
        map_option (\<lambda>path.
          (fl64 (rate + (if slot_interval p = 0 then 1000000000
                         else fl64 (fl64 (of_nat (unat (mtu p))) / as_secs_f64 (slot_interval p)))),
           max max_path path,
           fl64 (drop_sum + drop_prob p)))
        (dur_mul (mean_hop_delay p) (unat (hops p))))"

fun blend_fold :: "oracle_params list \<Rightarrow> f64 \<times> duration \<times> f64 \<Rightarrow> (f64 \<times> duration \<times> f64) may_panic" where
  "blend_fold [] acc = Some acc"
| "blend_fold (p # ps) acc = Option.bind (blend_add p acc) (blend_fold ps)"

definition blend :: "oracle_params list \<Rightarrow> oracle_params may_panic" where
  "blend ps =
     (case ps of
        [] \<Rightarrow> Some \<lparr>hops = 1, mean_hop_delay = 0, drop_prob = 0, slot_interval = 0, mtu = 1200\<rparr>
      | p0 # _ \<Rightarrow>
          do {
            (rate, max_path, drop_sum) \<leftarrow> blend_fold ps (0, 0, 0);
            slot \<leftarrow> (if 0 < rate then from_secs_f64 (fl64 (fl64 (of_nat (unat (mtu p0))) / rate)) else Some 0);
            Some \<lparr>hops = 1, mean_hop_delay = max_path, drop_prob = fl64 (drop_sum / fl64 (of_nat (length ps))),
                  slot_interval = slot, mtu = mtu p0\<rparr>
          })"

definition new_striped :: "('s \<Rightarrow> oracle_params) \<Rightarrow> 's list \<Rightarrow> 's striped may_panic" where
  "new_striped oracle subs =
     map_option (\<lambda>p. \<lparr>st_subs = subs, st_next = 0, st_merged = [], st_oracle = p\<rparr>) (blend (map oracle subs))"

definition st_send :: "(datagram \<Rightarrow> 's \<Rightarrow> 's) \<Rightarrow> datagram \<Rightarrow> 's striped \<Rightarrow> 's striped" where
  "st_send send dg s =
     (if st_subs s = [] then s
      else (let i = unat (st_next s) mod length (st_subs s)
            in s\<lparr>st_next := st_next s + 1, st_subs := (st_subs s)[i := send dg (st_subs s ! i)]\<rparr>))"

text \<open>The receive task of substrate \<open>i\<close> forwarding one datagram.\<close>

definition st_forward :: "('s \<Rightarrow> (datagram option \<times> 's) option) \<Rightarrow> nat \<Rightarrow> 's striped \<Rightarrow> 's striped option" where
  "st_forward recv i s =
     (if i < length (st_subs s)
      then (case recv (st_subs s ! i) of
              Some (Some dg, x) \<Rightarrow> Some (s\<lparr>st_subs := (st_subs s)[i := x], st_merged := st_merged s @ [dg]\<rparr>)
            | _ \<Rightarrow> None)
      else None)"

definition st_recv :: "'s striped \<Rightarrow> (datagram option \<times> 's striped) option" where
  "st_recv s = (case st_merged s of [] \<Rightarrow> None | dg # rest \<Rightarrow> Some (Some dg, s\<lparr>st_merged := rest\<rparr>))"

text \<open>The striped transport moves when a receive task forwards or a substrate does.\<close>

inductive st_step ::
  "('s \<Rightarrow> (datagram option \<times> 's) option) \<Rightarrow> ('s \<Rightarrow> 's \<Rightarrow> bool) \<Rightarrow> 's striped \<Rightarrow> 's striped \<Rightarrow> bool" for recv step where
  st_step_forward: "st_forward recv i s = Some s' \<Longrightarrow> st_step recv step s s'"
| st_step_inner: "i < length (st_subs s) \<Longrightarrow> step (st_subs s ! i) x \<Longrightarrow>
    st_step recv step s (s\<lparr>st_subs := (st_subs s)[i := x]\<rparr>)"

definition st_held :: "('s \<Rightarrow> datagram multiset) \<Rightarrow> 's striped \<Rightarrow> datagram multiset" where
  "st_held held s = sum_list (map held (st_subs s)) + mset (st_merged s)"

section \<open>Striping keeps the transport contract\<close>

lemma sum_list_update_le:
  fixes f :: "'s \<Rightarrow> 'a multiset"
  assumes "i < length xs" and "A + f y \<subseteq># B + f (xs ! i)"
  shows "A + sum_list (map f (xs[i := y])) \<subseteq># B + sum_list (map f xs)"
proof -
  have upd: "xs[i := y] = take i xs @ y # drop (Suc i) xs" using assms(1) by (rule upd_conv_take_nth_drop)
  have xs: "xs = take i xs @ xs ! i # drop (Suc i) xs" using assms(1) by (rule id_take_nth_drop)
  define R where "R = sum_list (map f (take i xs)) + sum_list (map f (drop (Suc i) xs))"
  have "sum_list (map f (xs[i := y])) = R + f y" by (simp add: upd R_def)
  moreover have "sum_list (map f xs) = R + f (xs ! i)" by (subst xs) (simp add: R_def)
  ultimately show ?thesis using assms(2) by (simp add: ac_simps)
qed

locale striped_over =
  fixes send :: "datagram \<Rightarrow> 's \<Rightarrow> 's"
    and recv :: "'s \<Rightarrow> (datagram option \<times> 's) option"
    and step :: "'s \<Rightarrow> 's \<Rightarrow> bool"
    and held :: "'s \<Rightarrow> datagram multiset"
  assumes inner: "mix_transport (default_try_send send) (default_try_recv recv) step held"

sublocale striped_over \<subseteq> inner: mix_transport "default_try_send send" "default_try_recv recv" step held
  by (rule inner)

sublocale striped_over \<subseteq> stripes: mix_transport "default_try_send (st_send send)" "default_try_recv st_recv"
    "st_step recv step" "st_held held"
proof
  fix dg s r s'
  assume "default_try_send (st_send send) dg s = (r, s')"
  then have s': "s' = st_send send dg s" by (simp add: default_try_send_def)
  show "st_held held s' \<subseteq># add_mset dg (st_held held s)"
  proof (cases "st_subs s = []")
    case True
    then show ?thesis by (simp add: s' st_send_def)
  next
    case False
    define i where "i = unat (st_next s) mod length (st_subs s)"
    have i: "i < length (st_subs s)" using False by (simp add: i_def)
    have "held (send dg (st_subs s ! i)) \<subseteq># add_mset dg (held (st_subs s ! i))"
      using inner.try_send_held [of dg "st_subs s ! i"] by (simp add: default_try_send_def)
    then have "{#} + sum_list (map held ((st_subs s)[i := send dg (st_subs s ! i)])) \<subseteq># {#dg#} + sum_list (map held (st_subs s))"
      by (intro sum_list_update_le [OF i]) simp
    then show ?thesis
      using False by (simp add: s' st_send_def st_held_def Let_def flip: i_def)
  qed
next
  fix s dg and s' :: "'s striped"
  assume "default_try_recv st_recv s = Some (Inr dg, s')"
  then show "add_mset dg (st_held held s') \<subseteq># st_held held s"
    by (auto simp: default_try_recv_def st_recv_def st_held_def split: list.splits)
next
  fix s e and s' :: "'s striped"
  assume "default_try_recv st_recv s = Some (Inl e, s')"
  then show "st_held held s' \<subseteq># st_held held s"
    by (auto simp: default_try_recv_def st_recv_def split: list.splits)
next
  fix s s'
  assume "st_step recv step s s'"
  then show "st_held held s' \<subseteq># st_held held s"
  proof cases
    case (st_step_forward i)
    then obtain dg x where i: "i < length (st_subs s)" and r: "recv (st_subs s ! i) = Some (Some dg, x)"
      and s': "s' = s\<lparr>st_subs := (st_subs s)[i := x], st_merged := st_merged s @ [dg]\<rparr>"
      by (auto simp: st_forward_def split: if_splits option.splits)
    have "add_mset dg (held x) \<subseteq># held (st_subs s ! i)"
      using inner.try_recv_held [of "st_subs s ! i" dg x] r by (simp add: default_try_recv_def)
    then have "{#dg#} + sum_list (map held ((st_subs s)[i := x])) \<subseteq># {#} + sum_list (map held (st_subs s))"
      by (intro sum_list_update_le [OF i]) simp
    then show ?thesis by (simp add: s' st_held_def)
  next
    case (st_step_inner i x)
    then have "{#} + sum_list (map held ((st_subs s)[i := x])) \<subseteq># {#} + sum_list (map held (st_subs s))"
      by (intro sum_list_update_le) (auto dest: inner.step_held)
    then show ?thesis using st_step_inner by (simp add: st_held_def)
  qed
qed

interpretation emu_striped: striped_over em_send em_recv "em_step ln64" em_held for ln64
  by (rule striped_over.intro) (rule emu.mix_transport_axioms)

section \<open>The turn counter\<close>

text \<open>
  Users of a shared turn counter: \<open>op a\<close> acts on the target whose turn it is and moves the counter
  on. As long as the counter does not wrap inside the window, any \<open>k\<close> consecutive operations
  reach each of the \<open>k\<close> targets exactly once.
\<close>

locale round_robin =
  fixes op :: "'a \<Rightarrow> 's \<Rightarrow> 's"
    and ctr :: "'s \<Rightarrow> u64"
    and targets :: "'s \<Rightarrow> nat"
    and target :: "'s \<Rightarrow> nat \<Rightarrow> 't"
    and act :: "'a \<Rightarrow> 't \<Rightarrow> 't"
  assumes ctr_op: "0 < targets s \<Longrightarrow> ctr (op a s) = ctr s + 1"
    and targets_op: "targets (op a s) = targets s"
    and target_op: "0 < targets s \<Longrightarrow> i < targets s \<Longrightarrow>
      target (op a s) i = (if i = unat (ctr s) mod targets s then act a (target s i) else target s i)"
begin

lemma targets_fold: "targets (fold op as s) = targets s"
  by (induction as arbitrary: s) (simp_all add: targets_op)

lemma target_untouched:
  assumes "0 < targets s" and "i < targets s" and "unat (ctr s) + length as \<le> u64_limit"
    and "\<forall>j < length as. (unat (ctr s) + j) mod targets s \<noteq> i"
  shows "target (fold op as s) i = target s i"
  using assms
proof (induction as arbitrary: s)
  case (Cons a as)
  have "unat (ctr s) + 1 < u64_limit \<or> as = []" using Cons.prems(3) by (cases as) auto
  then show ?case
  proof
    assume "as = []"
    with Cons.prems show ?thesis by (auto simp: target_op)
  next
    assume lt: "unat (ctr s) + 1 < u64_limit"
    have c: "unat (ctr (op a s)) = unat (ctr s) + 1"
      using lt Cons.prems(1) by (simp add: ctr_op unat_inc)
    have "(unat (ctr s) + 1 + j) mod targets s \<noteq> i" if "j < length as" for j
      using Cons.prems(4) that by (metis Suc_eq_plus1 Suc_less_eq add.assoc add.commute length_Cons)
    then have "target (fold op as (op a s)) i = target (op a s) i"
      using Cons.prems c by (intro Cons.IH) (simp_all add: targets_op)
    moreover have "i \<noteq> unat (ctr s) mod targets s" using Cons.prems(4) by auto
    ultimately show ?thesis using Cons.prems by (simp add: target_op)
  qed
qed simp

lemma mod_window:
  fixes c k :: nat
  assumes "i < k" and "j < k" and "(c + i) mod k = (c + j) mod k"
  shows "i = j"
proof -
  have "(c + i) mod k \<noteq> (c + j) mod k" if "i < j" "j < k" for i j
  proof
    assume "(c + i) mod k = (c + j) mod k"
    then have "k dvd (c + j) - (c + i)" by (metis mod_eq_dvd_iff_nat nat_add_left_cancel_le less_imp_le that(1))
    then show False using that by (auto dest: dvd_imp_le)
  qed
  then show ?thesis using assms by (metis linorder_neqE_nat)
qed

lemma ctr_fold:
  "0 < targets s \<Longrightarrow> unat (ctr s) + length bs < u64_limit \<Longrightarrow> unat (ctr (fold op bs s)) = unat (ctr s) + length bs"
proof (induction bs rule: rev_induct)
  case (snoc b bs)
  then have "unat (ctr (fold op bs s)) = unat (ctr s) + length bs" by simp
  moreover from this snoc.prems have "unat (ctr (fold op bs s)) + 1 < u64_limit" by simp
  ultimately show ?case using snoc.prems(1) by (simp add: targets_fold ctr_op unat_inc)
qed simp

lemma before_turn:
  assumes "0 < targets s" and "length as = j" and "unat (ctr s) + targets s \<le> u64_limit" and "j < targets s"
  shows "target (fold op as s) ((unat (ctr s) + j) mod targets s) = target s ((unat (ctr s) + j) mod targets s)"
proof (rule target_untouched [OF assms(1)])
  show "\<forall>i < length as. (unat (ctr s) + i) mod targets s \<noteq> (unat (ctr s) + j) mod targets s"
  proof (intro allI impI notI)
    fix i assume "i < length as" and "(unat (ctr s) + i) mod targets s = (unat (ctr s) + j) mod targets s"
    then show False using mod_window [of i "targets s" j "unat (ctr s)"] assms(2,4) by simp
  qed
qed (use assms in simp_all)

lemma after_turn:
  assumes "0 < targets s" and "unat (ctr s) = c + Suc j" and "length as = targets s - Suc j"
    and "c + targets s \<le> u64_limit" and "j < targets s"
  shows "target (fold op as s) ((c + j) mod targets s) = target s ((c + j) mod targets s)"
proof (rule target_untouched [OF assms(1)])
  show "\<forall>i < length as. (unat (ctr s) + i) mod targets s \<noteq> (c + j) mod targets s"
  proof (intro allI impI)
    fix i assume "i < length as"
    then show "(unat (ctr s) + i) mod targets s \<noteq> (c + j) mod targets s"
      using mod_window [of "Suc j + i" "targets s" j c] assms(2,3,5) by (auto simp: add.assoc less_diff_conv)
  qed
qed (use assms in simp_all)

lemma one_each:
  assumes "0 < targets s" and "length as = targets s" and "unat (ctr s) + targets s \<le> u64_limit" and "j < targets s"
    and t: "t = (unat (ctr s) + j) mod targets s"
  shows "target (fold op as s) t = act (as ! j) (target s t)"
proof -
  define s1 where "s1 = fold op (take j as) s"
  define s2 where "s2 = op (as ! j) s1"
  have as: "as = take j as @ as ! j # drop (Suc j) as" using assms(2,4) by (simp add: id_take_nth_drop)
  have len: "length (take j as) = j" using assms(2,4) by simp
  have c1: "unat (ctr s1) = unat (ctr s) + j"
    using ctr_fold [of s "take j as"] assms(1,3,4) len by (simp add: s1_def)
  have k1: "targets s1 = targets s" "targets s2 = targets s" by (simp_all add: s1_def s2_def targets_fold targets_op)
  have "target (fold op (drop (Suc j) as) s2) t = target s2 t"
  proof (cases "Suc j = targets s")
    case False
    then have "unat (ctr s2) = unat (ctr s) + Suc j"
      using assms(1,3,4) c1 k1 by (simp add: s2_def ctr_op unat_inc)
    then show ?thesis
      using after_turn [of s2 "unat (ctr s)" j "drop (Suc j) as"] assms k1 by simp
  qed (simp add: assms(2))
  also have "\<dots> = act (as ! j) (target s1 t)"
    using c1 k1 assms(1) by (simp add: s2_def target_op t)
  also have "target s1 t = target s t"
    unfolding s1_def t by (rule before_turn [OF assms(1) len assms(3,4)])
  finally show ?thesis by (subst as) (simp add: s1_def s2_def)
qed

end

interpretation striped_rr: round_robin "st_send send" st_next "\<lambda>s. length (st_subs s)" "\<lambda>s i. st_subs s ! i" send for send
  by unfold_locales (auto simp: st_send_def Let_def)

section \<open>Properties\<close>

lemma blend_fold_ok:
  assumes "\<forall>p \<in> set ps. mean_hop_delay p * unat (hops p) < dur_limit"
    and "\<forall>p \<in> set ps. 0 \<le> drop_prob p" and "0 \<le> ds"
  shows "\<exists>r d. blend_fold ps (rate, m, ds) =
      Some (r, fold (\<lambda>p. max (mean_hop_delay p * unat (hops p))) ps m, d) \<and> 0 \<le> d"
  using assms
proof (induction ps arbitrary: rate m ds)
  case (Cons p ps)
  have "\<exists>r. blend_add p (rate, m, ds) =
      Some (r, max (mean_hop_delay p * unat (hops p)) m, fl64 (ds + drop_prob p))"
    using Cons.prems by (simp add: blend_add_def dur_mul_def max.commute)
  then obtain r where "blend_add p (rate, m, ds) =
      Some (r, max (mean_hop_delay p * unat (hops p)) m, fl64 (ds + drop_prob p))" ..
  moreover have "0 \<le> fl64 (ds + drop_prob p)" using Cons.prems by simp
  ultimately show ?case using Cons.IH [of "fl64 (ds + drop_prob p)" r] Cons.prems by simp
qed simp

lemma fold_max_eq: "fold (\<lambda>p. max (f p)) ps (m :: nat) = Max (insert m (f ` set ps))"
proof (induction ps arbitrary: m)
  case (Cons p ps)
  then show ?case by (cases "ps = []") (simp_all add: max.left_commute max.commute)
qed simp

text \<open>A striped transport over \<open>k\<close> substrates sends any \<open>k\<close> consecutive datagrams to the \<open>k\<close>
  substrates, one each, in rotation from the turn counter (as long as the counter does not wrap in
  between).\<close>

theorem striped_one_each:
  assumes "st_subs s \<noteq> []" and "length dgs = length (st_subs s)"
    and "unat (st_next s) + length dgs \<le> u64_limit" and "j < length dgs"
    and "t = (unat (st_next s) + j) mod length dgs"
  shows "st_subs (fold (st_send send) dgs s) ! t = send (dgs ! j) (st_subs s ! t)"
  using striped_rr.one_each [of s dgs j t send] assms by simp

theorem striped_one_each_witness:
  "st_subs (fold (st_send (\<lambda>dg. (#) dg)) [[1], [2]] \<lparr>st_subs = [[], []], st_next = 5, st_merged = [], st_oracle = quiet_params\<rparr>) ! 0 =
   (\<lambda>dg. (#) dg) ([[1], [2]] ! 1) (st_subs \<lparr>st_subs = [[], []], st_next = 5, st_merged = [], st_oracle = quiet_params\<rparr> ! 0)"
  by (rule striped_one_each) (simp_all add: numeral_2_eq_2 [symmetric])

lemma sum_list_new_emulators: "sum_list (map em_held (map (new_emulator now) ps)) = {#}"
  by (induction ps) (simp_all add: new_emulator_def with_queue_def em_held_def)

definition empty_cell :: oracle_params where
  "empty_cell = quiet_params\<lparr>mean_hop_delay := 7, hops := 3, mtu := 0\<rparr>"

lemma blend_empty_cell: "\<exists>q. blend [empty_cell] = Some q"
  by (auto simp: blend_def blend_add_def empty_cell_def quiet_params_def dur_mul_def dur_limit_def from_secs_f64_def rne_def)

text \<open>Striping over emulated mixnets neither invents nor duplicates datagrams, whatever the
  interleaving of the receive tasks with the substrates.\<close>

theorem striped_no_invention:
  assumes "transport_run (default_try_send (st_send em_send)) (default_try_recv st_recv) (st_step em_recv (em_step ln64))
      s sent got s'"
    and "new_striped em_params (map (new_emulator now) ps) = Some s"
  shows "mset got \<subseteq># mset sent"
proof (rule emu_striped.stripes.no_invention [OF assms(1)])
  show "st_held em_held s = {#}"
    using assms(2) sum_list_new_emulators [of now ps] by (auto simp: new_striped_def st_held_def)
qed

theorem striped_no_invention_witness:
  "\<exists>s. new_striped em_params (map (new_emulator 0) [empty_cell]) = Some s \<and> mset ([] :: datagram list) \<subseteq># mset [[1]]"
proof -
  obtain q where q: "blend [empty_cell] = Some q" using blend_empty_cell ..
  define s where "s = \<lparr>st_subs = [new_emulator 0 empty_cell], st_next = 0, st_merged = [], st_oracle = q\<rparr>"
  have s: "new_striped em_params (map (new_emulator 0) [empty_cell]) = Some s"
    using q by (simp add: new_striped_def s_def new_emulator_def with_queue_def)
  have "transport_run (default_try_send (st_send em_send)) (default_try_recv st_recv) (st_step em_recv (em_step (\<lambda>_. 0)))
      s ([] @ [[1]]) [] (st_send em_send [1] s)"
    by (rule run_send [OF run_start]) (simp add: default_try_send_def)
  from striped_no_invention [OF this s] s show ?thesis by auto
qed

text \<open>The blended oracle of a striped transport. When no path delay overflows, its delay is the
  longest path delay of the substrates over one hop, its MTU the first substrate's and its drop
  probability is not negative; it only panics when the blended slot is too long for a
  \<open>Duration\<close>.\<close>

theorem blend_slowest_path:
  assumes "\<forall>p \<in> set ps. mean_hop_delay p * unat (hops p) < dur_limit"
    and "\<forall>p \<in> set ps. 0 \<le> drop_prob p" and "blend ps = Some q" and "ps \<noteq> []"
  shows "rtt q = dur_mul (Max ((\<lambda>p. mean_hop_delay p * unat (hops p)) ` set ps)) 2 \<and>
         mtu q = mtu (hd ps) \<and> 0 \<le> drop_prob q"
proof -
  obtain r d where f: "blend_fold ps (0, 0, 0) = Some (r, fold (\<lambda>p. max (mean_hop_delay p * unat (hops p))) ps 0, d)"
    and d: "0 \<le> d" using blend_fold_ok [OF assms(1,2), of 0 0 0] by auto
  have "fold (\<lambda>p. max (mean_hop_delay p * unat (hops p))) ps 0 = Max ((\<lambda>p. mean_hop_delay p * unat (hops p)) ` set ps)"
    using assms(4) by (simp add: fold_max_eq)
  with f d assms show ?thesis
    by (cases ps) (auto simp: blend_def rtt_def dur_mul_def split: Option.bind_splits if_splits)
qed

theorem blend_slowest_path_witness:
  "\<exists>q. blend [empty_cell] = Some q \<and>
     rtt q = dur_mul (Max ((\<lambda>p. mean_hop_delay p * unat (hops p)) ` set [empty_cell])) 2 \<and>
     mtu q = mtu (hd [empty_cell]) \<and> 0 \<le> drop_prob q"
proof -
  obtain q where q: "blend [empty_cell] = Some q" using blend_empty_cell ..
  have "rtt q = dur_mul (Max ((\<lambda>p. mean_hop_delay p * unat (hops p)) ` set [empty_cell])) 2 \<and>
      mtu q = mtu (hd [empty_cell]) \<and> 0 \<le> drop_prob q"
    by (rule blend_slowest_path [OF _ _ q]) (simp_all add: empty_cell_def quiet_params_def dur_limit_def)
  with q show ?thesis by blast
qed

end
