(* ===== verification/Substrate.thy ===== *)
theory Substrate
  imports Emulator
begin

text \<open>
  The substrate boundary of \<^verbatim>\<open>crates/quicmix/src/substrate.rs\<close>: a paced, bounded, observable
  layer around any transport.

  The state has the wrapped transport, the two bounded channels, the item the receive pump holds while
  it waits for room, the time until which the send pump sleeps, the watched oracle, the counters (which
  wrap at 64 bits) and the clock. The public operations and each turn of a pump are functions; an
  operation that would wait is \<open>None\<close>. A pump whose transport panics dies with its end of the
  channel: that is the only way a send sees \<open>Closed\<close> while the handle is held.
\<close>

record metrics =
  mt_sent :: u64
  mt_received :: u64
  mt_send_errors :: u64
  mt_dropped :: u64
  mt_queue_depth :: nat
  mt_enqueue_latency_us :: u64

record 's substrate =
  sb_inner :: 's
  sb_depth :: nat
  sb_send_q :: "(nat \<times> datagram) list"
  sb_send_up :: bool
  sb_wake :: nat
  sb_recv_q :: "(substrate_error + datagram) list"
  sb_hand :: "(substrate_error + datagram) option"
  sb_recv_done :: bool
  sb_oracle :: oracle_params
  sb_kind :: substrate_kind
  sb_metrics :: metrics
  sb_now :: nat

definition new_metrics :: metrics where
  "new_metrics = \<lparr>mt_sent = 0, mt_received = 0, mt_send_errors = 0, mt_dropped = 0, mt_queue_depth = 0,
     mt_enqueue_latency_us = 0\<rparr>"

definition new_substrate :: "nat \<Rightarrow> substrate_kind \<Rightarrow> oracle_params \<Rightarrow> 's \<Rightarrow> nat \<Rightarrow> 's substrate" where
  "new_substrate now kind oracle inner queue_depth =
     \<lparr>sb_inner = inner, sb_depth = max queue_depth 1, sb_send_q = [], sb_send_up = True, sb_wake = now,
      sb_recv_q = [], sb_hand = None, sb_recv_done = False, sb_oracle = oracle, sb_kind = kind,
      sb_metrics = new_metrics, sb_now = now\<rparr>"

section \<open>Public operations\<close>

text \<open>A place in the send channel: \<open>Some\<close> with the datagram queued, or why not.\<close>

definition sb_enqueue :: "nat \<Rightarrow> datagram \<Rightarrow> 's substrate \<Rightarrow> substrate_error + 's substrate" where
  "sb_enqueue called dg s =
     (if \<not> sb_send_up s then Inl Closed
      else if length (sb_send_q s) < sb_depth s then Inr (s\<lparr>sb_send_q := sb_send_q s @ [(called, dg)]\<rparr>)
      else Inl Backpressure)"

definition sb_send :: "nat \<Rightarrow> datagram \<Rightarrow> 's substrate \<Rightarrow> ((substrate_error + unit) \<times> 's substrate) option" where
  "sb_send called dg s =
     (case sb_enqueue called dg s of
        Inr s' \<Rightarrow> Some (Inr (), s')
      | Inl Backpressure \<Rightarrow> None
      | Inl e \<Rightarrow> Some (Inl Closed, s))"

definition sb_send_timeout ::
  "nat \<Rightarrow> datagram \<Rightarrow> duration \<Rightarrow> 's substrate \<Rightarrow> ((substrate_error + unit) \<times> 's substrate) option" where
  "sb_send_timeout called dg timeout s =
     (case sb_enqueue called dg s of
        Inr s' \<Rightarrow> Some (Inr (), s')
      | Inl Backpressure \<Rightarrow> if called + timeout \<le> sb_now s then Some (Inl Backpressure, s) else None
      | Inl e \<Rightarrow> Some (Inl Closed, s))"

definition sb_try_send :: "datagram \<Rightarrow> 's substrate \<Rightarrow> (substrate_error + unit) \<times> 's substrate" where
  "sb_try_send dg s =
     (case sb_enqueue (sb_now s) dg s of Inr s' \<Rightarrow> (Inr (), s') | Inl e \<Rightarrow> (Inl e, s))"

definition sb_recv :: "'s substrate \<Rightarrow> ((substrate_error + datagram) \<times> 's substrate) option" where
  "sb_recv s =
     (case sb_recv_q s of
        x # rest \<Rightarrow> Some (x, s\<lparr>sb_recv_q := rest\<rparr>)
      | [] \<Rightarrow> if sb_recv_done s then Some (Inl Closed, s) else None)"

definition update_oracle :: "oracle_params \<Rightarrow> 's substrate \<Rightarrow> 's substrate" where
  "update_oracle p s = s\<lparr>sb_oracle := p\<rparr>"

definition metrics_snapshot :: "'s substrate \<Rightarrow> metrics" where
  "metrics_snapshot s = sb_metrics s"

text \<open>\<open>Substrate\<close> as a \<open>MixTransport\<close>: a lossy send that counts, and a receive without errors.\<close>

definition sb_lossy_send :: "datagram \<Rightarrow> 's substrate \<Rightarrow> 's substrate" where
  "sb_lossy_send dg s =
     (case sb_enqueue (sb_now s) dg s of
        Inr s' \<Rightarrow> s'
      | Inl _ \<Rightarrow> s\<lparr>sb_metrics := (sb_metrics s)\<lparr>mt_dropped := mt_dropped (sb_metrics s) + 1\<rparr>\<rparr>)"

definition sb_lossy_recv :: "'s substrate \<Rightarrow> (datagram option \<times> 's substrate) option" where
  "sb_lossy_recv s =
     map_option (\<lambda>(x, s'). (case x of Inr dg \<Rightarrow> Some dg | Inl _ \<Rightarrow> None, s')) (sb_recv s)"

section \<open>The pumps\<close>

text \<open>One turn of the send pump; \<open>t\<close> is the time at which the inner send returns.\<close>

definition pump_send ::
  "(datagram \<Rightarrow> 's \<Rightarrow> (substrate_error + unit) \<times> 's) \<Rightarrow> nat \<Rightarrow> 's substrate \<Rightarrow> 's substrate option" where
  "pump_send try_send t s =
     (if \<not> sb_send_up s \<or> sb_now s < sb_wake s \<or> t < sb_now s then None
      else case sb_send_q s of
        [] \<Rightarrow> None
      | (enqueued, dg) # rest \<Rightarrow>
          (let m1 = (sb_metrics s)\<lparr>mt_queue_depth := length rest,
                                   mt_enqueue_latency_us := of_nat ((sb_now s - enqueued) div 1000)\<rparr>;
               (r, inner') = try_send dg (sb_inner s);
               m2 = (case r of Inr _ \<Rightarrow> m1\<lparr>mt_sent := mt_sent m1 + 1\<rparr>
                             | Inl _ \<Rightarrow> m1\<lparr>mt_send_errors := mt_send_errors m1 + 1\<rparr>);
               slot = slot_interval (sb_oracle s)
           in Some (s\<lparr>sb_inner := inner', sb_send_q := rest, sb_metrics := m2, sb_now := t,
                      sb_wake := (if slot \<noteq> 0 then t + slot else t)\<rparr>)))"

text \<open>The receive pump: taking an item from the inner transport, then passing it on.\<close>

definition pump_take ::
  "('s \<Rightarrow> ((substrate_error + datagram) \<times> 's) option) \<Rightarrow> 's substrate \<Rightarrow> 's substrate option" where
  "pump_take try_recv s =
     (if sb_recv_done s \<or> sb_hand s \<noteq> None then None
      else case try_recv (sb_inner s) of
        None \<Rightarrow> None
      | Some (Inr dg, inner') \<Rightarrow>
          Some (s\<lparr>sb_inner := inner', sb_hand := Some (Inr dg),
                  sb_metrics := (sb_metrics s)\<lparr>mt_received := mt_received (sb_metrics s) + 1\<rparr>\<rparr>)
      | Some (Inl e, inner') \<Rightarrow> Some (s\<lparr>sb_inner := inner', sb_hand := Some (Inl e)\<rparr>))"

definition pump_push :: "'s substrate \<Rightarrow> 's substrate option" where
  "pump_push s =
     (case sb_hand s of
        None \<Rightarrow> None
      | Some x \<Rightarrow>
          (if length (sb_recv_q s) < sb_depth s
           then Some (s\<lparr>sb_hand := None, sb_recv_q := sb_recv_q s @ [x],
                        sb_recv_done := (case x of Inl _ \<Rightarrow> True | Inr _ \<Rightarrow> False)\<rparr>)
           else None))"

definition send_pump_dies :: "'s substrate \<Rightarrow> 's substrate" where
  "send_pump_dies s = s\<lparr>sb_send_up := False, sb_send_q := []\<rparr>"

definition recv_pump_dies :: "'s substrate \<Rightarrow> 's substrate" where
  "recv_pump_dies s = s\<lparr>sb_recv_done := True, sb_hand := None\<rparr>"

inductive sb_step ::
  "(datagram \<Rightarrow> 's \<Rightarrow> (substrate_error + unit) \<times> 's) \<Rightarrow>
   ('s \<Rightarrow> ((substrate_error + datagram) \<times> 's) option) \<Rightarrow> ('s \<Rightarrow> 's \<Rightarrow> bool) \<Rightarrow>
   's substrate \<Rightarrow> 's substrate \<Rightarrow> bool" for try_send try_recv step where
  sb_step_send: "pump_send try_send t s = Some s' \<Longrightarrow> sb_step try_send try_recv step s s'"
| sb_step_take: "pump_take try_recv s = Some s' \<Longrightarrow> sb_step try_send try_recv step s s'"
| sb_step_push: "pump_push s = Some s' \<Longrightarrow> sb_step try_send try_recv step s s'"
| sb_step_inner: "step (sb_inner s) x \<Longrightarrow> sb_step try_send try_recv step s (s\<lparr>sb_inner := x\<rparr>)"
| sb_step_oracle: "sb_step try_send try_recv step s (update_oracle p s)"
| sb_step_clock: "sb_now s \<le> t \<Longrightarrow> sb_step try_send try_recv step s (s\<lparr>sb_now := t\<rparr>)"
| sb_step_send_dies: "sb_step try_send try_recv step s (send_pump_dies s)"
| sb_step_recv_dies: "sb_step try_send try_recv step s (recv_pump_dies s)"

section \<open>The boundary keeps the transport contract\<close>

definition item_mset :: "substrate_error + datagram \<Rightarrow> datagram multiset" where
  "item_mset x = (case x of Inr dg \<Rightarrow> {#dg#} | Inl _ \<Rightarrow> {#})"

definition sb_held :: "('s \<Rightarrow> datagram multiset) \<Rightarrow> 's substrate \<Rightarrow> datagram multiset" where
  "sb_held held s = mset (map snd (sb_send_q s)) + held (sb_inner s) +
     (case sb_hand s of Some x \<Rightarrow> item_mset x | None \<Rightarrow> {#}) + sum_list (map item_mset (sb_recv_q s))"

lemma sb_lossy_send_held: "sb_held held (sb_lossy_send dg s) \<subseteq># add_mset dg (sb_held held s)"
  by (auto simp: sb_lossy_send_def sb_enqueue_def sb_held_def)

lemma sb_recv_held: "sb_recv s = Some (x, s') \<Longrightarrow> item_mset x + sb_held held s' = sb_held held s"
  by (auto simp: sb_recv_def sb_held_def item_mset_def split: list.splits if_splits sum.splits)

lemma sb_lossy_recv_iff:
  "default_try_recv sb_lossy_recv s = Some (Inr dg, s') \<longleftrightarrow> sb_recv s = Some (Inr dg, s')"
  "default_try_recv sb_lossy_recv s = Some (Inl e, s') \<longleftrightarrow> e = Closed \<and> (\<exists>e'. sb_recv s = Some (Inl e', s'))"
proof -
  have "default_try_recv sb_lossy_recv s =
      map_option (\<lambda>(x, s'). (case x of Inr dg \<Rightarrow> Inr dg | Inl _ \<Rightarrow> Inl Closed, s')) (sb_recv s)"
    by (cases "sb_recv s") (auto simp: default_try_recv_def sb_lossy_recv_def split: sum.split)
  then show "default_try_recv sb_lossy_recv s = Some (Inr dg, s') \<longleftrightarrow> sb_recv s = Some (Inr dg, s')"
    "default_try_recv sb_lossy_recv s = Some (Inl e, s') \<longleftrightarrow> e = Closed \<and> (\<exists>e'. sb_recv s = Some (Inl e', s'))"
    by (cases "sb_recv s"; auto split: sum.splits)+
qed

locale boundary_over = inner: mix_transport try_send try_recv step held
  for try_send :: "datagram \<Rightarrow> 's \<Rightarrow> (substrate_error + unit) \<times> 's" and try_recv step held
begin

lemma pump_send_held:
  assumes "pump_send try_send t s = Some s'"
  shows "sb_held held s' \<subseteq># sb_held held s"
proof -
  obtain enq dg rest where q: "sb_send_q s = (enq, dg) # rest"
    using assms by (auto simp: pump_send_def split: if_splits list.splits)
  obtain r i' where i: "try_send dg (sb_inner s) = (r, i')" by fastforce
  have "held i' \<subseteq># add_mset dg (held (sb_inner s))" by (rule inner.try_send_held [OF i])
  moreover have "sb_inner s' = i'" "sb_send_q s' = rest" "sb_hand s' = sb_hand s" "sb_recv_q s' = sb_recv_q s"
    using assms q i by (auto simp: pump_send_def Let_def split: if_splits)
  ultimately show ?thesis
    by (simp add: sb_held_def q)
qed

lemma pump_take_held:
  assumes "pump_take try_recv s = Some s'"
  shows "sb_held held s' \<subseteq># sb_held held s"
proof -
  obtain x i' where i: "try_recv (sb_inner s) = Some (x, i')" and e: "sb_hand s = None"
    using assms by (auto simp: pump_take_def split: if_splits option.splits)
  have "item_mset x + held i' \<subseteq># held (sb_inner s)"
    using inner.try_recv_held inner.try_recv_err_held i by (cases x) (auto simp: item_mset_def)
  moreover have "sb_inner s' = i'" "sb_hand s' = Some x" "sb_send_q s' = sb_send_q s" "sb_recv_q s' = sb_recv_q s"
    using assms i by (auto simp: pump_take_def split: if_splits sum.splits)
  ultimately show ?thesis by (simp add: sb_held_def e ac_simps)
qed

lemma sb_step_held: "sb_step try_send try_recv step s s' \<Longrightarrow> sb_held held s' \<subseteq># sb_held held s"
proof (induction rule: sb_step.induct)
  case (sb_step_push s s')
  then show ?case by (auto simp: pump_push_def sb_held_def ac_simps split: option.splits if_splits)
next
  case (sb_step_inner s x)
  then show ?case using inner.step_held by (simp add: sb_held_def)
next
  case (sb_step_send t s s')
  then show ?case by (rule pump_send_held)
next
  case (sb_step_take s s')
  then show ?case by (rule pump_take_held)
qed (auto simp: update_oracle_def send_pump_dies_def recv_pump_dies_def sb_held_def)

end

sublocale boundary_over \<subseteq> boundary: mix_transport "default_try_send sb_lossy_send" "default_try_recv sb_lossy_recv"
    "sb_step try_send try_recv step" "sb_held held"
proof
  fix dg r and s s' :: "'s substrate"
  assume "default_try_send sb_lossy_send dg s = (r, s')"
  then show "sb_held held s' \<subseteq># add_mset dg (sb_held held s)"
    using sb_lossy_send_held [of held dg s] by (auto simp: default_try_send_def)
next
  fix dg and s s' :: "'s substrate"
  assume "default_try_recv sb_lossy_recv s = Some (Inr dg, s')"
  then show "add_mset dg (sb_held held s') \<subseteq># sb_held held s"
    using sb_recv_held [of s "Inr dg" s' held] by (simp add: sb_lossy_recv_iff item_mset_def)
next
  fix e and s s' :: "'s substrate"
  assume "default_try_recv sb_lossy_recv s = Some (Inl e, s')"
  then show "sb_held held s' \<subseteq># sb_held held s"
    using sb_recv_held [of s _ s' held] by (auto simp: sb_lossy_recv_iff item_mset_def)
qed (rule sb_step_held)

interpretation emu_boundary: boundary_over em_try_send em_try_recv "em_step ln64" em_held for ln64
  by (rule boundary_over.intro) (rule emu.mix_transport_axioms)

section \<open>Executions\<close>

text \<open>
  The history of an execution: the datagrams accepted, those handed to the inner transport with the
  return time of the inner send and the slot then in force, the items taken from the inner transport,
  those delivered to the consumer, and the number of datagrams refused by the lossy send.
\<close>

record sb_log =
  lg_enq :: "datagram list"
  lg_out :: "(nat \<times> duration \<times> datagram) list"
  lg_took :: "(substrate_error + datagram) list"
  lg_del :: "(substrate_error + datagram) list"
  lg_lost :: nat

definition log_accept :: "substrate_error + unit \<Rightarrow> datagram \<Rightarrow> sb_log \<Rightarrow> sb_log" where
  "log_accept r dg l = (if r = Inr () then l\<lparr>lg_enq := lg_enq l @ [dg]\<rparr> else l)"

text \<open>Executions in which no pump dies: the inner transport does not panic.\<close>

inductive sb_exec ::
  "(datagram \<Rightarrow> 's \<Rightarrow> (substrate_error + unit) \<times> 's) \<Rightarrow>
   ('s \<Rightarrow> ((substrate_error + datagram) \<times> 's) option) \<Rightarrow> ('s \<Rightarrow> 's \<Rightarrow> bool) \<Rightarrow>
   's substrate \<Rightarrow> sb_log \<Rightarrow> 's substrate \<Rightarrow> bool" for try_send try_recv step s0 where
  ex_start: "sb_exec try_send try_recv step s0 \<lparr>lg_enq = [], lg_out = [], lg_took = [], lg_del = [], lg_lost = 0\<rparr> s0"
| ex_send: "sb_exec try_send try_recv step s0 l s \<Longrightarrow> sb_send called dg s = Some (r, s') \<Longrightarrow>
    sb_exec try_send try_recv step s0 (log_accept r dg l) s'"
| ex_send_timeout: "sb_exec try_send try_recv step s0 l s \<Longrightarrow> sb_send_timeout called dg d s = Some (r, s') \<Longrightarrow>
    sb_exec try_send try_recv step s0 (log_accept r dg l) s'"
| ex_try_send: "sb_exec try_send try_recv step s0 l s \<Longrightarrow> sb_try_send dg s = (r, s') \<Longrightarrow>
    sb_exec try_send try_recv step s0 (log_accept r dg l) s'"
| ex_lossy: "sb_exec try_send try_recv step s0 l s \<Longrightarrow> sb_try_send dg s = (r, s') \<Longrightarrow>
    sb_exec try_send try_recv step s0
      (if r = Inr () then log_accept r dg l else l\<lparr>lg_lost := Suc (lg_lost l)\<rparr>) (sb_lossy_send dg s)"
| ex_recv: "sb_exec try_send try_recv step s0 l s \<Longrightarrow> sb_recv s = Some (x, s') \<Longrightarrow>
    sb_exec try_send try_recv step s0 (if sb_recv_q s = [] then l else l\<lparr>lg_del := lg_del l @ [x]\<rparr>) s'"
| ex_pump: "sb_exec try_send try_recv step s0 l s \<Longrightarrow> pump_send try_send t s = Some s' \<Longrightarrow>
    sb_exec try_send try_recv step s0
      (l\<lparr>lg_out := lg_out l @ [(t, slot_interval (sb_oracle s), snd (hd (sb_send_q s)))]\<rparr>) s'"
| ex_take: "sb_exec try_send try_recv step s0 l s \<Longrightarrow> pump_take try_recv s = Some s' \<Longrightarrow>
    sb_exec try_send try_recv step s0 (l\<lparr>lg_took := lg_took l @ [the (sb_hand s')]\<rparr>) s'"
| ex_push: "sb_exec try_send try_recv step s0 l s \<Longrightarrow> pump_push s = Some s' \<Longrightarrow>
    sb_exec try_send try_recv step s0 l s'"
| ex_inner: "sb_exec try_send try_recv step s0 l s \<Longrightarrow> step (sb_inner s) x \<Longrightarrow>
    sb_exec try_send try_recv step s0 l (s\<lparr>sb_inner := x\<rparr>)"
| ex_oracle: "sb_exec try_send try_recv step s0 l s \<Longrightarrow>
    sb_exec try_send try_recv step s0 l (update_oracle p s)"
| ex_clock: "sb_exec try_send try_recv step s0 l s \<Longrightarrow> sb_now s \<le> t \<Longrightarrow>
    sb_exec try_send try_recv step s0 l (s\<lparr>sb_now := t\<rparr>)"

text \<open>The invariant of the send side and of the receive side.\<close>

definition send_inv :: "sb_log \<Rightarrow> 's substrate \<Rightarrow> bool" where
  "send_inv l s \<longleftrightarrow>
     sb_send_up s \<and> 0 < sb_depth s \<and> length (sb_send_q s) \<le> sb_depth s \<and>
     mt_queue_depth (sb_metrics s) \<le> sb_depth s \<and>
     lg_enq l = map (snd \<circ> snd) (lg_out l) @ map snd (sb_send_q s) \<and>
     mt_sent (sb_metrics s) + mt_send_errors (sb_metrics s) = of_nat (length (lg_out l)) \<and>
     mt_dropped (sb_metrics s) = of_nat (lg_lost l)"

definition recv_inv :: "sb_log \<Rightarrow> 's substrate \<Rightarrow> bool" where
  "recv_inv l s \<longleftrightarrow>
     length (sb_recv_q s) \<le> sb_depth s \<and> (sb_recv_done s \<longrightarrow> sb_hand s = None) \<and>
     lg_took l = lg_del l @ sb_recv_q s @ (case sb_hand s of Some x \<Rightarrow> [x] | None \<Rightarrow> []) \<and>
     mt_received (sb_metrics s) = of_nat (length (filter (\<lambda>x. \<not> isl x) (lg_took l)))"

definition pace_inv :: "sb_log \<Rightarrow> 's substrate \<Rightarrow> bool" where
  "pace_inv l s \<longleftrightarrow>
     successively (\<lambda>a b. fst a + fst (snd a) \<le> fst b) (lg_out l) \<and>
     (lg_out l \<noteq> [] \<longrightarrow> fst (last (lg_out l)) + fst (snd (last (lg_out l))) = sb_wake s)"

text \<open>The queueing operations touch the send queue and the drop counter only.\<close>

definition accepts :: "substrate_error + unit \<Rightarrow> datagram \<Rightarrow> 's substrate \<Rightarrow> 's substrate \<Rightarrow> bool" where
  "accepts r dg s s' \<longleftrightarrow>
     (if r = Inr ()
      then sb_send_up s \<and> length (sb_send_q s) < sb_depth s \<and> (\<exists>c. s' = s\<lparr>sb_send_q := sb_send_q s @ [(c, dg)]\<rparr>)
      else s' = s \<and> (r = Inl Closed \<longrightarrow> \<not> sb_send_up s) \<and> (r = Inl Backpressure \<longrightarrow> sb_depth s \<le> length (sb_send_q s)))"

lemma accepts_ops:
  "sb_send called dg s = Some (r, s') \<Longrightarrow> accepts r dg s s'"
  "sb_send_timeout called dg d s = Some (r, s') \<Longrightarrow> accepts r dg s s'"
  "sb_try_send dg s = (r, s') \<Longrightarrow> accepts r dg s s'"
  by (auto simp: accepts_def sb_send_def sb_send_timeout_def sb_try_send_def sb_enqueue_def split: if_splits)

lemma accepts_inv:
  assumes "accepts r dg s s'"
  shows "send_inv l s \<Longrightarrow> send_inv (log_accept r dg l) s'"
    and "recv_inv l s \<Longrightarrow> recv_inv (log_accept r dg l) s'"
    and "pace_inv l s \<Longrightarrow> pace_inv (log_accept r dg l) s'"
  using assms by (auto simp: accepts_def log_accept_def send_inv_def recv_inv_def pace_inv_def split: if_splits)

lemma sb_lossy_send_conv:
  "sb_lossy_send dg s =
   (case sb_try_send dg s of
      (Inr _, s') \<Rightarrow> s'
    | (Inl _, _) \<Rightarrow> s\<lparr>sb_metrics := (sb_metrics s)\<lparr>mt_dropped := mt_dropped (sb_metrics s) + 1\<rparr>\<rparr>)"
  by (auto simp: sb_lossy_send_def sb_try_send_def split: sum.split)

lemma lossy_inv:
  assumes "sb_try_send dg s = (r, s')"
  shows "send_inv l s \<Longrightarrow> send_inv (if r = Inr () then log_accept r dg l else l\<lparr>lg_lost := Suc (lg_lost l)\<rparr>) (sb_lossy_send dg s)"
    and "recv_inv l s \<Longrightarrow> recv_inv (if r = Inr () then log_accept r dg l else l\<lparr>lg_lost := Suc (lg_lost l)\<rparr>) (sb_lossy_send dg s)"
    and "pace_inv l s \<Longrightarrow> pace_inv (if r = Inr () then log_accept r dg l else l\<lparr>lg_lost := Suc (lg_lost l)\<rparr>) (sb_lossy_send dg s)"
  using accepts_inv [OF accepts_ops(3) [OF assms], of l]
  by (cases r; simp add: sb_lossy_send_conv assms; simp add: send_inv_def recv_inv_def pace_inv_def)+

lemma pump_send_inv:
  fixes l :: sb_log
  assumes "pump_send try_send t s = Some s'"
  defines "l' \<equiv> l\<lparr>lg_out := lg_out l @ [(t, slot_interval (sb_oracle s), snd (hd (sb_send_q s)))]\<rparr>"
  shows "send_inv l s \<Longrightarrow> send_inv l' s'" and "recv_inv l s \<Longrightarrow> recv_inv l' s'" and "pace_inv l s \<Longrightarrow> pace_inv l' s'"
proof -
  obtain enq dg rest where q: "sb_send_q s = (enq, dg) # rest" and t: "sb_wake s \<le> sb_now s" "sb_now s \<le> t"
    using assms(1) by (auto simp: pump_send_def split: if_splits list.splits)
  obtain r i' where i: "try_send dg (sb_inner s) = (r, i')" by fastforce
  have s': "sb_send_up s' = sb_send_up s" "sb_depth s' = sb_depth s" "sb_send_q s' = rest" "sb_hand s' = sb_hand s"
    "sb_recv_q s' = sb_recv_q s" "sb_recv_done s' = sb_recv_done s" "sb_wake s' = t + slot_interval (sb_oracle s)"
    "mt_queue_depth (sb_metrics s') = length rest" "mt_dropped (sb_metrics s') = mt_dropped (sb_metrics s)"
    "mt_received (sb_metrics s') = mt_received (sb_metrics s)"
    "mt_sent (sb_metrics s') + mt_send_errors (sb_metrics s') = mt_sent (sb_metrics s) + mt_send_errors (sb_metrics s) + 1"
    using assms(1) q i by (auto simp: pump_send_def Let_def split: if_splits sum.splits)
  show "send_inv l s \<Longrightarrow> send_inv l' s'" by (auto simp: send_inv_def l'_def s' q)
  show "recv_inv l s \<Longrightarrow> recv_inv l' s'" by (auto simp: recv_inv_def l'_def s')
  show "pace_inv l s \<Longrightarrow> pace_inv l' s'"
    using t by (auto simp: pace_inv_def l'_def s' successively_append_iff)
qed

lemma pump_take_inv:
  fixes l :: sb_log
  assumes "pump_take try_recv s = Some s'"
  defines "l' \<equiv> l\<lparr>lg_took := lg_took l @ [the (sb_hand s')]\<rparr>"
  shows "send_inv l s \<Longrightarrow> send_inv l' s'" and "recv_inv l s \<Longrightarrow> recv_inv l' s'" and "pace_inv l s \<Longrightarrow> pace_inv l' s'"
  using assms(1)
  by (auto simp: pump_take_def send_inv_def recv_inv_def pace_inv_def l'_def split: if_splits option.splits sum.splits)

lemma pump_push_inv:
  assumes "pump_push s = Some s'"
  shows "send_inv l s \<Longrightarrow> send_inv l s'" and "recv_inv l s \<Longrightarrow> recv_inv l s'" and "pace_inv l s \<Longrightarrow> pace_inv l s'"
  using assms by (auto simp: pump_push_def send_inv_def recv_inv_def pace_inv_def split: if_splits option.splits sum.splits)

lemma recv_item_inv:
  fixes l :: sb_log
  assumes "sb_recv s = Some (x, s')"
  defines "l' \<equiv> (if sb_recv_q s = [] then l else l\<lparr>lg_del := lg_del l @ [x]\<rparr>)"
  shows "send_inv l s \<Longrightarrow> send_inv l' s'" and "recv_inv l s \<Longrightarrow> recv_inv l' s'" and "pace_inv l s \<Longrightarrow> pace_inv l' s'"
  using assms(1)
  by (auto simp: sb_recv_def send_inv_def recv_inv_def pace_inv_def l'_def split: if_splits list.splits)

lemma inv_frames [simp]:
  "send_inv l (s\<lparr>sb_inner := x\<rparr>) = send_inv l s" "recv_inv l (s\<lparr>sb_inner := x\<rparr>) = recv_inv l s"
  "pace_inv l (s\<lparr>sb_inner := x\<rparr>) = pace_inv l s"
  "send_inv l (s\<lparr>sb_oracle := p\<rparr>) = send_inv l s" "recv_inv l (s\<lparr>sb_oracle := p\<rparr>) = recv_inv l s"
  "pace_inv l (s\<lparr>sb_oracle := p\<rparr>) = pace_inv l s"
  "send_inv l (s\<lparr>sb_now := t\<rparr>) = send_inv l s" "recv_inv l (s\<lparr>sb_now := t\<rparr>) = recv_inv l s"
  "pace_inv l (s\<lparr>sb_now := t\<rparr>) = pace_inv l s"
  by (simp_all add: send_inv_def recv_inv_def pace_inv_def)

lemma exec_inv:
  assumes "sb_exec try_send try_recv step s0 l s" and "s0 = new_substrate now kind oracle inner depth"
  shows "send_inv l s \<and> recv_inv l s \<and> pace_inv l s"
  using assms(1)
proof (induction rule: sb_exec.induct)
  case ex_start
  show ?case
    by (simp add: assms(2) send_inv_def recv_inv_def pace_inv_def new_substrate_def new_metrics_def)
next
  case (ex_lossy l s dg r s')
  then show ?case by (metis lossy_inv)
qed (auto simp: accepts_inv accepts_ops pump_send_inv pump_take_inv pump_push_inv recv_item_inv update_oracle_def
    intro: accepts_inv [OF accepts_ops(1)] accepts_inv [OF accepts_ops(2)] accepts_inv [OF accepts_ops(3)])

section \<open>Properties\<close>

text \<open>C12: the boundary delivers in order and counts exactly. In every execution the datagrams accepted
  are, in order, those handed to the inner transport followed by those still queued; the send counters
  add up to the datagrams handed over, the drop counter is the number refused by the lossy send; the
  items taken from the inner transport (its error included) reach the consumer in order; and neither
  queue exceeds its depth.\<close>

theorem substrate_fifo_accounting:
  assumes "sb_exec try_send try_recv step (new_substrate now kind oracle inner depth) l s"
  shows "lg_enq l = map (snd \<circ> snd) (lg_out l) @ map snd (sb_send_q s) \<and>
    mt_sent (metrics_snapshot s) + mt_send_errors (metrics_snapshot s) = of_nat (length (lg_out l)) \<and>
    mt_dropped (metrics_snapshot s) = of_nat (lg_lost l) \<and>
    lg_took l = lg_del l @ sb_recv_q s @ (case sb_hand s of Some x \<Rightarrow> [x] | None \<Rightarrow> []) \<and>
    mt_received (metrics_snapshot s) = of_nat (length (filter (\<lambda>x. \<not> isl x) (lg_took l))) \<and>
    length (sb_send_q s) \<le> sb_depth s \<and> length (sb_recv_q s) \<le> sb_depth s"
  using exec_inv [OF assms refl] by (auto simp: send_inv_def recv_inv_def metrics_snapshot_def)

definition demo_substrate :: "emulator substrate" where
  "demo_substrate = new_substrate 0 Datagram quiet_params (new_emulator 0 quiet_params) 1"

lemma demo_exec:
  "sb_exec em_try_send em_try_recv (em_step (\<lambda>_. 0)) demo_substrate
     \<lparr>lg_enq = [[1]], lg_out = [], lg_took = [], lg_del = [], lg_lost = 1\<rparr>
     (sb_lossy_send [2] (snd (sb_try_send [1] demo_substrate)))"
proof -
  note [simp] = demo_substrate_def new_substrate_def sb_try_send_def sb_enqueue_def log_accept_def
  have "sb_exec em_try_send em_try_recv (em_step (\<lambda>_. 0)) demo_substrate
      \<lparr>lg_enq = [[1]], lg_out = [], lg_took = [], lg_del = [], lg_lost = 0\<rparr> (snd (sb_try_send [1] demo_substrate))"
    using ex_try_send [OF ex_start, of "[1]" demo_substrate "Inr ()" "snd (sb_try_send [1] demo_substrate)"] by simp
  from ex_lossy [OF this, of "[2]" "Inl Backpressure"] show ?thesis by simp
qed

theorem substrate_fifo_accounting_witness:
  "mt_dropped (metrics_snapshot (sb_lossy_send [2] (snd (sb_try_send [1] demo_substrate)))) = of_nat 1 \<and>
   [[1]] = map (snd \<circ> snd) ([] :: (nat \<times> duration \<times> datagram) list) @
     map snd (sb_send_q (sb_lossy_send [2] (snd (sb_try_send [1] demo_substrate))))"
  using substrate_fifo_accounting [OF demo_exec [unfolded demo_substrate_def]] by (simp add: demo_substrate_def)

lemma successively_spaced:
  fixes xs :: "(nat \<times> nat \<times> 'a) list"
  assumes "successively (\<lambda>a b. fst a + fst (snd a) \<le> fst b) xs" and "\<forall>x \<in> set xs. \<sigma> \<le> fst (snd x)"
    and "i + n < length xs"
  shows "fst (xs ! i) + n * \<sigma> \<le> fst (xs ! (i + n))"
  using assms(3)
proof (induction n)
  case (Suc n)
  have "xs ! (i + n) \<in> set xs" using Suc.prems by simp
  then have "\<sigma> \<le> fst (snd (xs ! (i + n)))" using assms(2) by blast
  moreover have "fst (xs ! (i + n)) + fst (snd (xs ! (i + n))) \<le> fst (xs ! Suc (i + n))"
    using assms(1) Suc.prems by (simp add: successively_conv_nth)
  ultimately show ?case using Suc by simp
qed simp

text \<open>C13: the constant-rate budget is enforced. While every oracle in force has a slot of at least
  \<open>\<sigma>\<close>, \<open>n\<close> datagrams after any datagram handed to the inner transport, at least \<open>n\<close> slots have
  passed, however the boundary is loaded and however the oracle is updated.\<close>

theorem substrate_paced:
  assumes "sb_exec try_send try_recv step (new_substrate now kind oracle inner depth) l s"
    and "\<forall>x \<in> set (lg_out l). \<sigma> \<le> fst (snd x)" and "i + n < length (lg_out l)"
  shows "fst (lg_out l ! i) + n * \<sigma> \<le> fst (lg_out l ! (i + n))"
  using exec_inv [OF assms(1) refl] successively_spaced [OF _ assms(2,3)] by (simp add: pace_inv_def)

definition slow_substrate :: "nat substrate" where
  "slow_substrate = new_substrate 0 Datagram (quiet_params\<lparr>slot_interval := 10\<rparr>) 0 4"

text \<open>Two datagrams through a substrate with a slot of 10, over a transport that counts its sends.\<close>

lemma slow_exec:
  "\<exists>s. sb_exec (\<lambda>dg k. (Inr (), Suc k)) (\<lambda>k. None) (\<lambda>a b. False) slow_substrate
     \<lparr>lg_enq = [[1], [2]], lg_out = [(3, 10, [1]), (13, 10, [2])], lg_took = [], lg_del = [], lg_lost = 0\<rparr> s"
proof -
  note [simp] = slow_substrate_def new_substrate_def sb_try_send_def sb_enqueue_def log_accept_def pump_send_def
    quiet_params_def new_metrics_def Let_def
  let ?ex = "sb_exec (\<lambda>dg k. (Inr (), Suc k)) (\<lambda>k. None) (\<lambda>a b. False) slow_substrate"
  obtain s1 where 1: "?ex \<lparr>lg_enq = [[1]], lg_out = [], lg_took = [], lg_del = [], lg_lost = 0\<rparr> s1"
    and s1: "s1 = slow_substrate\<lparr>sb_send_q := [(0, [1])]\<rparr>"
    using ex_try_send [OF ex_start, of "[1]" slow_substrate "Inr ()" "slow_substrate\<lparr>sb_send_q := [(0, [1])]\<rparr>"] by simp
  obtain s2 where 2: "?ex \<lparr>lg_enq = [[1], [2]], lg_out = [], lg_took = [], lg_del = [], lg_lost = 0\<rparr> s2"
    and s2: "s2 = slow_substrate\<lparr>sb_send_q := [(0, [1]), (0, [2])]\<rparr>"
    using ex_try_send [OF 1, of "[2]" "Inr ()" "slow_substrate\<lparr>sb_send_q := [(0, [1]), (0, [2])]\<rparr>"] by (simp add: s1)
  obtain s3 where p: "pump_send (\<lambda>dg k. (Inr (), Suc k)) 3 s2 = Some s3" by (simp add: s2)
  obtain s4 where p2: "pump_send (\<lambda>dg k. (Inr (), Suc k)) 13 (s3\<lparr>sb_now := 13\<rparr>) = Some s4"
    using p by (auto simp: s2)
  have "?ex \<lparr>lg_enq = [[1], [2]], lg_out = [(3, 10, [1])], lg_took = [], lg_del = [], lg_lost = 0\<rparr> s3"
    using ex_pump [OF 2 p] by (simp add: s2)
  then have "?ex \<lparr>lg_enq = [[1], [2]], lg_out = [(3, 10, [1])], lg_took = [], lg_del = [], lg_lost = 0\<rparr> (s3\<lparr>sb_now := 13\<rparr>)"
    by (rule ex_clock) (use p in \<open>auto simp: s2\<close>)
  from ex_pump [OF this p2] show ?thesis using p by (auto simp: s2)
qed

theorem substrate_paced_witness:
  "\<exists>l s. sb_exec (\<lambda>dg k. (Inr (), Suc k)) (\<lambda>k. None) (\<lambda>a b. False) slow_substrate l s \<and>
     map (snd \<circ> snd) (lg_out l) = [[1], [2]] \<and> fst (lg_out l ! 0) + 1 * 10 \<le> fst (lg_out l ! (0 + 1))"
proof -
  let ?l = "\<lparr>lg_enq = [[1], [2]], lg_out = [(3, 10, [1]), (13, 10, [2])], lg_took = [], lg_del = [], lg_lost = 0\<rparr>"
  obtain s where run: "sb_exec (\<lambda>dg k. (Inr (), Suc k)) (\<lambda>k. None) (\<lambda>a b. False) slow_substrate ?l s"
    using slow_exec by blast
  have "fst (lg_out ?l ! 0) + 1 * 10 \<le> fst (lg_out ?l ! (0 + 1))"
    by (rule substrate_paced [OF run [unfolded slow_substrate_def]]) simp_all
  with run show ?thesis by (intro exI [of _ ?l] exI [of _ s]) simp
qed

text \<open>C14: overload is explicit. In every execution no send reports \<open>Closed\<close>; a non-blocking send
  reports \<open>Backpressure\<close> exactly when the queue holds \<open>depth\<close> datagrams, a send with a deadline
  exactly when it still does at the deadline, and a blocking send waits exactly then; otherwise the
  datagram is queued.\<close>

theorem substrate_backpressure:
  assumes "sb_exec try_send try_recv step (new_substrate now kind oracle inner depth) l s"
  shows "if length (sb_send_q s) = max depth 1
     then sb_try_send dg s = (Inl Backpressure, s) \<and> sb_send c dg s = None \<and>
          sb_send_timeout c dg d s = (if c + d \<le> sb_now s then Some (Inl Backpressure, s) else None)
     else sb_try_send dg s = (Inr (), s\<lparr>sb_send_q := sb_send_q s @ [(sb_now s, dg)]\<rparr>) \<and>
          sb_send c dg s = Some (Inr (), s\<lparr>sb_send_q := sb_send_q s @ [(c, dg)]\<rparr>) \<and>
          sb_send_timeout c dg d s = sb_send c dg s"
proof -
  have "sb_depth s = max depth 1"
    using assms
  proof (induction rule: sb_exec.induct)
    case ex_start
    show ?case by (simp add: new_substrate_def)
  next
    case (ex_lossy l s dg r s')
    then show ?case by (simp add: sb_lossy_send_def sb_enqueue_def)
  qed (auto simp: sb_send_def sb_send_timeout_def sb_try_send_def sb_enqueue_def sb_recv_def pump_send_def pump_take_def
      pump_push_def update_oracle_def Let_def split: if_splits list.splits option.splits sum.splits prod.splits)
  moreover have "send_inv l s" using exec_inv [OF assms refl] by simp
  ultimately show ?thesis
    by (auto simp: send_inv_def sb_try_send_def sb_send_def sb_send_timeout_def sb_enqueue_def)
qed

theorem substrate_backpressure_witness:
  "if length (sb_send_q (sb_lossy_send [2] (snd (sb_try_send [1] demo_substrate)))) = max 1 1
     then sb_try_send [3] (sb_lossy_send [2] (snd (sb_try_send [1] demo_substrate))) =
            (Inl Backpressure, sb_lossy_send [2] (snd (sb_try_send [1] demo_substrate)))
     else False"
  using substrate_backpressure [OF demo_exec [unfolded demo_substrate_def], of "[3]" 0 0]
  by (simp add: demo_substrate_def new_substrate_def sb_try_send_def sb_enqueue_def sb_lossy_send_def)

text \<open>C16: whatever the pumps, the emulated mixnet inside and the caller do, the boundary never invents or
  duplicates a datagram, also when a pump dies.\<close>

theorem boundary_no_invention:
  assumes "transport_run (default_try_send sb_lossy_send) (default_try_recv sb_lossy_recv)
      (sb_step em_try_send em_try_recv (em_step ln64)) (new_substrate now kind oracle (new_emulator now p) depth) sent got s"
  shows "mset got \<subseteq># mset sent"
  using assms
  by (rule emu_boundary.boundary.no_invention)
     (simp add: sb_held_def new_substrate_def new_emulator_def with_queue_def em_held_def)

text \<open>A boundary over a mixnet without delays passes a queued datagram on, and a run may take such steps at any time.\<close>

lemma run_steps: "transport_run snd_op rcv_op step s sent got s1 \<Longrightarrow> step\<^sup>*\<^sup>* s1 s2 \<Longrightarrow> transport_run snd_op rcv_op step s sent got s2"
  by (rotate_tac, induction rule: rtranclp_induct) (auto intro: run_step)

lemma quiet_passes:
  assumes "sb_send_q s = [(c, dg)]" and "sb_send_up s" and "sb_wake s \<le> sb_now s" and "sb_inner s = new_emulator 0 quiet_params"
    and "sb_recv_q s = []" and "sb_hand s = None" and "\<not> sb_recv_done s" and "0 < sb_depth s"
  shows "\<exists>s'. (sb_step em_try_send em_try_recv (em_step ln64))\<^sup>*\<^sup>* s s' \<and> sb_recv s' = Some (Inr dg, s'\<lparr>sb_recv_q := []\<rparr>)"
proof -
  let ?step = "sb_step em_try_send em_try_recv (em_step ln64)" and ?e = "new_emulator 0 quiet_params"
  have inner: "?step s (s\<lparr>sb_inner := x\<rparr>)" if "em_step ln64 (sb_inner s) x" for s x using that by (rule sb_step_inner)
  obtain s1 where s1: "pump_send em_try_send (sb_now s) s = Some s1"
      "sb_inner s1 = ?e\<lparr>em_in := [dg]\<rparr>" "sb_recv_q s1 = []" "sb_hand s1 = None" "\<not> sb_recv_done s1" "0 < sb_depth s1"
    using assms by (simp add: pump_send_def Let_def default_try_send_def em_send_def new_emulator_def with_queue_def)
  define s2 where "s2 = s1\<lparr>sb_inner := ?e\<lparr>em_delayed := [(0, dg)]\<rparr>\<rparr>"
  define s3 where "s3 = s2\<lparr>sb_inner := ?e\<lparr>em_ready := [dg]\<rparr>\<rparr>"
  define s4 where "s4 = s3\<lparr>sb_inner := ?e\<lparr>em_out := [dg]\<rparr>\<rparr>"
  have "em_step ln64 (?e\<lparr>em_in := [dg]\<rparr>) (?e\<lparr>em_delayed := [(0, dg)]\<rparr>)"
    using quiet_stage1 [of "?e\<lparr>em_in := [dg]\<rparr>" dg "[]" ln64] by (simp add: new_emulator_def with_queue_def)
  then have 2: "?step s1 s2" unfolding s2_def by (intro inner) (simp add: s1)
  have "em_step ln64 (?e\<lparr>em_delayed := [(0, dg)]\<rparr>) (?e\<lparr>em_ready := [dg]\<rparr>)"
    by (rule step_wake [of 0]) (simp add: em_wake_def new_emulator_def with_queue_def)
  then have 3: "?step s2 s3" unfolding s3_def by (intro inner) (simp add: s2_def)
  have "em_step ln64 (?e\<lparr>em_ready := [dg]\<rparr>) (?e\<lparr>em_out := [dg]\<rparr>)"
    by (rule step_accept) (simp add: em_accept_def new_emulator_def with_queue_def quiet_params_def)
  then have 4: "?step s3 s4" unfolding s4_def by (intro inner) (simp add: s3_def)
  have hand: "sb_recv_q s4 = []" "sb_hand s4 = None" "\<not> sb_recv_done s4" "sb_inner s4 = ?e\<lparr>em_out := [dg]\<rparr>" "0 < sb_depth s4"
    using s1 by (simp_all add: s4_def s3_def s2_def)
  obtain s5 where s5: "pump_take em_try_recv s4 = Some s5" "sb_hand s5 = Some (Inr dg)" "sb_recv_q s5 = []" "0 < sb_depth s5"
    using hand by (simp add: pump_take_def default_try_recv_def em_recv_def)
  obtain s6 where s6: "pump_push s5 = Some s6" "sb_recv_q s6 = [Inr dg]"
    using s5 by (simp add: pump_push_def)
  have "?step\<^sup>*\<^sup>* s s6"
    using sb_step_send [OF s1(1)] 2 3 4 sb_step_take [OF s5(1)] sb_step_push [OF s6(1)]
    by (meson converse_rtranclp_into_rtranclp rtranclp.rtrancl_refl)
  then show ?thesis using s6(2) by (intro exI [of _ s6]) (simp add: sb_recv_def)
qed

text \<open>Two datagrams to a boundary with room for one: the second is refused, the first is delivered through the mixnet.\<close>

theorem boundary_no_invention_witness:
  "\<exists>got s. transport_run (default_try_send sb_lossy_send) (default_try_recv sb_lossy_recv) (sb_step em_try_send em_try_recv (em_step (\<lambda>_. 0)))
       (new_substrate 0 Datagram quiet_params (new_emulator 0 quiet_params) 1) [[1], [2]] got s \<and>
     got = [[1]] \<and> mset got \<subseteq># mset [[1], [2]]"
proof -
  let ?s0 = "new_substrate 0 Datagram quiet_params (new_emulator 0 quiet_params) 1"
  let ?run = "transport_run (default_try_send sb_lossy_send) (default_try_recv sb_lossy_recv) (sb_step em_try_send em_try_recv (em_step (\<lambda>_. 0))) ?s0"
  define s1 where "s1 = sb_lossy_send [2] (sb_lossy_send [1] ?s0)"
  have "?run ([] @ [[1]]) [] (sb_lossy_send [1] ?s0)" by (rule run_send [OF run_start]) (simp add: default_try_send_def)
  then have "?run (([] @ [[1]]) @ [[2]]) [] s1" by (rule run_send) (simp add: default_try_send_def s1_def)
  moreover obtain s2 where "(sb_step em_try_send em_try_recv (em_step (\<lambda>_. 0)))\<^sup>*\<^sup>* s1 s2"
    and s2: "sb_recv s2 = Some (Inr [1], s2\<lparr>sb_recv_q := []\<rparr>)"
    using quiet_passes [of s1 0 "[1]" "\<lambda>_. 0"] by (auto simp: s1_def sb_lossy_send_def sb_enqueue_def new_substrate_def)
  ultimately have "?run [[1], [2]] [] s2" by (auto dest: run_steps)
  then have "?run [[1], [2]] ([] @ [[1]]) (s2\<lparr>sb_recv_q := []\<rparr>)"
    by (rule run_recv) (simp add: sb_lossy_recv_iff s2)
  with boundary_no_invention [OF this] show ?thesis by (intro exI [of _ "[[1]]"] exI) simp
qed

end
