(* ===== verification/Relay.thy ===== *)
theory Relay
  imports Substrate Congestion Net Rust_Io
begin

text \<open>
  The UDP sides of a substrate: the mix relay of \<^verbatim>\<open>crates/quicmix/src/relay.rs\<close> and the client
  front of \<^verbatim>\<open>crates/quicmix/src/front.rs\<close> (\<open>spawn_substrate_front\<close>).

  A loop that reads a UDP socket and sends into a boundary holds one datagram while the boundary has
  no room; \<open>udp_port\<close> is its state, with the peer address it last learned and whether the loop is
  still running. A datagram is cut to the 65535-byte buffer. Sends to a UDP socket are returned as
  outputs; their result is ignored by the code.
\<close>

record udp_port =
  up_peer :: "socket_addr option"
  up_hand :: "(nat \<times> datagram) option"
  up_running :: bool

definition new_port :: udp_port where
  "new_port = \<lparr>up_peer = None, up_hand = None, up_running = True\<rparr>"

text \<open>\<open>recv_from\<close>: the peer is learned before the send is attempted.\<close>

definition port_recv :: "nat \<Rightarrow> socket_addr \<Rightarrow> datagram \<Rightarrow> udp_port \<Rightarrow> udp_port option" where
  "port_recv now addr dg u =
     (if up_running u \<and> up_hand u = None
      then Some (u\<lparr>up_peer := Some addr, up_hand := Some (now, take 65535 dg)\<rparr>)
      else None)"

text \<open>The loop towards the server does not look at where a datagram comes from.\<close>

definition port_take :: "nat \<Rightarrow> datagram \<Rightarrow> udp_port \<Rightarrow> udp_port option" where
  "port_take now dg u =
     (if up_running u \<and> up_hand u = None then Some (u\<lparr>up_hand := Some (now, take 65535 dg)\<rparr>) else None)"

text \<open>A receive that fails ends the loop.\<close>

definition port_fail :: "udp_port \<Rightarrow> udp_port option" where
  "port_fail u = (if up_running u \<and> up_hand u = None then Some (u\<lparr>up_running := False\<rparr>) else None)"

definition port_send :: "udp_port \<Rightarrow> 's substrate \<Rightarrow> (udp_port \<times> 's substrate) option" where
  "port_send u s =
     (case up_hand u of
        None \<Rightarrow> None
      | Some (called, dg) \<Rightarrow>
          map_option (\<lambda>(r, s'). (u\<lparr>up_hand := None, up_running := (r = Inr ())\<rparr>, s')) (sb_send called dg s))"

text \<open>The loop on the other side, \<open>while let Ok(dg) = sub.recv()\<close>: what it puts on the wire.\<close>

definition drain :: "bool \<Rightarrow> 's substrate \<Rightarrow> (datagram option \<times> bool \<times> 's substrate) option" where
  "drain running s =
     (if \<not> running then None
      else map_option (\<lambda>(x, s'). case x of Inr dg \<Rightarrow> (Some dg, True, s') | Inl _ \<Rightarrow> (None, False, s')) (sb_recv s))"

section \<open>relay.rs\<close>

record 's relay =
  rl_front :: socket_addr
  rl_server :: socket_addr
  rl_up :: "'s substrate"
  rl_down :: "'s substrate"
  rl_client_port :: udp_port
  rl_server_port :: udp_port
  rl_to_server_running :: bool
  rl_to_client_running :: bool

text \<open>The arguments are the server, each direction's kind, oracle and transport, and the outcomes of the two binds.\<close>

definition start_relay ::
  "nat \<Rightarrow> socket_addr \<Rightarrow> substrate_kind \<times> oracle_params \<times> 's \<Rightarrow> substrate_kind \<times> oracle_params \<times> 's \<Rightarrow>
   io_error + socket_addr \<Rightarrow> io_error + socket_addr \<Rightarrow> (io_error + 's relay) may_panic" where
  "start_relay now server up down front back =
     (case (up, down) of ((uk, uo, ut), (dk, do', dt)) \<Rightarrow>
        do {
          ud \<leftarrow> bdp_packets uo;
          dd \<leftarrow> bdp_packets do';
          Some (case (front, back) of
                  (Inl e, _) \<Rightarrow> Inl e
                | (Inr _, Inl e) \<Rightarrow> Inl e
                | (Inr fa, Inr _) \<Rightarrow>
                    Inr \<lparr>rl_front = fa, rl_server = server,
                         rl_up = new_substrate now uk uo ut ud, rl_down = new_substrate now dk do' dt dd,
                         rl_client_port = new_port, rl_server_port = new_port,
                         rl_to_server_running = True, rl_to_client_running = True\<rparr>)
        })"

definition client_recv :: "nat \<Rightarrow> socket_addr \<Rightarrow> datagram \<Rightarrow> 's relay \<Rightarrow> 's relay option" where
  "client_recv now addr dg r =
     map_option (\<lambda>u. r\<lparr>rl_client_port := u\<rparr>) (port_recv now addr dg (rl_client_port r))"

definition client_send :: "'s relay \<Rightarrow> 's relay option" where
  "client_send r = map_option (\<lambda>(u, s). r\<lparr>rl_client_port := u, rl_up := s\<rparr>) (port_send (rl_client_port r) (rl_up r))"

text \<open>The datagram goes to \<open>server_addr\<close>.\<close>

definition to_server :: "'s relay \<Rightarrow> ((socket_addr \<times> datagram) list \<times> 's relay) option" where
  "to_server r =
     map_option (\<lambda>(out, run, s). (case out of Some dg \<Rightarrow> [(rl_server r, dg)] | None \<Rightarrow> [],
                                  r\<lparr>rl_to_server_running := run, rl_up := s\<rparr>))
       (drain (rl_to_server_running r) (rl_up r))"

definition server_recv :: "nat \<Rightarrow> socket_addr \<Rightarrow> datagram \<Rightarrow> 's relay \<Rightarrow> 's relay option" where
  "server_recv now addr dg r =
     map_option (\<lambda>u. r\<lparr>rl_server_port := u\<rparr>) (port_take now dg (rl_server_port r))"

definition recv_fails :: "bool \<Rightarrow> 's relay \<Rightarrow> 's relay option" where
  "recv_fails client r =
     (if client then map_option (\<lambda>u. r\<lparr>rl_client_port := u\<rparr>) (port_fail (rl_client_port r))
      else map_option (\<lambda>u. r\<lparr>rl_server_port := u\<rparr>) (port_fail (rl_server_port r)))"

definition server_send :: "'s relay \<Rightarrow> 's relay option" where
  "server_send r = map_option (\<lambda>(u, s). r\<lparr>rl_server_port := u, rl_down := s\<rparr>) (port_send (rl_server_port r) (rl_down r))"

text \<open>The datagram goes to the client address last learned; with none yet it is dropped.\<close>

definition to_client :: "'s relay \<Rightarrow> ((socket_addr \<times> datagram) list \<times> 's relay) option" where
  "to_client r =
     map_option (\<lambda>(out, run, s). (case (out, up_peer (rl_client_port r)) of (Some dg, Some a) \<Rightarrow> [(a, dg)] | _ \<Rightarrow> [],
                                  r\<lparr>rl_to_client_running := run, rl_down := s\<rparr>))
       (drain (rl_to_client_running r) (rl_down r))"

section \<open>front.rs: the local UDP front of one substrate\<close>

record 's front_bridge =
  fb_addr :: socket_addr
  fb_sub :: "'s substrate"
  fb_port :: udp_port
  fb_running :: bool

definition spawn_substrate_front ::
  "nat \<Rightarrow> substrate_kind \<times> oracle_params \<times> 's \<Rightarrow> io_error + socket_addr \<Rightarrow> (io_error + 's front_bridge) may_panic" where
  "spawn_substrate_front now sub bound =
     (case sub of (k, p, t) \<Rightarrow>
        map_option (\<lambda>depth. case bound of
            Inl e \<Rightarrow> Inl e
          | Inr a \<Rightarrow> Inr \<lparr>fb_addr = a, fb_sub = new_substrate now k p t depth, fb_port = new_port, fb_running = True\<rparr>)
          (bdp_packets p))"

definition fb_recv :: "nat \<Rightarrow> socket_addr \<Rightarrow> datagram \<Rightarrow> 's front_bridge \<Rightarrow> 's front_bridge option" where
  "fb_recv now addr dg f = map_option (\<lambda>u. f\<lparr>fb_port := u\<rparr>) (port_recv now addr dg (fb_port f))"

definition fb_send :: "'s front_bridge \<Rightarrow> 's front_bridge option" where
  "fb_send f = map_option (\<lambda>(u, s). f\<lparr>fb_port := u, fb_sub := s\<rparr>) (port_send (fb_port f) (fb_sub f))"

definition fb_reply :: "'s front_bridge \<Rightarrow> ((socket_addr \<times> datagram) list \<times> 's front_bridge) option" where
  "fb_reply f =
     map_option (\<lambda>(out, run, s). (case (out, up_peer (fb_port f)) of (Some dg, Some a) \<Rightarrow> [(a, dg)] | _ \<Rightarrow> [],
                                  f\<lparr>fb_running := run, fb_sub := s\<rparr>))
       (drain (fb_running f) (fb_sub f))"

section \<open>Executions of the relay\<close>

text \<open>The traffic of both sockets with the address at the other end: what arrived at the front socket, what was sent from the back socket, what
  arrived at the back socket, and what was sent from the front socket.\<close>

record relay_log =
  rx_client :: "(socket_addr \<times> datagram) list"
  tx_server :: "(socket_addr \<times> datagram) list"
  rx_back :: "(socket_addr \<times> datagram) list"
  tx_client :: "(socket_addr \<times> datagram) list"

inductive relay_exec ::
  "(datagram \<Rightarrow> 's \<Rightarrow> (substrate_error + unit) \<times> 's) \<Rightarrow>
   ('s \<Rightarrow> ((substrate_error + datagram) \<times> 's) option) \<Rightarrow> ('s \<Rightarrow> 's \<Rightarrow> bool) \<Rightarrow>
   's relay \<Rightarrow> relay_log \<Rightarrow> 's relay \<Rightarrow> bool" for try_send try_recv step r0 where
  rx_start: "relay_exec try_send try_recv step r0 \<lparr>rx_client = [], tx_server = [], rx_back = [], tx_client = []\<rparr> r0"
| rx_client: "relay_exec try_send try_recv step r0 l r \<Longrightarrow> client_recv now a dg r = Some r' \<Longrightarrow>
    relay_exec try_send try_recv step r0 (l\<lparr>rx_client := rx_client l @ [(a, take 65535 dg)]\<rparr>) r'"
| rx_client_send: "relay_exec try_send try_recv step r0 l r \<Longrightarrow> client_send r = Some r' \<Longrightarrow>
    relay_exec try_send try_recv step r0 l r'"
| rx_to_server: "relay_exec try_send try_recv step r0 l r \<Longrightarrow> to_server r = Some (out, r') \<Longrightarrow>
    relay_exec try_send try_recv step r0 (l\<lparr>tx_server := tx_server l @ out\<rparr>) r'"
| rx_server: "relay_exec try_send try_recv step r0 l r \<Longrightarrow> server_recv now a dg r = Some r' \<Longrightarrow>
    relay_exec try_send try_recv step r0 (l\<lparr>rx_back := rx_back l @ [(a, take 65535 dg)]\<rparr>) r'"
| rx_fails: "relay_exec try_send try_recv step r0 l r \<Longrightarrow> recv_fails client r = Some r' \<Longrightarrow> relay_exec try_send try_recv step r0 l r'"
| rx_server_send: "relay_exec try_send try_recv step r0 l r \<Longrightarrow> server_send r = Some r' \<Longrightarrow>
    relay_exec try_send try_recv step r0 l r'"
| rx_to_client: "relay_exec try_send try_recv step r0 l r \<Longrightarrow> to_client r = Some (out, r') \<Longrightarrow>
    relay_exec try_send try_recv step r0 (l\<lparr>tx_client := tx_client l @ out\<rparr>) r'"
| rx_up_step: "relay_exec try_send try_recv step r0 l r \<Longrightarrow> sb_step try_send try_recv step (rl_up r) s \<Longrightarrow>
    relay_exec try_send try_recv step r0 l (r\<lparr>rl_up := s\<rparr>)"
| rx_down_step: "relay_exec try_send try_recv step r0 l r \<Longrightarrow> sb_step try_send try_recv step (rl_down r) s \<Longrightarrow>
    relay_exec try_send try_recv step r0 l (r\<lparr>rl_down := s\<rparr>)"

definition hand_mset :: "udp_port \<Rightarrow> datagram multiset" where
  "hand_mset u = (case up_hand u of Some (_, dg) \<Rightarrow> {#dg#} | None \<Rightarrow> {#})"

text \<open>One direction of the relay: what came out and what is inside came in; peers are learned.\<close>

definition dir_inv :: "('s \<Rightarrow> datagram multiset) \<Rightarrow> datagram list \<Rightarrow> datagram list \<Rightarrow> udp_port \<Rightarrow> 's substrate \<Rightarrow> bool" where
  "dir_inv held rx tx u s \<longleftrightarrow> mset tx + hand_mset u + sb_held held s \<subseteq># mset rx"

lemma port_recv_inv:
  assumes "port_recv now a dg u = Some u'" and "dir_inv held rx tx u s"
  shows "dir_inv held (rx @ [take 65535 dg]) tx u' s" and "up_peer u' = Some a"
  using assms by (auto simp: port_recv_def dir_inv_def hand_mset_def split: if_splits)

lemma port_take_inv: "port_take now dg u = Some u' \<Longrightarrow> dir_inv held rx tx u s \<Longrightarrow> dir_inv held (rx @ [take 65535 dg]) tx u' s"
  by (auto simp: port_take_def dir_inv_def hand_mset_def split: if_splits)

lemma port_fail_inv: "port_fail u = Some u' \<Longrightarrow> dir_inv held rx tx u s \<Longrightarrow> dir_inv held rx tx u' s \<and> up_peer u' = up_peer u"
  by (auto simp: port_fail_def dir_inv_def hand_mset_def split: if_splits)

lemma port_send_peer: "port_send u s = Some (u', s') \<Longrightarrow> up_peer u' = up_peer u"
  by (auto simp: port_send_def split: option.splits)

lemma port_send_inv:
  assumes "port_send u s = Some (u', s')" and "dir_inv held rx tx u s"
  shows "dir_inv held rx tx u' s'"
proof -
  obtain called dg r where h: "up_hand u = Some (called, dg)" and r: "sb_send called dg s = Some (r, s')"
    and u': "up_hand u' = None"
    using assms(1) by (auto simp: port_send_def split: option.splits)
  have "sb_held held s' \<subseteq># add_mset dg (sb_held held s)"
    using accepts_ops(1) [OF r] by (auto simp: accepts_def sb_held_def split: if_splits)
  then have "mset tx + hand_mset u' + sb_held held s' \<subseteq># mset tx + hand_mset u + sb_held held s"
    by (simp add: hand_mset_def h u')
  with assms(2) show ?thesis unfolding dir_inv_def by (rule subset_mset.order_trans [rotated])
qed

lemma drain_inv:
  assumes "drain run s = Some (out, run', s')" and "dir_inv held rx tx u s"
  shows "dir_inv held rx (tx @ (case out of Some dg \<Rightarrow> [dg] | None \<Rightarrow> [])) u s'"
proof -
  obtain x where x: "sb_recv s = Some (x, s')" and out: "out = (case x of Inr dg \<Rightarrow> Some dg | Inl _ \<Rightarrow> None)"
  proof (cases "sb_recv s")
    case (Some y)
    obtain x s1 where "y = (x, s1)" by fastforce
    with Some that assms(1) show ?thesis by (cases x) (auto simp: drain_def split: if_splits)
  qed (use assms(1) in \<open>auto simp: drain_def split: if_splits\<close>)
  then have "mset (case out of Some dg \<Rightarrow> [dg] | None \<Rightarrow> []) + sb_held held s' = sb_held held s"
    using sb_recv_held [OF x, of held] by (simp add: item_mset_def split: sum.splits)
  with assms(2) show ?thesis by (simp add: dir_inv_def ac_simps)
qed

lemma dir_inv_drop: "dir_inv held rx (tx @ out) u s \<Longrightarrow> dir_inv held rx tx u s"
  unfolding dir_inv_def by (erule subset_mset.order_trans [rotated]) simp

definition relay_inv :: "('s \<Rightarrow> datagram multiset) \<Rightarrow> 's relay \<Rightarrow> relay_log \<Rightarrow> 's relay \<Rightarrow> bool" where
  "relay_inv held r0 l r \<longleftrightarrow>
     dir_inv held (map snd (rx_client l)) (map snd (tx_server l)) (rl_client_port r) (rl_up r) \<and>
     dir_inv held (map snd (rx_back l)) (map snd (tx_client l)) (rl_server_port r) (rl_down r) \<and>
     rl_server r = rl_server r0 \<and> set (map fst (tx_server l)) \<subseteq> {rl_server r0} \<and>
     up_peer (rl_client_port r) = (if rx_client l = [] then None else Some (fst (last (rx_client l)))) \<and>
     set (map fst (tx_client l)) \<subseteq> set (map fst (rx_client l))"

context boundary_over
begin

lemma dir_inv_step:
  "sb_step try_send try_recv step s s' \<Longrightarrow> dir_inv held rx tx u s \<Longrightarrow> dir_inv held rx tx u s'"
  unfolding dir_inv_def using sb_step_held by (meson subset_mset.add_left_mono subset_mset.order_trans)

lemma relay_exec_inv:
  assumes "relay_exec try_send try_recv step r0 l r"
    and "relay_inv held r0 \<lparr>rx_client = [], tx_server = [], rx_back = [], tx_client = []\<rparr> r0"
  shows "relay_inv held r0 l r"
  using assms(1)
proof (induction rule: relay_exec.induct)
  case rx_start
  show ?case by (rule assms(2))
next
  case (rx_client l r now a dg r')
  then show ?case by (auto simp: client_recv_def relay_inv_def dest: port_recv_inv)
next
  case (rx_client_send l r r')
  then show ?case by (auto simp: client_send_def relay_inv_def port_send_peer dest: port_send_inv)
next
  case (rx_to_server l r out r')
  then obtain o' run s where d: "drain (rl_to_server_running r) (rl_up r) = Some (o', run, s)"
    and r': "r' = r\<lparr>rl_to_server_running := run, rl_up := s\<rparr>"
    and out: "out = (case o' of Some dg \<Rightarrow> [(rl_server r, dg)] | None \<Rightarrow> [])"
    by (auto simp: to_server_def)
  with rx_to_server.IH drain_inv [OF d] show ?case
    by (cases o') (auto simp: relay_inv_def)
next
  case (rx_server l r now a dg r')
  then show ?case by (auto simp: server_recv_def relay_inv_def dest: port_take_inv)
next
  case (rx_fails l r client r')
  then show ?case by (auto simp: recv_fails_def relay_inv_def dest: port_fail_inv split: if_splits)
next
  case (rx_server_send l r r')
  then show ?case by (auto simp: server_send_def relay_inv_def dest: port_send_inv)
next
  case (rx_to_client l r out r')
  then obtain o' run s where d: "drain (rl_to_client_running r) (rl_down r) = Some (o', run, s)"
    and r': "r' = r\<lparr>rl_to_client_running := run, rl_down := s\<rparr>"
    and out: "out = (case (o', up_peer (rl_client_port r)) of (Some dg, Some a) \<Rightarrow> [(a, dg)] | _ \<Rightarrow> [])"
    by (auto simp: to_client_def)
  have inv: "dir_inv held (map snd (rx_back l)) (map snd (tx_client l) @ (case o' of Some dg \<Rightarrow> [dg] | None \<Rightarrow> [])) (rl_server_port r) s"
    using rx_to_client.IH drain_inv [OF d] by (auto simp: relay_inv_def)
  with rx_to_client.IH show ?case
    using dir_inv_drop [OF inv] by (cases o') (auto simp: relay_inv_def r' out split: option.splits if_splits)
next
  case (rx_up_step l r s)
  then show ?case by (auto simp: relay_inv_def dest: dir_inv_step)
next
  case (rx_down_step l r s)
  then show ?case by (auto simp: relay_inv_def dest: dir_inv_step)
qed

end

text \<open>C32: the mix relay over emulated mixnets, in any interleaving of its four loops, the pumps and the
  mixes, and with receive errors. Every datagram it sends from its back socket goes to the configured server and arrived at its front socket;
  every datagram it sends from its front socket goes to an address that a datagram to that socket came from, and arrived at the back
  socket (from wherever: the loop does not look at the source); none is sent more often than it arrived; and the client address in use is always
  the last one learned.\<close>

theorem relay_forwards_only:
  assumes "relay_exec em_try_send em_try_recv (em_step ln64) r0 l r"
    and "start_relay now server (uk, uo, new_emulator now up) (dk, dp, new_emulator now down) (Inr fa) (Inr ba) = Some (Inr r0)"
  shows "mset (map snd (tx_server l)) \<subseteq># mset (map snd (rx_client l)) \<and> set (map fst (tx_server l)) \<subseteq> {server} \<and>
    mset (map snd (tx_client l)) \<subseteq># mset (map snd (rx_back l)) \<and> set (map fst (tx_client l)) \<subseteq> set (map fst (rx_client l)) \<and>
    up_peer (rl_client_port r) = (if rx_client l = [] then None else Some (fst (last (rx_client l))))"
proof -
  obtain n m where r0: "r0 = \<lparr>rl_front = fa, rl_server = server, rl_up = new_substrate now uk uo (new_emulator now up) n,
      rl_down = new_substrate now dk dp (new_emulator now down) m, rl_client_port = new_port, rl_server_port = new_port,
      rl_to_server_running = True, rl_to_client_running = True\<rparr>"
    using assms(2) by (auto simp: start_relay_def split: Option.bind_splits)
  have "relay_inv em_held r0 \<lparr>rx_client = [], tx_server = [], rx_back = [], tx_client = []\<rparr> r0"
    by (simp add: relay_inv_def dir_inv_def r0 new_port_def hand_mset_def sb_held_def new_substrate_def new_emulator_def
        with_queue_def em_held_def)
  then have inv: "relay_inv em_held r0 l r" by (rule emu_boundary.relay_exec_inv [OF assms(1)])
  have "mset tx \<subseteq># mset rx" if "dir_inv em_held rx tx u s" for rx tx u and s :: "emulator substrate"
    using that unfolding dir_inv_def by (meson mset_subset_eq_add_left subset_mset.order_trans)
  then have "mset (map snd (tx_server l)) \<subseteq># mset (map snd (rx_client l))" "mset (map snd (tx_client l)) \<subseteq># mset (map snd (rx_back l))"
    using inv unfolding relay_inv_def by blast+
  with inv show ?thesis unfolding relay_inv_def by (simp add: r0)
qed

lemma quiet_depth: "bdp_packets quiet_params = Some 13981"
  by (simp add: bdp_packets_def bdp_bytes_def rtt_def quiet_params_def dur_mul_def dur_limit_def)

definition demo_relay :: "emulator relay" where
  "demo_relay = \<lparr>rl_front = SockAddr (V4 127 0 0 1) 7000, rl_server = SockAddr (V4 127 0 0 1) 9000,
     rl_up = new_substrate 0 Datagram quiet_params (new_emulator 0 quiet_params) 13981,
     rl_down = new_substrate 0 Datagram quiet_params (new_emulator 0 quiet_params) 13981,
     rl_client_port = new_port, rl_server_port = new_port, rl_to_server_running = True, rl_to_client_running = True\<rparr>"

lemma demo_relay_started:
  "start_relay 0 (SockAddr (V4 127 0 0 1) 9000) (Datagram, quiet_params, new_emulator 0 quiet_params)
     (Datagram, quiet_params, new_emulator 0 quiet_params) (Inr (SockAddr (V4 127 0 0 1) 7000))
     (Inr (SockAddr (V4 127 0 0 1) 7001)) = Some (Inr demo_relay)"
  by (simp add: start_relay_def quiet_depth demo_relay_def)

lemma relay_up_steps:
  "(sb_step try_send try_recv step)\<^sup>*\<^sup>* (rl_up r) s \<Longrightarrow> relay_exec try_send try_recv step r0 l r \<Longrightarrow>
   relay_exec try_send try_recv step r0 l (r\<lparr>rl_up := s\<rparr>)"
proof (induction rule: rtranclp_induct)
  case (step x y)
  then show ?case using rx_up_step [of try_send try_recv step r0 l "r\<lparr>rl_up := x\<rparr>" y] by simp
qed simp

lemma relay_down_steps:
  "(sb_step try_send try_recv step)\<^sup>*\<^sup>* (rl_down r) s \<Longrightarrow> relay_exec try_send try_recv step r0 l r \<Longrightarrow>
   relay_exec try_send try_recv step r0 l (r\<lparr>rl_down := s\<rparr>)"
proof (induction rule: rtranclp_induct)
  case (step x y)
  then show ?case using rx_down_step [of try_send try_recv step r0 l "r\<lparr>rl_down := x\<rparr>" y] by simp
qed simp

text \<open>A datagram of a client through the relay, and one that arrives at the back socket from any address through to that client.\<close>

lemma demo_relay_exec:
  assumes "length dg \<le> 65535" and "length dg' \<le> 65535"
  shows "\<exists>r. relay_exec em_try_send em_try_recv (em_step ln64) demo_relay
    \<lparr>rx_client = [(a, dg)], tx_server = [(SockAddr (V4 127 0 0 1) 9000, dg)], rx_back = [(b, dg')], tx_client = [(a, dg')]\<rparr> r"
proof -
  let ?ex = "relay_exec em_try_send em_try_recv (em_step ln64) demo_relay"
  note defs = client_recv_def server_recv_def port_recv_def port_take_def client_send_def server_send_def port_send_def sb_send_def sb_enqueue_def
    new_port_def new_substrate_def demo_relay_def
  define r0 where "r0 = demo_relay\<lparr>rl_client_port := \<lparr>up_peer = Some a, up_hand = Some (0, dg), up_running = True\<rparr>\<rparr>"
  define r1 where "r1 = demo_relay\<lparr>rl_client_port := \<lparr>up_peer = Some a, up_hand = None, up_running = True\<rparr>,
    rl_up := (rl_up demo_relay)\<lparr>sb_send_q := [(0, dg)]\<rparr>\<rparr>"
  have "client_recv 0 a dg demo_relay = Some r0" using assms(1) by (simp add: defs r0_def)
  note e0 = rx_client [OF rx_start this]
  have "client_send r0 = Some r1" by (simp add: defs r0_def r1_def)
  note e1 = rx_client_send [OF e0 this]
  obtain s2 where s2: "(sb_step em_try_send em_try_recv (em_step ln64))\<^sup>*\<^sup>* (rl_up r1) s2" "sb_recv s2 = Some (Inr dg, s2\<lparr>sb_recv_q := []\<rparr>)"
    using quiet_passes [of "rl_up r1" 0 dg ln64] by (auto simp: r1_def demo_relay_def new_substrate_def)
  have "to_server (r1\<lparr>rl_up := s2\<rparr>) = Some ([(rl_server demo_relay, dg)], r1\<lparr>rl_up := s2\<lparr>sb_recv_q := []\<rparr>\<rparr>)"
    by (simp add: to_server_def drain_def s2 r1_def demo_relay_def)
  from rx_to_server [OF relay_up_steps [OF s2(1) e1] this]
  have e3: "?ex \<lparr>rx_client = [(a, dg)], tx_server = [(rl_server demo_relay, dg)], rx_back = [], tx_client = []\<rparr> (r1\<lparr>rl_up := s2\<lparr>sb_recv_q := []\<rparr>\<rparr>)" using assms(1) by simp
  define r3 where "r3 = r1\<lparr>rl_up := s2\<lparr>sb_recv_q := []\<rparr>\<rparr>"
  have "server_recv 0 b dg' r3 = Some (r3\<lparr>rl_server_port := new_port\<lparr>up_hand := Some (0, dg')\<rparr>\<rparr>)"
    using assms(2) by (simp add: defs r3_def r1_def)
  from rx_server [OF e3 [folded r3_def] this]
  have e4: "?ex \<lparr>rx_client = [(a, dg)], tx_server = [(rl_server demo_relay, dg)], rx_back = [(b, dg')], tx_client = []\<rparr>
      (r3\<lparr>rl_server_port := new_port\<lparr>up_hand := Some (0, dg')\<rparr>\<rparr>)" using assms(2) by simp
  define r5 where "r5 = r3\<lparr>rl_server_port := new_port, rl_down := (rl_down demo_relay)\<lparr>sb_send_q := [(0, dg')]\<rparr>\<rparr>"
  have "server_send (r3\<lparr>rl_server_port := new_port\<lparr>up_hand := Some (0, dg')\<rparr>\<rparr>) = Some r5"
    by (simp add: defs r3_def r5_def r1_def)
  note e5 = rx_server_send [OF e4 this]
  obtain s6 where s6: "(sb_step em_try_send em_try_recv (em_step ln64))\<^sup>*\<^sup>* (rl_down r5) s6" "sb_recv s6 = Some (Inr dg', s6\<lparr>sb_recv_q := []\<rparr>)"
    using quiet_passes [of "rl_down r5" 0 dg' ln64] by (auto simp: r5_def demo_relay_def new_substrate_def)
  have "to_client (r5\<lparr>rl_down := s6\<rparr>) = Some ([(a, dg')], r5\<lparr>rl_down := s6\<lparr>sb_recv_q := []\<rparr>\<rparr>)"
    by (simp add: to_client_def drain_def s6 r5_def r3_def r1_def demo_relay_def)
  from rx_to_client [OF relay_down_steps [OF s6(1) e5] this] show ?thesis by (auto simp: demo_relay_def)
qed

text \<open>The relay forwards what a stranger sends to its back socket as if the server had sent it.\<close>

lemma stranger_forwarded:
  "\<exists>l r. relay_exec em_try_send em_try_recv (em_step ln64) demo_relay l r \<and> rx_back l = [(SockAddr (V4 127 0 0 1) 6666, [8])] \<and>
     rl_server demo_relay = SockAddr (V4 127 0 0 1) 9000 \<and> tx_client l = [(SockAddr (V4 127 0 0 1) 5, [8])]"
  using demo_relay_exec [of "[1]" "[8]" ln64 "SockAddr (V4 127 0 0 1) 5" "SockAddr (V4 127 0 0 1) 6666"]
  by (auto simp: demo_relay_def intro!: exI)

theorem relay_forwards_only_witness:
  "\<exists>l r. relay_exec em_try_send em_try_recv (em_step (\<lambda>_. 0)) demo_relay l r \<and>
     tx_server l = [(SockAddr (V4 127 0 0 1) 9000, [1])] \<and> tx_client l = [(SockAddr (V4 127 0 0 1) 5, [9])] \<and>
     mset (map snd (tx_server l)) \<subseteq># mset (map snd (rx_client l)) \<and> mset (map snd (tx_client l)) \<subseteq># mset (map snd (rx_back l)) \<and>
     up_peer (rl_client_port r) = Some (SockAddr (V4 127 0 0 1) 5)"
proof -
  obtain r where run: "relay_exec em_try_send em_try_recv (em_step (\<lambda>_. 0)) demo_relay
      \<lparr>rx_client = [(SockAddr (V4 127 0 0 1) 5, [1])], tx_server = [(SockAddr (V4 127 0 0 1) 9000, [1])],
       rx_back = [(SockAddr (V4 127 0 0 1) 9000, [9])], tx_client = [(SockAddr (V4 127 0 0 1) 5, [9])]\<rparr> r"
    using demo_relay_exec [of "[1]" "[9]" "\<lambda>_. 0" "SockAddr (V4 127 0 0 1) 5" "SockAddr (V4 127 0 0 1) 9000"] by auto
  from relay_forwards_only [OF run demo_relay_started] run show ?thesis by (intro exI conjI) (assumption, simp_all)
qed

end
