(* ===== verification/Front.thy ===== *)
theory Front
  imports Relay Tor
begin

text \<open>
  Substrate selection, \<^verbatim>\<open>crates/quicmix/src/front.rs\<close>: the choice from the environment and the
  resolution of the UDP front that the client dials.

  Spawning a sidecar and building a linked substrate are arguments: a function from program, arguments
  and added environment to the events of its output (or an error), and the injected builder. A front
  holds the guard that keeps it open.
\<close>

datatype substrate_choice =
    Direct
  | SidecarAt socket_addr
  | SidecarCmd string string "string list"
  | Named string

datatype front_error =
    BadFrontAddr string
  | EmptyCmd
  | NotLinked string
  | BuildFailed string "string list" string
  | SpawnFailed string io_error
  | NoSidecarStdout string
  | SidecarExited string
  | SidecarLineError io_error
  | SidecarTimeout string
  | BadFrontLine string
  | BindError io_error

definition FRONT_LINE :: string where
  "FRONT_LINE = ''FRONT ''"

definition SIDECAR_TARGET_ENV :: string where
  "SIDECAR_TARGET_ENV = ''QUICMIX_SIDECAR_TARGET''"

definition from_env :: "environment \<Rightarrow> front_error + substrate_choice" where
  "from_env env =
     (let name = trim (case env ''QUICMIX_SUBSTRATE'' of Some v \<Rightarrow> v | None \<Rightarrow> '''') in
      if name = '''' \<or> eq_ignore_ascii_case name ''direct'' then Inr Direct
      else case env ''QUICMIX_SIDECAR_FRONT'' of
        Some front \<Rightarrow>
          (case parse_socket_addr (trim front) of
             None \<Rightarrow> Inl (BadFrontAddr front)
           | Some addr \<Rightarrow> Inr (SidecarAt addr))
      | None \<Rightarrow>
          (case env ''QUICMIX_SIDECAR_CMD'' of
             Some cmd \<Rightarrow>
               (case split_whitespace cmd of
                  [] \<Rightarrow> Inl EmptyCmd
                | program # args \<Rightarrow> Inr (SidecarCmd name program args))
           | None \<Rightarrow> Inr (Named name)))"

fun choice_label :: "substrate_choice \<Rightarrow> string" where
  "choice_label Direct = ''direct quicmix QUIC (1 real hop)''"
| "choice_label (SidecarAt a) = ''sidecar front @ '' @ show_socket_addr a"
| "choice_label (SidecarCmd name _ _) = ''sidecar:'' @ name"
| "choice_label (Named name) = ''linked:'' @ name"

datatype 's front_guard =
    NoGuard
  | ChildGuard "(string \<times> string) list" "line_event list"
  | BridgeGuard "'s front_bridge"

record 's front =
  fr_addr :: socket_addr
  fr_keep :: "'s front_guard"

text \<open>The sidecar's output up to its \<open>FRONT\<close> line, which decides; \<open>None\<close>: nothing decided yet.\<close>

fun await_front :: "string \<Rightarrow> line_event list \<Rightarrow> (front_error + socket_addr \<times> line_event list) option" where
  "await_front program [] = None"
| "await_front program (TimedOut # _) = Some (Inl (SidecarTimeout program))"
| "await_front program (LineError e # _) = Some (Inl (SidecarLineError e))"
| "await_front program (EndOfOutput # _) = Some (Inl (SidecarExited program))"
| "await_front program (Line line # evs) =
     (case strip_prefix FRONT_LINE line of
        Some rest \<Rightarrow>
          (case parse_socket_addr (trim rest) of
             Some a \<Rightarrow> Some (Inr (a, evs))
           | None \<Rightarrow> Some (Inl (BadFrontLine rest)))
      | None \<Rightarrow> await_front program evs)"

type_synonym spawner = "string \<Rightarrow> string list \<Rightarrow> (string \<times> string) list \<Rightarrow> io_error + line_event list option"

definition spawn_sidecar ::
  "spawner \<Rightarrow> string \<Rightarrow> string list \<Rightarrow> socket_addr \<Rightarrow> (front_error + 's front) option" where
  "spawn_sidecar spawn program args gateway =
     (let env = [(SIDECAR_TARGET_ENV, show_socket_addr gateway)] in
      case spawn program args env of
        Inl e \<Rightarrow> Some (Inl (SpawnFailed program e))
      | Inr None \<Rightarrow> Some (Inl (NoSidecarStdout program))
      | Inr (Some evs) \<Rightarrow>
          map_option (\<lambda>r. case r of
              Inl e \<Rightarrow> Inl e
            | Inr (a, rest) \<Rightarrow> Inr \<lparr>fr_addr = a, fr_keep = ChildGuard env rest\<rparr>) (await_front program evs))"

record 's substrate_builder =
  bl_build :: "string \<Rightarrow> socket_addr \<Rightarrow> string + substrate_kind \<times> oracle_params \<times> 's"
  bl_supported :: "string list"

definition resolve ::
  "spawner \<Rightarrow> nat \<Rightarrow> io_error + socket_addr \<Rightarrow> substrate_choice \<Rightarrow> socket_addr \<Rightarrow> 's substrate_builder option \<Rightarrow>
   (front_error + 's front) option may_panic" where
  "resolve spawn now bound choice gateway builder =
     (case choice of
        Direct \<Rightarrow> Some (Some (Inr \<lparr>fr_addr = gateway, fr_keep = NoGuard\<rparr>))
      | SidecarAt addr \<Rightarrow> Some (Some (Inr \<lparr>fr_addr = addr, fr_keep = NoGuard\<rparr>))
      | SidecarCmd _ program args \<Rightarrow> Some (spawn_sidecar spawn program args gateway)
      | Named name \<Rightarrow>
          (case builder of
             None \<Rightarrow> Some (Some (Inl (NotLinked name)))
           | Some b \<Rightarrow>
               (case bl_build b name gateway of
                  Inl e \<Rightarrow> Some (Some (Inl (BuildFailed name (bl_supported b) e)))
                | Inr built \<Rightarrow>
                    map_option (\<lambda>r. Some (case r of
                        Inl e \<Rightarrow> Inl (BindError e)
                      | Inr f \<Rightarrow> Inr \<lparr>fr_addr = fb_addr f, fr_keep = BridgeGuard f\<rparr>))
                      (spawn_substrate_front now built bound))))"

section \<open>Properties\<close>

lemma show_v4_visible:
  "set (show_socket_v4 a b c d p) \<subseteq> Collect visible" "show_socket_v4 a b c d p \<noteq> []"
  by (auto simp: show_socket_v4_def show_v4_def visible_def dest!: show_nat_digits)

lemma trim_show_v4 [simp]: "trim (show_socket_v4 a b c d p) = show_socket_v4 a b c d p"
  using show_v4_visible [of a b c d p] by (intro trim_visible) (auto dest: subsetD [OF _ hd_in_set] subsetD [OF _ last_in_set])

lemma await_front_quiet:
  "list_all (\<lambda>e. case e of Line l \<Rightarrow> \<not> prefix FRONT_LINE l | _ \<Rightarrow> False) pre \<Longrightarrow>
   await_front program (pre @ evs) = await_front program evs"
proof (induction pre)
  case (Cons e pre)
  then obtain l where e: "e = Line l" and np: "\<not> prefix FRONT_LINE l" by (cases e) auto
  then have "strip_prefix FRONT_LINE l = None"
    by (cases "strip_prefix FRONT_LINE l") (auto simp: strip_prefix_eq_Some prefix_def)
  with Cons e show ?case by simp
qed simp

text \<open>The sidecar handshake. A sidecar that prints, after any other lines, the line
  \<open>FRONT <ip:port>\<close> with the printed form of an IPv4 address gives a front at exactly that address,
  whose process is kept with the rest of its output still to drain; it was told the printed form of
  the gateway. A sidecar that exits, fails or stays silent until the timeout before that gives the
  corresponding error.\<close>

theorem sidecar_handshake:
  assumes "\<And>env. spawn program args env = Inr (Some (pre @ ev # rest))"
    and "list_all (\<lambda>e. case e of Line l \<Rightarrow> \<not> prefix FRONT_LINE l | _ \<Rightarrow> False) pre"
    and "case ev of Line l \<Rightarrow> l = FRONT_LINE @ show_socket_addr (SockAddr (V4 a b c d) p) | _ \<Rightarrow> True"
  shows "resolve spawn now bound (SidecarCmd name program args) gateway builder =
    Some (Some (case ev of
        Line _ \<Rightarrow> Inr \<lparr>fr_addr = SockAddr (V4 a b c d) p,
                      fr_keep = ChildGuard [(SIDECAR_TARGET_ENV, show_socket_addr gateway)] rest\<rparr>
      | EndOfOutput \<Rightarrow> Inl (SidecarExited program)
      | LineError e \<Rightarrow> Inl (SidecarLineError e)
      | TimedOut \<Rightarrow> Inl (SidecarTimeout program)))"
  using assms await_front_quiet [OF assms(2), of program "ev # rest"]
  by (cases ev) (auto simp: resolve_def spawn_sidecar_def Let_def parse_show_socket_v4)

theorem sidecar_handshake_witness:
  "resolve (\<lambda>_ _ _. Inr (Some ([Line ''starting''] @ Line (FRONT_LINE @ show_socket_addr (SockAddr (V4 127 0 0 1) 7000)) # [Line ''bye''])))
     0 (Inl UnexpectedEof) (SidecarCmd ''nym'' ''nym_sidecar'' []) (SockAddr (V4 203 0 113 7) 4433) (None :: emulator substrate_builder option) =
   Some (Some (case Line (FRONT_LINE @ show_socket_addr (SockAddr (V4 127 0 0 1) 7000)) of
        Line _ \<Rightarrow> Inr \<lparr>fr_addr = SockAddr (V4 127 0 0 1) 7000,
                      fr_keep = ChildGuard [(SIDECAR_TARGET_ENV, show_socket_addr (SockAddr (V4 203 0 113 7) 4433))] [Line ''bye'']\<rparr>
      | EndOfOutput \<Rightarrow> Inl (SidecarExited ''nym_sidecar'')
      | LineError e \<Rightarrow> Inl (SidecarLineError e)
      | TimedOut \<Rightarrow> Inl (SidecarTimeout ''nym_sidecar'')))"
  by (rule sidecar_handshake) (simp, code_simp, simp)

text \<open>Environment selection, in order of precedence. An unset, blank or \<open>direct\<close> (in any case)
  substrate is direct whatever else is set; otherwise a sidecar front wins over a sidecar command, which
  wins over a linked substrate; and an error arises only from a sidecar front that is no address or a
  blank sidecar command.\<close>

theorem from_env_precedence:
  "case from_env env of
     Inr Direct \<Rightarrow> (\<exists>name. name = trim (case env ''QUICMIX_SUBSTRATE'' of Some v \<Rightarrow> v | None \<Rightarrow> '''') \<and>
       (name = '''' \<or> map to_ascii_lower name = ''direct''))
   | Inr (SidecarAt a) \<Rightarrow> (\<exists>v. env ''QUICMIX_SIDECAR_FRONT'' = Some v \<and> parse_socket_addr (trim v) = Some a)
   | Inr (SidecarCmd n pr args) \<Rightarrow> env ''QUICMIX_SIDECAR_FRONT'' = None \<and>
       (\<exists>v. env ''QUICMIX_SIDECAR_CMD'' = Some v \<and> split_whitespace v = pr # args)
   | Inr (Named n) \<Rightarrow> env ''QUICMIX_SIDECAR_FRONT'' = None \<and> env ''QUICMIX_SIDECAR_CMD'' = None \<and> n \<noteq> ''''
   | Inl e \<Rightarrow> (\<exists>v. env ''QUICMIX_SIDECAR_FRONT'' = Some v \<and> e = BadFrontAddr v \<and> parse_socket_addr (trim v) = None) \<or>
       (e = EmptyCmd \<and> (\<exists>v. env ''QUICMIX_SIDECAR_CMD'' = Some v \<and> split_whitespace v = []))"
proof -
  have l: "to_ascii_lowercase ''direct'' = ''direct''" by code_simp
  show ?thesis
    by (auto simp: from_env_def Let_def eq_ignore_ascii_case_def l to_ascii_lowercase_def [symmetric]
        split: option.splits list.splits)
qed

end
