(* ===== verification/Rotation.thy ===== *)
theory Rotation
  imports Congestion Rust_Io
begin

text \<open>
  Unlinkable circuit rotation, \<^verbatim>\<open>crates/quicmix/src/rotation.rs\<close>.

  The network and the QUIC stack are a state of their own, threaded through: a front factory and the
  dialling of a connection are fallible computations on it. What the code configures is a record: the
  pinned roots, whether TLS sessions may be resumed, and the transport settings. A connection is an
  identifier of the QUIC stack.
\<close>

record quic_client_config =
  qc_roots :: "byte list list"
  qc_resumption :: bool
  qc_transport :: "transport_config option"

record circuit =
  ci_conn :: nat
  ci_local :: socket_addr

datatype circuit_error = FrontError string | BadRoot | QuicConfig string | EndpointError string | DialError string

text \<open>What the QUIC and TLS libraries provide, over their state \<open>'w\<close>.\<close>

record 'w quic_stack =
  qs_root_ok :: "byte list \<Rightarrow> bool"
  qs_config_error :: "string option"
  qs_endpoint :: "('w, string, socket_addr) io"
  qs_dial :: "quic_client_config \<Rightarrow> socket_addr \<Rightarrow> string \<Rightarrow> ('w, string, nat) io"

definition client_config_for :: "byte list \<Rightarrow> transport_config option \<Rightarrow> quic_client_config" where
  "client_config_for cert tc = \<lparr>qc_roots = [cert], qc_resumption = False, qc_transport = tc\<rparr>"

definition connect_fresh_with ::
  "'w quic_stack \<Rightarrow> ('w, string, socket_addr) io \<Rightarrow> byte list \<Rightarrow> transport_config option \<Rightarrow> ('w, circuit_error, circuit) io" where
  "connect_fresh_with qs make_front cert tc =
     io_bind (io_context FrontError make_front) (\<lambda>front.
     if \<not> qs_root_ok qs cert then io_fail BadRoot
     else case qs_config_error qs of
       Some e \<Rightarrow> io_fail (QuicConfig e)
     | None \<Rightarrow>
         io_bind (io_context EndpointError (qs_endpoint qs)) (\<lambda>local.
         io_bind (io_context DialError (qs_dial qs (client_config_for cert tc) front ''localhost'')) (\<lambda>conn.
         io_return \<lparr>ci_conn = conn, ci_local = local\<rparr>)))"

fun prewarm_loop :: "('w, circuit_error, circuit) io \<Rightarrow> nat \<Rightarrow> circuit list \<Rightarrow> ('w, circuit_error, circuit list) io" where
  "prewarm_loop connect 0 warm = io_return warm"
| "prewarm_loop connect (Suc n) warm = io_bind connect (\<lambda>c. prewarm_loop connect n (warm @ [c]))"

definition prewarm_with ::
  "nat \<Rightarrow> 'w quic_stack \<Rightarrow> ('w, string, socket_addr) io \<Rightarrow> byte list \<Rightarrow> transport_config option \<Rightarrow>
   ('w, circuit_error, circuit list) io" where
  "prewarm_with n qs make_front cert tc = prewarm_loop (connect_fresh_with qs make_front cert tc) n []"

definition take_circuit :: "circuit list \<Rightarrow> circuit option \<times> circuit list" where
  "take_circuit warm = (if warm = [] then (None, []) else (Some (last warm), butlast warm))"

definition pool_len :: "circuit list \<Rightarrow> nat" where
  "pool_len warm = length warm"

text \<open>
  \<open>session_send\<close> over an opened stream: the message after the 8-byte session id, then the acknowledgement,
  of which at most 64 bytes are accepted. The stream library reports a longer one as an error.
\<close>

datatype session_error = OpenFailed string | SessionIo io_error | FinishFailed | AckTooLong

definition session_send ::
  "string + tcp_stream \<Rightarrow> bool \<Rightarrow> byte list \<Rightarrow> byte list \<Rightarrow> (session_error + unit) \<times> tcp_stream option" where
  "session_send opened finish_ok session_id msg =
     (case opened of
        Inl e \<Rightarrow> (Inl (OpenFailed e), None)
      | Inr s \<Rightarrow>
          (case tcp_write_all (session_id @ msg) s of
             (Inl e, s1) \<Rightarrow> (Inl (SessionIo e), Some s1)
           | (Inr _, s1) \<Rightarrow>
               (if \<not> finish_ok then (Inl FinishFailed, Some s1)
                else if 64 < length (r_bytes (t_read s1)) then (Inl AckTooLong, Some s1)
                else if r_end (t_read s1) \<noteq> UnexpectedEof then (Inl (SessionIo (r_end (t_read s1))), Some s1)
                else (Inr (), Some (s1\<lparr>t_read := (t_read s1)\<lparr>r_bytes := []\<rparr>\<rparr>)))))"

section \<open>Properties\<close>

text \<open>What was dialled: every successful dial the stack saw, as recorded by an instrumented stack.\<close>

definition logging :: "'w quic_stack \<Rightarrow> ('w \<times> quic_client_config list) quic_stack" where
  "logging qs = \<lparr>qs_root_ok = qs_root_ok qs, qs_config_error = qs_config_error qs,
     qs_endpoint = (\<lambda>(w, l). case qs_endpoint qs w of (r, w') \<Rightarrow> (r, (w', l))),
     qs_dial = (\<lambda>c a n (w, l). case qs_dial qs c a n w of (r, w') \<Rightarrow> (r, (w', l @ [c])))\<rparr>"

definition lift_front :: "('w, 'e, 'a) io \<Rightarrow> ('w \<times> 'l, 'e, 'a) io" where
  "lift_front m = (\<lambda>(w, l). case m w of (r, w') \<Rightarrow> (r, (w', l)))"

lemma connect_logs:
  assumes "connect_fresh_with (logging qs) (lift_front mf) cert t (w, l) = (r, (w', l'))"
  shows "\<exists>k \<le> 1. l' = l @ replicate k (client_config_for cert t) \<and> (\<forall>c. r = Inr c \<longrightarrow> k = 1)"
proof -
  note defs = connect_fresh_with_def io_bind_def io_context_def io_fail_def io_return_def logging_def lift_front_def
  have "l' = l \<and> isl r \<or> l' = l @ [client_config_for cert t]"
    using assms by (auto simp: defs split: prod.splits sum.splits option.splits if_splits)
  then show ?thesis
  proof
    assume "l' = l \<and> isl r"
    then show ?thesis by (intro exI [of _ 0]) auto
  next
    assume "l' = l @ [client_config_for cert t]"
    then show ?thesis by (intro exI [of _ 1]) auto
  qed
qed

lemma prewarm_loop_logs:
  assumes "prewarm_loop (connect_fresh_with (logging qs) (lift_front mf) cert t) n warm (w, l) = (r, (w', l'))"
  shows "\<exists>k \<le> n. l' = l @ replicate k (client_config_for cert t) \<and>
     (\<forall>cs. r = Inr cs \<longrightarrow> k = n \<and> length cs = length warm + n)"
  using assms
proof (induction n arbitrary: warm w l)
  case (Suc n)
  obtain r1 w1 l1 where c: "connect_fresh_with (logging qs) (lift_front mf) cert t (w, l) = (r1, (w1, l1))"
    by (metis prod.exhaust)
  obtain k1 where k1: "k1 \<le> 1" "l1 = l @ replicate k1 (client_config_for cert t)" "\<forall>c. r1 = Inr c \<longrightarrow> k1 = 1"
    using connect_logs [OF c] by blast
  show ?case
  proof (cases r1)
    case (Inl e)
    with Suc.prems c k1 show ?thesis by (intro exI [of _ k1]) (auto simp: io_bind_def)
  next
    case (Inr ci)
    then have "prewarm_loop (connect_fresh_with (logging qs) (lift_front mf) cert t) n (warm @ [ci]) (w1, l1) = (r, (w', l'))"
      using Suc.prems c by (simp add: io_bind_def)
    from Suc.IH [OF this] obtain k where "k \<le> n" "l' = l1 @ replicate k (client_config_for cert t)"
      "\<forall>cs. r = Inr cs \<longrightarrow> k = n \<and> length cs = length (warm @ [ci]) + n" by blast
    with k1 Inr show ?thesis by (intro exI [of _ "Suc k"]) auto
  qed
qed (auto simp: io_return_def)

text \<open>Every rotated circuit is dialled with exactly the given certificate as root, TLS resumption
  disabled and the given transport settings; pre-warming either fails or yields \<open>n\<close> circuits from
  \<open>n\<close> dials, and never dials more than \<open>n\<close> times.\<close>

theorem prewarm_unlinkable:
  assumes "prewarm_with n (logging qs) (lift_front mf) cert t (w, []) = (r, (w', dials))"
  shows "length dials \<le> n \<and>
    (\<forall>c \<in> set dials. qc_roots c = [cert] \<and> \<not> qc_resumption c \<and> qc_transport c = t) \<and>
    (\<forall>cs. r = Inr cs \<longrightarrow> length cs = n \<and> length dials = n)"
proof -
  obtain k where "k \<le> n" "dials = [] @ replicate k (client_config_for cert t)"
    "\<forall>cs. r = Inr cs \<longrightarrow> k = n \<and> length cs = length ([] :: circuit list) + n"
    using prewarm_loop_logs [OF assms [unfolded prewarm_with_def]] by blast
  then show ?thesis by (auto simp: client_config_for_def)
qed

definition demo_stack :: "nat quic_stack" where
  "demo_stack = \<lparr>qs_root_ok = (\<lambda>c. c \<noteq> []), qs_config_error = None,
     qs_endpoint = (\<lambda>w. (Inr (SockAddr (V4 127 0 0 1) (of_nat w)), w)), qs_dial = (\<lambda>c a n w. (Inr w, Suc w))\<rparr>"

theorem prewarm_unlinkable_witness:
  "let r = prewarm_with 2 (logging demo_stack) (lift_front (\<lambda>w. (Inr (SockAddr (V4 127 0 0 1) 9), w))) [7] None (0, [])
   in length (snd (snd r)) \<le> 2 \<and> (\<forall>c \<in> set (snd (snd r)). qc_roots c = [[7]] \<and> \<not> qc_resumption c \<and> qc_transport c = None)"
proof -
  obtain r w l where e: "prewarm_with 2 (logging demo_stack) (lift_front (\<lambda>w. (Inr (SockAddr (V4 127 0 0 1) 9), w))) [7] None (0, []) = (r, (w, l))"
    by (metis prod.exhaust)
  from prewarm_unlinkable [OF e] show ?thesis by (simp add: e)
qed

end
