(* ===== verification/WarmPool.thy ===== *)
theory WarmPool
  imports Rotation Striped
begin

text \<open>
  The self-refilling pool of warm circuits, \<^verbatim>\<open>crates/quicmix-eval/src/proxy.rs\<close>.

  The in-flight counters are shared between a slot and its leases: they are an explicit store from
  addresses to 64-bit counters, and a slot and a lease hold the address. The QUIC stack's state is
  part of the pool state; whether a connection is closed and what its statistics are is read from it
  through the parameters \<open>dead\<close> and \<open>stats\<close>. The mutex makes each operation below atomic;
  \<open>refill\<close> takes it once per circuit, and its loop is one operation per build.
\<close>

record pool_config =
  pc_target :: nat
  pc_max_uses :: "nat option"
  pc_max_age :: "duration option"
  pc_tick :: duration
  pc_drain_timeout :: duration

definition default_pool_config :: pool_config where
  "default_pool_config = \<lparr>pc_target = 4, pc_max_uses = None, pc_max_age = None, pc_tick = from_millis 250,
     pc_drain_timeout = from_secs 10\<rparr>"

definition SAMPLE_EVERY :: duration where
  "SAMPLE_EVERY = from_secs 1"

record slot =
  sl_circuit :: circuit
  sl_born :: nat
  sl_uses :: u64
  sl_active :: nat
  sl_draining :: "nat option"
  sl_last_sampled :: "nat option"

record lease =
  ls_conn :: nat
  ls_active :: nat

record 'w warm_pool =
  wp_slots :: "slot list"
  wp_rr :: u64
  wp_fronts :: "('w, string, socket_addr) io list"
  wp_front_rr :: u64
  wp_cert :: "byte list"
  wp_transport :: "transport_config option"
  wp_measured :: "measured_cc option"
  wp_cfg :: pool_config
  wp_built :: u64
  wp_retired :: u64
  wp_build_errors :: u64
  wp_counters :: "nat \<Rightarrow> u64"
  wp_next_counter :: nat
  wp_world :: 'w

definition drop_lease :: "lease \<Rightarrow> 'w warm_pool \<Rightarrow> 'w warm_pool" where
  "drop_lease l p = p\<lparr>wp_counters := (wp_counters p)(ls_active l := wp_counters p (ls_active l) - 1)\<rparr>"

definition next_front :: "'w warm_pool \<Rightarrow> ('w, string, socket_addr) io \<times> 'w warm_pool" where
  "next_front p =
     (wp_fronts p ! (unat (wp_front_rr p) mod length (wp_fronts p)), p\<lparr>wp_front_rr := wp_front_rr p + 1\<rparr>)"

text \<open>
  \<open>build_one\<close>: the transport from the measured oracle or the fixed one, then a fresh circuit
  from the next front. \<open>idle_try_from\<close> is the conversion of the idle timeout as in theory
  Congestion. The outer \<open>option\<close> is a panic in the estimate.
\<close>

definition build_one ::
  "(duration \<Rightarrow> nat option) \<Rightarrow> 'w quic_stack \<Rightarrow> nat \<Rightarrow> 'w warm_pool \<Rightarrow> ((circuit_error + slot) \<times> 'w warm_pool) may_panic" where
  "build_one idle_try_from qs now p =
     map_option (\<lambda>(tc, mc).
       let (front, p1) = next_front (p\<lparr>wp_measured := mc\<rparr>) in
       case connect_fresh_with qs front (wp_cert p) tc (wp_world p1) of
         (Inl e, w) \<Rightarrow> (Inl e, p1\<lparr>wp_world := w\<rparr>)
       | (Inr c, w) \<Rightarrow>
           (Inr \<lparr>sl_circuit = c, sl_born = now, sl_uses = 0, sl_active = wp_next_counter p1, sl_draining = None,
                 sl_last_sampled = None\<rparr>,
            p1\<lparr>wp_world := w, wp_built := wp_built p1 + 1, wp_next_counter := Suc (wp_next_counter p1),
               wp_counters := (wp_counters p1)(wp_next_counter p1 := 0)\<rparr>))
     (case wp_measured p of
        Some m \<Rightarrow> map_option (\<lambda>(t, m', _). (Some t, Some m')) (m_transport idle_try_from m)
      | None \<Rightarrow> Some (wp_transport p, None))"

definition ready_slot :: "('w \<Rightarrow> nat \<Rightarrow> bool) \<Rightarrow> 'w \<Rightarrow> slot \<Rightarrow> bool" where
  "ready_slot dead w s \<longleftrightarrow> sl_draining s = None \<and> \<not> dead w (ci_conn (sl_circuit s))"

definition pool_ready :: "('w \<Rightarrow> nat \<Rightarrow> bool) \<Rightarrow> 'w warm_pool \<Rightarrow> nat" where
  "pool_ready dead p = length (filter (ready_slot dead (wp_world p)) (wp_slots p))"

text \<open>The loop of \<open>refill\<close>: a failed build counts and ends it.\<close>

fun refill_loop ::
  "(duration \<Rightarrow> nat option) \<Rightarrow> 'w quic_stack \<Rightarrow> nat \<Rightarrow> nat \<Rightarrow> 'w warm_pool \<Rightarrow> 'w warm_pool may_panic" where
  "refill_loop idle_try_from qs now 0 p = Some p"
| "refill_loop idle_try_from qs now (Suc n) p =
     (case build_one idle_try_from qs now p of
        None \<Rightarrow> None
      | Some (Inr slot, p') \<Rightarrow> refill_loop idle_try_from qs now n (p'\<lparr>wp_slots := wp_slots p' @ [slot]\<rparr>)
      | Some (Inl _, p') \<Rightarrow> Some (p'\<lparr>wp_build_errors := wp_build_errors p' + 1\<rparr>))"

definition refill ::
  "('w \<Rightarrow> nat \<Rightarrow> bool) \<Rightarrow> (duration \<Rightarrow> nat option) \<Rightarrow> 'w quic_stack \<Rightarrow> nat \<Rightarrow> 'w warm_pool \<Rightarrow> 'w warm_pool may_panic" where
  "refill dead idle_try_from qs now p =
     refill_loop idle_try_from qs now (pc_target (wp_cfg p) - pool_ready dead p) p"

definition spawn_pool ::
  "('w \<Rightarrow> nat \<Rightarrow> bool) \<Rightarrow> (duration \<Rightarrow> nat option) \<Rightarrow> 'w quic_stack \<Rightarrow> nat \<Rightarrow> 'w \<Rightarrow>
   ('w, string, socket_addr) io list \<Rightarrow> byte list \<Rightarrow> transport_config option \<Rightarrow> measured_cc option \<Rightarrow> pool_config \<Rightarrow>
   (string + 'w warm_pool) may_panic" where
  "spawn_pool dead idle_try_from qs now w fronts cert tc measured cfg =
     (if fronts = [] then Some (Inl ''WarmPool needs at least one front factory'')
      else map_option Inr (refill dead idle_try_from qs now
        \<lparr>wp_slots = [], wp_rr = 0, wp_fronts = fronts, wp_front_rr = 0, wp_cert = cert, wp_transport = tc,
         wp_measured = measured, wp_cfg = cfg, wp_built = 0, wp_retired = 0, wp_build_errors = 0,
         wp_counters = (\<lambda>_. 0), wp_next_counter = 0, wp_world = w\<rparr>))"

definition start_pool where
  "start_pool dead idle_try_from qs now w fronts cert tc cfg =
     spawn_pool dead idle_try_from qs now w fronts cert tc None cfg"

definition start_measured where
  "start_measured dead idle_try_from qs now w fronts cert measured cfg =
     spawn_pool dead idle_try_from qs now w fronts cert None (Some measured) cfg"

text \<open>\<open>pick\<close>: dead circuits are dropped, then the next ready one is leased.\<close>

definition pick :: "('w \<Rightarrow> nat \<Rightarrow> bool) \<Rightarrow> 'w warm_pool \<Rightarrow> lease option \<times> 'w warm_pool" where
  "pick dead p =
     (let slots = filter (\<lambda>s. \<not> dead (wp_world p) (ci_conn (sl_circuit s))) (wp_slots p);
          idxs = filter (\<lambda>i. sl_draining (slots ! i) = None) [0..<length slots]
      in if idxs = [] then (None, p\<lparr>wp_slots := slots\<rparr>)
         else (let i = idxs ! (unat (wp_rr p) mod length idxs);
                   s = slots ! i
               in (Some \<lparr>ls_conn = ci_conn (sl_circuit s), ls_active = sl_active s\<rparr>,
                   p\<lparr>wp_slots := slots[i := s\<lparr>sl_uses := sl_uses s + 1\<rparr>], wp_rr := wp_rr p + 1,
                     wp_counters := (wp_counters p)(sl_active s := wp_counters p (sl_active s) + 1)\<rparr>)))"

section \<open>The maintainer\<close>

definition retire_due :: "pool_config \<Rightarrow> nat \<Rightarrow> slot \<Rightarrow> bool" where
  "retire_due cfg now s \<longleftrightarrow>
     sl_draining s = None \<and>
     ((case pc_max_age cfg of Some a \<Rightarrow> a \<le> now - sl_born s | None \<Rightarrow> False) \<or>
      (case pc_max_uses cfg of Some m \<Rightarrow> m \<le> unat (sl_uses s) | None \<Rightarrow> False))"

text \<open>The drain deadline is an \<open>Instant\<close>: it panics when it is out of range.\<close>

definition retire :: "pool_config \<Rightarrow> nat \<Rightarrow> slot \<Rightarrow> (slot \<times> bool) may_panic" where
  "retire cfg now s =
     (if retire_due cfg now s
      then map_option (\<lambda>deadline. (s\<lparr>sl_draining := Some deadline\<rparr>, True)) (instant_add now (pc_drain_timeout cfg))
      else Some (s, False))"

definition sample_due :: "('w \<Rightarrow> nat \<Rightarrow> bool) \<Rightarrow> 'w \<Rightarrow> nat \<Rightarrow> slot \<Rightarrow> bool" where
  "sample_due dead w now s \<longleftrightarrow>
     (case sl_last_sampled s of None \<Rightarrow> True | Some t \<Rightarrow> SAMPLE_EVERY \<le> now - t) \<and> \<not> dead w (ci_conn (sl_circuit s))"

fun sample_slots ::
  "('w \<Rightarrow> nat \<Rightarrow> bool) \<Rightarrow> ('w \<Rightarrow> nat \<Rightarrow> conn_stats) \<Rightarrow> 'w \<Rightarrow> nat \<Rightarrow> slot list \<Rightarrow> measured_cc \<Rightarrow> slot list \<times> measured_cc" where
  "sample_slots dead stats w now [] m = ([], m)"
| "sample_slots dead stats w now (s # ss) m =
     (if sample_due dead w now s
      then (let (ss', m') = sample_slots dead stats w now ss (m_observe (stats w (ci_conn (sl_circuit s))) m)
            in (s\<lparr>sl_last_sampled := Some now\<rparr> # ss', m'))
      else (let (ss', m') = sample_slots dead stats w now ss m in (s # ss', m')))"

definition reaped :: "('w \<Rightarrow> nat \<Rightarrow> bool) \<Rightarrow> 'w \<Rightarrow> (nat \<Rightarrow> u64) \<Rightarrow> nat \<Rightarrow> slot \<Rightarrow> bool" where
  "reaped dead w counters now s \<longleftrightarrow>
     dead w (ci_conn (sl_circuit s)) \<or>
     (case sl_draining s of Some dl \<Rightarrow> counters (sl_active s) = 0 \<or> dl \<le> now | None \<Rightarrow> False)"

text \<open>The locked part of one turn of the maintainer; \<open>refill\<close> follows it. A panic comes from the first circuit that is due, before
  anything is changed, and ends the task.\<close>

definition maintain_locked ::
  "('w \<Rightarrow> nat \<Rightarrow> bool) \<Rightarrow> ('w \<Rightarrow> nat \<Rightarrow> conn_stats) \<Rightarrow> nat \<Rightarrow> 'w warm_pool \<Rightarrow> 'w warm_pool may_panic" where
  "maintain_locked dead stats now p =
     map_option (\<lambda>retired.
       let slots1 = map fst retired;
           n = length (filter snd retired);
           (slots2, m) = (case wp_measured p of
              Some m \<Rightarrow> (case sample_slots dead stats (wp_world p) now slots1 m of (ss, m') \<Rightarrow> (ss, Some m'))
            | None \<Rightarrow> (slots1, None));
           slots3 = filter (\<lambda>s. \<not> reaped dead (wp_world p) (wp_counters p) now s) slots2
       in p\<lparr>wp_slots := slots3, wp_measured := m, wp_retired := wp_retired p + of_nat n\<rparr>)
     (those (map (retire (wp_cfg p) now) (wp_slots p)))"

definition maintain_turn ::
  "('w \<Rightarrow> nat \<Rightarrow> bool) \<Rightarrow> ('w \<Rightarrow> nat \<Rightarrow> conn_stats) \<Rightarrow> (duration \<Rightarrow> nat option) \<Rightarrow> 'w quic_stack \<Rightarrow> nat \<Rightarrow> 'w warm_pool \<Rightarrow>
   'w warm_pool may_panic" where
  "maintain_turn dead stats idle_try_from qs now p =
     Option.bind (maintain_locked dead stats now p) (refill dead idle_try_from qs now)"

definition distinct_sources :: "'w warm_pool \<Rightarrow> nat" where
  "distinct_sources p = length (remdups (map (ci_local \<circ> sl_circuit) (wp_slots p)))"

section \<open>Picking in rotation\<close>

definition ready_list :: "('w \<Rightarrow> nat \<Rightarrow> bool) \<Rightarrow> 'w warm_pool \<Rightarrow> slot list" where
  "ready_list dead p = filter (ready_slot dead (wp_world p)) (wp_slots p)"

definition bump :: "slot \<Rightarrow> slot" where
  "bump s = s\<lparr>sl_uses := sl_uses s + 1\<rparr>"

abbreviation idxs_of :: "('a \<Rightarrow> bool) \<Rightarrow> 'a list \<Rightarrow> nat list" where
  "idxs_of P xs \<equiv> filter (\<lambda>i. P (xs ! i)) [0..<length xs]"

lemma idxs_snoc: "idxs_of P (xs @ [x]) = idxs_of P xs @ (if P x then [length xs] else [])"
  by (auto intro!: filter_cong simp: nth_append)

lemma map_idxs: "map ((!) xs) (idxs_of P xs) = filter P xs"
proof (induction xs rule: rev_induct)
  case (snoc x xs)
  have "map ((!) (xs @ [x])) (idxs_of P xs) = map ((!) xs) (idxs_of P xs)"
    by (auto simp: nth_append)
  with snoc show ?case unfolding idxs_snoc by auto
qed simp

lemma length_idxs: "length (idxs_of P xs) = length (filter P xs)"
  using map_idxs [of xs P] by (metis length_map)

lemma filter_update:
  "j < length (idxs_of P xs) \<Longrightarrow> P y \<Longrightarrow> filter P (xs[idxs_of P xs ! j := y]) = (filter P xs)[j := y]"
proof (induction xs rule: rev_induct)
  case (snoc x xs)
  show ?case
  proof (cases "j < length (idxs_of P xs)")
    case True
    then have "idxs_of P xs ! j \<in> set (idxs_of P xs)" by (rule nth_mem)
    then have i: "idxs_of P xs ! j < length xs" by auto
    have "idxs_of P (xs @ [x]) ! j = idxs_of P xs ! j" unfolding idxs_snoc using True by (simp add: nth_append)
    moreover have "j < length (filter P xs)" using True by (simp only: length_idxs)
    ultimately show ?thesis using snoc.IH [OF True snoc.prems(2)] i by (simp add: list_update_append)
  next
    case False
    with snoc.prems(1) have j: "j = length (idxs_of P xs)" and x: "P x" unfolding idxs_snoc by (auto split: if_splits)
    then have "idxs_of P (xs @ [x]) ! j = length xs" unfolding idxs_snoc by (simp add: nth_append)
    moreover have "j = length (filter P xs)" using j by (simp only: length_idxs)
    ultimately show ?thesis using x snoc.prems(2) by (simp add: list_update_append)
  qed
qed simp

lemma pick_none: "ready_list dead p = [] \<Longrightarrow> fst (pick dead p) = None \<and> ready_list dead (snd (pick dead p)) = []"
proof -
  let ?slots = "filter (\<lambda>s. \<not> dead (wp_world p) (ci_conn (sl_circuit s))) (wp_slots p)"
  assume r: "ready_list dead p = []"
  have "length (idxs_of (\<lambda>s. sl_draining s = None) ?slots) = length (filter (\<lambda>s. sl_draining s = None) ?slots)"
    by (rule length_idxs)
  also have "filter (\<lambda>s. sl_draining s = None) ?slots = ready_list dead p"
    by (simp add: ready_list_def ready_slot_def [abs_def] conj_commute)
  finally have "idxs_of (\<lambda>s. sl_draining s = None) ?slots = []" using r by simp
  with r show ?thesis
    by (auto simp: pick_def Let_def ready_list_def ready_slot_def filter_empty_conv)
qed

lemma pick_ready:
  assumes "ready_list dead p \<noteq> []"
  defines "j \<equiv> unat (wp_rr p) mod length (ready_list dead p)"
  shows "fst (pick dead p) = Some \<lparr>ls_conn = ci_conn (sl_circuit (ready_list dead p ! j)), ls_active = sl_active (ready_list dead p ! j)\<rparr>"
    and "ready_list dead (snd (pick dead p)) = (ready_list dead p)[j := bump (ready_list dead p ! j)]"
    and "wp_rr (snd (pick dead p)) = wp_rr p + 1"
proof -
  let ?slots = "filter (\<lambda>s. \<not> dead (wp_world p) (ci_conn (sl_circuit s))) (wp_slots p)"
  let ?P = "\<lambda>s. sl_draining s = None"
  have ready: "filter ?P ?slots = ready_list dead p"
    by (simp add: ready_list_def ready_slot_def [abs_def] conj_commute)
  have len: "length (idxs_of ?P ?slots) = length (ready_list dead p)"
    by (rule length_idxs [of ?P ?slots, unfolded ready])
  then have ne: "idxs_of ?P ?slots \<noteq> []" using assms(1) by auto
  have j: "j < length (idxs_of ?P ?slots)" using assms(1) unfolding len j_def by simp
  define i where "i = idxs_of ?P ?slots ! j"
  have i: "i < length ?slots" using nth_mem [OF j] unfolding i_def by auto
  have at: "?slots ! i = ready_list dead p ! j"
    unfolding ready [symmetric] map_idxs [symmetric, of ?P] using j by (simp add: i_def)
  have pick: "pick dead p = (Some \<lparr>ls_conn = ci_conn (sl_circuit (?slots ! i)), ls_active = sl_active (?slots ! i)\<rparr>,
      p\<lparr>wp_slots := ?slots[i := bump (?slots ! i)], wp_rr := wp_rr p + 1,
        wp_counters := (wp_counters p)(sl_active (?slots ! i) := wp_counters p (sl_active (?slots ! i)) + 1)\<rparr>)"
    using ne unfolding pick_def Let_def len bump_def i_def j_def by simp
  show "fst (pick dead p) = Some \<lparr>ls_conn = ci_conn (sl_circuit (ready_list dead p ! j)), ls_active = sl_active (ready_list dead p ! j)\<rparr>"
    by (simp add: pick at)
  show "wp_rr (snd (pick dead p)) = wp_rr p + 1" by (simp add: pick)
  have y: "?P (bump (?slots ! i))" using nth_mem [OF j] unfolding i_def by (auto simp: bump_def)
  have alive: "\<not> dead (wp_world p) (ci_conn (sl_circuit (bump (?slots ! i))))"
    using nth_mem [OF i] by (auto simp: bump_def)
  have "ready_list dead (snd (pick dead p)) = filter ?P (filter (\<lambda>s. \<not> dead (wp_world p) (ci_conn (sl_circuit s))) (?slots[i := bump (?slots ! i)]))"
    by (simp add: pick ready_list_def ready_slot_def [abs_def] conj_commute)
  also have "filter (\<lambda>s. \<not> dead (wp_world p) (ci_conn (sl_circuit s))) (?slots[i := bump (?slots ! i)]) = ?slots[i := bump (?slots ! i)]"
    by (rule filter_True) (auto dest!: set_update_subset_insert [THEN subsetD] simp: alive)
  also have "filter ?P (?slots[i := bump (?slots ! i)]) = (filter ?P ?slots)[j := bump (?slots ! i)]"
    unfolding i_def by (rule filter_update [OF j]) (use y in \<open>simp add: i_def\<close>)
  finally show "ready_list dead (snd (pick dead p)) = (ready_list dead p)[j := bump (ready_list dead p ! j)]"
    by (simp only: ready at)
qed

interpretation pool_rr: round_robin "\<lambda>(_ :: unit) p. snd (pick dead p)" wp_rr "\<lambda>p. length (ready_list dead p)"
    "\<lambda>p i. ready_list dead p ! i" "\<lambda>_. bump" for dead
proof
  fix a :: unit and p :: "'a warm_pool"
  show "length (ready_list dead (snd (pick dead p))) = length (ready_list dead p)"
    by (cases "ready_list dead p = []") (simp_all add: pick_ready pick_none)
qed (auto simp: pick_ready)

section \<open>Executions with outstanding leases\<close>

text \<open>
  \<open>pool_exec \<dots> ls p\<close>: a pool reached from the empty pool, with the leases that are out. The QUIC
  stack may move at any time.
\<close>

inductive pool_exec ::
  "('w \<Rightarrow> nat \<Rightarrow> bool) \<Rightarrow> ('w \<Rightarrow> nat \<Rightarrow> conn_stats) \<Rightarrow> (duration \<Rightarrow> nat option) \<Rightarrow> 'w quic_stack \<Rightarrow>
   lease list \<Rightarrow> 'w warm_pool \<Rightarrow> bool" for dead stats idle qs where
  px_start: "wp_slots p = [] \<Longrightarrow> wp_counters p = (\<lambda>_. 0) \<Longrightarrow> pool_exec dead stats idle qs [] p"
| px_pick: "pool_exec dead stats idle qs ls p \<Longrightarrow> pick dead p = (Some l, p') \<Longrightarrow> pool_exec dead stats idle qs (l # ls) p'"
| px_pick_none: "pool_exec dead stats idle qs ls p \<Longrightarrow> pick dead p = (None, p') \<Longrightarrow> pool_exec dead stats idle qs ls p'"
| px_drop: "pool_exec dead stats idle qs ls p \<Longrightarrow> l \<in> set ls \<Longrightarrow> pool_exec dead stats idle qs (remove1 l ls) (drop_lease l p)"
| px_maintain: "pool_exec dead stats idle qs ls p \<Longrightarrow> maintain_locked dead stats now p = Some p' \<Longrightarrow> pool_exec dead stats idle qs ls p'"
| px_build: "pool_exec dead stats idle qs ls p \<Longrightarrow> build_one idle qs now p = Some (Inr s, p') \<Longrightarrow>
    pool_exec dead stats idle qs ls (p'\<lparr>wp_slots := wp_slots p' @ [s]\<rparr>)"
| px_build_failed: "pool_exec dead stats idle qs ls p \<Longrightarrow> build_one idle qs now p = Some (Inl e, p') \<Longrightarrow>
    pool_exec dead stats idle qs ls (p'\<lparr>wp_build_errors := wp_build_errors p' + 1\<rparr>)"
| px_world: "pool_exec dead stats idle qs ls p \<Longrightarrow> pool_exec dead stats idle qs ls (p\<lparr>wp_world := w\<rparr>)"

definition leases_on :: "nat \<Rightarrow> lease list \<Rightarrow> nat" where
  "leases_on a ls = length (filter (\<lambda>l. ls_active l = a) ls)"

text \<open>The shared counters count the outstanding leases; counters are not reused.\<close>

definition lease_inv :: "lease list \<Rightarrow> 'w warm_pool \<Rightarrow> bool" where
  "lease_inv ls p \<longleftrightarrow>
     (\<forall>a. wp_counters p a = of_nat (leases_on a ls)) \<and>
     (\<forall>l \<in> set ls. ls_active l < wp_next_counter p) \<and>
     (\<forall>s \<in> set (wp_slots p). sl_active s < wp_next_counter p)"

lemma leases_on_simps [simp]:
  "leases_on a [] = 0" "leases_on a (l # ls) = (if ls_active l = a then Suc (leases_on a ls) else leases_on a ls)"
  by (simp_all add: leases_on_def)

lemma leases_on_remove1:
  "l \<in> set ls \<Longrightarrow> leases_on a (remove1 l ls) = (if ls_active l = a then leases_on a ls - 1 else leases_on a ls) \<and>
    (ls_active l = a \<longrightarrow> 0 < leases_on a ls)"
  by (induction ls) (auto simp: leases_on_def filter_empty_conv)

definition sampled :: "('w \<Rightarrow> nat \<Rightarrow> bool) \<Rightarrow> 'w \<Rightarrow> nat \<Rightarrow> slot \<Rightarrow> slot" where
  "sampled dead w now s = (if sample_due dead w now s then s\<lparr>sl_last_sampled := Some now\<rparr> else s)"

lemma sample_slots_map: "fst (sample_slots dead stats w now ss m) = map (sampled dead w now) ss"
  by (induction ss arbitrary: m) (auto simp: sampled_def Let_def case_prod_beta)

text \<open>When a turn does not panic, and what it then does to a circuit.\<close>

definition retired_slot :: "pool_config \<Rightarrow> nat \<Rightarrow> slot \<Rightarrow> slot" where
  "retired_slot cfg now s = (if retire_due cfg now s then s\<lparr>sl_draining := Some (now + pc_drain_timeout cfg)\<rparr> else s)"

lemma retired_slot_frame [simp]:
  "sl_circuit (retired_slot cfg now s) = sl_circuit s" "sl_active (retired_slot cfg now s) = sl_active s"
  by (simp_all add: retired_slot_def)

lemma retire_all:
  "those (map (retire cfg now) ss) =
   (if list_ex (retire_due cfg now) ss \<and> instant_limit \<le> now + pc_drain_timeout cfg then None
    else Some (map (\<lambda>s. (retired_slot cfg now s, retire_due cfg now s)) ss))"
  by (induction ss) (auto simp: retire_def retired_slot_def instant_add_def)

lemma maintain_panics_iff:
  "maintain_locked dead stats now p = None \<longleftrightarrow>
   list_ex (retire_due (wp_cfg p) now) (wp_slots p) \<and> instant_limit \<le> now + pc_drain_timeout (wp_cfg p)"
  by (simp add: maintain_locked_def retire_all)

lemma maintain_slots:
  assumes "maintain_locked dead stats now p = Some p'"
  shows "\<exists>f. (\<forall>s. sl_circuit (f s) = sl_circuit s \<and> sl_active (f s) = sl_active s \<and>
          sl_draining (f s) = sl_draining (retired_slot (wp_cfg p) now s)) \<and>
     wp_slots p' = filter (\<lambda>s. \<not> reaped dead (wp_world p) (wp_counters p) now s) (map f (wp_slots p))"
proof (cases "wp_measured p")
  case None
  then show ?thesis using assms
    by (intro exI [of _ "retired_slot (wp_cfg p) now"])
       (auto simp: maintain_locked_def retire_all Let_def comp_def split: if_splits)
next
  case (Some m)
  let ?f = "sampled dead (wp_world p) now \<circ> retired_slot (wp_cfg p) now"
  obtain ss m' where ss: "sample_slots dead stats (wp_world p) now (map (retired_slot (wp_cfg p) now) (wp_slots p)) m = (ss, m')" by fastforce
  then have "ss = map ?f (wp_slots p)"
    using sample_slots_map [of dead stats "wp_world p" now "map (retired_slot (wp_cfg p) now) (wp_slots p)" m] by simp
  then show ?thesis using assms Some ss
    by (intro exI [of _ ?f]) (auto simp: maintain_locked_def retire_all Let_def comp_def sampled_def split: if_splits)
qed

lemma maintain_frame:
  assumes "maintain_locked dead stats now p = Some p'"
  shows "wp_counters p' = wp_counters p" and "wp_next_counter p' = wp_next_counter p" and "wp_world p' = wp_world p"
    and "wp_build_errors p' = wp_build_errors p" and "wp_fronts p' = wp_fronts p" and "wp_cert p' = wp_cert p" and "wp_cfg p' = wp_cfg p"
  using assms by (auto simp: maintain_locked_def Let_def case_prod_beta)

lemma pick_slots:
  assumes "pick dead p = (r, p')"
  shows "sl_active ` set (wp_slots p') \<subseteq> sl_active ` set (wp_slots p)" and "wp_next_counter p' = wp_next_counter p"
    and "case r of None \<Rightarrow> wp_counters p' = wp_counters p
       | Some l \<Rightarrow> ls_active l \<in> sl_active ` set (wp_slots p) \<and>
           wp_counters p' = (wp_counters p)(ls_active l := wp_counters p (ls_active l) + 1)"
proof -
  define slots where "slots = filter (\<lambda>s. \<not> dead (wp_world p) (ci_conn (sl_circuit s))) (wp_slots p)"
  define idxs where "idxs = filter (\<lambda>i. sl_draining (slots ! i) = None) [0..<length slots]"
  define i where "i = idxs ! (unat (wp_rr p) mod length idxs)"
  have sub: "set slots \<subseteq> set (wp_slots p)" by (auto simp: slots_def)
  have r: "(r, p') = (if idxs = [] then (None, p\<lparr>wp_slots := slots\<rparr>)
      else (Some \<lparr>ls_conn = ci_conn (sl_circuit (slots ! i)), ls_active = sl_active (slots ! i)\<rparr>,
        p\<lparr>wp_slots := slots[i := (slots ! i)\<lparr>sl_uses := sl_uses (slots ! i) + 1\<rparr>], wp_rr := wp_rr p + 1,
          wp_counters := (wp_counters p)(sl_active (slots ! i) := wp_counters p (sl_active (slots ! i)) + 1)\<rparr>))"
    using assms unfolding pick_def Let_def slots_def idxs_def i_def by simp
  have i: "slots ! i \<in> set slots" if "idxs \<noteq> []"
  proof -
    have "i \<in> set idxs" using that unfolding i_def by (intro nth_mem) simp
    then show ?thesis by (auto simp: idxs_def)
  qed
  show "sl_active ` set (wp_slots p') \<subseteq> sl_active ` set (wp_slots p)"
    using r sub i by (auto split: if_splits dest!: set_update_subset_insert [THEN subsetD])
  show "wp_next_counter p' = wp_next_counter p" using r by (auto split: if_splits)
  show "case r of None \<Rightarrow> wp_counters p' = wp_counters p
       | Some l \<Rightarrow> ls_active l \<in> sl_active ` set (wp_slots p) \<and>
           wp_counters p' = (wp_counters p)(ls_active l := wp_counters p (ls_active l) + 1)"
    using r sub i by (auto split: if_splits)
qed

lemma build_one_frame:
  assumes "build_one idle qs now p = Some (r, p')"
  shows "wp_slots p' = wp_slots p" and
    "case r of Inr s \<Rightarrow> sl_active s = wp_next_counter p \<and> sl_draining s = None \<and> sl_uses s = 0 \<and>
        wp_next_counter p' = Suc (wp_next_counter p) \<and>
        wp_counters p' = (wp_counters p)(wp_next_counter p := 0) \<and> wp_built p' = wp_built p + 1
     | Inl _ \<Rightarrow> wp_next_counter p' = wp_next_counter p \<and> wp_counters p' = wp_counters p \<and> wp_built p' = wp_built p"
    and "wp_build_errors p' = wp_build_errors p" and "wp_cfg p' = wp_cfg p" and "wp_rr p' = wp_rr p"
    and "wp_front_rr p' = wp_front_rr p + 1"
proof -
  define T where "T = (case wp_measured p of
      Some m \<Rightarrow> map_option (\<lambda>(t, m', _). (Some t, Some m')) (m_transport idle m)
    | None \<Rightarrow> Some (wp_transport p, None))"
  obtain tc mc where T: "T = Some (tc, mc)"
    using assms unfolding build_one_def T_def [symmetric] by (cases T) auto
  obtain r1 w1 where c: "connect_fresh_with qs (wp_fronts p ! (unat (wp_front_rr p) mod length (wp_fronts p))) (wp_cert p) tc
      (wp_world p) = (r1, w1)" by fastforce
  have b: "build_one idle qs now p = Some (case r1 of
      Inl e \<Rightarrow> (Inl e, p\<lparr>wp_measured := mc, wp_front_rr := wp_front_rr p + 1, wp_world := w1\<rparr>)
    | Inr c \<Rightarrow> (Inr \<lparr>sl_circuit = c, sl_born = now, sl_uses = 0, sl_active = wp_next_counter p, sl_draining = None,
                 sl_last_sampled = None\<rparr>,
        p\<lparr>wp_measured := mc, wp_front_rr := wp_front_rr p + 1, wp_world := w1, wp_built := wp_built p + 1,
          wp_next_counter := Suc (wp_next_counter p), wp_counters := (wp_counters p)(wp_next_counter p := 0)\<rparr>))"
    unfolding build_one_def T_def [symmetric] by (simp add: T next_front_def c split: sum.split)
  show "wp_slots p' = wp_slots p"
    "case r of Inr s \<Rightarrow> sl_active s = wp_next_counter p \<and> sl_draining s = None \<and> sl_uses s = 0 \<and>
        wp_next_counter p' = Suc (wp_next_counter p) \<and>
        wp_counters p' = (wp_counters p)(wp_next_counter p := 0) \<and> wp_built p' = wp_built p + 1
     | Inl _ \<Rightarrow> wp_next_counter p' = wp_next_counter p \<and> wp_counters p' = wp_counters p \<and> wp_built p' = wp_built p"
    "wp_build_errors p' = wp_build_errors p" "wp_cfg p' = wp_cfg p" "wp_rr p' = wp_rr p" "wp_front_rr p' = wp_front_rr p + 1"
    using assms by (cases r1; auto simp: b)+
qed

lemma exec_lease_inv: "pool_exec dead stats idle qs ls p \<Longrightarrow> lease_inv ls p"
proof (induction rule: pool_exec.induct)
  case (px_pick ls p l p')
  note ps = pick_slots [OF px_pick.hyps(2)]
  have l: "ls_active l < wp_next_counter p" using ps(3) px_pick.IH by (auto simp: lease_inv_def)
  have "\<forall>s \<in> set (wp_slots p'). sl_active s < wp_next_counter p'" using ps(1,2) px_pick.IH by (fastforce simp: lease_inv_def)
  with l ps(2,3) px_pick.IH show ?case by (simp add: lease_inv_def)
next
  case (px_pick_none ls p p')
  note ps = pick_slots [OF px_pick_none.hyps(2)]
  have "\<forall>s \<in> set (wp_slots p'). sl_active s < wp_next_counter p'" using ps(1,2) px_pick_none.IH by (fastforce simp: lease_inv_def)
  with ps(2,3) px_pick_none.IH show ?case by (simp add: lease_inv_def)
next
  case (px_drop ls p l)
  have "of_nat (leases_on (ls_active l) ls) - 1 = (of_nat (leases_on (ls_active l) ls - 1) :: u64)"
    using leases_on_remove1 [OF px_drop.hyps(2)] by (simp add: of_nat_diff Suc_leI)
  with px_drop show ?case
    by (auto simp: lease_inv_def drop_lease_def leases_on_remove1 dest: set_remove1_subset [THEN subsetD])
next
  case (px_maintain ls p now p')
  obtain f where "\<forall>s. sl_active (f s) = sl_active s"
    and "wp_slots p' = filter (\<lambda>s. \<not> reaped dead (wp_world p) (wp_counters p) now s) (map f (wp_slots p))"
    using maintain_slots [OF px_maintain.hyps(2)] by blast
  with px_maintain.IH maintain_frame [OF px_maintain.hyps(2)] show ?case by (auto simp: lease_inv_def)
next
  case (px_build ls p now s p')
  note bf = build_one_frame [OF px_build.hyps(2)]
  have "leases_on (wp_next_counter p) ls = 0"
    using px_build.IH by (auto simp: leases_on_def lease_inv_def filter_empty_conv)
  with bf(1,2) px_build.IH show ?case by (auto simp: lease_inv_def less_Suc_eq)
next
  case (px_build_failed ls p now e p')
  then show ?case using build_one_frame [OF px_build_failed.hyps(2)] by (simp add: lease_inv_def)
qed (auto simp: lease_inv_def)

text \<open>C28: graceful drain. However the pool got here, a turn of the maintainer keeps a circuit that a
  request still holds a lease on, unless the connection is dead or the drain deadline has passed: a
  rotation never takes a healthy circuit from a request in flight. A turn that panics leaves the pool as it was.\<close>

theorem leased_circuit_kept:
  assumes "pool_exec dead stats idle qs ls p" and "l \<in> set ls" and "length ls < u64_limit"
    and "s \<in> set (wp_slots p)" and "sl_active s = ls_active l"
    and "\<not> dead (wp_world p) (ci_conn (sl_circuit s))"
    and "case sl_draining s of Some dl \<Rightarrow> now < dl | None \<Rightarrow> 0 < pc_drain_timeout (wp_cfg p)"
  shows "\<exists>s' \<in> set (wp_slots (case maintain_locked dead stats now p of Some p' \<Rightarrow> p' | None \<Rightarrow> p)).
    sl_circuit s' = sl_circuit s \<and> sl_active s' = sl_active s"
proof (cases "maintain_locked dead stats now p")
  case None
  with assms(4) show ?thesis by auto
next
  case (Some p')
  obtain f where f: "\<forall>s. sl_circuit (f s) = sl_circuit s \<and> sl_active (f s) = sl_active s \<and>
        sl_draining (f s) = sl_draining (retired_slot (wp_cfg p) now s)"
    and slots: "wp_slots p' = filter (\<lambda>s. \<not> reaped dead (wp_world p) (wp_counters p) now s) (map f (wp_slots p))"
    using maintain_slots [OF Some] by blast
  have "0 < leases_on (ls_active l) ls" using leases_on_remove1 [OF assms(2)] by blast
  moreover have "leases_on (ls_active l) ls < u64_limit"
    unfolding leases_on_def by (rule le_less_trans [OF length_filter_le assms(3)])
  ultimately have "(of_nat (leases_on (ls_active l) ls) :: u64) \<noteq> 0"
    by (simp add: word_of_nat_eq_0_iff dvd_imp_le nat_dvd_not_less)
  then have c: "wp_counters p (sl_active s) \<noteq> 0"
    using exec_lease_inv [OF assms(1)] assms(5) by (simp add: lease_inv_def)
  have "case sl_draining (retired_slot (wp_cfg p) now s) of Some dl \<Rightarrow> now < dl | None \<Rightarrow> True"
    using assms(7) by (auto simp: retired_slot_def retire_due_def split: option.splits)
  then have "\<not> reaped dead (wp_world p) (wp_counters p) now (f s)"
    using f c assms(6) by (auto simp: reaped_def split: option.splits)
  with f assms(4) show ?thesis by (simp add: Some slots) (intro bexI [of _ s], auto)
qed

definition local_front :: "(nat, string, socket_addr) io" where
  "local_front = (\<lambda>w. (Inr (SockAddr (V4 127 0 0 1) 9), w))"

definition one_slot :: slot where
  "one_slot = \<lparr>sl_circuit = \<lparr>ci_conn = 0, ci_local = SockAddr (V4 127 0 0 1) 0\<rparr>, sl_born = 0, sl_uses = 0, sl_active = 0,
     sl_draining = None, sl_last_sampled = None\<rparr>"

definition demo_pool :: "nat warm_pool" where
  "demo_pool = \<lparr>wp_slots = [], wp_rr = 0, wp_fronts = [local_front], wp_front_rr = 0, wp_cert = [7], wp_transport = None,
     wp_measured = None, wp_cfg = default_pool_config\<lparr>pc_target := 1, pc_max_uses := Some 1\<rparr>, wp_built = 0, wp_retired = 0,
     wp_build_errors = 0, wp_counters = (\<lambda>_. 0), wp_next_counter = 0, wp_world = 0\<rparr>"

lemma demo_build:
  "build_one Some demo_stack 0 demo_pool = Some (Inr one_slot,
     demo_pool\<lparr>wp_front_rr := 1, wp_world := 1, wp_built := 1, wp_next_counter := 1, wp_counters := (\<lambda>_. 0)\<rparr>)"
  by (simp add: build_one_def next_front_def demo_pool_def local_front_def connect_fresh_with_def io_bind_def io_context_def
      demo_stack_def io_return_def one_slot_def fun_eq_iff)

definition warm_demo :: "nat warm_pool" where
  "warm_demo = demo_pool\<lparr>wp_front_rr := 1, wp_world := 1, wp_built := 1, wp_next_counter := 1, wp_counters := (\<lambda>_. 0),
     wp_slots := [one_slot]\<rparr>"

lemma warm_demo_exec: "pool_exec (\<lambda>_ _. False) stats Some demo_stack [] warm_demo"
  using px_build [OF px_start [of demo_pool] demo_build] by (simp add: demo_pool_def warm_demo_def)

lemma demo_pick: "pick (\<lambda>_ _. False) warm_demo = (Some \<lparr>ls_conn = 0, ls_active = 0\<rparr>, snd (pick (\<lambda>_ _. False) warm_demo))"
  by (simp add: pick_def warm_demo_def one_slot_def)

text \<open>A circuit retired after its first use is kept while that use is in flight.\<close>

theorem leased_circuit_kept_witness:
  "\<exists>p'. maintain_locked (\<lambda>_ _. False) (\<lambda>_ _. \<lparr>c_rtt = 1, c_sent_packets = 1, c_lost_packets = 0\<rparr>) 5
       (snd (pick (\<lambda>_ _. False) warm_demo)) = Some p' \<and> wp_retired p' = 1 \<and>
     (\<exists>s' \<in> set (wp_slots p'). sl_circuit s' = sl_circuit (bump one_slot) \<and> sl_active s' = sl_active (bump one_slot))"
proof -
  let ?p = "snd (pick (\<lambda>_ _. False) warm_demo)" and ?stats = "\<lambda>_ _. \<lparr>c_rtt = 1, c_sent_packets = 1, c_lost_packets = 0\<rparr>"
  note defs = one_slot_def bump_def pick_def warm_demo_def demo_pool_def default_pool_config_def from_secs_def
  obtain p' where p': "maintain_locked (\<lambda>_ _. False) ?stats 5 ?p = Some p'" "wp_retired p' = 1"
    by (simp add: maintain_locked_def retire_def retire_due_def instant_add_def instant_limit_def defs)
  have "\<exists>s' \<in> set (wp_slots (case maintain_locked (\<lambda>_ _. False) ?stats 5 ?p of Some p' \<Rightarrow> p' | None \<Rightarrow> ?p)).
      sl_circuit s' = sl_circuit (bump one_slot) \<and> sl_active s' = sl_active (bump one_slot)"
  proof (rule leased_circuit_kept [OF px_pick [OF warm_demo_exec demo_pick]])
    show "\<lparr>ls_conn = 0, ls_active = 0\<rparr> \<in> set [\<lparr>ls_conn = 0, ls_active = 0\<rparr>]" by simp
    show "bump one_slot \<in> set (wp_slots (snd (pick (\<lambda>_ _. False) warm_demo)))"
      by (simp add: pick_def warm_demo_def one_slot_def bump_def)
  qed (simp_all add: defs)
  with p' show ?thesis by simp
qed

text \<open>A drain timeout meant to be endless ends the maintainer at the first retirement, and with it every refill.\<close>

lemma endless_drain_panics:
  assumes "s \<in> set (wp_slots p)" and "retire_due (wp_cfg p) now s" and "pc_drain_timeout (wp_cfg p) = dur_limit - 1"
  shows "maintain_turn dead stats idle qs now p = None"
proof -
  have "maintain_locked dead stats now p = None"
    using assms by (auto simp: maintain_panics_iff list_ex_iff instant_limit_def dur_limit_def)
  then show ?thesis by (simp add: maintain_turn_def)
qed

text \<open>Requests are spread evenly. With \<open>k > 0\<close> ready circuits, \<open>k\<close> consecutive picks lease each of
  them exactly once, in rotation from the pool's counter; a pick fails exactly when none is ready.\<close>

theorem pick_round_robin:
  assumes "k = length (ready_list dead p)" and "unat (wp_rr p) + k \<le> u64_limit"
  shows "(fst (pick dead p) = None \<longleftrightarrow> k = 0) \<and>
    (\<forall>t < k. ready_list dead (fold (\<lambda>_ p. snd (pick dead p)) (replicate k ()) p) ! t = bump (ready_list dead p ! t))"
proof
  show "fst (pick dead p) = None \<longleftrightarrow> k = 0"
    using pick_none [of dead p] pick_ready(1) [of dead p] assms(1) by (cases "ready_list dead p = []") auto
  show "\<forall>t < k. ready_list dead (fold (\<lambda>_ p. snd (pick dead p)) (replicate k ()) p) ! t = bump (ready_list dead p ! t)"
  proof (intro allI impI)
    fix t assume t: "t < k"
    define c where "c = unat (wp_rr p)"
    obtain j where j: "j < k" "t = (c + j) mod k"
    proof
      show "(t + k - c mod k) mod k < k" using t by simp
      have "(c + (t + k - c mod k)) mod k = (c mod k + (t + k - c mod k)) mod k" by (simp add: mod_add_left_eq)
      also have "c mod k + (t + k - c mod k) = t + k" using mod_less_divisor [of k c] t by linarith
      finally show "t = (c + (t + k - c mod k) mod k) mod k" using t by (simp add: mod_add_right_eq)
    qed
    have "ready_list dead p \<noteq> []" using t assms(1) by auto
    then show "ready_list dead (fold (\<lambda>_ p. snd (pick dead p)) (replicate k ()) p) ! t = bump (ready_list dead p ! t)"
      using pool_rr.one_each [of dead p "replicate k ()" j t] assms t j by (simp add: c_def)
  qed
qed

theorem pick_round_robin_witness:
  "fst (pick (\<lambda>_ _. False) warm_demo) \<noteq> None \<and>
   ready_list (\<lambda>_ _. False) (fold (\<lambda>_ p. snd (pick (\<lambda>_ _. False) p)) (replicate 1 ()) warm_demo) ! 0 = bump one_slot"
proof -
  have r: "ready_list (\<lambda>_ _. False) warm_demo = [one_slot]"
    by (simp add: ready_list_def ready_slot_def warm_demo_def one_slot_def)
  show ?thesis
    using pick_round_robin [of 1 "\<lambda>_ _. False" warm_demo] by (simp add: r, simp add: warm_demo_def demo_pool_def)
qed

lemma refill_loop_outcome:
  "refill_loop idle qs now n p = Some p' \<Longrightarrow>
   \<exists>new. length new \<le> n \<and> wp_slots p' = wp_slots p @ new \<and> list_all (\<lambda>s. sl_draining s = None \<and> sl_uses s = 0) new \<and>
     wp_built p' = wp_built p + of_nat (length new) \<and>
     wp_build_errors p' = wp_build_errors p + (if length new = n then 0 else 1)"
proof (induction n arbitrary: p)
  case (Suc n)
  obtain r p1 where b: "build_one idle qs now p = Some (r, p1)"
    using Suc.prems by (auto split: option.splits prod.splits)
  note bf = build_one_frame [OF b]
  show ?case
  proof (cases r)
    case (Inl e)
    with Suc.prems b bf show ?thesis by (intro exI [of _ "[]"]) auto
  next
    case (Inr s)
    with Suc.prems b have "refill_loop idle qs now n (p1\<lparr>wp_slots := wp_slots p1 @ [s]\<rparr>) = Some p'" by simp
    from Suc.IH [OF this] obtain new where new: "length new \<le> n" "wp_slots p' = (wp_slots p1 @ [s]) @ new"
      "list_all (\<lambda>s. sl_draining s = None \<and> sl_uses s = 0) new" "wp_built p' = wp_built p1 + of_nat (length new)"
      "wp_build_errors p' = wp_build_errors p1 + (if length new = n then 0 else 1)" by auto
    with bf Inr show ?thesis by (intro exI [of _ "s # new"]) auto
  qed
qed simp

text \<open>Refilling. A refill builds towards the target and stops at the first failure: of the missing
  circuits it adds some number \<open>k\<close>, all ready and unused, behind the ones in the pool; if it built fewer
  than were missing it counted exactly one build error, otherwise none.\<close>

theorem refill_outcome:
  assumes "refill dead idle qs now p = Some p'"
  shows "\<exists>new. length new \<le> pc_target (wp_cfg p) - pool_ready dead p \<and> wp_slots p' = wp_slots p @ new \<and>
    list_all (\<lambda>s. sl_draining s = None \<and> sl_uses s = 0) new \<and> wp_built p' = wp_built p + of_nat (length new) \<and>
    wp_build_errors p' = wp_build_errors p + (if length new = pc_target (wp_cfg p) - pool_ready dead p then 0 else 1)"
  using refill_loop_outcome [OF assms [unfolded refill_def]] .

theorem refill_outcome_witness:
  "\<exists>new p'. refill (\<lambda>_ _. False) Some demo_stack 0 demo_pool = Some p' \<and> length new \<le> 1 \<and> wp_slots p' = [] @ new \<and>
     wp_build_errors p' = 0 + (if length new = 1 then 0 else 1)"
proof -
  have r: "refill (\<lambda>_ _. False) Some demo_stack 0 demo_pool = Some warm_demo"
    using demo_build by (simp add: refill_def pool_ready_def demo_pool_def warm_demo_def)
  show ?thesis
    using refill_outcome [OF r] r by (simp add: demo_pool_def pool_ready_def)
qed

end
