(* ===== verification/Autopilot.thy ===== *)
theory Autopilot
  imports Front Directory
begin

text \<open>
  The auto-promotion runtime, \<^verbatim>\<open>crates/quicmix/src/autopilot.rs\<close>: configuration from the
  environment, the certificate endpoint and its client, the directory refresh, the role decision and
  the ingress loop.

  A connected socket has its read and write halves; \<open>None\<close> as the outcome of a step under a
  timeout is the timeout. The QUIC node (theory Ingress and the libraries below it) enters through the
  outcomes of its operations.
\<close>

definition DEFAULT_BOOTSTRAP :: "string list" where
  "DEFAULT_BOOTSTRAP = [''64.226.93.43:4433'', ''68.183.148.148:4433'']"

definition DIR_TTL :: duration where
  "DIR_TTL = from_secs 120"

record config =
  gw_bind :: socket_addr
  ingress_bind :: string
  bootstrap :: "socket_addr list"
  public_ip :: "ip_addr option"
  cert_out :: "string option"
  cfg_substrate :: substrate_choice
  metrics_ws_bind :: "socket_addr option"
  stream_bridge_bind :: "socket_addr option"

datatype config_error = BadVar string | BadBootstrap string | BadSubstrate front_error

text \<open>\<open>collect\<close> of fallible items: the first error, or all values.\<close>

fun parse_peers :: "string list \<Rightarrow> config_error + socket_addr list" where
  "parse_peers [] = Inr []"
| "parse_peers (x # xs) =
     (case parse_socket_addr x of
        None \<Rightarrow> Inl (BadBootstrap x)
      | Some a \<Rightarrow> (case parse_peers xs of Inl e \<Rightarrow> Inl e | Inr as \<Rightarrow> Inr (a # as)))"

fun unwrap_all :: "'a option list \<Rightarrow> 'a list may_panic" where
  "unwrap_all [] = Some []"
| "unwrap_all (None # _) = None"
| "unwrap_all (Some a # xs) = map_option ((#) a) (unwrap_all xs)"

text \<open>A variable that is set and not empty must parse.\<close>

definition optional_var :: "environment \<Rightarrow> string \<Rightarrow> (string \<Rightarrow> 'a option) \<Rightarrow> config_error + 'a option" where
  "optional_var env name parse =
     (case env name of
        Some s \<Rightarrow> if s \<noteq> '''' then (case parse s of Some v \<Rightarrow> Inr (Some v) | None \<Rightarrow> Inl (BadVar name)) else Inr None
      | None \<Rightarrow> Inr None)"

definition config_from_env :: "environment \<Rightarrow> (config_error + config) may_panic" where
  "config_from_env env =
     (case parse_socket_addr (case env ''QUICMIX_GW_BIND'' of Some s \<Rightarrow> s | None \<Rightarrow> ''0.0.0.0:4433'') of
        None \<Rightarrow> Some (Inl (BadVar ''QUICMIX_GW_BIND''))
      | Some gw \<Rightarrow>
          do {
            boot \<leftarrow> (case env ''QUICMIX_BOOTSTRAP'' of
                Some s \<Rightarrow> Some (parse_peers (filter (\<lambda>x. x \<noteq> '''') (map trim (split_char CHR '','' s))))
              | None \<Rightarrow> map_option Inr (unwrap_all (map parse_socket_addr DEFAULT_BOOTSTRAP)));
            Some (case boot of Inl e \<Rightarrow> Inl e | Inr peers \<Rightarrow>
              (case optional_var env ''QUICMIX_PUBLIC_IP'' parse_ip_addr of Inl e \<Rightarrow> Inl e | Inr ip \<Rightarrow>
              (case from_env env of Inl e \<Rightarrow> Inl (BadSubstrate e) | Inr sub \<Rightarrow>
              (case optional_var env ''QUICMIX_METRICS_WS_BIND'' parse_socket_addr of Inl e \<Rightarrow> Inl e | Inr ws \<Rightarrow>
              (case optional_var env ''QUICMIX_STREAM_BRIDGE_BIND'' parse_socket_addr of Inl e \<Rightarrow> Inl e | Inr br \<Rightarrow>
                Inr \<lparr>gw_bind = gw,
                     ingress_bind = (case env ''QUICMIX_INGRESS_BIND'' of Some s \<Rightarrow> s | None \<Rightarrow> ''127.0.0.1:8888''),
                     bootstrap = peers, public_ip = ip,
                     cert_out = (case env ''QUICMIX_CERT_OUT'' of Some s \<Rightarrow> if s = '''' then None else Some s | None \<Rightarrow> None),
                     cfg_substrate = sub, metrics_ws_bind = ws, stream_bridge_bind = br\<rparr>)))))
          })"

definition direct_oracle :: oracle_params where
  "direct_oracle = \<lparr>hops = 1, mean_hop_delay = from_millis 30, drop_prob = 0, slot_interval = 0, mtu = 1200\<rparr>"

section \<open>The certificate endpoint\<close>

definition crlf :: string where
  "crlf = [CHR 0x0D, CHR 0x0A]"

definition cert_head :: "nat \<Rightarrow> string" where
  "cert_head n = ''HTTP/1.0 200 OK'' @ crlf @ ''Content-Type: application/octet-stream'' @ crlf @
     ''Content-Length: '' @ show_nat n @ crlf @ ''Connection: close'' @ crlf @ crlf"

text \<open>One connection: at most 1024 bytes of the request are read and ignored, then head and body are written.\<close>

definition serve_cert_conn :: "byte list \<Rightarrow> tcp_stream \<Rightarrow> tcp_stream" where
  "serve_cert_conn cert s =
     (let s1 = s\<lparr>t_read := (t_read s)\<lparr>r_bytes := drop 1024 (r_bytes (t_read s))\<rparr>\<rparr>;
          s2 = snd (tcp_write_all (string_bytes (cert_head (length cert))) s1)
      in snd (tcp_write_all cert s2))"

datatype cert_error = ConnectTimeout | CertIo io_error | ReadTimeout | NoHeaderEnd | EmptyCert socket_addr

definition cert_request :: "socket_addr \<Rightarrow> string" where
  "cert_request addr = ''GET /cert HTTP/1.0'' @ crlf @ ''Host: '' @ show_socket_addr addr @ crlf @ ''Connection: close'' @ crlf @ crlf"

text \<open>
  \<open>read_all\<close> is \<open>read_to_end\<close> within its timeout, given what was written: all bytes up to the end of the
  stream, an error, or \<open>None\<close> for the timeout.
\<close>

definition fetch_cert ::
  "(socket_addr \<Rightarrow> (io_error + tcp_stream) option) \<Rightarrow> (tcp_stream \<Rightarrow> (io_error + byte list) option) \<Rightarrow> socket_addr \<Rightarrow>
   cert_error + byte list" where
  "fetch_cert connect read_all addr =
     (case connect addr of
        None \<Rightarrow> Inl ConnectTimeout
      | Some (Inl e) \<Rightarrow> Inl (CertIo e)
      | Some (Inr s) \<Rightarrow>
          (case tcp_write_all (string_bytes (cert_request addr)) s of
             (Inl e, _) \<Rightarrow> Inl (CertIo e)
           | (Inr _, s1) \<Rightarrow>
               (case read_all s1 of
                  None \<Rightarrow> Inl ReadTimeout
                | Some (Inl e) \<Rightarrow> Inl (CertIo e)
                | Some (Inr bytes) \<Rightarrow>
                    (case find_sub (string_bytes (crlf @ crlf)) bytes of
                       None \<Rightarrow> Inl NoHeaderEnd
                     | Some sep \<Rightarrow>
                         (let body = drop (sep + 4) bytes
                          in if body = [] then Inl (EmptyCert addr) else Inr body)))))"

section \<open>Directory refresh\<close>

text \<open>One round over the peers; each fetch finishes at some time and with some outcome.\<close>

fun refresh_round ::
  "socket_addr option \<Rightarrow> (socket_addr \<times> nat \<times> (cert_error + byte list)) list \<Rightarrow> gateway_directory \<Rightarrow> gateway_directory" where
  "refresh_round self [] d = d"
| "refresh_round self ((addr, t, r) # rest) d =
     (if Some addr = self then refresh_round self rest d
      else case r of
        Inr cert \<Rightarrow> refresh_round self rest (announce t addr cert d)
      | Inl _ \<Rightarrow> refresh_round self rest d)"

section \<open>The role decision and start-up\<close>

definition self_public :: "config \<Rightarrow> ip_addr option \<Rightarrow> socket_addr option" where
  "self_public cfg discovered =
     (case (case public_ip cfg of Some ip \<Rightarrow> Some ip | None \<Rightarrow> discovered) of
        None \<Rightarrow> None
      | Some ip \<Rightarrow> (let a = SockAddr ip (sa_port (gw_bind cfg)) in if qualifies_as_gateway a then Some a else None))"

datatype service = QuicGateway socket_addr | CertEndpoint socket_addr | CertFile string | StreamBridge socket_addr socket_addr

text \<open>
  Steps 1 and 2 of \<open>run\<close>: the services started and the directory. The arguments are the outcomes of
  serving the gateway, of binding the certificate endpoint and of starting the stream bridge, whose
  failure is only logged.
\<close>

definition start_roles ::
  "nat \<Rightarrow> config \<Rightarrow> ip_addr option \<Rightarrow> byte list \<Rightarrow> string option \<Rightarrow> string option \<Rightarrow> string option \<Rightarrow>
   string + service list \<times> gateway_directory" where
  "start_roles now cfg discovered cert gw_err cert_err bridge_err =
     (let d = new_directory DIR_TTL in
      case self_public cfg discovered of
        None \<Rightarrow> Inr ([], d)
      | Some pub \<Rightarrow>
          (case gw_err of
             Some e \<Rightarrow> Inl e
           | None \<Rightarrow>
               (case cert_err of
                  Some e \<Rightarrow> Inl e
                | None \<Rightarrow>
                    Inr ([QuicGateway (gw_bind cfg), CertEndpoint (gw_bind cfg)] @
                         (case cert_out cfg of Some path \<Rightarrow> [CertFile path] | None \<Rightarrow> []) @
                         (case stream_bridge_bind cfg of
                            Some br \<Rightarrow>
                              (if bridge_err = None
                               then [StreamBridge br (SockAddr (V4 127 0 0 1) (sa_port (gw_bind cfg)))] else [])
                          | None \<Rightarrow> []),
                         announce now pub cert d))))"

text \<open>
  One turn of the ingress loop: \<open>Some\<close> the gateway and the front when the proxy is up, \<open>None\<close> when
  the loop sleeps and tries again.
\<close>

definition ingress_turn ::
  "(gateway_info list \<Rightarrow> gateway_info option) \<Rightarrow> nat \<Rightarrow> (socket_addr \<Rightarrow> string + 'f) \<Rightarrow> ('f \<Rightarrow> byte list \<Rightarrow> string + 'l) \<Rightarrow>
   ('l \<Rightarrow> string + socket_addr) \<Rightarrow> gateway_directory \<Rightarrow> (gateway_info \<times> 'f \<times> 'l \<times> socket_addr) option \<times> gateway_directory" where
  "ingress_turn pick_rand now resolve_front connect_via serve_ingress d =
     (case sample pick_rand now d of
        (None, d') \<Rightarrow> (None, d')
      | (Some gw, d') \<Rightarrow>
          (case resolve_front (g_addr gw) of
             Inl _ \<Rightarrow> (None, d')
           | Inr f \<Rightarrow>
               (case connect_via f (g_cert gw) of
                  Inl _ \<Rightarrow> (None, d')
                | Inr link \<Rightarrow>
                    (case serve_ingress link of
                       Inl _ \<Rightarrow> (None, d')
                     | Inr proxy \<Rightarrow> (Some (gw, f, link, proxy), d')))))"

section \<open>The endpoint and its client agree\<close>

lemma find_sub_map:
  assumes "inj f"
  shows "find_sub (map f pat) (map f s) = find_sub pat s"
proof (induction s)
  case (Cons c s)
  have "prefix (map f pat) (map f (c # s)) \<longleftrightarrow> prefix pat (c # s)"
    using assms by (metis map_mono_prefix inj_map_eq_map prefix_def prefix_map_rightE)
  with Cons show ?case by simp
qed simp

lemma string_bytes_inj: "inj (\<lambda>c. of_nat (of_char c) :: byte)"
  by (rule inj_on_inverseI [of _ "\<lambda>b. char_of (unat b)"]) (simp add: unat_of_nat take_bit_nat_def)

lemma cert_head_end:
  "find_sub (crlf @ crlf) (cert_head n @ body) = Some (length (cert_head n) - 4)"
proof -
  let ?sep = "crlf @ crlf"
  have digits: "CHR 0x0D \<notin> set (show_nat n)" using show_nat_digits [of "CHR 0x0D" n] by auto
  define rest where "rest = crlf @ ''Connection: close'' @ crlf @ crlf @ body"
  have r: "find_sub ?sep rest = Some 19"
    unfolding rest_def by (simp add: crlf_def)
  have "find_sub ?sep (show_nat n @ rest) = Some (length (show_nat n) + 19)"
    using digits r by (subst find_sub_skip) (simp_all add: crlf_def)
  then have "find_sub ?sep (''HTTP/1.0 200 OK'' @ crlf @ ''Content-Type: application/octet-stream'' @ crlf @ ''Content-Length: '' @ show_nat n @ rest) =
      Some (73 + (length (show_nat n) + 19))"
    by (simp add: crlf_def)
  then show ?thesis by (simp add: cert_head_def rest_def crlf_def)
qed

lemma served_body:
  assumes "w_faults (t_write srv) = []" and "w_out (t_write srv) = []"
  shows "\<exists>sep. find_sub (string_bytes (crlf @ crlf)) (w_out (t_write (serve_cert_conn cert srv))) = Some sep \<and>
    drop (sep + 4) (w_out (t_write (serve_cert_conn cert srv))) = cert"
proof -
  have out: "w_out (t_write (serve_cert_conn cert srv)) = string_bytes (cert_head (length cert)) @ cert"
    using assms by (simp add: serve_cert_conn_def tcp_write_all_def Let_def)
  have len: "4 \<le> length (cert_head (length cert))" by (simp add: cert_head_def)
  have "string_bytes (cert_head (length cert)) @ cert = string_bytes (cert_head (length cert) @ bytes_string cert)" by simp
  then have "find_sub (string_bytes (crlf @ crlf)) (string_bytes (cert_head (length cert)) @ cert) =
      find_sub (crlf @ crlf) (cert_head (length cert) @ bytes_string cert)"
    unfolding string_bytes_def by (simp only: find_sub_map [OF string_bytes_inj])
  also have "\<dots> = Some (length (cert_head (length cert)) - 4)" by (rule cert_head_end)
  finally show ?thesis using len by (simp add: out)
qed

text \<open>Whatever happens to a fetch of which the answer can only be the endpoint's, it does not yield another certificate.\<close>

lemma fetch_served:
  assumes "w_faults (t_write srv) = []" and "w_out (t_write srv) = []"
    and "\<And>s1 bytes. read_all s1 = Some (Inr bytes) \<Longrightarrow> bytes = w_out (t_write (serve_cert_conn cert srv))"
    and "fetch_cert connect read_all addr = Inr got"
  shows "got = cert"
proof -
  obtain sep where "find_sub (string_bytes (crlf @ crlf)) (w_out (t_write (serve_cert_conn cert srv))) = Some sep"
    "drop (sep + 4) (w_out (t_write (serve_cert_conn cert srv))) = cert"
    using served_body [OF assms(1,2)] by blast
  then show ?thesis
    using assms(4) by (auto simp: fetch_cert_def Let_def split: option.splits sum.splits prod.splits if_splits dest!: assms(3))
qed

text \<open>C33: the certificate a gateway serves is the certificate its peers pin. Over healthy connections,
  what \<open>fetch_cert\<close> returns is exactly the bytes the endpoint was given, whatever they contain; an
  empty certificate is refused.\<close>

theorem cert_roundtrip:
  assumes "connect addr = Some (Inr s)" and "w_faults (t_write s) = []"
    and "w_faults (t_write srv) = []" and "w_out (t_write srv) = []"
    and "\<And>s1. read_all s1 = Some (Inr (w_out (t_write (serve_cert_conn cert srv))))"
  shows "fetch_cert connect read_all addr = (if cert = [] then Inl (EmptyCert addr) else Inr cert)"
  using assms(1,2) served_body [OF assms(3,4), of cert] by (auto simp: fetch_cert_def assms(5) tcp_write_all_def)

definition quiet_socket :: tcp_stream where
  "quiet_socket = \<lparr>t_read = \<lparr>r_bytes = [], r_end = UnexpectedEof\<rparr>, t_write = \<lparr>w_out = [], w_faults = []\<rparr>\<rparr>"

theorem cert_roundtrip_witness:
  "fetch_cert (\<lambda>_. Some (Inr quiet_socket)) (\<lambda>_. Some (Inr (w_out (t_write (serve_cert_conn [48, 13, 10, 13, 10] quiet_socket)))))
     (SockAddr (V4 64 226 93 43) 4433) = Inr [48, 13, 10, 13, 10]"
  using cert_roundtrip [of "\<lambda>_. Some (Inr quiet_socket)" "SockAddr (V4 64 226 93 43) 4433" quiet_socket quiet_socket
      "\<lambda>_. Some (Inr (w_out (t_write (serve_cert_conn [48, 13, 10, 13, 10] quiet_socket))))" "[48, 13, 10, 13, 10]"]
  by (simp add: quiet_socket_def)

section \<open>Refresh and ingress\<close>

lemma refresh_round_fold:
  "refresh_round self rs d =
   fold (\<lambda>(t, a, c). announce t a c) (map (\<lambda>(a, t, r). (t, a, projr r)) (filter (\<lambda>(a, t, r). Some a \<noteq> self \<and> \<not> isl r) rs)) d"
proof (induction rs arbitrary: d)
  case (Cons x rs)
  obtain a t r where "x = (a, t, r)" by (cases x) auto
  with Cons show ?case by (cases r) auto
qed simp

lemma refresh_wf: "dir_wf d \<Longrightarrow> dir_wf (refresh_round self rs d)"
proof (induction rs arbitrary: d)
  case (Cons x rs)
  obtain a t r where "x = (a, t, r)" by (cases x) auto
  with Cons show ?case by (cases r) (auto simp: dir_wf_announce)
qed simp

lemma refresh_entry:
  assumes "Some a \<noteq> self" and "a \<notin> fst ` set later" and "now \<le> t" and "t - now < ttl d"
  shows "dir_entry t (refresh_round self (earlier @ (a, now, Inr cert) # later) d) a = Some cert"
proof -
  let ?m = "\<lambda>rs. map (\<lambda>(a, t, r). (t, a, projr r)) (filter (\<lambda>(a, t, r). Some a \<noteq> self \<and> \<not> isl r) rs)"
  have "a \<notin> fst ` snd ` set (?m later)" using assms(2) by force
  then have "dir_entry t (fold (\<lambda>(t, a, c). announce t a c) (?m earlier @ (now, a, cert) # ?m later) d) a = Some cert"
    using assms(3,4) by (rule dir_map.entry_announced)
  with assms(1) show ?thesis unfolding refresh_round_fold by simp
qed

text \<open>A peer that answers a refresh round is live from its answer on for less than two minutes, with
  the certificate it answered, whatever the other peers did in that round.\<close>

theorem refresh_keeps_live:
  assumes "dir_wf d" and "ttl d = DIR_TTL" and "Some a \<noteq> self" and "a \<notin> fst ` set later"
    and "now \<le> t" and "t - now < from_secs 120"
  shows "\<exists>g \<in> set (fst (live t (refresh_round self (earlier @ (a, now, Inr cert) # later) d))). g_addr g = a \<and> g_cert g = cert"
  using refresh_entry [OF assms(3,4,5), of d earlier cert] assms(2,6) live_entry [OF refresh_wf [OF assms(1)], of t]
  by (simp add: DIR_TTL_def)

theorem refresh_keeps_live_witness:
  "\<exists>g \<in> set (fst (live (from_secs 100) (refresh_round None ([] @ (SockAddr (V4 64 226 93 43) 4433, from_secs 1, Inr [5]) #
       [(SockAddr (V4 68 183 148 148) 4433, from_secs 6, Inl ConnectTimeout)]) (new_directory DIR_TTL)))).
     g_addr g = SockAddr (V4 64 226 93 43) 4433 \<and> g_cert g = [5]"
  by (rule refresh_keeps_live) (simp_all add: from_secs_def)

lemma ingress_turn_up:
  assumes "\<And>xs x. pick_rand xs = Some x \<Longrightarrow> x \<in> set xs" and "dir_wf d"
    and "ingress_turn pick_rand now resolve_front connect_via serve_ingress d = (Some (gw, f, link, proxy), d')"
  shows "dir_entry now d (g_addr gw) = Some (g_cert gw) \<and> resolve_front (g_addr gw) = Inr f \<and>
         connect_via f (g_cert gw) = Inr link \<and> serve_ingress link = Inr proxy \<and> dir_wf d'"
proof -
  have r: "pick_rand (fst (live now d)) = Some gw" "d' = snd (live now d)" "resolve_front (g_addr gw) = Inr f"
    "connect_via f (g_cert gw) = Inr link" "serve_ingress link = Inr proxy"
    using assms(3)
    by (auto simp: ingress_turn_def sample_def case_prod_beta split: option.splits sum.splits prod.splits)
  then have "gw \<in> set (fst (live now d))" using assms(1) by blast
  then have "dir_entry now d (g_addr gw) = Some (g_cert gw)"
    using live_entry [OF assms(2), of now "g_addr gw" "g_cert gw"] by auto
  with r dir_wf_live [OF assms(2)] show ?thesis by simp
qed

text \<open>The ingress only ever serves through a live gateway and pins the certificate announced for it:
  when a turn of the loop brings the proxy up, the gateway is live in the directory with exactly the
  certificate the connection was made with; with no live gateway the loop keeps trying.\<close>

theorem ingress_pins_live_gateway:
  assumes "\<And>xs x. pick_rand xs = Some x \<Longrightarrow> x \<in> set xs" and "dir_wf d"
    and "ingress_turn pick_rand now resolve_front connect_via serve_ingress d = (Some (gw, f, link, proxy), d')"
  shows "dir_entry now d (g_addr gw) = Some (g_cert gw) \<and> resolve_front (g_addr gw) = Inr f \<and>
         connect_via f (g_cert gw) = Inr link \<and> serve_ingress link = Inr proxy \<and> dir_wf d'"
  using assms by (rule ingress_turn_up)

theorem ingress_pins_live_gateway_witness:
  "\<exists>gw d'. ingress_turn pick_first 5 (\<lambda>a. Inr a) (\<lambda>f c. Inr (f, c)) (\<lambda>l. Inr (SockAddr (V4 127 0 0 1) 8888))
      (announce 1 (SockAddr (V4 64 226 93 43) 4433) [5] (new_directory 50)) =
      (Some (gw, SockAddr (V4 64 226 93 43) 4433, (SockAddr (V4 64 226 93 43) 4433, [5]), SockAddr (V4 127 0 0 1) 8888), d') \<and>
    dir_entry 5 (announce 1 (SockAddr (V4 64 226 93 43) 4433) [5] (new_directory 50)) (g_addr gw) = Some (g_cert gw)"
proof -
  let ?d = "announce 1 (SockAddr (V4 64 226 93 43) 4433) [5] (new_directory 50)"
  obtain gw d' where t: "ingress_turn pick_first 5 (\<lambda>a. Inr a) (\<lambda>f c. Inr (f, c)) (\<lambda>l. Inr (SockAddr (V4 127 0 0 1) 8888)) ?d =
      (Some (gw, SockAddr (V4 64 226 93 43) 4433, (SockAddr (V4 64 226 93 43) 4433, [5]), SockAddr (V4 127 0 0 1) 8888), d')"
    by (simp add: ingress_turn_def sample_def live_def announce_def new_directory_def pick_first_def)
  have h: "pick_first xs = Some x \<Longrightarrow> x \<in> set xs" for xs and x :: gateway_info
    by (auto simp: pick_first_def split: list.splits)
  have "dir_entry 5 ?d (g_addr gw) = Some (g_cert gw)"
    using ingress_pins_live_gateway [OF h dir_wf_announce [OF dir_wf_new] t] by (rule conjunct1)
  with t show ?thesis by blast
qed

text \<open>Configuration never panics, whatever the environment, and with nothing set it is the documented
  one: gateway on port 4433 of every address, proxy on the loopback port 8888, the two bootstrap gateways,
  no overrides and the direct substrate.\<close>

theorem config_defaults:
  "config_from_env env \<noteq> None \<and>
   config_from_env (\<lambda>_. None) = Some (Inr \<lparr>gw_bind = SockAddr (V4 0 0 0 0) 4433, ingress_bind = ''127.0.0.1:8888'',
     bootstrap = [SockAddr (V4 64 226 93 43) 4433, SockAddr (V4 68 183 148 148) 4433], public_ip = None, cert_out = None,
     cfg_substrate = Direct, metrics_ws_bind = None, stream_bridge_bind = None\<rparr>)"
proof -
  have l: "''64.226.93.43:4433'' = show_socket_v4 64 226 93 43 4433" "''68.183.148.148:4433'' = show_socket_v4 68 183 148 148 4433"
    "''0.0.0.0:4433'' = show_socket_v4 0 0 0 0 4433"
    by (simp_all add: show_socket_v4_def show_v4_def show_nat.simps) code_simp+
  have b: "map parse_socket_addr DEFAULT_BOOTSTRAP = [Some (SockAddr (V4 64 226 93 43) 4433), Some (SockAddr (V4 68 183 148 148) 4433)]"
    by (simp only: DEFAULT_BOOTSTRAP_def l list.map parse_show_socket_v4)
  have g: "parse_socket_addr ''0.0.0.0:4433'' = Some (SockAddr (V4 0 0 0 0) 4433)"
    by (simp only: l parse_show_socket_v4)
  have t: "trim [] = []" by code_simp
  have "config_from_env env \<noteq> None"
    unfolding config_from_env_def b
    by (cases "parse_socket_addr (case env ''QUICMIX_GW_BIND'' of Some s \<Rightarrow> s | None \<Rightarrow> ''0.0.0.0:4433'')";
        cases "env ''QUICMIX_BOOTSTRAP''") simp_all
  moreover have "from_env (\<lambda>_. None) = Inr Direct" by (simp add: from_env_def t)
  ultimately show ?thesis by (simp add: config_from_env_def b g optional_var_def)
qed

text \<open>
  A gateway announces itself once, at start-up, and its refresh rounds skip it: from two minutes on it is
  no longer listed in its own directory, however often the directory is refreshed.
\<close>

lemma refresh_skips_self: "dir_entry t (refresh_round (Some a) rs d) a = dir_entry t d a"
proof (induction rs arbitrary: d)
  case (Cons r rs)
  obtain addr t' x where r: "r = (addr, t', x)" by (cases r)
  have "dir_entry t (announce t' addr c d) a = dir_entry t d a" if "addr \<noteq> a" for c
    using that by (simp add: dir_entry_def announce_def update_conv' split: option.split)
  with Cons show ?case by (simp add: r split: sum.split)
qed simp

lemma own_entry_expires:
  assumes "start_roles t0 cfg discovered cert gw_err cert_err bridge_err = Inr (services, d)" and "self_public cfg discovered = Some a"
    and "t0 + DIR_TTL \<le> t"
  shows "\<not> (\<exists>g \<in> set (fst (live t (fold (refresh_round (Some a)) rounds d))). g_addr g = a \<and> g_cert g = c)"
proof -
  have d: "d = announce t0 a cert (new_directory DIR_TTL)"
    using assms(1,2) by (auto simp: start_roles_def split: option.splits)
  have "dir_wf (fold (refresh_round (Some a)) rounds d')" if "dir_wf d'" for d'
    using that by (induction rounds arbitrary: d') (simp_all add: refresh_wf)
  then have wf: "dir_wf (fold (refresh_round (Some a)) rounds d)" by (simp add: d dir_wf_announce)
  have "dir_entry t (fold (refresh_round (Some a)) rounds d') a = dir_entry t d' a" for d'
    by (induction rounds arbitrary: d') (simp_all add: refresh_skips_self)
  then have "dir_entry t (fold (refresh_round (Some a)) rounds d) a = None"
    using assms(3) by (simp add: d dir_entry_def announce_def update_conv' new_directory_def)
  then show ?thesis using live_entry [OF wf, of t a c] by simp
qed


end
