(* ===== verification/Utf8.thy ===== *)
theory Utf8
  imports Rust_Io
begin

text \<open>
  UTF-8 as the standard library decodes it: validity, and the lossy conversion that replaces each
  maximal invalid part by the replacement character (the chunks of \<open>core::str::lossy\<close>). Further,
  lines of a buffered reader and more facts about trimming.
\<close>

definition byte_at :: "string \<Rightarrow> nat \<Rightarrow> nat" where
  "byte_at s i = (if i < length s then of_char (s ! i) else 0)"

definition cont :: "nat \<Rightarrow> bool" where
  "cont b \<longleftrightarrow> 128 \<le> b \<and> b < 192"

text \<open>The first character of a non-empty string: whether it is valid, and how many bytes belong to it.\<close>

definition utf8_head :: "string \<Rightarrow> bool \<times> nat" where
  "utf8_head s =
     (let b = byte_at s 0; c = byte_at s 1 in
      if b < 128 then (True, 1)
      else if 0xC2 \<le> b \<and> b \<le> 0xDF then (if cont c then (True, 2) else (False, 1))
      else if 0xE0 \<le> b \<and> b \<le> 0xEF then
        (if (b = 0xE0 \<and> 0xA0 \<le> c \<and> c \<le> 0xBF) \<or> (0xE1 \<le> b \<and> b \<le> 0xEC \<and> cont c) \<or>
            (b = 0xED \<and> 0x80 \<le> c \<and> c \<le> 0x9F) \<or> (0xEE \<le> b \<and> cont c)
         then (if cont (byte_at s 2) then (True, 3) else (False, 2)) else (False, 1))
      else if 0xF0 \<le> b \<and> b \<le> 0xF4 then
        (if (b = 0xF0 \<and> 0x90 \<le> c \<and> c \<le> 0xBF) \<or> (0xF1 \<le> b \<and> b \<le> 0xF3 \<and> cont c) \<or>
            (b = 0xF4 \<and> 0x80 \<le> c \<and> c \<le> 0x8F)
         then (if cont (byte_at s 2) then (if cont (byte_at s 3) then (True, 4) else (False, 3)) else (False, 2))
         else (False, 1))
      else (False, 1))"

lemma utf8_head_pos: "0 < snd (utf8_head s)"
  by (simp add: utf8_head_def Let_def)

function is_utf8 :: "string \<Rightarrow> bool" where
  "is_utf8 s = (if s = [] then True else fst (utf8_head s) \<and> is_utf8 (drop (snd (utf8_head s)) s))"
  by pat_completeness auto
termination
  by (relation "measure length") (auto simp: utf8_head_pos intro: diff_less)

function from_utf8_lossy :: "string \<Rightarrow> string" where
  "from_utf8_lossy s =
     (if s = [] then []
      else (if fst (utf8_head s) then take (snd (utf8_head s)) s else byte_chars [0xEF, 0xBF, 0xBD]) @
           from_utf8_lossy (drop (snd (utf8_head s)) s))"
  by pat_completeness auto
termination
  by (relation "measure length") (auto simp: utf8_head_pos intro: diff_less)

declare is_utf8.simps [simp del] from_utf8_lossy.simps [simp del]

lemma lossy_valid: "is_utf8 s \<Longrightarrow> from_utf8_lossy s = s"
proof (induction s rule: from_utf8_lossy.induct)
  case (1 s)
  show ?case
  proof (cases "s = []")
    case True
    then show ?thesis by (simp add: from_utf8_lossy.simps [of "[]"])
  next
    case False
    with "1.prems" have "fst (utf8_head s)" "is_utf8 (drop (snd (utf8_head s)) s)" by (auto simp: is_utf8.simps [of s])
    with "1.IH" [OF False] False show ?thesis by (simp add: from_utf8_lossy.simps [of s])
  qed
qed

definition ascii :: "string \<Rightarrow> bool" where
  "ascii s \<longleftrightarrow> list_all (\<lambda>c. (of_char c :: nat) < 128) s"

lemma ascii_utf8: "ascii s \<Longrightarrow> is_utf8 s"
proof (induction s)
  case (Cons c s)
  then have "utf8_head (c # s) = (True, 1)" by (simp add: ascii_def utf8_head_def byte_at_def)
  with Cons show ?case by (simp add: is_utf8.simps [of "c # s"] ascii_def)
qed (simp add: is_utf8.simps [of "[]"])

lemma ascii_append [simp]: "ascii (s @ t) \<longleftrightarrow> ascii s \<and> ascii t"
  by (simp add: ascii_def)

lemma visible_ascii: "set s \<subseteq> Collect visible \<Longrightarrow> ascii s"
  by (auto simp: ascii_def list_all_iff visible_def)

section \<open>Trimming a line\<close>

lemma trim_end_newline:
  assumes "s \<noteq> []" and "visible (last s)"
  shows "trim_end (s @ [CHR 0x0A]) = s"
proof -
  have b: "byte_chars [9] = [CHR 0x09]" "byte_chars [10] = [CHR 0x0A]" by code_simp+
  have "strip_any (map rev white_space) (CHR 0x0A # rev s) = Some (rev s)"
    unfolding white_space_def list.map append.simps b by simp
  then have "trim_with (map rev white_space) (CHR 0x0A # rev s) = trim_with (map rev white_space) (rev s)"
    using white_space_nonempty(2) by (simp add: trim_with.simps [of _ "CHR 0x0A # rev s"])
  moreover have "trim_end s = s"
  proof -
    have "\<forall>w \<in> set (map rev white_space). w \<noteq> [] \<and> \<not> visible (hd w)"
      using white_space_nonempty(1) by (auto simp: hd_rev white_space_ends)
    then have "strip_any (map rev white_space) (rev s) = None"
      using assms by (intro strip_any_visible) (simp_all add: hd_rev)
    then show ?thesis by (simp add: trim_end_def trim_with.simps [of _ "rev s"])
  qed
  ultimately show ?thesis by (simp add: trim_end_def)
qed

lemma trim_line:
  assumes "s \<noteq> []" and "visible (hd s)" and "visible (last s)"
  shows "trim (s @ [CHR 0x0A]) = s"
proof -
  have "strip_any white_space (s @ [CHR 0x0A]) = None"
    using assms white_space_nonempty(1) white_space_ends(1) by (intro strip_any_visible) auto
  then have "trim_start (s @ [CHR 0x0A]) = s @ [CHR 0x0A]"
    by (simp add: trim_start_def trim_with.simps [of _ "s @ [CHR 0x0A]"])
  then show ?thesis using trim_end_newline [OF assms(1,3)] by (simp add: trim_def)
qed

section \<open>Lines of a stream\<close>

text \<open>\<open>read_line\<close>: the bytes up to and with the next newline or the end of the stream; they must be UTF-8.\<close>

definition read_line :: "rstream \<Rightarrow> (io_error + string) \<times> rstream" where
  "read_line r =
     (let bs = r_bytes r;
          line = takeWhile (\<lambda>b. b \<noteq> 10) bs;
          whole = length line < length bs;
          got = (if whole then line @ [10] else line)
      in if \<not> whole \<and> r_end r \<noteq> UnexpectedEof then (Inl (r_end r), r\<lparr>r_bytes := []\<rparr>)
         else if is_utf8 (bytes_string got) then (Inr (bytes_string got), r\<lparr>r_bytes := drop (length got) bs\<rparr>)
         else (Inl (OtherIo ''stream did not contain valid UTF-8''), r\<lparr>r_bytes := drop (length got) bs\<rparr>))"

lemma newline_bytes [simp]: "string_bytes [CHR 0x0A] = [10]"
  by (simp add: string_bytes_def)

lemma no_newline_bytes:
  assumes "CHR 0x0A \<notin> set s"
  shows "10 \<notin> set (string_bytes s)"
proof
  have nl: "char_of (unat (10 :: byte)) = CHR 0x0A" by code_simp
  assume "10 \<in> set (string_bytes s)"
  then have "char_of (unat (10 :: byte)) \<in> set (bytes_string (string_bytes s))" unfolding bytes_string_def set_map by (rule imageI)
  with assms nl show False by simp
qed

lemma read_line_at:
  assumes "CHR 0x0A \<notin> set s" and "is_utf8 (s @ [CHR 0x0A])"
  shows "read_line \<lparr>r_bytes = string_bytes (s @ [CHR 0x0A]) @ rest, r_end = e\<rparr> = (Inr (s @ [CHR 0x0A]), \<lparr>r_bytes = rest, r_end = e\<rparr>)"
proof -
  have "takeWhile (\<lambda>b. b \<noteq> 10) (string_bytes s @ 10 # rest) = string_bytes s"
    using no_newline_bytes [OF assms(1)] by (subst takeWhile_append2) auto
  then have "bytes_string (string_bytes s @ [10]) = s @ [CHR 0x0A]"
    by (metis bytes_string_bytes newline_bytes string_bytes_append)
  with assms(2) show ?thesis
    using \<open>takeWhile _ _ = string_bytes s\<close> by (simp add: read_line_def Let_def)
qed

end
