(* ===== verification/Gateway.thy ===== *)
theory Gateway
  imports Utf8 Rotation
begin

text \<open>
  The node and its HTTP ingress: \<^verbatim>\<open>crates/quicmix/src/node.rs\<close> (identity and transport of a node,
  the gateway side of a proxied stream, the client link) and \<^verbatim>\<open>crates/quicmix/src/ingress.rs\<close>
  (what happens to a request, and the headers that are not forwarded).

  HTTP parsing and serialisation belong to hyper: a request is what hyper hands to the proxy, with its
  header map as the values of each name (in lower case, as the map keeps them) in their order. In which order
  the map lists different names, which removing an entry may change, is not modelled.
  \<open>tokio::io::copy\<close> moves all bytes of a stream up to its end.
\<close>

section \<open>node.rs\<close>

record node =
  nd_cert :: "byte list"
  nd_key :: "byte list"
  nd_transport :: transport_config

text \<open>The arguments are the conversion of the idle timeout and the outcome of generating a certificate.\<close>

definition with_congestion ::
  "(duration \<Rightarrow> nat option) \<Rightarrow> string + byte list \<times> byte list \<Rightarrow> oracle_params \<Rightarrow> congestion \<Rightarrow> (string + node) may_panic" where
  "with_congestion idle_try_from made p cc =
     (case made of
        Inl e \<Rightarrow> Some (Inl e)
      | Inr (cert, key) \<Rightarrow>
          map_option (\<lambda>t. Inr \<lparr>nd_cert = cert, nd_key = key, nd_transport = t\<rparr>) (transport idle_try_from cc p))"

definition new_node ::
  "(duration \<Rightarrow> nat option) \<Rightarrow> string + byte list \<times> byte list \<Rightarrow> oracle_params \<Rightarrow> (string + node) may_panic" where
  "new_node idle_try_from made p = with_congestion idle_try_from made p Quicmix"

text \<open>The client link: the pinned peer certificate and the node's own transport.\<close>

definition connect_via ::
  "'w quic_stack \<Rightarrow> node \<Rightarrow> socket_addr \<Rightarrow> byte list \<Rightarrow> ('w, circuit_error, nat) io" where
  "connect_via qs nd front peer_cert =
     (if \<not> qs_root_ok qs peer_cert then io_fail BadRoot
      else case qs_config_error qs of
        Some e \<Rightarrow> io_fail (QuicConfig e)
      | None \<Rightarrow>
          io_bind (io_context EndpointError (qs_endpoint qs)) (\<lambda>_.
          io_context DialError
            (qs_dial qs \<lparr>qc_roots = [peer_cert], qc_resumption = True, qc_transport = Some (nd_transport nd)\<rparr> front ''localhost'')))"

definition MEASURE_PREFIX :: string where
  "MEASURE_PREFIX = ''@measure ''"

definition MEASURE_MAX :: nat where
  "MEASURE_MAX = 64 * 1024 * 1024"

text \<open>The probe: chunks of at most 64 KiB until everything is written or a write fails.\<close>

function measure_loop :: "nat \<Rightarrow> wstream \<Rightarrow> wstream" where
  "measure_loop left w =
     (if left = 0 then w
      else (let k = min left 65536 in
            case write_all (replicate k 0) w of
              (Inl _, w') \<Rightarrow> w'
            | (Inr _, w') \<Rightarrow> measure_loop (left - k) w'))"
  by pat_completeness auto
termination
  by (relation "measure (\<lambda>(left, w). left)") auto

declare measure_loop.simps [simp del]

datatype stream_end = NothingAsked | Measured nat | Spliced string tcp_stream

text \<open>
  One proxied stream: the peer's bytes, the way back to it, and the dialling of the target. After a
  splice the target's socket has been sent the rest of the peer's bytes and everything the target sent
  went back.
\<close>

definition gateway_stream ::
  "(string \<Rightarrow> io_error + tcp_stream) \<Rightarrow> rstream \<Rightarrow> wstream \<Rightarrow> (io_error + stream_end) \<times> wstream" where
  "gateway_stream dial recv send =
     (case read_line recv of
        (Inl e, _) \<Rightarrow> (Inl e, send)
      | (Inr line, br) \<Rightarrow>
          (let target = trim line in
           if target = [] then (Inr NothingAsked, send)
           else case strip_prefix MEASURE_PREFIX target of
             Some rest \<Rightarrow>
               (let n = min (case parse_u64 (trim rest) of Some n \<Rightarrow> n | None \<Rightarrow> 0) MEASURE_MAX
                in (Inr (Measured n), measure_loop n send))
           | None \<Rightarrow>
               (case dial target of
                  Inl e \<Rightarrow> (Inl e, send)
                | Inr tcp \<Rightarrow>
                    (let tw = snd (write_all (r_bytes br) (t_write tcp));
                         sw = snd (write_all (r_bytes (t_read tcp)) send)
                     in (Inr (Spliced target (tcp\<lparr>t_write := tw, t_read := (t_read tcp)\<lparr>r_bytes := []\<rparr>\<rparr>)), sw)))))"

text \<open>
  The gateway's endpoint: its server configuration and the address bound, then every stream of every
  connection on its own. The arguments are the outcomes of making the configuration and of binding.
\<close>

record server_config =
  sv_cert :: "byte list"
  sv_key :: "byte list"
  sv_transport :: transport_config

definition serve_gateway_at :: "string option \<Rightarrow> io_error + socket_addr \<Rightarrow> node \<Rightarrow> (string + io_error) + server_config \<times> socket_addr" where
  "serve_gateway_at config_err bound nd =
     (case config_err of
        Some e \<Rightarrow> Inl (Inl e)
      | None \<Rightarrow>
          (case bound of
             Inl e \<Rightarrow> Inl (Inr e)
           | Inr addr \<Rightarrow> Inr (\<lparr>sv_cert = nd_cert nd, sv_key = nd_key nd, sv_transport = nd_transport nd\<rparr>, addr)))"

definition serve_streams ::
  "(string \<Rightarrow> io_error + tcp_stream) \<Rightarrow> (rstream \<times> wstream) list \<Rightarrow> ((io_error + stream_end) \<times> wstream) list" where
  "serve_streams dial streams = map (\<lambda>(recv, send). gateway_stream dial recv send) streams"

section \<open>ingress.rs\<close>

type_synonym headers = "string \<Rightarrow> string list"

definition no_headers :: headers where
  "no_headers = (\<lambda>_. [])"

definition hop_by_hop :: "string list" where
  "hop_by_hop = [''connection'', ''keep-alive'', ''proxy-connection'', ''proxy-authenticate'', ''proxy-authorization'', ''te'',
     ''trailer'', ''transfer-encoding'', ''content-length'', ''upgrade'']"

definition strip_hop_by_hop :: "headers \<Rightarrow> headers" where
  "strip_hop_by_hop hs = fold (\<lambda>h hs'. hs'(h := [])) hop_by_hop hs"

record http_request =
  rq_method :: string
  rq_authority :: "string option"
  rq_host :: "string option"
  rq_port :: "nat option"
  rq_path_and_query :: "string option"
  rq_headers :: headers
  rq_body :: "byte list"

record http_response =
  rs_status :: nat
  rs_headers :: headers
  rs_body :: "byte list"

definition status_response :: "nat \<Rightarrow> string \<Rightarrow> http_response" where
  "status_response code msg = \<lparr>rs_status = code, rs_headers = no_headers, rs_body = string_bytes msg\<rparr>"

text \<open>
  \<open>forward\<close>: the target line written to the stream, and the request handed to the HTTP client over it.
  \<open>upstream\<close> is the HTTP client (with its handshake): given the target line and the request, an
  error or the response.
\<close>

definition forward ::
  "(string \<Rightarrow> http_request \<Rightarrow> string + http_response) \<Rightarrow> http_request \<Rightarrow> string + http_response" where
  "forward upstream req =
     (case rq_host req of
        None \<Rightarrow> Inl ''request URI has no host''
      | Some host \<Rightarrow>
          (let port = (case rq_port req of Some p \<Rightarrow> p | None \<Rightarrow> 80);
               line = host @ '':'' @ show_nat port @ [CHR 0x0A];
               req' = req\<lparr>rq_authority := None, rq_host := None, rq_port := None,
                          rq_path_and_query := Some (case rq_path_and_query req of Some p \<Rightarrow> p | None \<Rightarrow> ''/''),
                          rq_headers := strip_hop_by_hop (rq_headers req)\<rparr>
           in case upstream line req' of
                Inl e \<Rightarrow> Inl e
              | Inr resp \<Rightarrow> Inr (resp\<lparr>rs_headers := strip_hop_by_hop (rs_headers resp)\<rparr>)))"

text \<open>What the proxy does with a request: the response, and the target line of a tunnel it starts.\<close>

definition proxy ::
  "(string \<Rightarrow> http_request \<Rightarrow> string + http_response) \<Rightarrow> http_request \<Rightarrow> http_response \<times> string option" where
  "proxy upstream req =
     (if rq_method req = ''CONNECT''
      then (case rq_authority req of
              None \<Rightarrow> (status_response 400 ''CONNECT requires host:port'', None)
            | Some authority \<Rightarrow> (\<lparr>rs_status = 200, rs_headers = no_headers, rs_body = []\<rparr>, Some (authority @ [CHR 0x0A])))
      else (case forward upstream req of
              Inr resp \<Rightarrow> (resp, None)
            | Inl _ \<Rightarrow> (status_response 502 ''quicmix upstream error'', None)))"

text \<open>The service of \<open>serve_with\<close>: the provider gives the connection, or none.\<close>

definition serve_request ::
  "'c option \<Rightarrow> ('c \<Rightarrow> string \<Rightarrow> http_request \<Rightarrow> string + http_response) \<Rightarrow> http_request \<Rightarrow> http_response \<times> string option" where
  "serve_request provided upstream req =
     (case provided of
        Some conn \<Rightarrow> proxy (upstream conn) req
      | None \<Rightarrow> (status_response 503 ''no warm circuit available'', None))"

text \<open>
  \<open>copy_bidirectional\<close> between two sockets: all bytes of each go to the other; an error of either side
  is the result.
\<close>

definition copy_bidirectional :: "tcp_stream \<Rightarrow> tcp_stream \<Rightarrow> (io_error + unit) \<times> tcp_stream \<times> tcp_stream" where
  "copy_bidirectional a b =
     (let (x, wb) = write_all (r_bytes (t_read a)) (t_write b);
          (y, wa) = write_all (r_bytes (t_read b)) (t_write a);
          drained = (\<lambda>r. r\<lparr>r_bytes := []\<rparr>)
      in (if r_end (t_read a) \<noteq> UnexpectedEof then Inl (r_end (t_read a))
          else if r_end (t_read b) \<noteq> UnexpectedEof then Inl (r_end (t_read b))
          else case x of Inl e \<Rightarrow> Inl e | Inr _ \<Rightarrow> y,
          \<lparr>t_read = drained (t_read a), t_write = wa\<rparr>, \<lparr>t_read = drained (t_read b), t_write = wb\<rparr>))"

text \<open>The tunnel behind a CONNECT: \<open>opened\<close> is the outcome of opening a stream on the link, \<open>client\<close> the upgraded connection.\<close>

definition tunnel :: "io_error + tcp_stream \<Rightarrow> string \<Rightarrow> tcp_stream \<Rightarrow> (io_error + unit) \<times> tcp_stream \<times> tcp_stream option" where
  "tunnel opened authority client =
     (case opened of
        Inl e \<Rightarrow> (Inl e, client, None)
      | Inr server \<Rightarrow>
          (case tcp_write_all (string_bytes (authority @ [CHR 0x0A])) server of
             (Inl e, server') \<Rightarrow> (Inl e, client, Some server')
           | (Inr _, server') \<Rightarrow>
               (case copy_bidirectional client server' of (r, c, sv) \<Rightarrow> (r, c, Some sv))))"

section \<open>Properties\<close>

lemma measure_loop_healthy:
  "w_faults w = [] \<Longrightarrow> measure_loop n w = w\<lparr>w_out := w_out w @ replicate n 0\<rparr>"
proof (induction n w rule: measure_loop.induct)
  case (1 left w)
  show ?case
  proof (cases "left = 0")
    case True
    then show ?thesis by (simp add: measure_loop.simps [of 0])
  next
    case False
    define k where "k = min left 65536"
    define w1 where "w1 = w\<lparr>w_out := w_out w @ replicate k 0\<rparr>"
    have wr: "write_all (replicate k 0) w = (Inr (), w1)" using 1(2) by (simp add: w1_def)
    have "measure_loop left w = measure_loop (left - k) w1"
      using False by (subst measure_loop.simps) (simp add: wr Let_def flip: k_def)
    also have "\<dots> = w1\<lparr>w_out := w_out w1 @ replicate (left - k) 0\<rparr>"
      using "1.IH" [OF False k_def wr [symmetric] refl] 1(2) by (simp add: w1_def)
    also have "\<dots> = w\<lparr>w_out := w_out w @ replicate left 0\<rparr>"
      by (simp add: w1_def k_def flip: replicate_add)
    finally show ?thesis .
  qed
qed

lemma show_nat_visible: "set (show_nat n) \<subseteq> Collect visible"
  by (auto simp: visible_def dest!: show_nat_digits)

lemma trim_show_nat [simp]: "trim (show_nat n) = show_nat n"
  using show_nat_visible [of n] show_nat_nonempty [of n]
  by (intro trim_visible) (auto dest: subsetD [OF _ hd_in_set] subsetD [OF _ last_in_set])

lemma newline_not_visible: "set s \<subseteq> Collect visible \<Longrightarrow> CHR 0x0A \<notin> set s"
  by (auto simp: visible_def)

lemma visible_line:
  assumes "s \<noteq> []" and "visible (hd s)" and "visible (last s)" and "ascii s" and "CHR 0x0A \<notin> set s"
  shows "\<exists>line. read_line \<lparr>r_bytes = string_bytes (s @ [CHR 0x0A]) @ rest, r_end = e\<rparr> = (Inr line, \<lparr>r_bytes = rest, r_end = e\<rparr>) \<and>
    trim line = s"
proof -
  have "is_utf8 (s @ [CHR 0x0A])" using assms(4) by (intro ascii_utf8) (simp add: ascii_def)
  then show ?thesis using read_line_at [OF assms(5)] trim_line [OF assms(1-3)] by blast
qed

text \<open>The self-sourced bandwidth probe. On the line \<open>@measure <n>\<close> the gateway dials nothing and, over
  a healthy stream, writes exactly \<open>n\<close> bytes of zeros, at most 64 MiB, and stops.\<close>

theorem gateway_measures:
  assumes "n < u64_limit" and "w_faults send = []"
  shows "gateway_stream dial \<lparr>r_bytes = string_bytes (MEASURE_PREFIX @ show_nat n @ [CHR 0x0A]) @ rest, r_end = e\<rparr> send =
    (Inr (Measured (min n MEASURE_MAX)), send\<lparr>w_out := w_out send @ replicate (min n MEASURE_MAX) 0\<rparr>)"
proof -
  let ?t = "MEASURE_PREFIX @ show_nat n"
  have "last ?t = last (show_nat n)" by simp
  then have vis: "visible (hd ?t)" "visible (last ?t)"
    using subsetD [OF show_nat_visible last_in_set [OF show_nat_nonempty], of n]
    by (simp_all add: MEASURE_PREFIX_def visible_def)
  have "ascii ?t" "CHR 0x0A \<notin> set ?t"
    using visible_ascii [OF show_nat_visible] newline_not_visible [OF show_nat_visible] by (simp_all add: MEASURE_PREFIX_def ascii_def)
  then obtain line where line: "read_line \<lparr>r_bytes = string_bytes (?t @ [CHR 0x0A]) @ rest, r_end = e\<rparr> = (Inr line, \<lparr>r_bytes = rest, r_end = e\<rparr>)"
    "trim line = ?t" using visible_line [of ?t rest e] vis by auto
  have "parse_u64 (show_nat n) = Some n" using assms(1) by (simp add: parse_u64_def parse_show_nat)
  with line assms(2) show ?thesis
    by (simp add: gateway_stream_def Let_def measure_loop_healthy del: string_bytes_append)
qed

theorem gateway_measures_witness:
  "gateway_stream (\<lambda>_. Inl UnexpectedEof) \<lparr>r_bytes = string_bytes (MEASURE_PREFIX @ show_nat 3 @ [CHR 0x0A]) @ [], r_end = UnexpectedEof\<rparr>
     \<lparr>w_out = [], w_faults = []\<rparr> = (Inr (Measured (min 3 MEASURE_MAX)), \<lparr>w_out = [] @ replicate (min 3 MEASURE_MAX) 0, w_faults = []\<rparr>)"
  using gateway_measures [of 3 "\<lparr>w_out = [], w_faults = []\<rparr>" "\<lambda>_. Inl UnexpectedEof" "[]" UnexpectedEof] by simp

lemma splice_line:
  assumes "target \<noteq> []" and "visible (hd target)" and "visible (last target)" and "ascii target" and "CHR 0x0A \<notin> set target"
    and "\<not> prefix MEASURE_PREFIX target" and "dial target = Inr tcp" and "w_faults (t_write tcp) = []" and "w_faults send = []"
  shows "\<exists>tcp'. gateway_stream dial \<lparr>r_bytes = string_bytes (target @ [CHR 0x0A]) @ payload, r_end = e\<rparr> send =
      (Inr (Spliced target tcp'), send\<lparr>w_out := w_out send @ r_bytes (t_read tcp)\<rparr>) \<and>
    w_out (t_write tcp') = w_out (t_write tcp) @ payload"
proof -
  obtain line where line: "read_line \<lparr>r_bytes = string_bytes (target @ [CHR 0x0A]) @ payload, r_end = e\<rparr> = (Inr line, \<lparr>r_bytes = payload, r_end = e\<rparr>)"
    "trim line = target" using visible_line [OF assms(1-5)] by blast
  have "strip_prefix MEASURE_PREFIX target = None"
    using assms(6) by (cases "strip_prefix MEASURE_PREFIX target") (auto simp: strip_prefix_eq_Some)
  with line assms show ?thesis
    by (simp add: gateway_stream_def Let_def del: string_bytes_append)
qed

text \<open>The gateway splices. A stream that begins with a target line makes the gateway dial exactly that
  target; the target is sent exactly the bytes after the line and the peer exactly the bytes the target
  sends.\<close>

theorem gateway_splices:
  assumes "target \<noteq> []" and "visible (hd target)" and "visible (last target)" and "ascii target" and "CHR 0x0A \<notin> set target"
    and "\<not> prefix MEASURE_PREFIX target" and "dial target = Inr tcp" and "w_faults (t_write tcp) = []" and "w_faults send = []"
  shows "\<exists>tcp'. gateway_stream dial \<lparr>r_bytes = string_bytes (target @ [CHR 0x0A]) @ payload, r_end = e\<rparr> send =
      (Inr (Spliced target tcp'), send\<lparr>w_out := w_out send @ r_bytes (t_read tcp)\<rparr>) \<and>
    w_out (t_write tcp') = w_out (t_write tcp) @ payload"
  using assms by (rule splice_line)

theorem gateway_splices_witness:
  "\<exists>tcp'. gateway_stream (\<lambda>_. Inr \<lparr>t_read = \<lparr>r_bytes = [7, 8], r_end = UnexpectedEof\<rparr>, t_write = \<lparr>w_out = [], w_faults = []\<rparr>\<rparr>)
      \<lparr>r_bytes = string_bytes (''example.com:80'' @ [CHR 0x0A]) @ [1, 2, 3], r_end = UnexpectedEof\<rparr> \<lparr>w_out = [], w_faults = []\<rparr> =
      (Inr (Spliced ''example.com:80'' tcp'), \<lparr>w_out = [], w_faults = []\<rparr>\<lparr>w_out := [] @ [7, 8]\<rparr>) \<and>
    w_out (t_write tcp') = [] @ [1, 2, 3]"
  using gateway_splices [of "''example.com:80''" "\<lambda>_. Inr \<lparr>t_read = \<lparr>r_bytes = [7, 8], r_end = UnexpectedEof\<rparr>, t_write = \<lparr>w_out = [], w_faults = []\<rparr>\<rparr>"
      "\<lparr>t_read = \<lparr>r_bytes = [7, 8], r_end = UnexpectedEof\<rparr>, t_write = \<lparr>w_out = [], w_faults = []\<rparr>\<rparr>" "\<lparr>w_out = [], w_faults = []\<rparr>"
      "[1, 2, 3]" UnexpectedEof]
  by (simp add: visible_def ascii_def MEASURE_PREFIX_def del: string_bytes_append)

lemma connect_carries:
  assumes "rq_method req = ''CONNECT''" and "rq_authority req = Some authority"
    and "authority \<noteq> []" and "visible (hd authority)" and "visible (last authority)" and "ascii authority"
    and "CHR 0x0A \<notin> set authority" and "\<not> prefix MEASURE_PREFIX authority"
    and "dial authority = Inr origin" and "w_faults (t_write origin) = []"
    and "w_faults (t_write client) = []" and "stream = \<lparr>t_read = \<lparr>r_bytes = r_bytes (t_read origin), r_end = e\<rparr>, t_write = \<lparr>w_out = [], w_faults = []\<rparr>\<rparr>"
  shows "proxy upstream req = (\<lparr>rs_status = 200, rs_headers = no_headers, rs_body = []\<rparr>, Some (authority @ [CHR 0x0A])) \<and>
    (\<exists>r client' stream' origin' back. tunnel (Inr stream) authority client = (r, client', Some stream') \<and>
      gateway_stream dial \<lparr>r_bytes = w_out (t_write stream'), r_end = UnexpectedEof\<rparr> \<lparr>w_out = [], w_faults = []\<rparr> = (Inr (Spliced authority origin'), back) \<and>
      w_out (t_write origin') = w_out (t_write origin) @ r_bytes (t_read client) \<and>
      w_out back = r_bytes (t_read stream) \<and>
      w_out (t_write client') = w_out (t_write client) @ r_bytes (t_read origin))"
proof -
  obtain tcp' where gw: "gateway_stream dial \<lparr>r_bytes = string_bytes (authority @ [CHR 0x0A]) @ r_bytes (t_read client), r_end = UnexpectedEof\<rparr>
      \<lparr>w_out = [], w_faults = []\<rparr> = (Inr (Spliced authority tcp'), \<lparr>w_out = r_bytes (t_read origin), w_faults = []\<rparr>)"
    "w_out (t_write tcp') = w_out (t_write origin) @ r_bytes (t_read client)"
    using splice_line [OF assms(3-8), of dial origin "\<lparr>w_out = [], w_faults = []\<rparr>" "r_bytes (t_read client)" UnexpectedEof] assms(9,10) by auto
  obtain r client' stream' where t: "tunnel (Inr stream) authority client = (r, client', Some stream')"
    "w_out (t_write stream') = string_bytes (authority @ [CHR 0x0A]) @ r_bytes (t_read client)"
    "w_out (t_write client') = w_out (t_write client) @ r_bytes (t_read origin)"
    using assms(11,12) by (simp add: tunnel_def tcp_write_all_def write_all_def copy_bidirectional_def Let_def)
  from gw t assms(1,2,12) show ?thesis by (auto simp: proxy_def)
qed

text \<open>C35: a CONNECT through ingress and gateway. When the proxy accepts \<open>CONNECT authority\<close> and the tunnel's stream ends
  at the gateway, the gateway dials exactly that authority, the origin receives exactly the bytes the client
  sent, nothing of the target line among them, and the client exactly the bytes the origin sent.\<close>

theorem connect_end_to_end:
  assumes "rq_method req = ''CONNECT''" and "rq_authority req = Some authority"
    and "authority \<noteq> []" and "visible (hd authority)" and "visible (last authority)" and "ascii authority"
    and "CHR 0x0A \<notin> set authority" and "\<not> prefix MEASURE_PREFIX authority"
    and "dial authority = Inr origin" and "w_faults (t_write origin) = []"
    and "w_faults (t_write client) = []" and "stream = \<lparr>t_read = \<lparr>r_bytes = r_bytes (t_read origin), r_end = e\<rparr>, t_write = \<lparr>w_out = [], w_faults = []\<rparr>\<rparr>"
  shows "proxy upstream req = (\<lparr>rs_status = 200, rs_headers = no_headers, rs_body = []\<rparr>, Some (authority @ [CHR 0x0A])) \<and>
    (\<exists>r client' stream' origin' back. tunnel (Inr stream) authority client = (r, client', Some stream') \<and>
      gateway_stream dial \<lparr>r_bytes = w_out (t_write stream'), r_end = UnexpectedEof\<rparr> \<lparr>w_out = [], w_faults = []\<rparr> = (Inr (Spliced authority origin'), back) \<and>
      w_out (t_write origin') = w_out (t_write origin) @ r_bytes (t_read client) \<and>
      w_out back = r_bytes (t_read stream) \<and>
      w_out (t_write client') = w_out (t_write client) @ r_bytes (t_read origin))"
  using assms by (rule connect_carries)

definition demo_socket :: "byte list \<Rightarrow> tcp_stream" where
  "demo_socket bs = \<lparr>t_read = \<lparr>r_bytes = bs, r_end = UnexpectedEof\<rparr>, t_write = \<lparr>w_out = [], w_faults = []\<rparr>\<rparr>"

theorem connect_end_to_end_witness:
  "\<exists>r client' stream' origin' back. tunnel (Inr (demo_socket [7, 8])) ''example.com:443'' (demo_socket [1, 2]) = (r, client', Some stream') \<and>
    gateway_stream (\<lambda>_. Inr (demo_socket [7, 8])) \<lparr>r_bytes = w_out (t_write stream'), r_end = UnexpectedEof\<rparr> \<lparr>w_out = [], w_faults = []\<rparr> =
      (Inr (Spliced ''example.com:443'' origin'), back) \<and>
    w_out (t_write origin') = [1, 2] \<and> w_out back = [7, 8] \<and> w_out (t_write client') = [7, 8]"
proof -
  have sock: "w_out (t_write (demo_socket bs)) = []" "w_faults (t_write (demo_socket bs)) = []" "r_bytes (t_read (demo_socket bs)) = bs" for bs
    by (simp_all add: demo_socket_def)
  have "demo_socket [7, 8] = \<lparr>t_read = \<lparr>r_bytes = r_bytes (t_read (demo_socket [7, 8])), r_end = UnexpectedEof\<rparr>, t_write = \<lparr>w_out = [], w_faults = []\<rparr>\<rparr>"
    by (simp add: demo_socket_def)
  from connect_end_to_end [where req = "\<lparr>rq_method = ''CONNECT'', rq_authority = Some ''example.com:443'', rq_host = None, rq_port = None,
        rq_path_and_query = None, rq_headers = no_headers, rq_body = []\<rparr>" and authority = "''example.com:443''" and
      dial = "\<lambda>_. Inr (demo_socket [7, 8])" and client = "demo_socket [1, 2]", OF _ _ _ _ _ _ _ _ refl sock(2) sock(2) this]
  show ?thesis by (simp add: visible_def ascii_def MEASURE_PREFIX_def sock)
qed

section \<open>Forwarding, end to end\<close>

lemma strip_conv: "strip_hop_by_hop hs n = (if n \<in> set hop_by_hop then [] else hs n)"
proof -
  have "fold (\<lambda>h hs'. hs'(h := [])) ns hs n = (if n \<in> set ns then [] else hs n)" for ns
    by (induction ns arbitrary: hs) auto
  then show ?thesis by (simp add: strip_hop_by_hop_def)
qed

text \<open>
  Origins beyond the gateway: asked with some bytes, one refuses the connection or answers. What the gateway makes of a
  stream that carries a line and these bytes.
\<close>

definition origin_socket :: "byte list \<Rightarrow> tcp_stream" where
  "origin_socket answer = \<lparr>t_read = \<lparr>r_bytes = answer, r_end = UnexpectedEof\<rparr>, t_write = \<lparr>w_out = [], w_faults = []\<rparr>\<rparr>"

definition through_gateway ::
  "(string \<Rightarrow> byte list \<Rightarrow> io_error + byte list) \<Rightarrow> byte list \<Rightarrow> string \<Rightarrow> (io_error + stream_end) \<times> wstream" where
  "through_gateway origins asked line =
     gateway_stream (\<lambda>t. map_sum id origin_socket (origins t asked)) \<lparr>r_bytes = string_bytes line @ asked, r_end = UnexpectedEof\<rparr>
       \<lparr>w_out = [], w_faults = []\<rparr>"

lemma dial_refused:
  assumes "target \<noteq> []" and "visible (hd target)" and "visible (last target)" and "ascii target" and "CHR 0x0A \<notin> set target"
    and "\<not> prefix MEASURE_PREFIX target" and "dial target = Inl e"
  shows "gateway_stream dial \<lparr>r_bytes = string_bytes (target @ [CHR 0x0A]) @ payload, r_end = e'\<rparr> send = (Inl e, send)"
proof -
  obtain line where line: "read_line \<lparr>r_bytes = string_bytes (target @ [CHR 0x0A]) @ payload, r_end = e'\<rparr> = (Inr line, \<lparr>r_bytes = payload, r_end = e'\<rparr>)"
    "trim line = target" using visible_line [OF assms(1-5)] by blast
  have "strip_prefix MEASURE_PREFIX target = None"
    using assms(6) by (cases "strip_prefix MEASURE_PREFIX target") (auto simp: strip_prefix_eq_Some)
  with line assms show ?thesis by (simp add: gateway_stream_def Let_def del: string_bytes_append)
qed

lemma through_gateway_target:
  assumes "target \<noteq> []" and "set target \<subseteq> Collect visible"
  shows "case origins target asked of
      Inl e \<Rightarrow> through_gateway origins asked (target @ [CHR 0x0A]) = (Inl e, \<lparr>w_out = [], w_faults = []\<rparr>)
    | Inr answer \<Rightarrow> (\<exists>origin'. through_gateway origins asked (target @ [CHR 0x0A]) = (Inr (Spliced target origin'), \<lparr>w_out = answer, w_faults = []\<rparr>) \<and>
        w_out (t_write origin') = asked)"
proof -
  have "visible (hd target)" "visible (last target)" using assms hd_in_set last_in_set by blast+
  moreover have "\<not> prefix MEASURE_PREFIX target"
  proof
    assume "prefix MEASURE_PREFIX target"
    then have "CHR '' '' \<in> set target" by (auto simp: prefix_def MEASURE_PREFIX_def)
    with assms(2) show False by (auto simp: visible_def)
  qed
  ultimately have line: "target \<noteq> []" "visible (hd target)" "visible (last target)" "ascii target" "CHR 0x0A \<notin> set target"
    "\<not> prefix MEASURE_PREFIX target" using assms visible_ascii newline_not_visible by simp_all
  show ?thesis
  proof (cases "origins target asked")
    case (Inl e)
    then show ?thesis unfolding through_gateway_def by (simp add: dial_refused [OF line] del: string_bytes_append)
  next
    case (Inr answer)
    from splice_line [OF line, of "\<lambda>t. map_sum id origin_socket (origins t asked)" "origin_socket answer" "\<lparr>w_out = [], w_faults = []\<rparr>" asked UnexpectedEof]
    show ?thesis using Inr by (auto simp: through_gateway_def origin_socket_def simp del: string_bytes_append)
  qed
qed

text \<open>C37: a forwarded request, end to end. Over a working stream to the gateway, a cleartext request for a host of visible
  characters makes the gateway dial exactly that host and the request's port, 80 when it has none. The origin is sent exactly
  the encoding of the request in origin form: same method and body, its path (\<open>/\<close> when it has none), none of the ten
  hop-by-hop headers listed, every other header with its values unchanged. The client gets the origin's response with its
  status and body, again without the ten and with the values of every other header; when there is none, because
  the dialling failed or what came back is no response, it gets 502. Headers that a \<open>Connection\<close> header nominates count as any other.\<close>

theorem forward_end_to_end:
  assumes "rq_method req \<noteq> ''CONNECT''" and "rq_host req = Some host" and "host \<noteq> []" and "set host \<subseteq> Collect visible"
    and "target = host @ '':'' @ show_nat (case rq_port req of Some p \<Rightarrow> p | None \<Rightarrow> 80)"
    and "upstream = (\<lambda>line r. decode (w_out (snd (through_gateway origins (encode r) line))))"
    and "hop = {''connection'', ''keep-alive'', ''proxy-connection'', ''proxy-authenticate'', ''proxy-authorization'', ''te'',
      ''trailer'', ''transfer-encoding'', ''content-length'', ''upgrade''}"
  shows "\<exists>req'. rq_method req' = rq_method req \<and> rq_body req' = rq_body req \<and>
    rq_authority req' = None \<and> rq_host req' = None \<and> rq_port req' = None \<and>
    rq_path_and_query req' = Some (case rq_path_and_query req of Some p \<Rightarrow> p | None \<Rightarrow> ''/'') \<and>
    (\<forall>n. rq_headers req' n = (if n \<in> hop then [] else rq_headers req n)) \<and>
    (case origins target (encode req') of
       Inl e \<Rightarrow> through_gateway origins (encode req') (target @ [CHR 0x0A]) = (Inl e, \<lparr>w_out = [], w_faults = []\<rparr>) \<and>
         (isl (decode []) \<longrightarrow> proxy upstream req = (status_response 502 ''quicmix upstream error'', None))
     | Inr answer \<Rightarrow>
         (\<exists>origin'. through_gateway origins (encode req') (target @ [CHR 0x0A]) = (Inr (Spliced target origin'), \<lparr>w_out = answer, w_faults = []\<rparr>) \<and>
            w_out (t_write origin') = encode req') \<and>
         (case decode answer of
            Inl _ \<Rightarrow> proxy upstream req = (status_response 502 ''quicmix upstream error'', None)
          | Inr resp \<Rightarrow> proxy upstream req = (resp\<lparr>rs_headers := (\<lambda>n. if n \<in> hop then [] else rs_headers resp n)\<rparr>, None)))"
proof -
  define req' where "req' = req\<lparr>rq_authority := None, rq_host := None, rq_port := None,
      rq_path_and_query := Some (case rq_path_and_query req of Some p \<Rightarrow> p | None \<Rightarrow> ''/''), rq_headers := strip_hop_by_hop (rq_headers req)\<rparr>"
  have hop: "set hop_by_hop = hop" by (simp add: hop_by_hop_def assms(7))
  then have strip: "strip_hop_by_hop hs = (\<lambda>n. if n \<in> hop then [] else hs n)" for hs by (simp add: strip_conv fun_eq_iff)
  have "set target \<subseteq> Collect visible" "target \<noteq> []" using assms(4,5) show_nat_visible by (auto simp: visible_def)
  from through_gateway_target [OF this(2,1), of origins "encode req'"]
  have gw: "case origins target (encode req') of
      Inl e \<Rightarrow> through_gateway origins (encode req') (target @ [CHR 0x0A]) = (Inl e, \<lparr>w_out = [], w_faults = []\<rparr>)
    | Inr answer \<Rightarrow> (\<exists>origin'. through_gateway origins (encode req') (target @ [CHR 0x0A]) = (Inr (Spliced target origin'), \<lparr>w_out = answer, w_faults = []\<rparr>) \<and>
        w_out (t_write origin') = encode req')" .
  have up: "upstream (target @ [CHR 0x0A]) req' = decode (w_out (snd (through_gateway origins (encode req') (target @ [CHR 0x0A]))))"
    by (simp add: assms(6))
  have fw: "proxy upstream req = (case upstream (target @ [CHR 0x0A]) req' of
      Inl _ \<Rightarrow> (status_response 502 ''quicmix upstream error'', None)
    | Inr resp \<Rightarrow> (resp\<lparr>rs_headers := strip_hop_by_hop (rs_headers resp)\<rparr>, None))"
    using assms(1,2,5) by (simp add: proxy_def forward_def Let_def req'_def split: sum.split)
  show ?thesis
    by (rule exI [of _ req'], cases "origins target (encode req')")
       (use gw up in \<open>auto simp: fw strip isl_def req'_def split: sum.split\<close>)
qed

definition demo_request :: http_request where
  "demo_request = \<lparr>rq_method = ''GET'', rq_authority = None, rq_host = Some ''a'', rq_port = None, rq_path_and_query = None,
     rq_headers = no_headers(''accept'' := [''x'', ''y''], ''connection'' := [''close'']), rq_body = [1]\<rparr>"

text \<open>The only origin is \<open>a:80\<close>; it answers with a length and the body it was sent. A request to it, and one to a host that is not there.\<close>

theorem forward_end_to_end_witness:
  "\<exists>req' :: http_request. rq_headers req' ''accept'' = [''x'', ''y''] \<and> rq_headers req' ''connection'' = [] \<and> rq_path_and_query req' = Some ''/'' \<and> rq_body req' = [1] \<and>
    (\<exists>origin'. through_gateway (\<lambda>t asked. if t = ''a:80'' then Inr (asked @ [2]) else Inl UnexpectedEof) (rq_body req') (''a:80'' @ [CHR 0x0A]) =
        (Inr (Spliced ''a:80'' origin'), \<lparr>w_out = [1, 2], w_faults = []\<rparr>) \<and> w_out (t_write origin') = [1]) \<and>
    proxy (\<lambda>line r. (\<lambda>bs. if bs = [] then Inl [] else Inr \<lparr>rs_status = 200, rs_headers = no_headers(''content-length'' := [''2'']), rs_body = bs\<rparr>)
        (w_out (snd (through_gateway (\<lambda>t asked. if t = ''a:80'' then Inr (asked @ [2]) else Inl UnexpectedEof) (rq_body r) line)))) demo_request =
      (\<lparr>rs_status = 200, rs_headers = no_headers, rs_body = [1, 2]\<rparr>, None) \<and>
    proxy (\<lambda>line r. (\<lambda>bs. if bs = [] then Inl [] else Inr \<lparr>rs_status = 200, rs_headers = no_headers(''content-length'' := [''2'']), rs_body = bs\<rparr>)
        (w_out (snd (through_gateway (\<lambda>t asked. if t = ''a:80'' then Inr (asked @ [2]) else Inl UnexpectedEof) (rq_body r) line))))
        (demo_request\<lparr>rq_host := Some ''b''\<rparr>) = (status_response 502 ''quicmix upstream error'', None)"
proof -
  let ?origins = "\<lambda>t asked. if t = ''a:80'' then Inr (asked @ [2]) else Inl UnexpectedEof"
  let ?decode = "\<lambda>bs. if bs = [] then Inl [] else Inr \<lparr>rs_status = 200, rs_headers = no_headers(''content-length'' := [''2'']), rs_body = bs\<rparr>"
  have n: "show_nat 80 = ''80''" by code_simp
  define hop where "hop = {''connection'', ''keep-alive'', ''proxy-connection'', ''proxy-authenticate'', ''proxy-authorization'', ''te'',
      ''trailer'', ''transfer-encoding'', ''content-length'', ''upgrade''}"
  have mem: "''accept'' \<notin> hop" "''connection'' \<in> hop" "''content-length'' \<in> hop" by (simp_all add: hop_def)
  then have same: "(\<lambda>n. if n \<in> hop then [] else rs_headers \<lparr>rs_status = 200, rs_headers = no_headers(''content-length'' := [''2'']), rs_body = bs\<rparr> n) =
    no_headers" for bs by (auto simp: no_headers_def)
  have v: "set ''a'' \<subseteq> Collect visible" "set ''b'' \<subseteq> Collect visible" by (simp_all add: visible_def)
  have a: "rq_method demo_request \<noteq> ''CONNECT''" "rq_host demo_request = Some ''a''" "rq_port demo_request = None" "rq_path_and_query demo_request = None"
    "rq_body demo_request = [1]" "rq_headers demo_request = no_headers(''accept'' := [''x'', ''y''], ''connection'' := [''close''])"
    by (simp_all add: demo_request_def)
  have b: "rq_method (demo_request\<lparr>rq_host := Some ''b''\<rparr>) \<noteq> ''CONNECT''" "rq_host (demo_request\<lparr>rq_host := Some ''b''\<rparr>) = Some ''b''"
    "rq_port (demo_request\<lparr>rq_host := Some ''b''\<rparr>) = None" by (simp_all add: demo_request_def)
  from forward_end_to_end [where decode = ?decode and origins = ?origins and encode = rq_body, OF a(1,2) list.distinct(2) v(1) refl refl hop_def]
  have up: "\<exists>req' :: http_request. rq_headers req' ''accept'' = [''x'', ''y''] \<and> rq_headers req' ''connection'' = [] \<and> rq_path_and_query req' = Some ''/'' \<and> rq_body req' = [1] \<and>
    (\<exists>origin'. through_gateway ?origins (rq_body req') (''a:80'' @ [CHR 0x0A]) =
        (Inr (Spliced ''a:80'' origin'), \<lparr>w_out = [1, 2], w_faults = []\<rparr>) \<and> w_out (t_write origin') = [1]) \<and>
    proxy (\<lambda>line r. ?decode (w_out (snd (through_gateway ?origins (rq_body r) line)))) demo_request =
      (\<lparr>rs_status = 200, rs_headers = no_headers, rs_body = [1, 2]\<rparr>, None)" by (rule ex_forward) (auto simp: same n a mem)
  from forward_end_to_end [where decode = ?decode and origins = ?origins and encode = rq_body, OF b(1,2) list.distinct(2) v(2) refl refl hop_def]
  have "proxy (\<lambda>line r. ?decode (w_out (snd (through_gateway ?origins (rq_body r) line)))) (demo_request\<lparr>rq_host := Some ''b''\<rparr>) =
      (status_response 502 ''quicmix upstream error'', None)" by (auto simp: n b)
  with up show ?thesis by blast
qed

text \<open>Headers that a \<open>Connection\<close> header nominates as hop-by-hop are forwarded.\<close>

lemma strip_keeps_nominated:
  "strip_hop_by_hop (no_headers(''connection'' := [''x-hop''], ''x-hop'' := [''1''])) ''x-hop'' = [''1'']"
  by (simp add: strip_conv hop_by_hop_def)

end
