(* ===== verification/Http.thy ===== *)
theory Http
  imports Utf8 Oracle Tor
begin

text \<open>
  The live-metrics client, \<^verbatim>\<open>crates/quicmix/src/metrics_ws.rs\<close>: gateway names, URLs, the HTTP
  response parser with its chunked decoding, and redirects.

  The exchange of one request over the QUIC link (the stream, TLS for \<open>https\<close>, and the reads of
  \<open>slurp\<close>) is the parameter \<open>exchange\<close>: given the scheme, the target line and the request text
  it gives the raw response with the time to the first byte, or an error. The measurement run that uses them is in theory Measure.
\<close>

definition PROBE_CAP_BYTES :: nat where "PROBE_CAP_BYTES = 4 * 1024 * 1024"
definition PROBE_CAP_TIME :: duration where "PROBE_CAP_TIME = from_secs 5"
definition PAGE_CAP :: nat where "PAGE_CAP = 768 * 1024"

datatype http_error =
    UnknownGateway string | TooManyRedirects | EmptyHost string | ExchangeFailed string | NoHeaderTerminator

definition resolve_gateway :: "string \<Rightarrow> http_error + socket_addr" where
  "resolve_gateway s0 =
     (let s = trim s0;
          mapped = (if s = ''fra1'' then ''64.226.93.43:4433'' else if s = ''nyc3'' then ''68.183.148.148:4433'' else s)
      in case parse_socket_addr mapped of
           Some a \<Rightarrow> Inr a
         | None \<Rightarrow>
             (case parse_ip_addr mapped of
                Some ip \<Rightarrow> Inr (SockAddr ip 4433)
              | None \<Rightarrow> Inl (UnknownGateway s)))"

definition tor_bridge_port :: "environment \<Rightarrow> nat" where
  "tor_bridge_port env = (case Option.bind (env ''QUICMIX_TOR_BRIDGE_PORT'') parse_u16 of Some p \<Rightarrow> p | None \<Rightarrow> 8443)"

definition ws_tor_oracle :: oracle_params where
  "ws_tor_oracle = \<lparr>hops = 3, mean_hop_delay = from_millis 100, drop_prob = 0, slot_interval = 0, mtu = 1200\<rparr>"

definition probe_size :: "environment \<Rightarrow> nat" where
  "probe_size env = (case Option.bind (env ''QUICMIX_METRICS_PROBE_BYTES'') parse_u64 of Some n \<Rightarrow> n | None \<Rightarrow> 3000000)"

section \<open>URLs\<close>

definition split_url :: "string \<Rightarrow> http_error + string \<times> string \<times> nat \<times> string" where
  "split_url url =
     (let (scheme, rest) =
        (case strip_prefix ''https://'' url of
           Some r \<Rightarrow> (''https'', r)
         | None \<Rightarrow> (case strip_prefix ''http://'' url of Some r \<Rightarrow> (''http'', r) | None \<Rightarrow> (''https'', url)));
          authority = takeWhile (\<lambda>c. c \<noteq> CHR ''/'') rest;
          path = (if CHR ''/'' \<in> set rest then dropWhile (\<lambda>c. c \<noteq> CHR ''/'') rest else ''/'');
          default_port = (if scheme = ''https'' then 443 else 80);
          (host, port) =
            (case rsplit_once CHR '':'' authority of
               Some (h, p) \<Rightarrow> (h, case parse_u16 p of Some n \<Rightarrow> n | None \<Rightarrow> default_port)
             | None \<Rightarrow> (authority, default_port))
      in if host = [] then Inl (EmptyHost url)
         else Inr (scheme, host, port, if path = [] then ''/'' else path))"

definition resolve_location :: "string \<Rightarrow> string \<Rightarrow> string \<Rightarrow> string" where
  "resolve_location scheme host loc =
     (if prefix ''http://'' loc \<or> prefix ''https://'' loc then loc
      else case strip_prefix ''/'' loc of
        Some stripped \<Rightarrow> scheme @ ''://'' @ host @ ''/'' @ stripped
      | None \<Rightarrow> scheme @ ''://'' @ host @ ''/'' @ loc)"

section \<open>Responses\<close>

definition find_crlfcrlf :: "byte list \<Rightarrow> nat option" where
  "find_crlfcrlf b = find_sub [13, 10, 13, 10] b"

fun split_crlf :: "string \<Rightarrow> string list" where
  "split_crlf [] = [[]]"
| "split_crlf [c] = [[c]]"
| "split_crlf (c # d # s) =
     (if c = CHR 0x0D \<and> d = CHR 0x0A then [] # split_crlf s
      else case split_crlf (d # s) of l # ls \<Rightarrow> (c # l) # ls | [] \<Rightarrow> [[c]])"

fun header_lines :: "string list \<Rightarrow> (string \<times> string) list" where
  "header_lines [] = []"
| "header_lines (l # ls) =
     (case split_once CHR '':'' l of
        Some (k, v) \<Rightarrow> (to_ascii_lowercase (trim k), trim v) # header_lines ls
      | None \<Rightarrow> header_lines ls)"

definition parse_response :: "byte list \<Rightarrow> http_error + nat \<times> (string \<times> string) list \<times> byte list" where
  "parse_response raw =
     (case find_crlfcrlf raw of
        None \<Rightarrow> Inl NoHeaderTerminator
      | Some sep \<Rightarrow>
          (let head_str = from_utf8_lossy (bytes_string (take sep raw));
               body = drop (sep + 4) raw;
               lines = split_crlf head_str;
               fields = split_whitespace (hd lines);
               code = (if 1 < length fields then (case parse_u16 (fields ! 1) of Some c \<Rightarrow> c | None \<Rightarrow> 0) else 0)
           in Inr (code, header_lines (tl lines), body)))"

definition header_value :: "(string \<times> string) list \<Rightarrow> string \<Rightarrow> string option" where
  "header_value headers name = map_option (\<lambda>(_, v). to_ascii_lowercase v) (find (\<lambda>(k, _). k = name) headers)"

text \<open>The size on a chunk's first line; an unreadable one is zero.\<close>

definition chunk_size :: "byte list \<Rightarrow> nat" where
  "chunk_size line =
     (case from_str_radix 16 u64_limit (trim (hd (split_char CHR '';'' (trim (from_utf8_lossy (bytes_string line)))))) of
        Some n \<Rightarrow> n
      | None \<Rightarrow> 0)"

text \<open>
  \<open>dechunk\<close> from position \<open>i\<close>. The end of a chunk is a \<open>usize\<close> sum, which wraps; a slice that would
  end before it starts panics.
\<close>

function dechunk_from :: "byte list \<Rightarrow> nat \<Rightarrow> byte list may_panic" where
  "dechunk_from body i =
     (if length body \<le> i then Some []
      else case find_sub [13, 10] (drop i body) of
        None \<Rightarrow> Some []
      | Some p \<Rightarrow>
          (let line_end = i + p;
               size = chunk_size (take p (drop i body));
               data_start = line_end + 2;
               data_end = min (usize_add data_start size) (length body)
           in if size = 0 then Some []
              else if data_end < data_start then None
              else map_option ((@) (take (data_end - data_start) (drop data_start body))) (dechunk_from body (data_end + 2))))"
  by pat_completeness auto
termination
  by (relation "measure (\<lambda>(body, i). length body - i)") auto

declare dechunk_from.simps [simp del]

definition dechunk :: "byte list \<Rightarrow> byte list may_panic" where
  "dechunk body = dechunk_from body 0"

section \<open>Fetching\<close>

record fetched =
  ft_code :: nat
  ft_bytes :: nat
  ft_ttfb_ms :: f64
  ft_body :: "byte list"
  ft_content_type :: string
  ft_final_url :: string

definition request_text :: "string \<Rightarrow> string \<Rightarrow> string" where
  "request_text path host =
     (let crlf = [CHR 0x0D, CHR 0x0A] in
      ''GET '' @ path @ '' HTTP/1.1'' @ crlf @ ''Host: '' @ host @ crlf @ ''User-Agent: quicmix-demo/0.1'' @ crlf @
      ''Accept: text/html,*/*'' @ crlf @ ''Accept-Encoding: identity'' @ crlf @ ''Connection: close'' @ crlf @ crlf)"

type_synonym exchange = "string \<Rightarrow> string \<Rightarrow> string \<Rightarrow> string + byte list \<times> f64"

text \<open>The result and the requests made (scheme, target line, request), in order.\<close>

function fetch_over_quicmix ::
  "exchange \<Rightarrow> string \<Rightarrow> nat \<Rightarrow> (http_error + fetched) may_panic \<times> (string \<times> string \<times> string) list" where
  "fetch_over_quicmix exchange url depth =
     (if 3 < depth then (Some (Inl TooManyRedirects), [])
      else case split_url url of
        Inl e \<Rightarrow> (Some (Inl e), [])
      | Inr (scheme, host, port, path) \<Rightarrow>
          (let line = host @ '':'' @ show_nat port @ [CHR 0x0A];
               req = request_text path host
           in case exchange scheme line req of
                Inl e \<Rightarrow> (Some (Inl (ExchangeFailed e)), [(scheme, line, req)])
              | Inr (raw, ttfb) \<Rightarrow>
                  (case parse_response raw of
                     Inl e \<Rightarrow> (Some (Inl e), [(scheme, line, req)])
                   | Inr (code, headers, body) \<Rightarrow>
                       (case (if 300 \<le> code \<and> code < 400 then header_value headers ''location'' else None) of
                          Some loc \<Rightarrow>
                            (case fetch_over_quicmix exchange (resolve_location scheme host loc) (depth + 1) of
                               (r, reqs) \<Rightarrow> (r, (scheme, line, req) # reqs))
                        | None \<Rightarrow>
                            (let content_type = (case header_value headers ''content-type'' of Some v \<Rightarrow> v | None \<Rightarrow> []);
                                 chunked = (case header_value headers ''transfer-encoding'' of
                                              Some v \<Rightarrow> find_sub ''chunked'' v \<noteq> None | None \<Rightarrow> False)
                             in (map_option (\<lambda>b. Inr \<lparr>ft_code = code, ft_bytes = length b, ft_ttfb_ms = ttfb, ft_body = b,
                                     ft_content_type = content_type, ft_final_url = url\<rparr>)
                                   (if chunked then dechunk body else Some body),
                                 [(scheme, line, req)]))))))"
  by pat_completeness auto
termination
  by (relation "measure (\<lambda>(exchange, url, depth). 4 - depth)") auto

declare fetch_over_quicmix.simps [simp del]

text \<open>\<open>slurp\<close>: reads as they arrive, with their times; it stops at the end, an error, a timeout or the cap.\<close>

fun slurp :: "nat \<Rightarrow> nat \<Rightarrow> (nat \<times> byte list) list \<Rightarrow> byte list \<Rightarrow> f64 \<Rightarrow> byte list \<times> f64" where
  "slurp start cap [] got ttfb = (got, ttfb)"
| "slurp start cap ((t, bs) # reads) got ttfb =
     (if bs = [] then (got, ttfb)
      else (let ttfb' = (if got = [] then fl64 (as_secs_f64 (t - start) * 1000) else ttfb);
                got' = got @ bs
            in if cap \<le> length got' then (got', ttfb') else slurp start cap reads got' ttfb'))"

section \<open>Chunked bodies\<close>

lemma show_hex_digit: "n < 16 \<Longrightarrow> to_digit 16 (''0123456789abcdef'' ! n) = Some n \<and> visible (''0123456789abcdef'' ! n) \<and>
    ''0123456789abcdef'' ! n \<noteq> CHR '';'' \<and> ''0123456789abcdef'' ! n \<noteq> CHR ''+''"
proof -
  assume n: "n < 16"
  have "list_all (\<lambda>n. to_digit 16 (''0123456789abcdef'' ! n) = Some n \<and> visible (''0123456789abcdef'' ! n) \<and>
      ''0123456789abcdef'' ! n \<noteq> CHR '';'' \<and> ''0123456789abcdef'' ! n \<noteq> CHR ''+'') [0..<16]"
    by code_simp
  with n show ?thesis by (simp add: list_all_iff)
qed

lemma show_hex_nonempty [simp]: "show_hex n \<noteq> []"
  by (subst show_hex.simps) simp

lemma show_hex_chars: "c \<in> set (show_hex n) \<Longrightarrow> visible c \<and> c \<noteq> CHR '';'' \<and> c \<noteq> CHR ''+''"
proof (induction n rule: show_hex.induct)
  case (1 n)
  then show ?case
    using show_hex_digit [of n] show_hex_digit [of "n mod 16"]
    by (subst (asm) (2) show_hex.simps) (auto split: if_splits)
qed

lemma parse_digits_hex: "n < m \<Longrightarrow> 16 \<le> m \<Longrightarrow> parse_digits 16 m 0 (show_hex n) = Some n"
proof (induction n rule: show_hex.induct)
  case (1 n)
  show ?case
  proof (cases "n < 16")
    case True
    then show ?thesis using 1 show_hex_digit [of n] by (subst show_hex.simps) simp
  next
    case False
    with 1 have "parse_digits 16 m 0 (show_hex (n div 16)) = Some (n div 16)" by simp
    moreover have "n div 16 * 16 + n mod 16 = n" by simp
    ultimately show ?thesis
      using False 1(2) show_hex_digit [of "n mod 16"]
      by (subst show_hex.simps) (simp add: parse_digits_append)
  qed
qed

lemma chunk_size_hex: "n < u64_limit \<Longrightarrow> chunk_size (string_bytes (show_hex n)) = n"
proof -
  assume n: "n < u64_limit"
  have vis: "set (show_hex n) \<subseteq> Collect visible" using show_hex_chars by blast
  then have t: "trim (show_hex n) = show_hex n"
    by (intro trim_visible) (auto dest: subsetD [OF _ hd_in_set] subsetD [OF _ last_in_set])
  have l: "from_utf8_lossy (show_hex n) = show_hex n" using vis by (intro lossy_valid ascii_utf8 visible_ascii)
  have "split_char c s = [s]" if "c \<notin> set s" for c s using that by (induction s) auto
  then have s: "split_char CHR '';'' (show_hex n) = [show_hex n]" using show_hex_chars by blast
  have "hd (show_hex n) \<noteq> CHR ''+''" using show_hex_chars hd_in_set [OF show_hex_nonempty] by blast
  then have "from_str_radix 16 u64_limit (show_hex n) = Some n"
    using parse_digits_hex [OF n] by (cases "show_hex n") (auto simp: from_str_radix_def)
  then show ?thesis by (simp add: chunk_size_def l t s)
qed

definition chunk_frame :: "byte list \<Rightarrow> byte list" where
  "chunk_frame c = string_bytes (show_hex (length c)) @ [13, 10] @ c @ [13, 10]"


lemma no_cr_bytes: "set s \<subseteq> Collect visible \<Longrightarrow> 13 \<notin> set (string_bytes s)"
proof
  have cr: "char_of (unat (13 :: byte)) = CHR 0x0D" by code_simp
  assume vis: "set s \<subseteq> Collect visible" and "13 \<in> set (string_bytes s)"
  then have "char_of (unat (13 :: byte)) \<in> set (bytes_string (string_bytes s))" unfolding bytes_string_def set_map by (intro imageI)
  with cr vis show False by (auto simp: visible_def)
qed

lemma find_line_end: "find_sub [13, 10] (string_bytes (show_hex n) @ [13, 10] @ rest) = Some (length (show_hex n))"
proof -
  have "set (show_hex n) \<subseteq> Collect visible" using show_hex_chars by blast
  then have "find_sub [13, 10] (string_bytes (show_hex n) @ [13, 10] @ rest) =
      map_option ((+) (length (string_bytes (show_hex n)))) (find_sub [13, 10] ([13, 10] @ rest))"
    using no_cr_bytes by (intro find_sub_skip) simp_all
  then show ?thesis by simp
qed

lemma dechunk_one:
  assumes "c \<noteq> []" and "body = pre @ chunk_frame c @ rest" and "length body < u64_limit"
  shows "dechunk_from body (length pre) = map_option ((@) c) (dechunk_from body (length (pre @ chunk_frame c)))"
proof -
  let ?h = "show_hex (length c)"
  have drop: "drop (length pre) body = string_bytes ?h @ [13, 10] @ c @ [13, 10] @ rest"
    by (simp add: assms(2) chunk_frame_def)
  then have find: "find_sub [13, 10] (drop (length pre) body) = Some (length ?h)"
    using find_line_end [of "length c" "c @ [13, 10] @ rest"] by simp
  have len: "length body = length pre + length ?h + 2 + length c + 2 + length rest"
    by (simp add: assms(2) chunk_frame_def)
  have line: "take (length ?h) (drop (length pre) body) = string_bytes ?h" unfolding drop by simp
  have size: "chunk_size (string_bytes ?h) = length c" using len assms(3) by (intro chunk_size_hex) simp
  define ds where "ds = length pre + length ?h + 2"
  have fin: "min (usize_add ds (length c)) (length body) = ds + length c"
    using len assms(3) by (simp add: usize_add_exact ds_def)
  have "drop ds body = drop (length ?h + 2) (drop (length pre) body)" by (simp add: add.commute ds_def)
  then have tk: "take (length c) (drop ds body) = c" unfolding drop by simp
  have lt: "\<not> length body \<le> length pre" "length c \<noteq> 0" using len assms(1) by simp_all
  have nxt: "ds + length c + 2 = length (pre @ chunk_frame c)" by (simp add: ds_def chunk_frame_def)
  show ?thesis
    unfolding nxt [symmetric]
    by (subst dechunk_from.simps)
       (simp only: lt find line size Let_def option.case if_False fin ds_def [symmetric] add_diff_cancel_left' tk
         not_add_less1)
qed

lemma dechunk_frames:
  "list_all (\<lambda>c. c \<noteq> []) cs \<Longrightarrow> body = pre @ concat (map chunk_frame cs) @ string_bytes ''0'' @ [13, 10] @ rest \<Longrightarrow>
   length body < u64_limit \<Longrightarrow> dechunk_from body (length pre) = Some (concat cs)"
proof (induction cs arbitrary: pre)
  case Nil
  have z: "show_hex 0 = ''0''" by (simp add: show_hex.simps)
  have "drop (length pre) body = string_bytes (show_hex 0) @ [13, 10] @ rest" using Nil.prems(2) by (simp add: z)
  then have "find_sub [13, 10] (drop (length pre) body) = Some (length (show_hex 0))"
    and "take (length (show_hex 0)) (drop (length pre) body) = string_bytes (show_hex 0)"
    using find_line_end [of 0 rest] by simp_all
  then show ?case using chunk_size_hex [of 0] by (subst dechunk_from.simps) simp
next
  case (Cons c cs)
  have "dechunk_from body (length (pre @ chunk_frame c)) = Some (concat cs)"
    using Cons.prems by (intro Cons.IH) simp_all
  then show ?case
    using dechunk_one [of c body pre "concat (map chunk_frame cs) @ string_bytes ''0'' @ [13, 10] @ rest"] Cons.prems by simp
qed

text \<open>C38: chunked bodies decode to what was sent: for any non-empty chunks, each framed by its size in
  hexadecimal, followed by the zero chunk and any trailer, \<open>dechunk\<close> gives exactly their
  concatenation.\<close>

theorem dechunk_roundtrip:
  assumes "list_all (\<lambda>c. c \<noteq> []) cs" and "length (concat (map chunk_frame cs)) + length rest + 3 < u64_limit"
  shows "dechunk (concat (map chunk_frame cs) @ string_bytes ''0'' @ [13, 10] @ rest) = Some (concat cs)"
  unfolding dechunk_def using dechunk_frames [OF assms(1) refl, of "[]" rest] assms(2) by simp

theorem dechunk_roundtrip_witness:
  "dechunk (concat (map chunk_frame [[1, 2, 3], [13, 10]]) @ string_bytes ''0'' @ [13, 10] @ [13, 10]) = Some (concat [[1, 2, 3], [13, 10]])"
  by (rule dechunk_roundtrip) (simp_all add: chunk_frame_def show_hex.simps)

text \<open>A hostile chunk size makes the decoder panic: \<open>ffffffffffffffff\<close> as the size of the first chunk
  wraps the end of the chunk to before its start, whatever follows.\<close>

theorem dechunk_panics:
  "dechunk (string_bytes (show_hex (2 ^ 64 - 1)) @ [13, 10] @ rest) = None"
proof -
  define h where "h = show_hex (2 ^ 64 - 1)"
  define body where "body = string_bytes h @ [13, 10] @ rest"
  have len: "length h = 16" by (simp add: h_def show_hex.simps)
  have size: "chunk_size (string_bytes h) = 2 ^ 64 - 1" unfolding h_def by (rule chunk_size_hex) simp
  have "usize_add (0 + 16 + 2) (2 ^ 64 - 1) = 17" by (simp add: usize_add_def)
  then have lt: "min (usize_add (0 + 16 + 2) (2 ^ 64 - 1)) (length body) < 0 + 16 + 2" by (simp add: body_def)
  have find: "find_sub [13, 10] (drop 0 body) = Some 16"
    using find_line_end [of "2 ^ 64 - 1" rest] len by (simp add: body_def h_def)
  have line: "take 16 (drop 0 body) = string_bytes h" using len by (simp add: body_def)
  have ne: "\<not> length body \<le> 0" "(2 :: nat) ^ 64 - 1 \<noteq> 0" by (simp_all add: body_def)
  have "dechunk body = None"
    unfolding dechunk_def by (subst dechunk_from.simps) (simp only: ne find line size lt option.case Let_def if_False if_True)
  then show ?thesis by (simp add: body_def h_def)
qed

section \<open>Redirects\<close>

definition redirect_of :: "byte list \<Rightarrow> string option" where
  "redirect_of raw =
     (case parse_response raw of
        Inr (code, headers, _) \<Rightarrow> if 300 \<le> code \<and> code < 400 then header_value headers ''location'' else None
      | Inl _ \<Rightarrow> None)"

lemma other_errors: "parse_response raw \<noteq> Inl TooManyRedirects" "split_url url \<noteq> Inl TooManyRedirects"
proof -
  have "(if b then Inl (EmptyHost url) else Inr x) \<noteq> Inl TooManyRedirects" for b and x :: 'a by simp
  then show "split_url url \<noteq> Inl TooManyRedirects" unfolding split_url_def Let_def case_prod_unfold .
  show "parse_response raw \<noteq> Inl TooManyRedirects" by (simp add: parse_response_def Let_def split: option.split)
qed

text \<open>Requests that start at a URL and of which each further one follows the redirect in the answer before it.\<close>

fun redirect_path :: "exchange \<Rightarrow> string \<Rightarrow> (string \<times> string \<times> string) list \<Rightarrow> bool" where
  "redirect_path exchange url [] \<longleftrightarrow> True"
| "redirect_path exchange url (q # qs) \<longleftrightarrow>
     (case split_url url of
        Inl _ \<Rightarrow> False
      | Inr (scheme, host, port, path) \<Rightarrow>
          q = (scheme, host @ '':'' @ show_nat port @ [CHR 0x0A], request_text path host) \<and>
          (qs = [] \<or>
           (case exchange scheme (host @ '':'' @ show_nat port @ [CHR 0x0A]) (request_text path host) of
              Inl _ \<Rightarrow> False
            | Inr (raw, _) \<Rightarrow>
                (case redirect_of raw of
                   None \<Rightarrow> False
                 | Some loc \<Rightarrow> redirect_path exchange (resolve_location scheme host loc) qs))))"

definition redirected :: "exchange \<Rightarrow> string \<times> string \<times> string \<Rightarrow> bool" where
  "redirected exchange q = (case q of (scheme, line, req) \<Rightarrow>
     (case exchange scheme line req of Inr (raw, _) \<Rightarrow> redirect_of raw \<noteq> None | Inl _ \<Rightarrow> False))"

text \<open>\<open>f\<close> is, field by field, what the answer \<open>raw\<close> to the request for its final URL carries.\<close>

definition page_of :: "exchange \<Rightarrow> fetched \<Rightarrow> string \<times> string \<times> string \<Rightarrow> bool" where
  "page_of exchange f q \<longleftrightarrow>
     (\<exists>scheme host port path raw headers body.
        split_url (ft_final_url f) = Inr (scheme, host, port, path) \<and>
        q = (scheme, host @ '':'' @ show_nat port @ [CHR 0x0A], request_text path host) \<and>
        exchange scheme (host @ '':'' @ show_nat port @ [CHR 0x0A]) (request_text path host) = Inr (raw, ft_ttfb_ms f) \<and>
        parse_response raw = Inr (ft_code f, headers, body) \<and>
        (if \<exists>v. header_value headers ''transfer-encoding'' = Some v \<and> find_sub ''chunked'' v \<noteq> None then dechunk body else Some body) =
          Some (ft_body f) \<and>
        ft_bytes f = length (ft_body f) \<and>
        ft_content_type f = (case header_value headers ''content-type'' of Some v \<Rightarrow> v | None \<Rightarrow> []))"

definition undecodable :: "exchange \<Rightarrow> string \<times> string \<times> string \<Rightarrow> bool" where
  "undecodable exchange q \<longleftrightarrow>
     (\<exists>scheme line req raw t code headers body v. q = (scheme, line, req) \<and> exchange scheme line req = Inr (raw, t) \<and>
        parse_response raw = Inr (code, headers, body) \<and>
        header_value headers ''transfer-encoding'' = Some v \<and> find_sub ''chunked'' v \<noteq> None \<and> dechunk body = None)"

text \<open>C39: following redirects. A fetch makes at most four requests, the first for the given URL and each further one for the
  location named in the answer before; it fails as having too many redirects exactly when it made four and every
  answer was a redirect. A page it returns is, in status, content type, body (decoded when the answer says chunked)
  and size, the answer to its last request, which is the request for the page's final URL and no redirect; and it panics only when the last
  answer is a chunked body that the decoder panics on.\<close>

theorem fetch_follows_redirects:
  assumes "fetch_over_quicmix exchange url depth = (r, reqs)"
  shows "length reqs \<le> 4 - depth \<and> redirect_path exchange url reqs \<and>
    (r = Some (Inl TooManyRedirects) \<longleftrightarrow> length reqs = 4 - depth \<and> list_all (redirected exchange) reqs) \<and>
    (\<forall>f. r = Some (Inr f) \<longrightarrow> reqs \<noteq> [] \<and> \<not> redirected exchange (last reqs) \<and> page_of exchange f (last reqs)) \<and>
    (r = None \<longrightarrow> reqs \<noteq> [] \<and> undecodable exchange (last reqs))"
  using assms
proof (induction exchange url depth arbitrary: r reqs rule: fetch_over_quicmix.induct)
  case (1 exchange url depth)
  note eq = 1(2) [unfolded fetch_over_quicmix.simps [of exchange url depth]]
  show ?case
  proof (cases "3 < depth")
    case False
    show ?thesis
    proof (cases "split_url url")
      case (Inr a)
      then obtain scheme host port path where u: "split_url url = Inr (scheme, host, port, path)" by (cases a) auto
      let ?line = "host @ '':'' @ show_nat port @ [CHR 0x0A]" and ?req = "request_text path host"
      show ?thesis
      proof (cases "exchange scheme ?line ?req")
        case (Inr b)
        then obtain raw ttfb where x: "exchange scheme ?line ?req = Inr (raw, ttfb)" by (cases b) auto
        show ?thesis
        proof (cases "parse_response raw")
          case (Inr c)
          then obtain code headers body where p: "parse_response raw = Inr (code, headers, body)" by (cases c) auto
          show ?thesis
          proof (cases "redirect_of raw")
            case None
            let ?chunked = "\<exists>v. header_value headers ''transfer-encoding'' = Some v \<and> find_sub ''chunked'' v \<noteq> None"
            have out: "reqs = [(scheme, ?line, ?req)]"
              "r = map_option (\<lambda>b. Inr \<lparr>ft_code = code, ft_bytes = length b, ft_ttfb_ms = ttfb, ft_body = b,
                 ft_content_type = (case header_value headers ''content-type'' of Some v \<Rightarrow> v | None \<Rightarrow> []), ft_final_url = url\<rparr>)
                 (if ?chunked then dechunk body else Some body)"
              using eq False u x p None by (auto simp: redirect_of_def Let_def split: if_splits option.splits)
            have "\<not> redirected exchange (scheme, ?line, ?req)" using x None by (simp add: redirected_def)
            moreover have "page_of exchange f (scheme, ?line, ?req)" if ok: "r = Some (Inr f)" for f
            proof -
              obtain b where b: "(if ?chunked then dechunk body else Some body) = Some b" and "f = \<lparr>ft_code = code, ft_bytes = length b, ft_ttfb_ms = ttfb, ft_body = b,
                 ft_content_type = (case header_value headers ''content-type'' of Some v \<Rightarrow> v | None \<Rightarrow> []), ft_final_url = url\<rparr>"
                using ok [unfolded out(2) map_option_eq_Some] by blast
              then show ?thesis unfolding page_of_def
                using u x p by (intro exI [of _ scheme] exI [of _ host] exI [of _ port] exI [of _ path] exI [of _ raw] exI [of _ headers] exI [of _ body]) simp
            qed
            moreover have "undecodable exchange (scheme, ?line, ?req)" if "r = None"
            proof -
              have "?chunked" "dechunk body = None" using that out(2) by (auto split: if_splits)
              then show ?thesis unfolding undecodable_def using x p by blast
            qed
            moreover have "r \<noteq> Some (Inl TooManyRedirects)" using out(2) by auto
            ultimately show ?thesis using out(1) False u by auto
          next
            case (Some loc)
            obtain r' reqs' where rec: "fetch_over_quicmix exchange (resolve_location scheme host loc) (depth + 1) = (r', reqs')" by fastforce
            have out: "r = r'" "reqs = (scheme, ?line, ?req) # reqs'"
              using eq False u x p Some rec by (auto simp: redirect_of_def Let_def split: if_splits)
            have "(if 300 \<le> code \<and> code < 400 then header_value headers ''location'' else None) = Some loc"
              using Some p by (simp add: redirect_of_def)
            note ih = 1(1) [OF False u refl refl refl refl refl x refl p refl refl this rec]
            have "redirected exchange (scheme, ?line, ?req)" using x Some by (simp add: redirected_def)
            moreover have "redirect_path exchange url reqs" using ih u x Some out(2) by simp
            moreover have "Suc (4 - (depth + 1)) = 4 - depth" using False by simp
            ultimately show ?thesis using ih unfolding out by auto
          qed
        qed (use eq False u x other_errors in \<open>auto simp: Let_def redirected_def redirect_of_def\<close>)
      qed (use eq False u in \<open>auto simp: Let_def redirected_def\<close>)
    qed (use eq False other_errors in auto)
  qed (use eq in auto)
qed


text \<open>A relative redirect is followed on the default port, whatever port the page came from, and in lower case.\<close>

lemma header_value_lowercases: "header_value [(n, v)] n = Some (to_ascii_lowercase v)"
  by (simp add: header_value_def)

lemma relative_redirect_default_port:
  assumes "CHR ''/'' \<notin> set host" and "CHR '':'' \<notin> set host" and "host \<noteq> []"
  shows "split_url (resolve_location ''http'' host (CHR ''/'' # path)) = Inr (''http'', host, 80, CHR ''/'' # path)"
proof -
  have loc: "resolve_location ''http'' host (CHR ''/'' # path) = ''http://'' @ host @ CHR ''/'' # path"
    by (simp add: resolve_location_def)
  have a: "takeWhile (\<lambda>c. c \<noteq> CHR ''/'') (host @ CHR ''/'' # path) = host"
    and d: "dropWhile (\<lambda>c. c \<noteq> CHR ''/'') (host @ CHR ''/'' # path) = CHR ''/'' # path"
    using assms(1) by (induction host) auto
  have r: "rsplit_once CHR '':'' host = None" using assms(2) by (simp add: rsplit_once_eq_None)
  have s: "strip_prefix ''https://'' (''http://'' @ u) = None" "strip_prefix ''http://'' (''http://'' @ u) = Some u" for u
    by simp_all
  show ?thesis using assms(3) unfolding loc split_url_def s by (simp add: a d r)
qed


text \<open>A server that always redirects to the same path: the error, after four requests.\<close>

lemma fetch_loops:
  assumes "\<And>scheme line req. exchange scheme line req = Inr (raw, t)" and "redirect_of raw = Some (CHR ''/'' # path)"
    and "split_url (resolve_location ''http'' host (CHR ''/'' # path)) = Inr (''http'', host, 80, CHR ''/'' # path)"
  shows "fst (fetch_over_quicmix exchange (resolve_location ''http'' host (CHR ''/'' # path)) depth) = Some (Inl TooManyRedirects)"
proof (induction "4 - depth" arbitrary: depth)
  case 0
  then show ?case by (subst fetch_over_quicmix.simps) simp
next
  case (Suc n)
  obtain code headers body where p: "parse_response raw = Inr (code, headers, body)"
    "(if 300 \<le> code \<and> code < 400 then header_value headers ''location'' else None) = Some (CHR ''/'' # path)"
    using assms(2) by (auto simp: redirect_of_def split: sum.splits)
  have d: "\<not> 3 < depth" "n = 4 - (depth + 1)" using Suc.hyps(2) by simp_all
  show ?case
    by (subst fetch_over_quicmix.simps) (simp only: d(1) if_False assms(1,3) p sum.case prod.case option.case Let_def Suc.hyps(1) [OF d(2)]
        fst_conv snd_conv case_prod_unfold)
qed

definition looping_answer :: "byte list" where
  "looping_answer = string_bytes (''HTTP/1.1 302 Found'' @ [CHR 0x0D, CHR 0x0A] @ ''Location: /x'' @ [CHR 0x0D, CHR 0x0A, CHR 0x0D, CHR 0x0A])"

lemma looping_redirects: "redirect_of looping_answer = Some ''/x''"
proof -
  let ?head = "''HTTP/1.1 302 Found'' @ [CHR 0x0D, CHR 0x0A] @ ''Location: /x''"
  have head: "find_crlfcrlf looping_answer = Some 32" "bytes_string (take 32 looping_answer) = ?head" by (code_simp, code_simp)
  have lines: "split_crlf ?head = [''HTTP/1.1 302 Found'', ''Location: /x'']" by code_simp
  have status: "split_whitespace ''HTTP/1.1 302 Found'' = [''HTTP/1.1'', ''302'', ''Found'']" by code_simp
  have code: "parse_u16 ''302'' = Some 302" by (simp add: parse_u16_def from_str_radix_def to_digit_def)
  have headers: "header_lines [''Location: /x''] = [(''location'', ''/x'')]" by code_simp
  have loc': "header_value [(''location'', ''/x'')] ''location'' = Some ''/x''" by code_simp
  have lossy: "from_utf8_lossy ?head = ?head" by (rule lossy_valid, rule ascii_utf8) (simp add: ascii_def)
  show ?thesis
    unfolding redirect_of_def parse_response_def head(1) option.case Let_def head(2) lossy lines list.sel status headers by (simp add: code loc')
qed

text \<open>A page in one chunk, and a site that answers it everywhere but at \<open>/z\<close>, from where it redirects to \<open>/x\<close>.\<close>

definition chunked_page :: "byte list" where
  "chunked_page = string_bytes (''HTTP/1.1 200 OK'' @ [CHR 0x0D, CHR 0x0A] @ ''Transfer-Encoding: chunked'' @ [CHR 0x0D, CHR 0x0A, CHR 0x0D, CHR 0x0A]) @
     [51, 13, 10, 97, 98, 99, 13, 10, 48, 13, 10]"

definition demo_site :: exchange where
  "demo_site scheme line req = Inr (if req = request_text ''/z'' ''a'' then looping_answer else chunked_page, 0)"

lemma parse_chunked_page:
  "parse_response chunked_page = Inr (200, [(''transfer-encoding'', ''chunked'')], [51, 13, 10, 97, 98, 99, 13, 10, 48, 13, 10])"
proof -
  let ?head = "''HTTP/1.1 200 OK'' @ [CHR 0x0D, CHR 0x0A] @ ''Transfer-Encoding: chunked''"
  have head: "find_crlfcrlf chunked_page = Some 43" "bytes_string (take 43 chunked_page) = ?head"
    "drop (43 + 4) chunked_page = [51, 13, 10, 97, 98, 99, 13, 10, 48, 13, 10]" by (code_simp, code_simp, code_simp)
  have lines: "split_crlf ?head = [''HTTP/1.1 200 OK'', ''Transfer-Encoding: chunked'']" by code_simp
  have status: "split_whitespace ''HTTP/1.1 200 OK'' = [''HTTP/1.1'', ''200'', ''OK'']" by code_simp
  have code: "parse_u16 ''200'' = Some 200" by (simp add: parse_u16_def from_str_radix_def to_digit_def)
  have headers: "header_lines [''Transfer-Encoding: chunked''] = [(''transfer-encoding'', ''chunked'')]" by code_simp
  have lossy: "from_utf8_lossy ?head = ?head" by (rule lossy_valid, rule ascii_utf8) (simp add: ascii_def)
  show ?thesis
    unfolding parse_response_def head(1) option.case Let_def head(2,3) lossy lines list.sel status headers by (simp add: code)
qed

lemma demo_site_page:
  "fetch_over_quicmix demo_site ''http://a/z'' 0 =
    (Some (Inr \<lparr>ft_code = 200, ft_bytes = 3, ft_ttfb_ms = 0, ft_body = [97, 98, 99], ft_content_type = [], ft_final_url = ''http://a/x''\<rparr>),
     [(''http'', ''a:80'' @ [CHR 0x0A], request_text ''/z'' ''a''), (''http'', ''a:80'' @ [CHR 0x0A], request_text ''/x'' ''a'')])"
proof -
  have url: "split_url ''http://a/z'' = Inr (''http'', ''a'', 80, ''/z'')" "split_url ''http://a/x'' = Inr (''http'', ''a'', 80, ''/x'')"
    by (code_simp, code_simp)
  have loc: "resolve_location ''http'' ''a'' ''/x'' = ''http://a/x''" by (simp add: resolve_location_def)
  have n: "show_nat 80 = ''80''" by code_simp
  have ne: "request_text ''/x'' ''a'' \<noteq> request_text ''/z'' ''a''" by (simp add: request_text_def)
  obtain code headers body where p: "parse_response looping_answer = Inr (code, headers, body)"
    "(if 300 \<le> code \<and> code < 400 then header_value headers ''location'' else None) = Some ''/x''"
    using looping_redirects by (auto simp: redirect_of_def split: sum.splits)
  have hv: "header_value [(''transfer-encoding'', ''chunked'')] ''transfer-encoding'' = Some ''chunked''"
    "header_value [(''transfer-encoding'', ''chunked'')] ''content-type'' = None"
    "find_sub ''chunked'' ''chunked'' = Some 0" by (code_simp, code_simp, code_simp)
  have z: "show_hex (Suc (Suc (Suc 0))) = ''3''" by (subst show_hex.simps) simp
  have three: "string_bytes ''3'' = [51]" "string_bytes ''0'' = [48]" by (code_simp, code_simp)
  have body: "dechunk [51, 13, 10, 97, 98, 99, 13, 10, 48, 13, 10] = Some [97, 98, 99]"
    using dechunk_frames [of "[[97, 98, 99]]" "[51, 13, 10, 97, 98, 99, 13, 10, 48, 13, 10]" "[]" "[]"]
    by (simp add: dechunk_def chunk_frame_def z three)
  have x: "fetch_over_quicmix demo_site ''http://a/x'' (Suc 0) =
    (Some (Inr \<lparr>ft_code = 200, ft_bytes = 3, ft_ttfb_ms = 0, ft_body = [97, 98, 99], ft_content_type = [], ft_final_url = ''http://a/x''\<rparr>),
     [(''http'', ''a:80'' @ [CHR 0x0A], request_text ''/x'' ''a'')])"
    by (subst fetch_over_quicmix.simps) (simp add: url n demo_site_def ne parse_chunked_page hv body)
  show ?thesis
    by (subst fetch_over_quicmix.simps) (simp add: url n demo_site_def [of _ _ "request_text ''/z'' ''a''"] p loc x)
qed

text \<open>A server that only redirects, and a page that is returned after one redirect.\<close>

theorem fetch_follows_redirects_witness:
  "(let fetch = fetch_over_quicmix (\<lambda>_ _ _. Inr (looping_answer, 0)) ''http://a/x'' 0 in
      fst fetch = Some (Inl TooManyRedirects) \<and> length (snd fetch) = 4) \<and>
   (\<exists>f reqs. fetch_over_quicmix demo_site ''http://a/z'' 0 = (Some (Inr f), reqs) \<and> ft_body f = [97, 98, 99] \<and> length reqs = 2 \<and>
      redirect_path demo_site ''http://a/z'' reqs \<and> \<not> redirected demo_site (last reqs) \<and> page_of demo_site f (last reqs))"
proof -
  have loc: "resolve_location ''http'' ''a'' ''/x'' = ''http://a/x''" by (simp add: resolve_location_def)
  have "fst (fetch_over_quicmix (\<lambda>_ _ _. Inr (looping_answer, 0)) (resolve_location ''http'' ''a'' ''/x'') 0) = Some (Inl TooManyRedirects)"
    by (rule fetch_loops [OF refl looping_redirects relative_redirect_default_port]) simp_all
  with fetch_follows_redirects [OF surjective_pairing, of "\<lambda>_ _ _. Inr (looping_answer, 0)" "''http://a/x''" 0]
  have loops: "fst (fetch_over_quicmix (\<lambda>_ _ _. Inr (looping_answer, 0)) ''http://a/x'' 0) = Some (Inl TooManyRedirects) \<and>
      length (snd (fetch_over_quicmix (\<lambda>_ _ _. Inr (looping_answer, 0)) ''http://a/x'' 0)) = 4" unfolding loc by simp
  moreover note fetch_follows_redirects [OF demo_site_page]
  ultimately show ?thesis using demo_site_page by (simp del: redirect_path.simps)
qed

end
