(* ===== verification/Metrics.thy ===== *)
theory Metrics
  imports WarmPool Substrate
begin

text \<open>
  The observability contract, \<^verbatim>\<open>crates/quicmix-eval/src/metrics.rs\<close>, with the scrape of the warm
  pool (\<open>WarmPool::metrics\<close> in \<^verbatim>\<open>crates/quicmix-eval/src/proxy.rs\<close>): the snapshot of every exported
  metric, its rendering as Prometheus text, and the printing of floats the rendering uses.

  The path statistics of a connection extend the ones the estimator reads.
\<close>

section \<open>Printing an \<open>f64\<close>\<close>

text \<open>
  \<open>Display\<close> of a finite non-negative \<open>f64\<close>: the shortest decimal digits that read back as the same
  float, the closer of two candidates of that length (the upper one on a tie), in positional notation.
  Seventeen digits always suffice. The position of the decimal point comes from the lengths of
  numerator and denominator.
\<close>

definition point_pos :: "rat \<Rightarrow> int" where
  "point_pos x =
     (let (n, d) = quotient_of x;
          k = int (length (show_nat (nat n))) - int (length (show_nat (nat d)))
      in if x < 10 powi k then k else k + 1)"

definition digits_at :: "rat \<Rightarrow> int \<Rightarrow> nat \<Rightarrow> nat option" where
  "digits_at x k n =
     (let s = x * 10 powi (int n - k);
          lo = \<lfloor>s\<rfloor>;
          back = (\<lambda>m. fl64 (of_int m * 10 powi (k - int n)) = x)
      in if back (lo + 1) \<and> (\<not> back lo \<or> 1 / 2 \<le> s - of_int lo) then Some (nat (lo + 1))
         else if back lo then Some (nat lo) else None)"

definition show_decimal :: "nat \<Rightarrow> int \<Rightarrow> string" where
  "show_decimal m e =
     (if 0 \<le> e then show_nat (m * 10 ^ nat e)
      else (let f = nat (- e);
                ds = show_nat m;
                padded = replicate (f + 1 - length ds) CHR ''0'' @ ds;
                i = length padded - f
            in take i padded @ ''.'' @ drop i padded))"

definition show_f64 :: "f64 \<Rightarrow> string" where
  "show_f64 x =
     (if x = 0 then ''0''
      else (let k = point_pos x in
            case find (\<lambda>n. digits_at x k n \<noteq> None) [1..<18] of
              None \<Rightarrow> ''''
            | Some n \<Rightarrow>
                (let m = the (digits_at x k n)
                 in if m = 10 ^ n then show_decimal (m div 10) (k - int n + 1) else show_decimal m (k - int n))))"

section \<open>metrics.rs\<close>

record path_stats = conn_stats +
  c_lost_bytes :: u64
  c_congestion_events :: u64
  c_cwnd :: u64

record quic_stats =
  q_sent_packets :: u64
  q_lost_packets :: u64
  q_lost_bytes :: u64
  q_congestion_events :: u64

definition no_quic_stats :: quic_stats where
  "no_quic_stats = \<lparr>q_sent_packets = 0, q_lost_packets = 0, q_lost_bytes = 0, q_congestion_events = 0\<rparr>"

definition quic_observe :: "path_stats \<Rightarrow> quic_stats \<Rightarrow> quic_stats" where
  "quic_observe c q =
     q\<lparr>q_sent_packets := q_sent_packets q + c_sent_packets c, q_lost_packets := q_lost_packets q + c_lost_packets c,
       q_lost_bytes := q_lost_bytes q + c_lost_bytes c,
       q_congestion_events := q_congestion_events q + c_congestion_events c\<rparr>"

record snapshot =
  substrate_sent_total :: u64
  substrate_recv_total :: u64
  substrate_send_errors_total :: u64
  substrate_dropped_total :: u64
  substrate_queue_depth :: u64
  substrate_enqueue_latency_us :: u64
  quic_sent_packets_total :: u64
  quic_lost_packets_total :: u64
  quic_lost_bytes_total :: u64
  quic_congestion_events_total :: u64
  oracle_rtt_p50_seconds :: f64
  oracle_rtt_p90_seconds :: f64
  oracle_rtt_p99_seconds :: f64
  circuits_built_total :: u64
  circuits_retired_total :: u64
  circuits_build_errors_total :: u64
  circuits_ready :: u64

definition default_snapshot :: snapshot where
  "default_snapshot =
     \<lparr>substrate_sent_total = 0, substrate_recv_total = 0, substrate_send_errors_total = 0, substrate_dropped_total = 0,
      substrate_queue_depth = 0, substrate_enqueue_latency_us = 0, quic_sent_packets_total = 0, quic_lost_packets_total = 0,
      quic_lost_bytes_total = 0, quic_congestion_events_total = 0, oracle_rtt_p50_seconds = 0, oracle_rtt_p90_seconds = 0,
      oracle_rtt_p99_seconds = 0, circuits_built_total = 0, circuits_retired_total = 0, circuits_build_errors_total = 0,
      circuits_ready = 0\<rparr>"

definition with_substrate :: "metrics \<Rightarrow> snapshot \<Rightarrow> snapshot" where
  "with_substrate m s =
     s\<lparr>substrate_sent_total := mt_sent m, substrate_recv_total := mt_received m,
       substrate_send_errors_total := mt_send_errors m, substrate_dropped_total := mt_dropped m,
       substrate_queue_depth := of_nat (mt_queue_depth m), substrate_enqueue_latency_us := mt_enqueue_latency_us m\<rparr>"

definition with_quic :: "quic_stats \<Rightarrow> snapshot \<Rightarrow> snapshot" where
  "with_quic q s =
     s\<lparr>quic_sent_packets_total := q_sent_packets q, quic_lost_packets_total := q_lost_packets q,
       quic_lost_bytes_total := q_lost_bytes q, quic_congestion_events_total := q_congestion_events q\<rparr>"

definition with_oracle_rtt :: "duration \<Rightarrow> duration \<Rightarrow> duration \<Rightarrow> snapshot \<Rightarrow> snapshot" where
  "with_oracle_rtt p50 p90 p99 s =
     s\<lparr>oracle_rtt_p50_seconds := as_secs_f64 p50, oracle_rtt_p90_seconds := as_secs_f64 p90,
       oracle_rtt_p99_seconds := as_secs_f64 p99\<rparr>"

definition with_circuits :: "u64 \<Rightarrow> u64 \<Rightarrow> u64 \<Rightarrow> u64 \<Rightarrow> snapshot \<Rightarrow> snapshot" where
  "with_circuits built retired build_errors ready s =
     s\<lparr>circuits_built_total := built, circuits_retired_total := retired,
       circuits_build_errors_total := build_errors, circuits_ready := ready\<rparr>"

definition loss_ratio :: "snapshot \<Rightarrow> f64" where
  "loss_ratio s =
     (if quic_sent_packets_total s = 0 then 0
      else fl64 (fl64 (of_nat (unat (quic_lost_packets_total s))) / fl64 (of_nat (unat (quic_sent_packets_total s)))))"

type_synonym metric = "string \<times> string \<times> string \<times> string"

definition metric_table :: "snapshot \<Rightarrow> metric list" where
  "metric_table s =
     (let u = (\<lambda>v :: u64. show_nat (unat v)); f = show_f64 in
      [(''counter'', ''substrate_sent_total'', ''datagrams handed to the inner substrate'', u (substrate_sent_total s)),
       (''counter'', ''substrate_recv_total'', ''datagrams received from the inner substrate'', u (substrate_recv_total s)),
       (''counter'', ''substrate_send_errors_total'', ''inner-substrate send failures (typed SubstrateError)'', u (substrate_send_errors_total s)),
       (''counter'', ''substrate_dropped_total'', ''datagrams dropped by the lossy send path under backpressure'', u (substrate_dropped_total s)),
       (''counter'', ''quic_sent_packets_total'', ''QUIC packets sent across live circuits'', u (quic_sent_packets_total s)),
       (''counter'', ''quic_lost_packets_total'', ''QUIC packets declared lost (the retransmission trigger)'', u (quic_lost_packets_total s)),
       (''counter'', ''quic_lost_bytes_total'', ''QUIC bytes in lost packets (the volume retransmitted)'', u (quic_lost_bytes_total s)),
       (''counter'', ''quic_congestion_events_total'', ''QUIC congestion events across live circuits'', u (quic_congestion_events_total s)),
       (''counter'', ''circuits_built_total'', ''circuits ever built (pre-warm + refill + rotation)'', u (circuits_built_total s)),
       (''counter'', ''circuits_retired_total'', ''circuits retired into draining for rotation/age/use'', u (circuits_retired_total s)),
       (''counter'', ''circuits_build_errors_total'', ''failed circuit builds during refill'', u (circuits_build_errors_total s)),
       (''gauge'', ''substrate_queue_depth'', ''current paced send-queue depth'', u (substrate_queue_depth s)),
       (''gauge'', ''substrate_enqueue_latency_us'', ''age (microseconds) of the most-recently-sent queued datagram'', u (substrate_enqueue_latency_us s)),
       (''gauge'', ''circuits_ready'', ''warm, non-draining circuits ready to serve'', u (circuits_ready s)),
       (''gauge'', ''oracle_rtt_p50_seconds'', ''measured RTT median'', f (oracle_rtt_p50_seconds s)),
       (''gauge'', ''oracle_rtt_p90_seconds'', ''measured RTT 90th percentile'', f (oracle_rtt_p90_seconds s)),
       (''gauge'', ''oracle_rtt_p99_seconds'', ''measured RTT 99th percentile'', f (oracle_rtt_p99_seconds s)),
       (''gauge'', ''quic_loss_ratio'', ''lost/sent packets across live circuits'', f (loss_ratio s))])"

fun render_metric :: "metric \<Rightarrow> string" where
  "render_metric (kind, name, help, val) =
     ''# HELP '' @ name @ '' '' @ help @ [CHR 0x0A] @ ''# TYPE '' @ name @ '' '' @ kind @ [CHR 0x0A] @
     name @ '' '' @ val @ [CHR 0x0A]"

definition render_prometheus :: "snapshot \<Rightarrow> string" where
  "render_prometheus s = concat (map render_metric (metric_table s))"

section \<open>The scrape of the pool\<close>

fun scan_slots ::
  "('w \<Rightarrow> nat \<Rightarrow> bool) \<Rightarrow> ('w \<Rightarrow> nat \<Rightarrow> path_stats) \<Rightarrow> 'w \<Rightarrow> slot list \<Rightarrow> quic_stats \<times> u64 \<Rightarrow> quic_stats \<times> u64" where
  "scan_slots dead stats w [] acc = acc"
| "scan_slots dead stats w (s # ss) (q, ready) =
     (if dead w (ci_conn (sl_circuit s)) then scan_slots dead stats w ss (q, ready)
      else scan_slots dead stats w ss
             (quic_observe (stats w (ci_conn (sl_circuit s))) q, if sl_draining s = None then ready + 1 else ready))"

definition pool_metrics ::
  "('w \<Rightarrow> nat \<Rightarrow> bool) \<Rightarrow> ('w \<Rightarrow> nat \<Rightarrow> path_stats) \<Rightarrow> 'w warm_pool \<Rightarrow> snapshot may_panic" where
  "pool_metrics dead stats p =
     (let (q, ready) = scan_slots dead stats (wp_world p) (wp_slots p) (no_quic_stats, 0) in
      map_option
        (\<lambda>(p50, p90, p99).
           with_circuits (wp_built p) (wp_retired p) (wp_build_errors p) ready
             (with_oracle_rtt p50 p90 p99 (with_quic q default_snapshot)))
        (case wp_measured p of Some m \<Rightarrow> m_rtt_percentiles m | None \<Rightarrow> Some (0, 0, 0)))"

definition metrics_prometheus ::
  "('w \<Rightarrow> nat \<Rightarrow> bool) \<Rightarrow> ('w \<Rightarrow> nat \<Rightarrow> path_stats) \<Rightarrow> 'w warm_pool \<Rightarrow> string may_panic" where
  "metrics_prometheus dead stats p = map_option render_prometheus (pool_metrics dead stats p)"

section \<open>What a scrape reads\<close>

text \<open>
  A reader of the exposition format: comment lines are skipped, every other line is a name, a space and a
  value.
\<close>

fun scrape_line :: "string \<Rightarrow> (string \<times> string) list" where
  "scrape_line [] = []"
| "scrape_line (c # l) = (if c = CHR ''#'' then [] else case split_once CHR '' '' (c # l) of Some nv \<Rightarrow> [nv] | None \<Rightarrow> [])"

definition scrape :: "string \<Rightarrow> (string \<times> string) list" where
  "scrape text = concat (map scrape_line (split_char CHR 0x0A text))"

fun metric_ok :: "metric \<Rightarrow> bool" where
  "metric_ok (kind, name, help, val) \<longleftrightarrow>
     name \<noteq> [] \<and> hd name \<noteq> CHR ''#'' \<and> CHR '' '' \<notin> set name \<and>
     CHR 0x0A \<notin> set name \<and> CHR 0x0A \<notin> set kind \<and> CHR 0x0A \<notin> set help \<and> CHR 0x0A \<notin> set val"

lemma split_char_line: "c \<notin> set l \<Longrightarrow> split_char c (l @ c # s) = l # split_char c s"
  by (induction l) auto

lemma scrape_line_cons: "CHR 0x0A \<notin> set l \<Longrightarrow> scrape (l @ [CHR 0x0A] @ s) = scrape_line l @ scrape s"
  by (simp add: scrape_def split_char_line)

lemma scrape_metric: "metric_ok m \<Longrightarrow> scrape (render_metric m @ s) = (case m of (_, n, _, v) \<Rightarrow> [(n, v)]) @ scrape s"
proof (cases m)
  case (fields kind name hlp val)
  assume ok: "metric_ok m"
  let ?nl = "[CHR 0x0A]"
  let ?h = "''# HELP '' @ name @ '' '' @ hlp" and ?t = "''# TYPE '' @ name @ '' '' @ kind" and ?v = "name @ '' '' @ val"
  have nl: "CHR 0x0A \<notin> set ?h" "CHR 0x0A \<notin> set ?t" "CHR 0x0A \<notin> set ?v" using ok by (simp_all add: fields)
  have "split_once CHR '' '' ?v = Some (name, val)" using ok by (simp add: split_once_eq_Some fields)
  with ok have v: "scrape_line ?v = [(name, val)]" by (cases name) (auto simp: fields)
  have "render_metric m @ s = ?h @ ?nl @ ?t @ ?nl @ ?v @ ?nl @ s" by (simp add: fields)
  then have "scrape (render_metric m @ s) = scrape_line ?h @ scrape_line ?t @ scrape_line ?v @ scrape s"
    by (simp only: scrape_line_cons [OF nl(1)] scrape_line_cons [OF nl(2)] scrape_line_cons [OF nl(3)])
  with v show ?thesis by (simp add: fields)
qed

lemma scrape_metrics: "list_all metric_ok ms \<Longrightarrow> scrape (concat (map render_metric ms)) = map (\<lambda>(_, n, _, v). (n, v)) ms"
proof (induction ms)
  case Nil
  show ?case by (simp add: scrape_def)
next
  case (Cons m ms)
  then show ?case by (cases m) (simp del: render_metric.simps metric_ok.simps add: scrape_metric)
qed

lemma show_nat_no_newline: "CHR 0x0A \<notin> set (show_nat n)"
  using show_nat_digits [of "CHR 0x0A" n] by auto

lemma show_decimal_no_newline: "CHR 0x0A \<notin> set (show_decimal m e)"
  using show_nat_no_newline by (auto simp: show_decimal_def Let_def dest!: in_set_takeD in_set_dropD)

lemma show_f64_no_newline: "CHR 0x0A \<notin> set (show_f64 x)"
  by (simp add: show_f64_def Let_def show_decimal_no_newline split: option.split)

lemma metric_table_ok: "list_all metric_ok (metric_table s)"
  by (simp add: metric_table_def show_nat_no_newline show_f64_no_newline)

lemma parse_show_u64: "parse_u64 (show_nat (unat (v :: u64))) = Some (unat v)"
  using unsigned_less [of v, where ?'a = nat] by (simp add: parse_u64_def parse_show_nat)

text \<open>C40: the observability contract. A reader of the rendered text gets exactly the eighteen named metrics,
  each exactly once, in order: fourteen integers, whose text reads back as the exact counter, and four
  floats with their printed value.\<close>

theorem render_scrapes:
  "scrape (render_prometheus s) =
     map (\<lambda>(n, v). (n, show_nat (unat v)))
       [(''substrate_sent_total'', substrate_sent_total s), (''substrate_recv_total'', substrate_recv_total s),
        (''substrate_send_errors_total'', substrate_send_errors_total s), (''substrate_dropped_total'', substrate_dropped_total s),
        (''quic_sent_packets_total'', quic_sent_packets_total s), (''quic_lost_packets_total'', quic_lost_packets_total s),
        (''quic_lost_bytes_total'', quic_lost_bytes_total s), (''quic_congestion_events_total'', quic_congestion_events_total s),
        (''circuits_built_total'', circuits_built_total s), (''circuits_retired_total'', circuits_retired_total s),
        (''circuits_build_errors_total'', circuits_build_errors_total s), (''substrate_queue_depth'', substrate_queue_depth s),
        (''substrate_enqueue_latency_us'', substrate_enqueue_latency_us s), (''circuits_ready'', circuits_ready s)] @
     map (\<lambda>(n, v). (n, show_f64 v))
       [(''oracle_rtt_p50_seconds'', oracle_rtt_p50_seconds s), (''oracle_rtt_p90_seconds'', oracle_rtt_p90_seconds s),
        (''oracle_rtt_p99_seconds'', oracle_rtt_p99_seconds s), (''quic_loss_ratio'', loss_ratio s)] \<and>
   distinct (map fst (scrape (render_prometheus s))) \<and>
   map (\<lambda>(n, v). parse_u64 v) (take 14 (scrape (render_prometheus s))) =
     map (\<lambda>v. Some (unat v))
       [substrate_sent_total s, substrate_recv_total s, substrate_send_errors_total s, substrate_dropped_total s,
        quic_sent_packets_total s, quic_lost_packets_total s, quic_lost_bytes_total s, quic_congestion_events_total s,
        circuits_built_total s, circuits_retired_total s, circuits_build_errors_total s, substrate_queue_depth s,
        substrate_enqueue_latency_us s, circuits_ready s]"
proof -
  have "scrape (render_prometheus s) = map (\<lambda>(_, n, _, v). (n, v)) (metric_table s)"
    unfolding render_prometheus_def by (rule scrape_metrics [OF metric_table_ok])
  then show ?thesis by (simp add: metric_table_def parse_show_u64)
qed


section \<open>The pool snapshot\<close>

abbreviation live_stats :: "('w \<Rightarrow> nat \<Rightarrow> bool) \<Rightarrow> ('w \<Rightarrow> nat \<Rightarrow> path_stats) \<Rightarrow> 'w \<Rightarrow> slot list \<Rightarrow> path_stats list" where
  "live_stats dead stats w ss \<equiv>
     map (\<lambda>s. stats w (ci_conn (sl_circuit s))) (filter (\<lambda>s. \<not> dead w (ci_conn (sl_circuit s))) ss)"

lemma scan_slots_sums:
  "scan_slots dead stats w ss (q, r) =
   (\<lparr>q_sent_packets = q_sent_packets q + sum_list (map c_sent_packets (live_stats dead stats w ss)),
     q_lost_packets = q_lost_packets q + sum_list (map c_lost_packets (live_stats dead stats w ss)),
     q_lost_bytes = q_lost_bytes q + sum_list (map c_lost_bytes (live_stats dead stats w ss)),
     q_congestion_events = q_congestion_events q + sum_list (map c_congestion_events (live_stats dead stats w ss))\<rparr>,
    r + of_nat (length (filter (ready_slot dead w) ss)))"
proof (induction ss arbitrary: q r)
  case (Cons s ss)
  then show ?case by (simp add: quic_observe_def ready_slot_def add.assoc)
qed simp

lemma loss_ratio_bounds:
  assumes "unat (quic_lost_packets_total s) \<le> unat (quic_sent_packets_total s)"
  shows "0 \<le> loss_ratio s \<and> loss_ratio s \<le> 1"
proof (cases "quic_sent_packets_total s = 0")
  case True
  then show ?thesis by (simp add: loss_ratio_def)
next
  case False
  let ?l = "fl64 (of_nat (unat (quic_lost_packets_total s)))" and ?n = "fl64 (of_nat (unat (quic_sent_packets_total s)))"
  have "0 < unat (quic_sent_packets_total s)" using False by (simp add: unat_gt_0)
  then have n: "0 < ?n" by (intro fl_pos) (simp_all only: of_nat_0_less_iff zero_less_numeral)
  have "?l \<le> ?n" using assms by (intro fl_mono) (simp_all only: of_nat_0_le_iff of_nat_le_iff zero_less_numeral)
  moreover have "0 \<le> ?l" by (intro fl_nonneg of_nat_0_le_iff)
  ultimately have q: "0 \<le> ?l / ?n" "?l / ?n \<le> 1" using n by simp_all
  then have "fl64 (?l / ?n) \<le> fl64 1" by (intro fl_mono) simp_all
  with False fl_nonneg [OF q(1), of 53] show ?thesis by (simp only: loss_ratio_def if_False fl_one zero_less_numeral)
qed

text \<open>What the pool exports is what it holds. The QUIC counters are the sums over the circuits whose
  connection is live, the ready gauge is the number of live circuits that are not draining, the
  circuit counters are the pool's own, and the loss ratio lies between 0 and 1 whenever no more packets
  were lost than sent.\<close>

theorem pool_metrics_exact:
  assumes "pool_metrics dead stats p = Some s" and "live = live_stats dead stats (wp_world p) (wp_slots p)"
  shows "quic_sent_packets_total s = sum_list (map c_sent_packets live) \<and>
    quic_lost_packets_total s = sum_list (map c_lost_packets live) \<and>
    quic_lost_bytes_total s = sum_list (map c_lost_bytes live) \<and>
    quic_congestion_events_total s = sum_list (map c_congestion_events live) \<and>
    circuits_ready s = of_nat (pool_ready dead p) \<and> circuits_built_total s = wp_built p \<and>
    circuits_retired_total s = wp_retired p \<and> circuits_build_errors_total s = wp_build_errors p \<and>
    (unat (quic_lost_packets_total s) \<le> unat (quic_sent_packets_total s) \<longrightarrow> 0 \<le> loss_ratio s \<and> loss_ratio s \<le> 1)"
  using assms loss_ratio_bounds [of s]
  by (auto simp: pool_metrics_def scan_slots_sums no_quic_stats_def with_circuits_def with_oracle_rtt_def with_quic_def
      default_snapshot_def pool_ready_def)

definition demo_stats :: path_stats where
  "demo_stats = \<lparr>c_rtt = 5, c_sent_packets = 100, c_lost_packets = 7, c_lost_bytes = 8400, c_congestion_events = 1, c_cwnd = 12000\<rparr>"

theorem pool_metrics_exact_witness:
  "\<exists>s. pool_metrics (\<lambda>_ _. False) (\<lambda>_ _. demo_stats) warm_demo = Some s \<and> quic_lost_packets_total s = 7 \<and>
     circuits_ready s = 1 \<and> loss_ratio s \<le> 1"
proof -
  obtain s where s: "pool_metrics (\<lambda>_ _. False) (\<lambda>_ _. demo_stats) warm_demo = Some s"
    by (simp add: pool_metrics_def warm_demo_def demo_pool_def case_prod_beta)
  from pool_metrics_exact [OF s refl] show ?thesis
    by (intro exI [of _ s] conjI s) (simp_all add: warm_demo_def demo_pool_def demo_stats_def pool_ready_def ready_slot_def one_slot_def)
qed


end
