(* ===== verification/Measure.thy ===== *)
theory Measure
  imports Http Gateway Autopilot Metrics
begin

text \<open>
  One live measurement, \<open>handle\<close> and \<open>run_measure\<close> of \<^verbatim>\<open>crates/quicmix/src/metrics_ws.rs\<close>: what a websocket
  client is sent, frame by frame, while the node dials the gateway (directly or through a Tor circuit),
  fetches a page over the link and probes its bandwidth.

  JSON values are the frames below; their serialisation and the websocket belong to libraries. A frame
  that carries an error has the error in place of its text. The outcomes of the network are arguments,
  with the times at which they happened; the clock readings of one read of the probe are one time.
\<close>

datatype measure_error =
    CertFetch cert_error | SocksUnreachable socket_addr | TorCircuit tor_error | FrontBind io_error
  | LinkFailed circuit_error | SendFailed string | ProbeOpen string | ProbeWrite io_error

datatype ws_frame =
    FConnected (f_handshake_ms: f64) (f_substrate: string)
  | FEgress (f_ip: string)
  | FPage (f_code: nat) (f_bytes: nat) (f_url: string) (f_html: "string option")
  | FPageError http_error string
  | FSample (f_rtt_ms: f64) (f_throughput: f64) (f_cwnd: u64) (f_lost: u64) (f_sent: u64)
  | FDone (f_done_rtt: f64) (f_done_lost: u64) (f_done_sent: u64) (f_page_code: nat) (f_page_bytes: nat) (f_ttfb: f64) (f_total: f64)
      (f_speed: f64)
  | FError measure_error
  | FClose

text \<open>The sending half: frames sent, and the outcomes still to come of its sends.\<close>

record ws_sink =
  ws_sent :: "ws_frame list"
  ws_faults :: "string option list"

definition send_json :: "ws_frame \<Rightarrow> (ws_sink, measure_error, unit) io" where
  "send_json v tx =
     (case ws_faults tx of
        Some e # fs \<Rightarrow> (Inl (SendFailed e), tx\<lparr>ws_faults := fs\<rparr>)
      | fs \<Rightarrow> (Inr (), tx\<lparr>ws_sent := ws_sent tx @ [v], ws_faults := tl fs\<rparr>))"

fun show_ip :: "ip_addr \<Rightarrow> string" where
  "show_ip (V4 a b c d) = show_v4 a b c d"
| "show_ip (V6 segs) = show_v6 segs"

text \<open>\<open>chars().take(n)\<close> of valid UTF-8.\<close>

fun take_chars :: "nat \<Rightarrow> string \<Rightarrow> string" where
  "take_chars 0 s = []"
| "take_chars (Suc n) s = (if s = [] then [] else (let k = snd (utf8_head s) in take k s @ take_chars n (drop k s)))"

definition millis_f64 :: "duration \<Rightarrow> f64" where
  "millis_f64 d = fl64 (as_secs_f64 d * 1000)"

definition rate :: "nat \<Rightarrow> duration \<Rightarrow> f64" where
  "rate n d = fl64 (fl64 (of_nat n) / max (as_secs_f64 d) (fl64 (1 / 1000)))"

definition sample_frame :: "path_stats \<Rightarrow> nat \<Rightarrow> duration \<Rightarrow> ws_frame" where
  "sample_frame st body_bytes since_first =
     FSample (millis_f64 (c_rtt st)) (rate body_bytes since_first) (c_cwnd st) (c_lost_packets st) (c_sent_packets st)"

text \<open>The probe loop over the reads that arrive (time, length, path statistics then).\<close>

fun probe_loop ::
  "nat \<Rightarrow> nat option \<Rightarrow> nat \<Rightarrow> nat \<Rightarrow> (nat \<times> nat \<times> path_stats) list \<Rightarrow> (ws_sink, measure_error, nat \<times> nat option) io" where
  "probe_loop start first last_sample bytes [] = io_return (bytes, first)"
| "probe_loop start first last_sample bytes ((t, n, st) # reads) =
     (let first' = (case first of None \<Rightarrow> t | Some f \<Rightarrow> f);
          bytes' = bytes + n;
          due = from_millis 120 \<le> t - first' \<and> from_millis 250 \<le> t - last_sample
      in io_bind (if due then send_json (sample_frame st bytes' (t - first')) else io_return ()) (\<lambda>_.
         if PROBE_CAP_BYTES \<le> bytes' \<or> PROBE_CAP_TIME \<le> t - start then io_return (bytes', Some first')
         else probe_loop start (Some first') (if due then t else last_sample) bytes' reads))"

text \<open>What the network does during one run, and when.\<close>

record 'w run_inputs =
  in_fetch_cert :: "socket_addr \<Rightarrow> cert_error + byte list"
  in_reach_socks :: "socket_addr \<Rightarrow> (io_error + tcp_stream) option"
  in_connect_socks :: "socket_addr \<Rightarrow> io_error + tcp_stream"
  in_bind_front :: "io_error + socket_addr"
  in_stack :: "'w quic_stack"
  in_world :: 'w
  in_exchange :: "nat \<Rightarrow> exchange"
  in_open_probe :: "nat \<Rightarrow> string + wstream"
  in_reads :: "(nat \<times> nat \<times> path_stats) list"
  in_start :: nat
  in_connected :: nat
  in_probe_start :: nat
  in_probe_end :: nat
  in_end_stats :: path_stats

text \<open>The address to dial with its label; the Tor front runs as long as the measurement.\<close>

definition dial_target ::
  "environment \<Rightarrow> 'w run_inputs \<Rightarrow> socket_addr \<Rightarrow> string \<Rightarrow> (measure_error + socket_addr \<times> string) may_panic" where
  "dial_target env inp gw_addr substrate =
     (if substrate = ''tor''
      then do {
        socks \<leftarrow> tor_socks_addr env;
        if \<not> tor_socks_reachable (in_reach_socks inp) socks then Some (Inl (SocksUnreachable socks))
        else (let bridge = show_ip (sa_ip gw_addr) @ '':'' @ show_nat (tor_bridge_port env) in
              case tor_stream_to (in_connect_socks inp) socks bridge ws_tor_oracle of
                Inl e \<Rightarrow> Some (Inl (TorCircuit e))
              | Inr sub \<Rightarrow>
                  map_option (\<lambda>r. case r of
                      Inl e \<Rightarrow> Inl (FrontBind e)
                    | Inr f \<Rightarrow> Inr (fb_addr f, ''tor (3-hop) '' @ byte_chars [0xE2, 0x86, 0x92] @ '' quicmix gateway '' @ show_ip (sa_ip gw_addr)))
                    (spawn_substrate_front (in_start inp) (Stream, sd_oracle sub, sub) (in_bind_front inp)))
      }
      else Some (Inr (gw_addr, ''direct quicmix QUIC '' @ byte_chars [0xC2, 0xB7] @ '' 1 hop'')))"

definition page_frame :: "fetched \<Rightarrow> ws_frame" where
  "page_frame f =
     FPage (ft_code f) (ft_bytes f) (ft_final_url f)
       (if find_sub ''text/html'' (ft_content_type f) \<noteq> None
        then Some (take_chars PAGE_CAP (from_utf8_lossy (bytes_string (ft_body f)))) else None)"

text \<open>The page step: what it adds to the summary (code, bytes, time to first byte), and its frame.\<close>

definition page_step :: "http_error + fetched \<Rightarrow> string \<Rightarrow> (ws_sink, measure_error, nat \<times> nat \<times> f64) io" where
  "page_step r url =
     (case r of
        Inr f \<Rightarrow> io_bind (send_json (page_frame f)) (\<lambda>_. io_return (ft_code f, ft_bytes f, ft_ttfb_ms f))
      | Inl e \<Rightarrow> io_bind (send_json (FPageError e url)) (\<lambda>_. io_return (0, 0, 0)))"

definition probe_request :: "environment \<Rightarrow> string" where
  "probe_request env = ''@measure '' @ show_nat (probe_size env) @ [CHR 0x0A]"

definition probe_step :: "environment \<Rightarrow> 'w run_inputs \<Rightarrow> nat \<Rightarrow> (ws_sink, measure_error, nat \<times> nat option) io" where
  "probe_step env inp conn =
     (case in_open_probe inp conn of
        Inl e \<Rightarrow> io_fail (ProbeOpen e)
      | Inr w \<Rightarrow>
          (case write_all (string_bytes (probe_request env)) w of
             (Inl e, _) \<Rightarrow> io_fail (ProbeWrite e)
           | (Inr _, _) \<Rightarrow> probe_loop (in_probe_start inp) None (in_probe_start inp) 0 (in_reads inp)))"

definition done_frame :: "'w run_inputs \<Rightarrow> nat \<times> nat \<times> f64 \<Rightarrow> nat \<times> nat option \<Rightarrow> ws_frame" where
  "done_frame inp page probed =
     (case (page, probed) of ((code, bytes, ttfb), (body_bytes, first)) \<Rightarrow>
        FDone (millis_f64 (c_rtt (in_end_stats inp))) (c_lost_packets (in_end_stats inp)) (c_sent_packets (in_end_stats inp))
          code bytes ttfb (millis_f64 (in_probe_end inp - in_probe_start inp))
          (rate body_bytes (in_probe_end inp - (case first of Some f \<Rightarrow> f | None \<Rightarrow> in_probe_start inp))))"

text \<open>Everything after the link is up. The fetch may panic while it decodes a response.\<close>

definition measure_link ::
  "environment \<Rightarrow> 'w run_inputs \<Rightarrow> socket_addr \<Rightarrow> string \<Rightarrow> string \<Rightarrow> nat \<Rightarrow> ws_sink \<Rightarrow>
   ((measure_error + unit) \<times> ws_sink) may_panic" where
  "measure_link env inp gw_addr url label conn tx =
     (case io_bind (send_json (FConnected (millis_f64 (in_connected inp - in_start inp)) label))
             (\<lambda>_. send_json (FEgress (show_ip (sa_ip gw_addr)))) tx of
        (Inl e, tx1) \<Rightarrow> Some (Inl e, tx1)
      | (Inr _, tx1) \<Rightarrow>
          map_option (\<lambda>r.
              io_bind (page_step r url) (\<lambda>page.
              io_bind (probe_step env inp conn) (\<lambda>probed.
              send_json (done_frame inp page probed))) tx1)
            (fst (fetch_over_quicmix (in_exchange inp conn) url 0)))"

definition run_measure ::
  "environment \<Rightarrow> node \<Rightarrow> 'w run_inputs \<Rightarrow> socket_addr \<Rightarrow> string \<Rightarrow> string \<Rightarrow> ws_sink \<Rightarrow>
   ((measure_error + unit) \<times> ws_sink) may_panic" where
  "run_measure env nd inp gw_addr url substrate tx =
     (case in_fetch_cert inp gw_addr of
        Inl e \<Rightarrow> Some (Inl (CertFetch e), tx)
      | Inr peer \<Rightarrow>
          Option.bind (dial_target env inp gw_addr substrate) (\<lambda>d.
            case d of
              Inl e \<Rightarrow> Some (Inl e, tx)
            | Inr (dial_addr, label) \<Rightarrow>
                (case connect_via (in_stack inp) nd dial_addr peer (in_world inp) of
                   (Inl e, _) \<Rightarrow> Some (Inl (LinkFailed e), tx)
                 | (Inr conn, _) \<Rightarrow> measure_link env inp gw_addr url label conn tx)))"

datatype first_message = TextMessage string | CloseMessage | OtherMessage | MessageError string

datatype handle_error = WsAccept string | WsReceive string | BadJson | BadGateway http_error

text \<open>The end of a run: an error frame if it failed, then the close; failures of these sends are ignored.\<close>

definition finish_run :: "(measure_error + unit) \<times> ws_sink \<Rightarrow> (handle_error + unit) \<times> ws_sink" where
  "finish_run run =
     (case run of (r, tx1) \<Rightarrow>
        let tx2 = (case r of Inl e \<Rightarrow> snd (send_json (FError e) tx1) | Inr _ \<Rightarrow> tx1)
        in (Inr (), snd (send_json FClose tx2)))"

text \<open>
  \<open>handle\<close>: the first message (\<open>None\<close> when the stream ended) asks for the run; \<open>json\<close> reads an object's
  text fields.
\<close>

definition handle ::
  "(string \<Rightarrow> (string \<Rightarrow> string option) option) \<Rightarrow> environment \<Rightarrow> node \<Rightarrow> (socket_addr \<Rightarrow> 'w run_inputs) \<Rightarrow> string option \<Rightarrow>
   first_message option \<Rightarrow> ws_sink \<Rightarrow> ((handle_error + unit) \<times> ws_sink) may_panic" where
  "handle json env nd inputs accept_err first tx =
     (case accept_err of
        Some e \<Rightarrow> Some (Inl (WsAccept e), tx)
      | None \<Rightarrow>
     (case first of
        None \<Rightarrow> Some (Inr (), tx)
      | Some CloseMessage \<Rightarrow> Some (Inr (), tx)
      | Some OtherMessage \<Rightarrow> Some (Inr (), tx)
      | Some (MessageError e) \<Rightarrow> Some (Inl (WsReceive e), tx)
      | Some (TextMessage t) \<Rightarrow>
          (case json t of
             None \<Rightarrow> Some (Inl BadJson, tx)
           | Some req \<Rightarrow>
               (let field = (\<lambda>k d. case req k of Some v \<Rightarrow> v | None \<Rightarrow> d);
                    url = field ''url'' ''https://example.com'';
                    substrate = to_ascii_lowercase (field ''substrate'' ''direct'')
                in case resolve_gateway (field ''gateway'' '''') of
                     Inl e \<Rightarrow> Some (Inl (BadGateway e), tx)
                   | Inr gw_addr \<Rightarrow>
                       map_option finish_run
                         (run_measure env nd (inputs gw_addr) gw_addr url substrate tx)))))"

section \<open>The conversation\<close>

text \<open>The order of frames a client may rely on.\<close>

datatype phase = PStart | PConnected | PEgress | PPage | PEnded | PClosed

fun phase_step :: "phase \<Rightarrow> ws_frame \<Rightarrow> phase option" where
  "phase_step PClosed _ = None"
| "phase_step _ FClose = Some PClosed"
| "phase_step PEnded _ = None"
| "phase_step _ (FError _) = Some PEnded"
| "phase_step PStart (FConnected _ _) = Some PConnected"
| "phase_step PConnected (FEgress _) = Some PEgress"
| "phase_step PEgress (FPage _ _ _ _) = Some PPage"
| "phase_step PEgress (FPageError _ _) = Some PPage"
| "phase_step PPage (FSample _ _ _ _ _) = Some PPage"
| "phase_step PPage (FDone _ _ _ _ _ _ _ _) = Some PEnded"
| "phase_step _ _ = None"

fun phases :: "phase \<Rightarrow> ws_frame list \<Rightarrow> phase option" where
  "phases ph [] = Some ph"
| "phases ph (v # vs) = Option.bind (phase_step ph v) (\<lambda>ph'. phases ph' vs)"

lemma phases_append: "phases ph (vs @ ws) = Option.bind (phases ph vs) (\<lambda>ph'. phases ph' ws)"
  by (induction vs arbitrary: ph) (auto split: Option.bind_splits)

text \<open>A computation on the sink moves the conversation from one phase to another, wherever it started.\<close>

definition moves :: "(ws_sink, measure_error, 'a) io \<Rightarrow> phase \<Rightarrow> phase set \<Rightarrow> phase \<Rightarrow> bool" where
  "moves m ph errs ph' \<longleftrightarrow>
     (\<forall>tx r tx'. phases PStart (ws_sent tx) = Some ph \<longrightarrow> m tx = (r, tx') \<longrightarrow>
        (case r of Inr _ \<Rightarrow> phases PStart (ws_sent tx') = Some ph'
                 | Inl _ \<Rightarrow> (\<exists>q \<in> errs. phases PStart (ws_sent tx') = Some q)))"

named_theorems moves_intros \<open>how computations move the conversation\<close>

lemma moves_send: "phase_step ph v = Some ph' \<Longrightarrow> ph \<in> errs \<Longrightarrow> moves (send_json v) ph errs ph'"
  by (auto simp: moves_def send_json_def phases_append split: list.splits option.splits)

lemma moves_return [moves_intros]: "moves (io_return a) ph errs ph"
  by (simp add: moves_def io_return_def)

lemma moves_fail [moves_intros]: "ph \<in> errs \<Longrightarrow> moves (io_fail e) ph errs ph'"
  by (auto simp: moves_def io_fail_def)

lemma moves_bind [moves_intros]:
  "moves m ph errs ph1 \<Longrightarrow> (\<And>a. moves (f a) ph1 errs ph2) \<Longrightarrow> moves (io_bind m f) ph errs ph2"
  unfolding moves_def io_bind_def
  by (fastforce split: prod.splits sum.splits)

abbreviation open_phases :: "phase set" where
  "open_phases \<equiv> {PStart, PConnected, PEgress, PPage}"

lemma moves_probe: "moves (probe_loop start first ls bytes reads) PPage open_phases PPage"
  by (induction start first ls bytes reads rule: probe_loop.induct)
     (auto simp: Let_def sample_frame_def intro!: moves_intros moves_send)


lemma moves_probe_step: "moves (probe_step env inp conn) PPage open_phases PPage"
  by (auto simp: probe_step_def intro!: moves_intros moves_probe split: sum.split prod.split)

lemma moves_page: "moves (page_step r url) PEgress open_phases PPage"
  by (auto simp: page_step_def page_frame_def intro!: moves_intros moves_send split: sum.split)

lemma moves_rest:
  "moves (io_bind (page_step r url) (\<lambda>page. io_bind (probe_step env inp conn) (\<lambda>probed. send_json (done_frame inp page probed))))
     PEgress open_phases PEnded"
  by (auto simp: done_frame_def intro!: moves_intros moves_page moves_probe_step moves_send split: prod.split)

lemma moves_hello:
  "moves (io_bind (send_json (FConnected ms label)) (\<lambda>_. send_json (FEgress ip))) PStart open_phases PEgress"
  by (auto intro!: moves_intros moves_send)

lemma movesD:
  "moves m ph errs ph' \<Longrightarrow> phases PStart (ws_sent tx) = Some ph \<Longrightarrow> m tx = (r, tx') \<Longrightarrow>
   (case r of Inr _ \<Rightarrow> phases PStart (ws_sent tx') = Some ph' | Inl _ \<Rightarrow> (\<exists>q \<in> errs. phases PStart (ws_sent tx') = Some q))"
  unfolding moves_def by blast

lemma measure_link_phases:
  assumes "phases PStart (ws_sent tx) = Some PStart" and "measure_link env inp gw url label conn tx = Some (r, tx')"
  shows "case r of Inr _ \<Rightarrow> phases PStart (ws_sent tx') = Some PEnded | Inl _ \<Rightarrow> (\<exists>q \<in> open_phases. phases PStart (ws_sent tx') = Some q)"
proof -
  obtain r1 tx1 where hello: "io_bind (send_json (FConnected (millis_f64 (in_connected inp - in_start inp)) label))
      (\<lambda>_. send_json (FEgress (show_ip (sa_ip gw)))) tx = (r1, tx1)" by fastforce
  note first = movesD [OF moves_hello assms(1) hello]
  show ?thesis
  proof (cases r1)
    case (Inl e)
    with assms(2) hello first show ?thesis by (auto simp: measure_link_def)
  next
    case (Inr u)
    with assms(2) hello obtain f where
      "io_bind (page_step f url) (\<lambda>page. io_bind (probe_step env inp conn) (\<lambda>probed. send_json (done_frame inp page probed))) tx1 = (r, tx')"
      by (auto simp: measure_link_def)
    from movesD [OF moves_rest _ this] first Inr show ?thesis by simp
  qed
qed

lemma run_measure_phases:
  assumes "phases PStart (ws_sent tx) = Some PStart" and "run_measure env nd inp gw url sub tx = Some (r, tx')"
  shows "case r of Inr _ \<Rightarrow> phases PStart (ws_sent tx') = Some PEnded | Inl _ \<Rightarrow> (\<exists>q \<in> open_phases. phases PStart (ws_sent tx') = Some q)"
  using assms measure_link_phases [OF assms(1)]
  by (fastforce simp: run_measure_def split: sum.splits prod.splits Option.bind_splits)

lemma send_error_phase:
  "phases PStart (ws_sent tx) = Some q \<Longrightarrow> q \<in> open_phases \<Longrightarrow>
   \<exists>q' \<in> insert PEnded open_phases. phases PStart (ws_sent (snd (send_json (FError e) tx))) = Some q'"
  by (auto simp: send_json_def phases_append split: list.splits option.splits)

lemma send_close_phase:
  "phases PStart (ws_sent tx) = Some q \<Longrightarrow> q \<in> insert PEnded open_phases \<Longrightarrow>
   phases PStart (ws_sent (snd (send_json FClose tx))) = Some PClosed \<or>
   (ws_faults tx \<noteq> [] \<and> phases PStart (ws_sent (snd (send_json FClose tx))) = Some q)"
  by (auto simp: send_json_def phases_append split: list.splits option.splits)

text \<open>A sink without faults stays without faults.\<close>

definition keeps_healthy :: "(ws_sink, measure_error, 'a) io \<Rightarrow> bool" where
  "keeps_healthy m \<longleftrightarrow> (\<forall>tx r tx'. ws_faults tx = [] \<longrightarrow> m tx = (r, tx') \<longrightarrow> ws_faults tx' = [])"

named_theorems healthy_intros \<open>computations that add no faults\<close>

lemma healthy_send [healthy_intros]: "keeps_healthy (send_json v)"
  by (auto simp: keeps_healthy_def send_json_def)

lemma healthy_return [healthy_intros]: "keeps_healthy (io_return a)"
  by (simp add: keeps_healthy_def io_return_def)

lemma healthy_fail [healthy_intros]: "keeps_healthy (io_fail e)"
  by (simp add: keeps_healthy_def io_fail_def)

lemma healthyD: "keeps_healthy m \<Longrightarrow> ws_faults tx = [] \<Longrightarrow> m tx = (r, tx') \<Longrightarrow> ws_faults tx' = []"
  unfolding keeps_healthy_def by blast

lemma healthy_bind [healthy_intros]:
  assumes "keeps_healthy m" and "\<And>a. keeps_healthy (f a)"
  shows "keeps_healthy (io_bind m f)"
  unfolding keeps_healthy_def
proof (intro allI impI)
  fix tx r tx' assume "ws_faults tx = []" and run: "io_bind m f tx = (r, tx')"
  obtain r1 tx1 where m: "m tx = (r1, tx1)" by fastforce
  have "ws_faults tx1 = []" using assms(1) \<open>ws_faults tx = []\<close> m by (rule healthyD)
  moreover have "tx' = tx1 \<or> (\<exists>a. f a tx1 = (r, tx'))" using run m by (cases r1) (auto simp: io_bind_def)
  ultimately show "ws_faults tx' = []" using assms(2) healthyD by blast
qed

lemma healthy_probe [healthy_intros]: "keeps_healthy (probe_loop start first ls bytes reads)"
  by (induction start first ls bytes reads rule: probe_loop.induct) (auto simp: Let_def intro!: healthy_intros)

lemma healthy_steps [healthy_intros]: "keeps_healthy (probe_step env inp conn)" "keeps_healthy (page_step r url)"
proof -
  show "keeps_healthy (page_step r url)"
    by (cases r) (simp_all add: page_step_def healthy_bind healthy_send healthy_return)
  show "keeps_healthy (probe_step env inp conn)"
    by (cases "in_open_probe inp conn")
       (simp_all add: probe_step_def healthy_fail healthy_probe split: prod.split sum.split)
qed

lemma healthy_send_snd: "ws_faults tx = [] \<Longrightarrow> ws_faults (snd (send_json v tx)) = []"
  by (simp add: send_json_def)

lemma measure_link_healthy:
  assumes "measure_link env inp gw url label conn tx = Some (r, tx')" and "ws_faults tx = []"
  shows "ws_faults tx' = []"
proof -
  let ?hello = "io_bind (send_json (FConnected (millis_f64 (in_connected inp - in_start inp)) label))
      (\<lambda>_. send_json (FEgress (show_ip (sa_ip gw))))"
  let ?rest = "\<lambda>f. io_bind (page_step f url) (\<lambda>page. io_bind (probe_step env inp conn) (\<lambda>probed. send_json (done_frame inp page probed)))"
  have "keeps_healthy ?hello" "keeps_healthy (?rest f)" for f by (intro healthy_intros)+
  note h = healthyD [OF this(1) assms(2)] and rest = healthyD [OF this(2)]
  show ?thesis
  proof (cases "?hello tx")
    case (Pair r1 tx1)
    with h have "ws_faults tx1 = []" by simp
    moreover have "tx' = tx1 \<or> (\<exists>f. ?rest f tx1 = (r, tx'))"
      using assms(1) Pair by (cases r1) (auto simp: measure_link_def)
    ultimately show ?thesis using rest by blast
  qed
qed

lemma run_measure_healthy:
  assumes "run_measure env nd inp gw url sub tx = Some (r, tx')" and "ws_faults tx = []"
  shows "ws_faults tx' = []"
  using assms measure_link_healthy
  by (fastforce simp: run_measure_def split: sum.splits prod.splits Option.bind_splits)

section \<open>What a client is told\<close>

text \<open>The run a client asks for: gateway, URL and substrate, or nothing.\<close>

definition requested_run ::
  "(string \<Rightarrow> (string \<Rightarrow> string option) option) \<Rightarrow> string option \<Rightarrow> first_message option \<Rightarrow> (socket_addr \<times> string \<times> string) option" where
  "requested_run json accept_err first =
     (case (accept_err, first) of
        (None, Some (TextMessage t)) \<Rightarrow>
          Option.bind (json t) (\<lambda>req.
            case resolve_gateway (case req ''gateway'' of Some g \<Rightarrow> g | None \<Rightarrow> '''') of
              Inl _ \<Rightarrow> None
            | Inr gw \<Rightarrow> Some (gw, case req ''url'' of Some u \<Rightarrow> u | None \<Rightarrow> ''https://example.com'',
                to_ascii_lowercase (case req ''substrate'' of Some v \<Rightarrow> v | None \<Rightarrow> ''direct'')))
      | _ \<Rightarrow> None)"

text \<open>Errors before the link is up, errors of the probe, and the code and size a page frame reports.\<close>

fun dial_failure :: "measure_error \<Rightarrow> bool" where
  "dial_failure (CertFetch _) = True"
| "dial_failure (SocksUnreachable _) = True"
| "dial_failure (TorCircuit _) = True"
| "dial_failure (FrontBind _) = True"
| "dial_failure (LinkFailed _) = True"
| "dial_failure _ = False"

fun probe_failure :: "measure_error \<Rightarrow> bool" where
  "probe_failure (ProbeOpen _) = True"
| "probe_failure (ProbeWrite _) = True"
| "probe_failure _ = False"

fun page_summary :: "ws_frame \<Rightarrow> (nat \<times> nat) option" where
  "page_summary (FPage code bytes _ _) = Some (code, bytes)"
| "page_summary (FPageError _ _) = Some (0, 0)"
| "page_summary _ = None"

text \<open>The frames of a whole conversation, by the outcome of its run.\<close>

definition conversation :: "socket_addr \<Rightarrow> measure_error + unit \<Rightarrow> ws_frame list \<Rightarrow> bool" where
  "conversation gw r vs \<longleftrightarrow>
     (case r of
        Inl e \<Rightarrow>
          (dial_failure e \<and> vs = [FError e, FClose]) \<or>
          (probe_failure e \<and> (\<exists>ms label page. page_summary page \<noteq> None \<and>
             vs = [FConnected ms label, FEgress (show_ip (sa_ip gw)), page, FError e, FClose]))
      | Inr _ \<Rightarrow>
          (\<exists>ms label page samples d. list_all is_FSample samples \<and> is_FDone d \<and>
             page_summary page = Some (f_page_code d, f_page_bytes d) \<and>
             vs = [FConnected ms label, FEgress (show_ip (sa_ip gw)), page] @ samples @ [d, FClose]))"

text \<open>Over a sink without faults every send succeeds.\<close>

lemma send_healthy: "ws_faults tx = [] \<Longrightarrow> send_json v tx = (Inr (), tx\<lparr>ws_sent := ws_sent tx @ [v]\<rparr>)"
  by (cases tx) (simp add: send_json_def)

lemma probe_loop_healthy:
  "ws_faults tx = [] \<Longrightarrow>
   \<exists>b f ss. probe_loop start first ls bytes reads tx = (Inr (b, f), tx\<lparr>ws_sent := ws_sent tx @ ss\<rparr>) \<and> list_all is_FSample ss"
proof (induction start first ls bytes reads arbitrary: tx rule: probe_loop.induct)
  case (1 start first ls bytes)
  then show ?case by (auto simp: io_return_def intro!: exI [of _ "[]"])
next
  case (2 start first ls bytes t n st reads)
  define first' where "first' = (case first of None \<Rightarrow> t | Some f \<Rightarrow> f)"
  define due where "due \<longleftrightarrow> from_millis 120 \<le> t - first' \<and> from_millis 250 \<le> t - ls"
  define ss1 where "ss1 = (if due then [sample_frame st (bytes + n) (t - first')] else [])"
  define tx1 where "tx1 = tx\<lparr>ws_sent := ws_sent tx @ ss1\<rparr>"
  let ?send = "if due then send_json (sample_frame st (bytes + n) (t - first')) else io_return ()"
  let ?stop = "PROBE_CAP_BYTES \<le> bytes + n \<or> PROBE_CAP_TIME \<le> t - start"
  have ss1: "list_all is_FSample ss1" by (simp add: ss1_def sample_frame_def)
  have "?send tx = (Inr (), tx1)" using "2.prems" by (simp add: tx1_def ss1_def send_healthy io_return_def)
  then have run: "probe_loop start first ls bytes ((t, n, st) # reads) tx =
      (if ?stop then io_return (bytes + n, Some first') else probe_loop start (Some first') (if due then t else ls) (bytes + n) reads) tx1"
    by (simp add: Let_def io_bind_def flip: first'_def due_def)
  show ?case
  proof (cases ?stop)
    case True
    with run ss1 show ?thesis by (auto simp: io_return_def tx1_def)
  next
    case False
    have "ws_faults tx1 = []" using "2.prems" by (simp add: tx1_def)
    from "2.IH" [OF first'_def refl due_def False this] obtain b f ss where
      "probe_loop start (Some first') (if due then t else ls) (bytes + n) reads tx1 = (Inr (b, f), tx1\<lparr>ws_sent := ws_sent tx1 @ ss\<rparr>)"
      "list_all is_FSample ss" by blast
    with run False ss1 show ?thesis by (intro exI [of _ b] exI [of _ f] exI [of _ "ss1 @ ss"]) (simp add: tx1_def)
  qed
qed

lemma probe_step_healthy:
  assumes "ws_faults tx = []"
  shows "(\<exists>e. probe_failure e \<and> probe_step env inp conn tx = (Inl e, tx)) \<or>
    (\<exists>b f ss. probe_step env inp conn tx = (Inr (b, f), tx\<lparr>ws_sent := ws_sent tx @ ss\<rparr>) \<and> list_all is_FSample ss)"
  using probe_loop_healthy [OF assms]
  by (cases "in_open_probe inp conn") (auto simp: probe_step_def io_fail_def split: prod.split sum.split)

lemma page_step_healthy:
  assumes "ws_faults tx = []"
  shows "\<exists>page code bytes ttfb. page_summary page = Some (code, bytes) \<and>
    page_step r url tx = (Inr (code, bytes, ttfb), tx\<lparr>ws_sent := ws_sent tx @ [page]\<rparr>)"
proof (cases r)
  case (Inl e)
  with assms show ?thesis by (intro exI [of _ "FPageError e url"]) (simp add: page_step_def io_bind_def io_return_def send_healthy)
next
  case (Inr f)
  with assms show ?thesis by (intro exI [of _ "page_frame f"]) (simp add: page_step_def io_bind_def io_return_def send_healthy page_frame_def)
qed

text \<open>What a run with a link sends, before the error frame and the close.\<close>

lemma measure_link_frames:
  assumes "ws_faults tx = []" and "ws_sent tx = []" and "measure_link env inp gw url label conn tx = Some (r, tx')"
  shows "\<exists>ms page samples. page_summary page \<noteq> None \<and> list_all is_FSample samples \<and>
    (case r of
       Inl e \<Rightarrow> probe_failure e \<and> ws_sent tx' = [FConnected ms label, FEgress (show_ip (sa_ip gw)), page]
     | Inr _ \<Rightarrow> (\<exists>d. is_FDone d \<and> page_summary page = Some (f_page_code d, f_page_bytes d) \<and>
         ws_sent tx' = [FConnected ms label, FEgress (show_ip (sa_ip gw)), page] @ samples @ [d]))"
proof -
  define tx1 where "tx1 = tx\<lparr>ws_sent := [FConnected (millis_f64 (in_connected inp - in_start inp)) label, FEgress (show_ip (sa_ip gw))]\<rparr>"
  have ok: "ws_faults tx1 = []" using assms(1) by (simp add: tx1_def)
  obtain f where run: "io_bind (page_step f url) (\<lambda>page. io_bind (probe_step env inp conn)
      (\<lambda>probed. send_json (done_frame inp page probed))) tx1 = (r, tx')"
    using assms by (auto simp: measure_link_def io_bind_def send_healthy tx1_def)
  obtain page code bytes ttfb where page: "page_summary page = Some (code, bytes)"
    "page_step f url tx1 = (Inr (code, bytes, ttfb), tx1\<lparr>ws_sent := ws_sent tx1 @ [page]\<rparr>)" using page_step_healthy [OF ok] by blast
  define tx2 where "tx2 = tx1\<lparr>ws_sent := ws_sent tx1 @ [page]\<rparr>"
  have ok2: "ws_faults tx2 = []" using ok by (simp add: tx2_def)
  from probe_step_healthy [OF ok2, of env inp conn] show ?thesis
  proof (elim disjE exE conjE)
    fix e assume "probe_failure e" "probe_step env inp conn tx2 = (Inl e, tx2)"
    then show ?thesis using run page by (intro exI [of _ "millis_f64 (in_connected inp - in_start inp)"] exI [of _ page] exI [of _ "[]"])
      (auto simp: io_bind_def tx2_def tx1_def)
  next
    fix b g ss assume ss: "list_all is_FSample ss" and "probe_step env inp conn tx2 = (Inr (b, g), tx2\<lparr>ws_sent := ws_sent tx2 @ ss\<rparr>)"
    with run page ok2 have "r = Inr ()" "ws_sent tx' = ws_sent tx2 @ ss @ [done_frame inp (code, bytes, ttfb) (b, g)]"
      by (auto simp: io_bind_def send_healthy simp flip: tx2_def)
    with page ss show ?thesis by (intro exI [of _ "millis_f64 (in_connected inp - in_start inp)"] exI [of _ page] exI [of _ ss])
      (auto simp: done_frame_def tx2_def tx1_def)
  qed
qed

lemma dial_target_failure: "dial_target env inp gw sub = Some (Inl e) \<Longrightarrow> dial_failure e"
  by (auto simp: dial_target_def Let_def split: if_splits sum.splits Option.bind_splits)
     (metis dial_failure.simps(4) sum.exhaust)

lemma run_measure_frames:
  assumes "ws_faults tx = []" and "ws_sent tx = []" and "run_measure env nd inp gw url sub tx = Some (r, tx')"
  shows "conversation gw r (ws_sent tx' @ (case r of Inl e \<Rightarrow> [FError e] | Inr _ \<Rightarrow> []) @ [FClose])"
proof -
  consider (dial) e where "r = Inl e" "dial_failure e" "tx' = tx" | (link) label conn where "measure_link env inp gw url label conn tx = Some (r, tx')"
    using assms(3) by (auto simp: run_measure_def dest: dial_target_failure split: sum.splits prod.splits Option.bind_splits)
  then show ?thesis
  proof cases
    case dial
    then show ?thesis using assms(2) by (simp add: conversation_def)
  next
    case link
    from measure_link_frames [OF assms(1,2) link] show ?thesis by (cases r) (fastforce simp: conversation_def)+
  qed
qed

lemma run_measure_panics:
  assumes "run_measure env nd inp gw url sub tx = None"
  shows "dial_target env inp gw sub = None \<or> (\<exists>conn. fst (fetch_over_quicmix (in_exchange inp conn) url 0) = None)"
  using assms by (auto simp: run_measure_def measure_link_def split: sum.splits prod.splits Option.bind_splits)

lemma finish_run_phases:
  assumes "case r of Inr _ \<Rightarrow> phases PStart (ws_sent tx) = Some PEnded | Inl _ \<Rightarrow> (\<exists>q \<in> open_phases. phases PStart (ws_sent tx) = Some q)"
  shows "\<exists>ph. phases PStart (ws_sent (snd (finish_run (r, tx)))) = Some ph"
proof -
  define tx2 where "tx2 = (case r of Inl e \<Rightarrow> snd (send_json (FError e) tx) | Inr _ \<Rightarrow> tx)"
  obtain q where q: "phases PStart (ws_sent tx2) = Some q" "q \<in> insert PEnded open_phases"
    using assms send_error_phase [of tx] by (cases r) (fastforce simp: tx2_def)+
  from send_close_phase [OF q] show ?thesis by (auto simp: finish_run_def Let_def tx2_def)
qed

lemma finish_run_frames:
  "ws_faults tx = [] \<Longrightarrow> ws_sent (snd (finish_run (r, tx))) = ws_sent tx @ (case r of Inl e \<Rightarrow> [FError e] | Inr _ \<Rightarrow> []) @ [FClose]"
  by (auto simp: finish_run_def Let_def send_healthy split: sum.split)

lemma handle_requested:
  "handle json env nd inputs accept_err first tx =
     (case requested_run json accept_err first of
        Some (gw, url, sub) \<Rightarrow> map_option finish_run (run_measure env nd (inputs gw) gw url sub tx)
      | None \<Rightarrow> handle json env nd inputs accept_err first tx)"
  by (auto simp: handle_def requested_run_def Let_def split: option.splits first_message.splits sum.splits)

lemma handle_unrequested:
  "requested_run json accept_err first = None \<Longrightarrow> \<exists>r. handle json env nd inputs accept_err first tx = Some (r, tx)"
  by (auto simp: handle_def requested_run_def Let_def split: option.splits first_message.splits sum.splits)

text \<open>C34: the conversation of one measurement. A client that did not ask for a run (the handshake failed, no text
  message, unreadable JSON, an unknown gateway) is sent nothing. Otherwise the run is made. If it panics, which only
  the Tor dialling or the decoding of a fetched page can, the handler panics. If not, the frames, whichever
  sends fail, follow the order connected, egress, page, samples, done with an error frame at most in
  place of the rest and nothing after the close. Over a healthy websocket they are exactly: the run's error and the close, when the link did
  not come up; connected, the gateway's address, the page, the run's error and the close, when the probe could not start;
  and otherwise connected, the gateway's address, the page, samples, a summary with that page's code and size, and the close.\<close>

theorem handle_protocol:
  assumes "ws_sent tx = []"
  shows "case requested_run json accept_err first of
      None \<Rightarrow> \<exists>r. handle json env nd inputs accept_err first tx = Some (r, tx)
    | Some (gw, url, sub) \<Rightarrow>
        (case run_measure env nd (inputs gw) gw url sub tx of
           None \<Rightarrow> handle json env nd inputs accept_err first tx = None \<and>
             (dial_target env (inputs gw) gw sub = None \<or> (\<exists>conn. fst (fetch_over_quicmix (in_exchange (inputs gw) conn) url 0) = None))
         | Some (r, _) \<Rightarrow>
             (\<exists>tx' ph. handle json env nd inputs accept_err first tx = Some (Inr (), tx') \<and> phases PStart (ws_sent tx') = Some ph \<and>
                (ws_faults tx = [] \<longrightarrow> conversation gw r (ws_sent tx'))))"
proof (cases "requested_run json accept_err first")
  case None
  then show ?thesis using handle_unrequested by simp
next
  case (Some a)
  then obtain gw url sub where ask: "requested_run json accept_err first = Some (gw, url, sub)" by (cases a) auto
  note h = handle_requested [of json env nd inputs accept_err first tx, unfolded ask option.case prod.case]
  show ?thesis
  proof (cases "run_measure env nd (inputs gw) gw url sub tx")
    case None
    then show ?thesis using ask h run_measure_panics [OF None] by simp
  next
    case (Some b)
    then obtain r tx1 where run: "run_measure env nd (inputs gw) gw url sub tx = Some (r, tx1)" by (cases b) auto
    have fin: "finish_run (r, tx1) = (Inr (), snd (finish_run (r, tx1)))" by (simp add: finish_run_def Let_def)
    obtain ph where "phases PStart (ws_sent (snd (finish_run (r, tx1)))) = Some ph"
      using finish_run_phases run_measure_phases [OF _ run] assms by fastforce
    moreover have "conversation gw r (ws_sent (snd (finish_run (r, tx1))))" if "ws_faults tx = []"
      using run_measure_frames [OF that assms run] finish_run_frames [OF run_measure_healthy [OF run that]] by simp
    ultimately show ?thesis using ask h run fin by (auto intro!: exI [of _ "snd (finish_run (r, tx1))"])
  qed
qed


section \<open>Bounds of the probe\<close>

lemma send_json_ok: "send_json v tx = (r, tx') \<Longrightarrow> ws_sent tx' = ws_sent tx @ (case r of Inr _ \<Rightarrow> [v] | Inl _ \<Rightarrow> [])"
  by (auto simp: send_json_def split: list.splits option.splits)

lemma probe_loop_bounds:
  assumes "probe_loop start first ls bytes reads tx = (r, tx')" and "list_all (\<lambda>(_, n, _). n \<le> 65536) reads"
    and "start + k * from_millis 250 \<le> ls" and "ls - start < PROBE_CAP_TIME" and "bytes < PROBE_CAP_BYTES"
  shows "(\<forall>b f. r = Inr (b, f) \<longrightarrow> b < PROBE_CAP_BYTES + 65536) \<and>
    (\<exists>ss. ws_sent tx' = ws_sent tx @ ss \<and> length ss + k \<le> 20 \<and> list_all is_FSample ss)"
  using assms
proof (induction start first ls bytes reads arbitrary: k tx rule: probe_loop.induct)
  case (1 start first ls bytes)
  then have "k * from_millis 250 < PROBE_CAP_TIME" by simp
  then have "k < 20" by (simp add: PROBE_CAP_TIME_def from_secs_def from_millis_def)
  with 1 show ?case by (auto simp: io_return_def)
next
  case (2 start first ls bytes t n st reads)
  define first' where "first' = (case first of None \<Rightarrow> t | Some f \<Rightarrow> f)"
  define due where "due \<longleftrightarrow> from_millis 120 \<le> t - first' \<and> from_millis 250 \<le> t - ls"
  define k' where "k' = (if due then k + 1 else k)"
  let ?send = "if due then send_json (sample_frame st (bytes + n) (t - first')) else io_return ()"
  obtain r1 tx1 where s: "?send tx = (r1, tx1)" by fastforce
  obtain ss1 where ss1: "ws_sent tx1 = ws_sent tx @ ss1" "length ss1 + k \<le> k'" "list_all is_FSample ss1"
    using s send_json_ok [of _ tx r1 tx1]
    by (cases r1) (auto simp: k'_def sample_frame_def io_return_def split: if_splits)
  have k: "k < 20" "k' \<le> 20"
  proof -
    have "k * from_millis 250 < PROBE_CAP_TIME" using "2.prems"(3,4) by simp
    then show "k < 20" by (simp add: PROBE_CAP_TIME_def from_secs_def from_millis_def)
    then show "k' \<le> 20" by (simp add: k'_def)
  qed
  have ls': "start + k' * from_millis 250 \<le> (if due then t else ls)"
    using "2.prems"(3) by (auto simp: k'_def due_def algebra_simps from_millis_def)
  have n: "n \<le> 65536" "list_all (\<lambda>(_, n, _). n \<le> 65536) reads" using "2.prems"(2) by auto
  let ?stop = "PROBE_CAP_BYTES \<le> bytes + n \<or> PROBE_CAP_TIME \<le> t - start"
  show ?case
  proof (cases r1)
    case (Inl e)
    with "2.prems"(1) s have "r = Inl e" "tx' = tx1"
      by (auto simp: Let_def io_bind_def simp flip: first'_def due_def)
    with ss1 k show ?thesis by auto
  next
    case (Inr u)
    with "2.prems"(1) s have run: "(if ?stop then io_return (bytes + n, Some first')
        else probe_loop start (Some first') (if due then t else ls) (bytes + n) reads) tx1 = (r, tx')"
      by (auto simp: Let_def io_bind_def simp flip: first'_def due_def)
    show ?thesis
    proof (cases ?stop)
      case True
      with run ss1 k n "2.prems"(5) show ?thesis by (auto simp: io_return_def)
    next
      case False
      with run have rest: "probe_loop start (Some first') (if due then t else ls) (bytes + n) reads tx1 = (r, tx')" by simp
      have "(if due then t else ls) - start < PROBE_CAP_TIME" "bytes + n < PROBE_CAP_BYTES" using False "2.prems"(4) by simp_all
      from "2.IH" [OF first'_def refl due_def False rest n(2) ls' this] obtain ss where
        "\<forall>b f. r = Inr (b, f) \<longrightarrow> b < PROBE_CAP_BYTES + 65536" "ws_sent tx' = ws_sent tx1 @ ss" "length ss + k' \<le> 20"
        "list_all is_FSample ss" by blast
      with ss1 show ?thesis by (intro conjI exI [of _ "ss1 @ ss"]) auto
    qed
  qed
qed


text \<open>A probe is bounded. With reads of at most 64 KiB, the size of its buffer, the bandwidth probe counts
  less than 4 MiB and one buffer, and sends at most twenty samples, whatever the gateway sends and
  however long the reads take.\<close>

theorem probe_bounded:
  assumes "probe_step env inp conn tx = (r, tx')" and "list_all (\<lambda>(_, n, _). n \<le> 65536) (in_reads inp)"
  shows "(\<forall>b f. r = Inr (b, f) \<longrightarrow> b < 4 * 1024 * 1024 + 65536) \<and>
    (\<exists>ss. ws_sent tx' = ws_sent tx @ ss \<and> length ss \<le> 20 \<and> list_all is_FSample ss)"
proof -
  have "probe_loop (in_probe_start inp) None (in_probe_start inp) 0 (in_reads inp) tx = (r, tx') \<or> (tx' = tx \<and> isl r)"
    using assms(1) by (auto simp: probe_step_def io_fail_def split: sum.splits prod.splits)
  then show ?thesis
  proof
    assume "probe_loop (in_probe_start inp) None (in_probe_start inp) 0 (in_reads inp) tx = (r, tx')"
    from probe_loop_bounds [OF this assms(2), of 0] show ?thesis
      by (simp add: PROBE_CAP_BYTES_def PROBE_CAP_TIME_def from_secs_def)
  qed auto
qed

definition demo_run :: "nat run_inputs" where
  "demo_run = \<lparr>in_fetch_cert = (\<lambda>_. Inr [7]), in_reach_socks = (\<lambda>_. None), in_connect_socks = (\<lambda>_. Inl UnexpectedEof),
     in_bind_front = Inl UnexpectedEof, in_stack = demo_stack, in_world = 0, in_exchange = (\<lambda>_ _ _ _. Inl ''reset''),
     in_open_probe = (\<lambda>_. Inr \<lparr>w_out = [], w_faults = []\<rparr>),
     in_reads = [(0, 65536, demo_stats), (from_millis 400, 1000, demo_stats)],
     in_start = 0, in_connected = 0, in_probe_start = 0, in_probe_end = from_secs 1, in_end_stats = demo_stats\<rparr>"

definition demo_node :: node where
  "demo_node = \<lparr>nd_cert = [7], nd_key = [8], nd_transport = default_transport\<rparr>"

abbreviation demo_sink :: ws_sink where
  "demo_sink \<equiv> \<lparr>ws_sent = [], ws_faults = []\<rparr>"

theorem probe_bounded_witness:
  "\<exists>r tx'. probe_step (\<lambda>_. None) demo_run 0 demo_sink = (r, tx') \<and> r = Inr (66536, Some 0) \<and> (\<exists>ss. ws_sent tx' = [] @ ss \<and> length ss \<le> 20)"
proof -
  have run: "probe_step (\<lambda>_. None) demo_run 0 demo_sink = (Inr (66536, Some 0),
      \<lparr>ws_sent = [sample_frame demo_stats 66536 (from_millis 400)], ws_faults = []\<rparr>)"
    by (simp add: probe_step_def demo_run_def Let_def io_bind_def io_return_def send_json_def from_millis_def
        PROBE_CAP_BYTES_def PROBE_CAP_TIME_def from_secs_def)
  have "list_all (\<lambda>(_, n, _). n \<le> 65536) (in_reads demo_run)" by (simp add: demo_run_def)
  from probe_bounded [OF run this] run show ?thesis by auto
qed

lemma demo_gateway: "resolve_gateway ''fra1'' = Inr (SockAddr (V4 64 226 93 43) 4433)"
proof -
  have "''64.226.93.43:4433'' = show_socket_v4 64 226 93 43 4433"
    by (simp add: show_socket_v4_def show_v4_def show_nat.simps) code_simp
  then have "parse_socket_addr ''64.226.93.43:4433'' = Some (SockAddr (V4 64 226 93 43) 4433)" by (simp only: parse_show_socket_v4)
  moreover have "trim ''fra1'' = ''fra1''" by (rule trim_visible) (simp_all add: visible_def)
  ultimately show ?thesis by (simp add: resolve_gateway_def)
qed


lemma demo_fetch:
  "fst (fetch_over_quicmix (\<lambda>_ _ _. Inl ''reset'') ''https://example.com'' 0) = Some (Inl (ExchangeFailed ''reset''))"
proof -
  have "split_url ''https://example.com'' = Inr (''https'', ''example.com'', 443, ''/'')" by code_simp
  then show ?thesis by (subst fetch_over_quicmix.simps) simp
qed

lemma demo_connect: "connect_via demo_stack demo_node a [7] 0 = (Inr 0, Suc 0)"
  by (simp add: connect_via_def demo_stack_def io_bind_def io_context_def)

definition demo_json :: "string \<Rightarrow> (string \<Rightarrow> string option) option" where
  "demo_json t = Some (\<lambda>k. if k = ''gateway'' then Some t else None)"

lemma demo_requested:
  "requested_run demo_json None (Some (TextMessage ''fra1'')) = Some (SockAddr (V4 64 226 93 43) 4433, ''https://example.com'', ''direct'')"
proof -
  have "to_ascii_lowercase ''direct'' = ''direct''" by code_simp
  then show ?thesis by (simp add: requested_run_def demo_json_def demo_gateway)
qed

text \<open>One run that succeeds, its page an error, and the same run against a gateway that has no stream for the probe.\<close>

theorem handle_protocol_witness:
  "(\<exists>tx' ph. handle demo_json (\<lambda>_. None) demo_node (\<lambda>_. demo_run) None (Some (TextMessage ''fra1'')) demo_sink = Some (Inr (), tx') \<and>
      phases PStart (ws_sent tx') = Some ph \<and> conversation (SockAddr (V4 64 226 93 43) 4433) (Inr ()) (ws_sent tx')) \<and>
   (\<exists>tx' ph. handle demo_json (\<lambda>_. None) demo_node (\<lambda>_. demo_run\<lparr>in_open_probe := (\<lambda>_. Inl ''limit'')\<rparr>) None (Some (TextMessage ''fra1'')) demo_sink =
        Some (Inr (), tx') \<and>
      phases PStart (ws_sent tx') = Some ph \<and> conversation (SockAddr (V4 64 226 93 43) 4433) (Inl (ProbeOpen ''limit'')) (ws_sent tx'))"
proof -
  have ok: "\<exists>tx1. run_measure (\<lambda>_. None) demo_node demo_run gw ''https://example.com'' ''direct'' demo_sink = Some (Inr (), tx1)" for gw
    by (simp add: run_measure_def dial_target_def measure_link_def demo_run_def
        demo_connect demo_fetch io_bind_def io_return_def send_json_def page_step_def probe_step_def Let_def
        PROBE_CAP_BYTES_def PROBE_CAP_TIME_def from_millis_def from_secs_def)
  have no: "\<exists>tx1. run_measure (\<lambda>_. None) demo_node (demo_run\<lparr>in_open_probe := (\<lambda>_. Inl ''limit'')\<rparr>) gw ''https://example.com'' ''direct'' demo_sink =
      Some (Inl (ProbeOpen ''limit''), tx1)" for gw
    by (simp add: run_measure_def dial_target_def measure_link_def demo_run_def
        demo_connect demo_fetch io_bind_def io_return_def io_fail_def send_json_def page_step_def probe_step_def Let_def)
  have sink: "ws_sent demo_sink = []" "ws_faults demo_sink = []" by simp_all
  note p = handle_protocol [OF sink(1), where json = demo_json and accept_err = None and first = "Some (TextMessage ''fra1'')" and
      env = "\<lambda>_. None" and nd = demo_node, unfolded demo_requested option.case prod.case]
  show ?thesis
    using p [of "\<lambda>_. demo_run"] p [of "\<lambda>_. demo_run\<lparr>in_open_probe := (\<lambda>_. Inl ''limit'')\<rparr>"]
      ok [of "SockAddr (V4 64 226 93 43) 4433"] no [of "SockAddr (V4 64 226 93 43) 4433"] sink
    by fastforce
qed


end
