(* ===== verification/Katzenpost.thy ===== *)
theory Katzenpost
  imports Rust_Io
begin

text \<open>
  The Katzenpost substrate, \<^verbatim>\<open>substrates/quicmix-katzenpost/src/lib.rs\<close>: requests to the thin-client
  daemon and its responses as length-prefixed CBOR frames, the handshake, the search for a service in the
  PKI document, the request tokens, and the datagram transport over a resolved service.

  CBOR and the hash are libraries: the record \<open>cbor\<close> holds what the code calls of them, with
  the text of their errors. \<open>None\<close> is a failure to encode or decode. The counter behind the request tokens is a static variable and is passed along.
\<close>

unbundle bit_operations_syntax

section \<open>The schema\<close>

record send_message =
  sm_with_surb :: bool
  sm_surbid :: "byte list option"
  sm_destination_id_hash :: "byte list"
  sm_recipient_queue_id :: "byte list"
  sm_payload :: "byte list"

record request =
  session_token :: "byte list option"
  send_message :: "send_message option"

record message_reply_event =
  re_payload :: "byte list"
  re_error_code :: byte

text \<open>The one-field events are their fields: connected, the PKI document, and whether a session was resumed.\<close>

record response =
  connection_status_event :: "bool option"
  new_pki_document_event :: "byte list option"
  session_token_reply :: "bool option"
  message_reply_event :: "message_reply_event option"

datatype cbor_value =
    CInteger int | CBytes "byte list" | CFloat | CText string | CBool bool | CNull | CTag nat cbor_value
  | CArray "cbor_value list" | CMap "(cbor_value \<times> cbor_value) list"

record mix_descriptor =
  identity_key :: "byte list"
  kaetzchen :: "string \<rightharpoonup> (string \<rightharpoonup> cbor_value)"

datatype kp_error =
    KpIo io_error | EncodeFailed | FrameTooLarge nat | BadResponse | PkiNotCbor | PkiNotDocument | PkiUnexpectedTag
  | PkiUnexpected | PkiTooDeep | NoIdentityKey string | NoService string | ExpectedStatus | ExpectedPki | ExpectedToken
  | Offline | NoReplyInTime

record cbor =
  encode_request :: "request \<Rightarrow> byte list option"
  decode_response :: "byte list \<Rightarrow> response option"
  decode_value :: "byte list \<Rightarrow> cbor_value option"
  decode_service_nodes :: "byte list \<Rightarrow> byte list list option"
  decode_descriptor :: "byte list \<Rightarrow> mix_descriptor option"
  sum256 :: "byte list \<Rightarrow> byte list"
  error_text :: "kp_error \<Rightarrow> string"

record service_id =
  destination_id_hash :: "byte list"
  recipient_queue_id :: "byte list"

record handshake =
  hs_is_connected :: bool
  hs_pki_doc :: "byte list"
  hs_session_resumed :: bool

record reply =
  rp_error_code :: byte
  rp_payload :: "byte list"

section \<open>Tokens\<close>

definition CTR_INIT :: u64 where
  "CTR_INIT = 0xA5A55A5A12349E37"

definition token_half :: "u64 \<Rightarrow> byte list" where
  "token_half x0 =
     (let x1 = x0 XOR drop_bit 30 x0;
          x2 = x1 * 0xBF58476D1CE4E5B9;
          x3 = x2 XOR drop_bit 27 x2
      in to_le 8 (unat x3))"

definition CTR_STEP :: u64 where
  "CTR_STEP = 0x9E3779B97F4A7C15"

text \<open>Two turns of the loop, each with its own \<open>fetch_add\<close>.\<close>

definition instance_token :: "u64 \<Rightarrow> byte list \<times> u64" where
  "instance_token ctr = (token_half ctr @ token_half (ctr + CTR_STEP), ctr + CTR_STEP + CTR_STEP)"

definition with_reply_surb :: "service_id \<Rightarrow> byte list \<Rightarrow> u64 \<Rightarrow> send_message \<times> u64" where
  "with_reply_surb sv payload ctr =
     (let (token, ctr') = instance_token ctr
      in (\<lparr>sm_with_surb = True, sm_surbid = Some token, sm_destination_id_hash = destination_id_hash sv,
           sm_recipient_queue_id = recipient_queue_id sv, sm_payload = payload\<rparr>, ctr'))"

section \<open>Frames\<close>

definition write_frame :: "cbor \<Rightarrow> request \<Rightarrow> (wstream, kp_error, unit) io" where
  "write_frame cb req w =
     (case encode_request cb req of
        None \<Rightarrow> (Inl EncodeFailed, w)
      | Some buf \<Rightarrow>
          io_context KpIo
            (io_bind (write_all (to_be 4 (length buf))) (\<lambda>_. io_bind (write_all buf) (\<lambda>_. flush))) w)"

definition read_frame :: "cbor \<Rightarrow> (rstream, kp_error, response) io" where
  "read_frame cb r =
     (case read_exact 4 r of
        (Inl e, r1) \<Rightarrow> (Inl (KpIo e), r1)
      | (Inr len, r1) \<Rightarrow>
          (let n = be_nat len in
           if 2 ^ 24 < n then (Inl (FrameTooLarge n), r1)
           else (case read_exact n r1 of
                   (Inl e, r2) \<Rightarrow> (Inl (KpIo e), r2)
                 | (Inr buf, r2) \<Rightarrow>
                     (case decode_response cb buf of None \<Rightarrow> (Inl BadResponse, r2) | Some resp \<Rightarrow> (Inr resp, r2)))))"

lemma read_frame_shrinks:
  "read_frame cb r = (Inr resp, r') \<Longrightarrow> length (r_bytes r') < length (r_bytes r)"
  by (auto simp: read_frame_def Let_def dest!: read_exact_shrinks split: sum.splits prod.splits if_splits option.splits)

function read_until_reply :: "cbor \<Rightarrow> (rstream, kp_error, message_reply_event) io" where
  "read_until_reply cb r =
     (case read_frame cb r of
        (Inl e, r1) \<Rightarrow> (Inl e, r1)
      | (Inr resp, r1) \<Rightarrow>
          (case message_reply_event resp of Some ev \<Rightarrow> (Inr ev, r1) | None \<Rightarrow> read_until_reply cb r1))"
  by pat_completeness auto
termination
  by (relation "measure (\<lambda>(cb, r). length (r_bytes r))") (auto dest: read_frame_shrinks [OF sym])

declare read_until_reply.simps [simp del]

section \<open>The PKI document\<close>

text \<open>The loop peels wrappers at most four times.\<close>

fun peel_document :: "cbor \<Rightarrow> nat \<Rightarrow> byte list \<Rightarrow> kp_error + byte list list" where
  "peel_document cb 0 cur = Inl PkiTooDeep"
| "peel_document cb (Suc k) cur =
     (case decode_value cb cur of
        None \<Rightarrow> Inl PkiNotCbor
      | Some val \<Rightarrow>
          (case val of
             CMap _ \<Rightarrow> (case decode_service_nodes cb cur of None \<Rightarrow> Inl PkiNotDocument | Some ns \<Rightarrow> Inr ns)
           | CBytes inner \<Rightarrow> peel_document cb k inner
           | CTag _ boxed \<Rightarrow> (case boxed of CBytes inner \<Rightarrow> peel_document cb k inner | _ \<Rightarrow> Inl PkiUnexpectedTag)
           | _ \<Rightarrow> Inl PkiUnexpected))"

definition decode_document :: "cbor \<Rightarrow> byte list \<Rightarrow> kp_error + byte list list" where
  "decode_document cb bytes = peel_document cb 4 bytes"

fun find_service :: "cbor \<Rightarrow> string \<Rightarrow> byte list list \<Rightarrow> kp_error + service_id" where
  "find_service cb capability [] = Inl (NoService capability)"
| "find_service cb capability (raw # nodes) =
     (case decode_descriptor cb raw of
        None \<Rightarrow> find_service cb capability nodes
      | Some node \<Rightarrow>
          (case kaetzchen node capability of
             None \<Rightarrow> find_service cb capability nodes
           | Some inner \<Rightarrow>
               (case inner ''endpoint'' of
                  Some (CText endpoint) \<Rightarrow>
                    (if identity_key node = [] then Inl (NoIdentityKey capability)
                     else Inr \<lparr>destination_id_hash = sum256 cb (identity_key node),
                               recipient_queue_id = string_bytes endpoint\<rparr>)
                | _ \<Rightarrow> find_service cb capability nodes)))"

definition resolve_service :: "cbor \<Rightarrow> byte list \<Rightarrow> string \<Rightarrow> kp_error + service_id" where
  "resolve_service cb pki_doc capability =
     (case decode_document cb pki_doc of Inl e \<Rightarrow> Inl e | Inr nodes \<Rightarrow> find_service cb capability nodes)"

section \<open>The handshake and one round trip\<close>

definition on_read :: "(rstream, 'e, 'a) io \<Rightarrow> (tcp_stream, 'e, 'a) io" where
  "on_read m s = (case m (t_read s) of (x, r) \<Rightarrow> (x, s\<lparr>t_read := r\<rparr>))"

definition on_write :: "(wstream, 'e, 'a) io \<Rightarrow> (tcp_stream, 'e, 'a) io" where
  "on_write m s = (case m (t_write s) of (x, w) \<Rightarrow> (x, s\<lparr>t_write := w\<rparr>))"

definition ok_or :: "'e \<Rightarrow> 'a option \<Rightarrow> ('s, 'e, 'a) io" where
  "ok_or e x = (case x of Some a \<Rightarrow> io_return a | None \<Rightarrow> io_fail e)"

text \<open>The dialogue after connecting, with the token it sends.\<close>

definition handshake_dialogue :: "cbor \<Rightarrow> byte list \<Rightarrow> (tcp_stream, kp_error, handshake) io" where
  "handshake_dialogue cb token =
     io_bind (on_read (read_frame cb)) (\<lambda>m1.
     io_bind (ok_or ExpectedStatus (connection_status_event m1)) (\<lambda>is_connected.
     io_bind (on_read (read_frame cb)) (\<lambda>m2.
     io_bind (ok_or ExpectedPki (new_pki_document_event m2)) (\<lambda>pki.
     io_bind (on_write (write_frame cb \<lparr>session_token = Some token, send_message = None\<rparr>)) (\<lambda>_.
     io_bind (on_read (read_frame cb)) (\<lambda>m3.
     io_bind (ok_or ExpectedToken (session_token_reply m3)) (\<lambda>resumed.
     io_return \<lparr>hs_is_connected = is_connected, hs_pki_doc = pki, hs_session_resumed = resumed\<rparr>)))))))"

definition connect_and_handshake ::
  "cbor \<Rightarrow> io_error + tcp_stream \<Rightarrow> u64 \<Rightarrow> (kp_error + tcp_stream \<times> handshake) \<times> u64" where
  "connect_and_handshake cb conn ctr =
     (case conn of
        Inl e \<Rightarrow> (Inl (KpIo e), ctr)
      | Inr s \<Rightarrow>
          (let (token, ctr') = instance_token ctr
           in (case handshake_dialogue cb token s of (Inl e, _) \<Rightarrow> Inl e | (Inr hs, s') \<Rightarrow> Inr (s', hs), ctr')))"

text \<open>\<open>in_time\<close> says whether the wait for the reply ended before its timeout.\<close>

definition request_reply ::
  "cbor \<Rightarrow> io_error + tcp_stream \<Rightarrow> bool \<Rightarrow> string \<Rightarrow> byte list \<Rightarrow> u64 \<Rightarrow> (kp_error + service_id \<times> reply) \<times> u64" where
  "request_reply cb conn in_time capability payload ctr =
     (case connect_and_handshake cb conn ctr of
        (Inl e, ctr1) \<Rightarrow> (Inl e, ctr1)
      | (Inr (s, hs), ctr1) \<Rightarrow>
          (if \<not> hs_is_connected hs then (Inl Offline, ctr1)
           else (case resolve_service cb (hs_pki_doc hs) capability of
                   Inl e \<Rightarrow> (Inl e, ctr1)
                 | Inr sv \<Rightarrow>
                     (let (msg, ctr2) = with_reply_surb sv payload ctr1
                      in (case write_frame cb \<lparr>session_token = None, send_message = Some msg\<rparr> (t_write s) of
                            (Inl e, _) \<Rightarrow> Inl e
                          | (Inr _, _) \<Rightarrow>
                              (if \<not> in_time then Inl NoReplyInTime
                               else (case read_until_reply cb (t_read s) of
                                       (Inl e, _) \<Rightarrow> Inl e
                                     | (Inr ev, _) \<Rightarrow> Inr (sv, \<lparr>rp_error_code = re_error_code ev, rp_payload = re_payload ev\<rparr>))),
                          ctr2)))))"

section \<open>The substrate\<close>

definition katzenpost_oracle :: oracle_params where
  "katzenpost_oracle = \<lparr>hops = 3, mean_hop_delay = from_millis 50, drop_prob = 0, slot_interval = from_millis 30, mtu = 1200\<rparr>"

record katzenpost_substrate =
  kp_read :: rstream
  kp_write :: wstream
  kp_service :: service_id
  kp_oracle :: oracle_params

definition connect_service ::
  "cbor \<Rightarrow> io_error + tcp_stream \<Rightarrow> string \<Rightarrow> oracle_params \<Rightarrow> u64 \<Rightarrow> (kp_error + katzenpost_substrate \<times> handshake) \<times> u64" where
  "connect_service cb conn capability p ctr =
     (case connect_and_handshake cb conn ctr of
        (Inl e, ctr1) \<Rightarrow> (Inl e, ctr1)
      | (Inr (s, hs), ctr1) \<Rightarrow>
          (case resolve_service cb (hs_pki_doc hs) capability of
             Inl e \<Rightarrow> (Inl e, ctr1)
           | Inr sv \<Rightarrow> (Inr (\<lparr>kp_read = t_read s, kp_write = t_write s, kp_service = sv, kp_oracle = p\<rparr>, hs), ctr1)))"

definition kp_try_send ::
  "cbor \<Rightarrow> datagram \<Rightarrow> katzenpost_substrate \<times> u64 \<Rightarrow> (substrate_error + unit) \<times> katzenpost_substrate \<times> u64" where
  "kp_try_send cb dg st =
     (case st of (s, ctr) \<Rightarrow>
        (let (msg, ctr') = with_reply_surb (kp_service s) dg ctr;
             (r, w) = write_frame cb \<lparr>session_token = None, send_message = Some msg\<rparr> (kp_write s)
         in (case r of Inl e \<Rightarrow> Inl (Io (''katzenpost write: '' @ error_text cb e)) | Inr _ \<Rightarrow> Inr (),
             s\<lparr>kp_write := w\<rparr>, ctr')))"

definition kp_send :: "cbor \<Rightarrow> datagram \<Rightarrow> katzenpost_substrate \<times> u64 \<Rightarrow> katzenpost_substrate \<times> u64" where
  "kp_send cb dg st = snd (kp_try_send cb dg st)"

definition kp_try_recv :: "cbor \<Rightarrow> katzenpost_substrate \<Rightarrow> (substrate_error + datagram) \<times> katzenpost_substrate" where
  "kp_try_recv cb s =
     (case read_until_reply cb (kp_read s) of
        (Inl _, r) \<Rightarrow> (Inl Closed, s\<lparr>kp_read := r\<rparr>)
      | (Inr ev, r) \<Rightarrow> (Inr (re_payload ev), s\<lparr>kp_read := r\<rparr>))"

definition kp_recv :: "cbor \<Rightarrow> katzenpost_substrate \<Rightarrow> datagram option \<times> katzenpost_substrate" where
  "kp_recv cb s = (case kp_try_recv cb s of (Inl _, s') \<Rightarrow> (None, s') | (Inr dg, s') \<Rightarrow> (Some dg, s'))"

section \<open>Tokens are unique\<close>

lemma drop_bit_fixed: "z = drop_bit n z \<Longrightarrow> z = drop_bit (k * n) (z :: u64)"
proof (induction k)
  case (Suc k)
  then have "z = drop_bit (k * n) z" by simp
  also have "\<dots> = drop_bit (k * n) (drop_bit n z)" using Suc.prems by simp
  finally show ?case by (simp add: add.commute)
qed simp

lemma xor_zero: "a XOR b = 0 \<Longrightarrow> a = (b :: u64)"
proof -
  assume "a XOR b = 0"
  then have "(a XOR b) XOR b = b" by simp
  then show ?thesis by (simp add: xor.assoc)
qed

lemma xorshift_inj:
  assumes "0 < n" and "x XOR drop_bit n x = y XOR drop_bit n (y :: u64)"
  shows "x = y"
proof -
  have "(x XOR drop_bit n x) XOR (y XOR drop_bit n y) = 0" by (simp only: assms(2) xor_self_eq)
  then have "(x XOR y) XOR (drop_bit n x XOR drop_bit n y) = 0" by (simp only: xor.assoc xor.commute xor.left_commute)
  then have "x XOR y = drop_bit n (x XOR y)" unfolding drop_bit_xor by (rule xor_zero)
  from drop_bit_fixed [OF this, of 64] have "x XOR y = drop_bit (64 * n) (x XOR y)" .
  also have "\<dots> = 0" using assms(1) by (intro drop_bit_word_beyond) simp
  finally show ?thesis by (rule xor_zero)
qed

lemma odd_mult_inj:
  fixes m i :: u64
  assumes "m * i = 1" and "a * m = b * m"
  shows "a = b"
proof -
  have "a = (a * m) * i" using assms(1) by (simp add: mult.assoc)
  also have "\<dots> = b" using assms by (simp add: mult.assoc)
  finally show ?thesis .
qed

lemma step_inverse: "CTR_STEP * 0xF1DE83E19937733D = 1"
  by (simp add: CTR_STEP_def)

lemma to_le_word_inj: "to_le 8 (unat (x :: u64)) = to_le 8 (unat y) \<Longrightarrow> x = y"
  using to_be_inj [of 8 "unat x" "unat y"] unsigned_less [of x, where ?'a = nat] unsigned_less [of y, where ?'a = nat]
  by (simp add: to_le_def word_eq_iff_unsigned [where ?'a = nat])

lemma token_half_inj: "token_half x = token_half y \<Longrightarrow> x = y"
proof -
  assume eq: "token_half x = token_half y"
  have inv: "(0xBF58476D1CE4E5B9 :: u64) * 0x96DE1B173F119089 = 1" by simp
  let ?m = "\<lambda>x :: u64. (x XOR drop_bit 30 x) * 0xBF58476D1CE4E5B9"
  have "?m x XOR drop_bit 27 (?m x) = ?m y XOR drop_bit 27 (?m y)"
    using eq unfolding token_half_def Let_def by (rule to_le_word_inj)
  then have "?m x = ?m y" by (rule xorshift_inj [rotated]) simp
  then have "x XOR drop_bit 30 x = y XOR drop_bit 30 y" by (rule odd_mult_inj [OF inv])
  then show ?thesis by (rule xorshift_inj [rotated]) simp
qed

lemma length_token_half [simp]: "length (token_half x) = 8"
  by (simp add: token_half_def Let_def to_le_def)

fun tokens :: "nat \<Rightarrow> u64 \<Rightarrow> byte list list" where
  "tokens 0 ctr = []"
| "tokens (Suc n) ctr = (case instance_token ctr of (t, ctr') \<Rightarrow> t # tokens n ctr')"

lemma tokens_nth: "i < n \<Longrightarrow> take 8 (tokens n ctr ! i) = token_half (ctr + of_nat (2 * i) * CTR_STEP)"
proof (induction n arbitrary: ctr i)
  case (Suc n)
  show ?case
  proof (cases i)
    case 0
    then show ?thesis by (simp add: instance_token_def)
  next
    case (Suc j)
    with Suc.prems Suc.IH [of j "ctr + CTR_STEP + CTR_STEP"] show ?thesis
      by (simp add: instance_token_def algebra_simps)
  qed
qed simp

lemma length_tokens [simp]: "length (tokens n ctr) = n"
  by (induction n arbitrary: ctr) (simp_all add: instance_token_def)

lemma tokens_distinct:
  assumes "n \<le> 2 ^ 63"
  shows "distinct (tokens n ctr) \<and> list_all (\<lambda>t. length t = 16) (tokens n ctr)"
proof
  show "distinct (tokens n ctr)"
    unfolding distinct_conv_nth
  proof (intro allI impI)
    fix i j assume ij: "i < length (tokens n ctr)" "j < length (tokens n ctr)" "i \<noteq> j"
    show "tokens n ctr ! i \<noteq> tokens n ctr ! j"
    proof
      assume "tokens n ctr ! i = tokens n ctr ! j"
      then have "token_half (ctr + of_nat (2 * i) * CTR_STEP) = token_half (ctr + of_nat (2 * j) * CTR_STEP)"
        using ij tokens_nth [of i n ctr] tokens_nth [of j n ctr] by simp
      then have "of_nat (2 * i) * CTR_STEP = of_nat (2 * j) * CTR_STEP" by (auto dest!: token_half_inj)
      then have eq: "(of_nat (2 * i) :: u64) = of_nat (2 * j)" by (rule odd_mult_inj [OF step_inverse])
      have "2 * i < 2 ^ 64" "2 * j < 2 ^ 64" using ij assms by simp_all
      with arg_cong [OF eq, of unat] have "2 * i = 2 * j" by (simp add: unat_of_nat take_bit_nat_eq_self del: of_nat_mult)
      with ij show False by simp
    qed
  qed
  show "list_all (\<lambda>t. length t = 16) (tokens n ctr)"
    by (induction n arbitrary: ctr) (simp_all add: instance_token_def)
qed

text \<open>Request tokens are unique. Whatever the counter holds, up to \<open>2^63\<close> tokens drawn one after the other
  are pairwise different 16-byte strings: the mixing steps lose nothing and the counter does not repeat.\<close>

theorem tokens_unique:
  assumes "n \<le> 2 ^ 63"
  shows "distinct (tokens n ctr) \<and> list_all (\<lambda>t. length t = 16) (tokens n ctr)"
  using assms by (rule tokens_distinct)

theorem tokens_unique_witness: "distinct (tokens 3 CTR_INIT) \<and> list_all (\<lambda>t. length t = 16) (tokens 3 CTR_INIT)"
  by (rule tokens_unique) simp


section \<open>Receiving\<close>

definition kp_frame :: "byte list \<Rightarrow> byte list" where
  "kp_frame buf = to_be 4 (length buf) @ buf"

text \<open>A frame the daemon sends, with what it decodes to.\<close>

definition sends :: "cbor \<Rightarrow> byte list \<times> response \<Rightarrow> bool" where
  "sends cb f \<longleftrightarrow> length (fst f) \<le> 2 ^ 24 \<and> decode_response cb (fst f) = Some (snd f)"

definition stream_of :: "(byte list \<times> response) list \<Rightarrow> byte list" where
  "stream_of fs = concat (map (kp_frame \<circ> fst) fs)"

lemma stream_of_simps [simp]: "stream_of [] = []" "stream_of (f # fs) = kp_frame (fst f) @ stream_of fs"
  by (simp_all add: stream_of_def)

lemma read_frame_at:
  "sends cb f \<Longrightarrow> read_frame cb \<lparr>r_bytes = kp_frame (fst f) @ rest, r_end = e\<rparr> = (Inr (snd f), \<lparr>r_bytes = rest, r_end = e\<rparr>)"
  by (simp add: sends_def kp_frame_def read_frame_def read_exact_def be_nat_to_be)

lemma read_frame_end: "read_frame cb \<lparr>r_bytes = [], r_end = e\<rparr> = (Inl (KpIo e), \<lparr>r_bytes = [], r_end = e\<rparr>)"
  by (simp add: read_frame_def read_exact_def)

lemma read_until_reply_skips:
  "list_all (\<lambda>f. sends cb f \<and> message_reply_event (snd f) = None) fs \<Longrightarrow>
   read_until_reply cb \<lparr>r_bytes = stream_of fs @ rest, r_end = e\<rparr> = read_until_reply cb \<lparr>r_bytes = rest, r_end = e\<rparr>"
proof (induction fs)
  case (Cons f fs)
  then show ?case by (subst read_until_reply.simps) (simp add: read_frame_at)
qed simp

lemma read_until_reply_at:
  "sends cb f \<Longrightarrow> message_reply_event (snd f) = Some ev \<Longrightarrow>
   read_until_reply cb \<lparr>r_bytes = kp_frame (fst f) @ rest, r_end = e\<rparr> = (Inr ev, \<lparr>r_bytes = rest, r_end = e\<rparr>)"
  by (subst read_until_reply.simps) (simp add: read_frame_at)

lemma read_until_reply_shrinks:
  "read_until_reply cb r = (Inr ev, r') \<Longrightarrow> length (r_bytes r') < length (r_bytes r)"
proof (induction cb r rule: read_until_reply.induct)
  case (1 cb r)
  obtain x r1 where f: "read_frame cb r = (x, r1)" by fastforce
  with "1.prems" obtain resp where x: "x = Inr resp" by (subst (asm) read_until_reply.simps) (cases x; simp)
  note shorter = read_frame_shrinks [OF f [unfolded x]]
  show ?case
  proof (cases "message_reply_event resp")
    case None
    with "1.prems" f x have "read_until_reply cb r1 = (Inr ev, r')" by (subst (asm) read_until_reply.simps) simp
    with "1.IH" [OF f [symmetric] x None] shorter show ?thesis by simp
  next
    case (Some ev')
    with "1.prems" f x shorter show ?thesis by (subst (asm) read_until_reply.simps) simp
  qed
qed

text \<open>What a receive loop over the substrate gets before the transport reports its end.\<close>

function kp_recv_all :: "cbor \<Rightarrow> katzenpost_substrate \<Rightarrow> datagram list" where
  "kp_recv_all cb s = (case kp_try_recv cb s of (Inl _, _) \<Rightarrow> [] | (Inr dg, s') \<Rightarrow> dg # kp_recv_all cb s')"
  by pat_completeness auto
termination
  by (relation "measure (\<lambda>(cb, s). length (r_bytes (kp_read s)))")
     (auto simp: kp_try_recv_def dest: read_until_reply_shrinks split: prod.splits sum.splits)

declare kp_recv_all.simps [simp del]

definition replies :: "(byte list \<times> response) list \<Rightarrow> datagram list" where
  "replies fs = map re_payload (List.map_filter (message_reply_event \<circ> snd) fs)"

lemma kp_recv_all_skip:
  assumes "sends cb f" and "message_reply_event (snd f) = None"
  shows "kp_recv_all cb (s\<lparr>kp_read := \<lparr>r_bytes = kp_frame (fst f) @ rest, r_end = e\<rparr>\<rparr>) =
    kp_recv_all cb (s\<lparr>kp_read := \<lparr>r_bytes = rest, r_end = e\<rparr>\<rparr>)"
  using read_until_reply_skips [of cb "[f]" rest e] assms
  by (subst (1 2) kp_recv_all.simps) (simp add: kp_try_recv_def split: sum.split prod.split)

lemma kp_recv_all_reply:
  assumes "sends cb f" and "message_reply_event (snd f) = Some ev"
  shows "kp_recv_all cb (s\<lparr>kp_read := \<lparr>r_bytes = kp_frame (fst f) @ rest, r_end = e\<rparr>\<rparr>) =
    re_payload ev # kp_recv_all cb (s\<lparr>kp_read := \<lparr>r_bytes = rest, r_end = e\<rparr>\<rparr>)"
  using read_until_reply_at [OF assms] by (subst kp_recv_all.simps) (simp add: kp_try_recv_def)

lemma kp_recv_all_frames:
  assumes "list_all (sends cb) fs"
  shows "kp_recv_all cb (s\<lparr>kp_read := \<lparr>r_bytes = stream_of fs, r_end = e\<rparr>\<rparr>) = replies fs"
  using assms
proof (induction fs)
  case Nil
  have "read_until_reply cb \<lparr>r_bytes = [], r_end = e\<rparr> = (Inl (KpIo e), \<lparr>r_bytes = [], r_end = e\<rparr>)"
    by (subst read_until_reply.simps) (simp add: read_frame_end)
  then show ?case by (subst kp_recv_all.simps) (simp add: kp_try_recv_def replies_def List.map_filter_def)
next
  case (Cons f fs)
  then show ?case
    by (cases "message_reply_event (snd f)")
       (simp_all add: kp_recv_all_skip kp_recv_all_reply replies_def List.map_filter_def)
qed


text \<open>C24: the substrate delivers what the mixnet answered. Over any sequence of daemon frames, receiving until
  the end yields exactly the payloads of the reply events, in order; status, document and token events
  in between are skipped and none is lost or delivered twice.\<close>

theorem kp_delivers_replies:
  assumes "list_all (sends cb) fs"
  shows "kp_recv_all cb (s\<lparr>kp_read := \<lparr>r_bytes = stream_of fs, r_end = e\<rparr>\<rparr>) = replies fs"
  using assms by (rule kp_recv_all_frames)

text \<open>A small codec for examples: the first byte tells the event.\<close>

definition no_response :: response where
  "no_response = \<lparr>connection_status_event = None, new_pki_document_event = None, session_token_reply = None, message_reply_event = None\<rparr>"

definition demo_service_node :: mix_descriptor where
  "demo_service_node = \<lparr>identity_key = [9, 9], kaetzchen = [''echo'' \<mapsto> [''endpoint'' \<mapsto> CText ''+echo'']]\<rparr>"

definition demo_cbor :: cbor where
  "demo_cbor =
     \<lparr>encode_request = (\<lambda>q. Some (case send_message q of Some m \<Rightarrow> sm_payload m | None \<Rightarrow> [])),
      decode_response = (\<lambda>b. case b of
          [] \<Rightarrow> None
        | t # p \<Rightarrow> Some (if t = 0 then no_response\<lparr>connection_status_event := Some True\<rparr>
                        else if t = 1 then no_response\<lparr>new_pki_document_event := Some p\<rparr>
                        else if t = 2 then no_response\<lparr>session_token_reply := Some False\<rparr>
                        else no_response\<lparr>message_reply_event := Some \<lparr>re_payload = p, re_error_code = 0\<rparr>\<rparr>)),
      decode_value = (\<lambda>b. case b of [] \<Rightarrow> None | t # p \<Rightarrow> Some (if t = 0 then CMap [] else CBytes p)),
      decode_service_nodes = (\<lambda>b. Some [[], b]),
      decode_descriptor = (\<lambda>b. if b = [] then None else Some demo_service_node),
      sum256 = rev, error_text = (\<lambda>_. [])\<rparr>"

definition demo_kp :: katzenpost_substrate where
  "demo_kp = \<lparr>kp_read = \<lparr>r_bytes = [], r_end = UnexpectedEof\<rparr>, kp_write = \<lparr>w_out = [], w_faults = []\<rparr>,
     kp_service = \<lparr>destination_id_hash = [], recipient_queue_id = []\<rparr>, kp_oracle = katzenpost_oracle\<rparr>"

definition demo_frames :: "(byte list \<times> response) list" where
  "demo_frames = map (\<lambda>b. (b, the (decode_response demo_cbor b))) [[0], [3, 5, 6], [2], [3, 7]]"

theorem kp_delivers_replies_witness:
  "kp_recv_all demo_cbor (demo_kp\<lparr>kp_read := \<lparr>r_bytes = stream_of demo_frames, r_end = UnexpectedEof\<rparr>\<rparr>) = [[5, 6], [7]]"
proof -
  have ok: "list_all (sends demo_cbor) demo_frames" by (simp add: demo_frames_def sends_def demo_cbor_def)
  show ?thesis
    unfolding kp_delivers_replies [OF ok]
    by (simp add: replies_def demo_frames_def demo_cbor_def no_response_def List.map_filter_def)
qed

section \<open>Finding the service\<close>

text \<open>What a service node offers under a capability: its identity key and endpoint.\<close>

definition offered :: "cbor \<Rightarrow> string \<Rightarrow> byte list \<Rightarrow> (byte list \<times> string) option" where
  "offered cb capability raw =
     Option.bind (decode_descriptor cb raw) (\<lambda>node.
     Option.bind (kaetzchen node capability) (\<lambda>inner.
     case inner ''endpoint'' of Some (CText ep) \<Rightarrow> Some (identity_key node, ep) | _ \<Rightarrow> None))"

lemma find_service_spec:
  "find_service cb capability nodes =
   (case List.map_filter (offered cb capability) nodes of
      [] \<Rightarrow> Inl (NoService capability)
    | (key, ep) # _ \<Rightarrow> if key = [] then Inl (NoIdentityKey capability)
                      else Inr \<lparr>destination_id_hash = sum256 cb key, recipient_queue_id = string_bytes ep\<rparr>)"
proof (induction nodes)
  case Nil
  show ?case by (simp add: List.map_filter_def)
next
  case (Cons raw nodes)
  then show ?case
    by (simp add: List.map_filter_def offered_def split: option.split cbor_value.split)
qed

lemma peel_wrapped:
  assumes "\<And>b. decode_value cb (wrap b) = Some (CBytes b)"
  shows "peel_document cb n ((wrap ^^ k) doc) = (if k < n then peel_document cb (n - k) doc else Inl PkiTooDeep)"
proof (induction k arbitrary: n)
  case 0
  then show ?case by (cases n) simp_all
next
  case (Suc k)
  then show ?case by (cases n) (simp_all add: assms)
qed

text \<open>C25: finding the service. For a document wrapped in byte strings \<open>k\<close> times, with a CBOR library that reads
  a wrapped byte string back, the search is the first node that offers a text endpoint for the
  capability, hashed; an undecodable node is skipped, an empty key is an error, and from four
  wrappers on the document is refused.\<close>

theorem resolve_service_spec:
  assumes "\<And>b. decode_value cb (wrap b) = Some (CBytes b)"
    and "decode_value cb doc = Some (CMap m)" and "decode_service_nodes cb doc = Some nodes"
  shows "resolve_service cb ((wrap ^^ k) doc) capability =
    (if k < 4
     then (case List.map_filter (offered cb capability) nodes of
             [] \<Rightarrow> Inl (NoService capability)
           | (key, ep) # _ \<Rightarrow> if key = [] then Inl (NoIdentityKey capability)
                             else Inr \<lparr>destination_id_hash = sum256 cb key, recipient_queue_id = string_bytes ep\<rparr>)
     else Inl PkiTooDeep)"
proof (cases "k < 4")
  case True
  then obtain j where "4 - k = Suc j" by (cases "4 - k") simp_all
  with True assms(2,3) show ?thesis
    by (simp add: resolve_service_def decode_document_def peel_wrapped [OF assms(1)] find_service_spec)
next
  case False
  then show ?thesis by (simp add: resolve_service_def decode_document_def peel_wrapped [OF assms(1)])
qed

theorem resolve_service_spec_witness:
  "resolve_service demo_cbor (((#) 1 ^^ 2) [0, 4]) ''echo'' =
   Inr \<lparr>destination_id_hash = rev [9, 9], recipient_queue_id = string_bytes ''+echo''\<rparr>"
proof -
  have off: "List.map_filter (offered demo_cbor ''echo'') [[], [0, 4]] = [([9, 9], ''+echo'')]"
    by (simp add: List.map_filter_def offered_def demo_cbor_def demo_service_node_def)
  have w: "decode_value demo_cbor (1 # b) = Some (CBytes b)" for b by (simp add: demo_cbor_def)
  have d: "decode_value demo_cbor [0, 4] = Some (CMap [])" "decode_service_nodes demo_cbor [0, 4] = Some [[], [0, 4]]"
    "sum256 demo_cbor = rev" by (simp_all add: demo_cbor_def)
  from resolve_service_spec [OF w d(1,2), of 2 "''echo''", unfolded off d(3)] show ?thesis by simp
qed

section \<open>A session\<close>

lemma write_frame_healthy:
  "encode_request cb req = Some buf \<Longrightarrow> w_faults w = [] \<Longrightarrow>
   write_frame cb req w = (Inr (), w\<lparr>w_out := w_out w @ kp_frame buf\<rparr>)"
  by (simp add: write_frame_def io_context_def io_bind_def flush_def kp_frame_def)

lemma handshake_ok:
  assumes "sends cb f1" and "sends cb f2" and "sends cb f3" and "connection_status_event (snd f1) = Some up"
    and "new_pki_document_event (snd f2) = Some doc" and "session_token_reply (snd f3) = Some resumed"
    and "encode_request cb \<lparr>session_token = Some token, send_message = None\<rparr> = Some hello"
    and "w_faults w = []"
  shows "handshake_dialogue cb token \<lparr>t_read = \<lparr>r_bytes = stream_of [f1, f2, f3] @ rest, r_end = e\<rparr>, t_write = w\<rparr> =
    (Inr \<lparr>hs_is_connected = up, hs_pki_doc = doc, hs_session_resumed = resumed\<rparr>,
     \<lparr>t_read = \<lparr>r_bytes = rest, r_end = e\<rparr>, t_write = w\<lparr>w_out := w_out w @ kp_frame hello\<rparr>\<rparr>)"
  using assms
  by (simp add: handshake_dialogue_def io_bind_def on_read_def on_write_def ok_or_def io_return_def read_frame_at write_frame_healthy)

text \<open>C23: a session with the daemon. When the daemon announces its status, a document that has the service, and
  the session, connecting yields a substrate bound to that service, having written exactly one frame with
  a fresh token; the datagram sent next goes out as exactly one frame, addressed to the service with a
  reply block under another token, and the replies that follow are what is received.\<close>

theorem kp_session:
  assumes frames: "sends cb f1" "sends cb f2" "sends cb f3" "list_all (sends cb) fs"
    and events: "connection_status_event (snd f1) = Some up" "new_pki_document_event (snd f2) = Some doc"
      "session_token_reply (snd f3) = Some resumed"
    and service: "resolve_service cb doc capability = Inr sv"
    and hello: "encode_request cb \<lparr>session_token = Some (fst (instance_token ctr)), send_message = None\<rparr> = Some hello"
    and msg: "encode_request cb \<lparr>session_token = None, send_message = Some \<lparr>sm_with_surb = True,
        sm_surbid = Some (fst (instance_token (snd (instance_token ctr)))), sm_destination_id_hash = destination_id_hash sv,
        sm_recipient_queue_id = recipient_queue_id sv, sm_payload = dg\<rparr>\<rparr> = Some buf"
    and sock: "sock = \<lparr>t_read = \<lparr>r_bytes = stream_of ([f1, f2, f3] @ fs), r_end = e\<rparr>, t_write = \<lparr>w_out = [], w_faults = []\<rparr>\<rparr>"
  shows "\<exists>s hs s' ctr1 ctr2. connect_service cb (Inr sock) capability p ctr = (Inr (s, hs), ctr1) \<and>
    kp_service s = sv \<and> hs_is_connected hs = up \<and> w_out (kp_write s) = kp_frame hello \<and>
    kp_try_send cb dg (s, ctr1) = (Inr (), s', ctr2) \<and> w_out (kp_write s') = kp_frame hello @ kp_frame buf \<and>
    kp_recv_all cb s' = replies fs \<and> fst (instance_token ctr) \<noteq> fst (instance_token ctr1)"
proof -
  let ?w = "\<lparr>w_out = kp_frame hello, w_faults = []\<rparr>" and ?r = "\<lparr>r_bytes = stream_of fs, r_end = e\<rparr>"
  let ?s = "\<lparr>kp_read = ?r, kp_write = ?w, kp_service = sv, kp_oracle = p\<rparr>"
  obtain token ctr1 where t1: "instance_token ctr = (token, ctr1)" by fastforce
  obtain token' ctr2 where t2: "instance_token ctr1 = (token', ctr2)" by fastforce
  have "handshake_dialogue cb token sock = (Inr \<lparr>hs_is_connected = up, hs_pki_doc = doc, hs_session_resumed = resumed\<rparr>,
      \<lparr>t_read = ?r, t_write = ?w\<rparr>)"
    using handshake_ok [OF frames(1-3) events hello, of "\<lparr>w_out = [], w_faults = []\<rparr>" "stream_of fs" e]
    by (simp add: t1 sock stream_of_def)
  then have c: "connect_service cb (Inr sock) capability p ctr = (Inr (?s, \<lparr>hs_is_connected = up, hs_pki_doc = doc, hs_session_resumed = resumed\<rparr>), ctr1)"
    by (simp add: connect_service_def connect_and_handshake_def t1 service)
  have s: "kp_try_send cb dg (?s, ctr1) = (Inr (), ?s\<lparr>kp_write := ?w\<lparr>w_out := kp_frame hello @ kp_frame buf\<rparr>\<rparr>, ctr2)"
    using msg write_frame_healthy [of cb _ buf ?w] by (simp add: kp_try_send_def with_reply_surb_def t1 t2)
  have "kp_recv_all cb (?s\<lparr>kp_write := ?w\<lparr>w_out := kp_frame hello @ kp_frame buf\<rparr>\<rparr>) = replies fs"
    using kp_recv_all_frames [OF frames(4), where s = "?s\<lparr>kp_write := ?w\<lparr>w_out := kp_frame hello @ kp_frame buf\<rparr>\<rparr>" and e = e] by simp
  moreover have "distinct (tokens 2 ctr)" by (rule conjunct1 [OF tokens_distinct]) simp
  then have "token \<noteq> token'" by (simp add: numeral_2_eq_2 t1 t2)
  ultimately show ?thesis
    using c s t1 t2 by (intro exI [of _ ?s] exI conjI) auto
qed


lemma demo_response [simp]:
  "decode_response demo_cbor [0] = Some (no_response\<lparr>connection_status_event := Some True\<rparr>)"
  "decode_response demo_cbor (1 # b) = Some (no_response\<lparr>new_pki_document_event := Some b\<rparr>)"
  "decode_response demo_cbor [2] = Some (no_response\<lparr>session_token_reply := Some False\<rparr>)"
  "decode_response demo_cbor (3 # b) = Some (no_response\<lparr>message_reply_event := Some \<lparr>re_payload = b, re_error_code = 0\<rparr>\<rparr>)"
  by (simp_all add: demo_cbor_def)

lemma demo_resolve: "resolve_service demo_cbor [0] ''echo'' = Inr \<lparr>destination_id_hash = rev [9, 9], recipient_queue_id = string_bytes ''+echo''\<rparr>"
  by (simp add: resolve_service_def decode_document_def numeral_eq_Suc demo_cbor_def demo_service_node_def)

theorem kp_session_witness:
  "\<exists>s hs s' ctr1 ctr2. connect_service demo_cbor (Inr \<lparr>t_read = \<lparr>r_bytes = stream_of (map (\<lambda>b. (b, the (decode_response demo_cbor b)))
        [[0], [1, 0], [2], [3, 8]]), r_end = UnexpectedEof\<rparr>, t_write = \<lparr>w_out = [], w_faults = []\<rparr>\<rparr>) ''echo'' katzenpost_oracle CTR_INIT =
      (Inr (s, hs), ctr1) \<and>
    kp_try_send demo_cbor [5] (s, ctr1) = (Inr (), s', ctr2) \<and> w_out (kp_write s') = kp_frame [] @ kp_frame [5] \<and>
    kp_recv_all demo_cbor s' = [[8]]"
proof -
  let ?f = "\<lambda>b. (b, the (decode_response demo_cbor b))"
  have ok: "sends demo_cbor (?f [0])" "sends demo_cbor (?f [1, 0])" "sends demo_cbor (?f [2])" "list_all (sends demo_cbor) [?f [3, 8]]"
    by (simp_all add: sends_def)
  have enc: "encode_request demo_cbor q = Some (case send_message q of Some m \<Rightarrow> sm_payload m | None \<Rightarrow> [])" for q
    by (simp add: demo_cbor_def)
  have ev: "connection_status_event (snd (?f [0])) = Some True" "new_pki_document_event (snd (?f [1, 0])) = Some [0]"
    "session_token_reply (snd (?f [2])) = Some False" by simp_all
  have r: "replies [?f [3, 8]] = [[8]]" by (simp add: replies_def List.map_filter_def)
  from kp_session [OF ok ev demo_resolve enc enc refl, where ctr = CTR_INIT and dg = "[5]" and e = UnexpectedEof and p = katzenpost_oracle]
  show ?thesis unfolding r by auto
qed


end
