(* ===== verification/Hopr.thy ===== *)
theory Hopr
  imports Rust_Io Utf8
begin

text \<open>
  The HOPR substrate, \<^verbatim>\<open>substrates/quicmix-hopr/src/lib.rs\<close>: opening a UDP session on a node through its
  HTTP API, the typed errors, and datagrams over the session's socket.

  The HTTP client is a library: what it makes of a request is the parameter \<open>post\<close>. The connected UDP
  socket is the datagrams sent, the outcomes of the sends to come (the text of an error), and what
  arrives.
\<close>

datatype reqwest_error = ReqTimeout | ReqConnect | ReqOther string

fun map_reqwest :: "reqwest_error \<Rightarrow> substrate_error" where
  "map_reqwest ReqTimeout = Timeout"
| "map_reqwest ReqConnect = Closed"
| "map_reqwest (ReqOther e) = Io (''hopr http: '' @ e)"

definition is_success :: "nat \<Rightarrow> bool" where
  "is_success c \<longleftrightarrow> 200 \<le> c \<and> c < 300"

definition is_server_error :: "nat \<Rightarrow> bool" where
  "is_server_error c \<longleftrightarrow> 500 \<le> c \<and> c < 600"

definition status_error :: "nat \<Rightarrow> substrate_error" where
  "status_error c =
     (if c = 401 \<or> c = 403 then AuthFailed
      else if is_server_error c then RemoteRejected
      else Io (''hopr HTTP '' @ show_nat c))"

definition hopr_oracle :: "byte \<Rightarrow> oracle_params" where
  "hopr_oracle h =
     \<lparr>hops = of_nat (max (unat h) 1), mean_hop_delay = from_millis 100, drop_prob = 0, slot_interval = from_millis 50, mtu = 1200\<rparr>"

record create_session_body =
  cs_capabilities :: "string list"
  cs_destination :: string
  cs_listen_host :: string
  cs_forward_hops :: byte
  cs_return_hops :: byte
  cs_target_plain :: string
  cs_response_buffer :: string

record session_resp =
  ss_protocol :: string
  ss_ip :: string
  ss_port :: u16

record session_opts =
  so_hops :: byte
  so_target :: string
  so_listen_host :: string
  so_data_host :: "string option"
  so_http_timeout :: duration

definition default_session_opts :: session_opts where
  "default_session_opts = \<lparr>so_hops = 0, so_target = ''127.0.0.1:9999'', so_listen_host = ''0.0.0.0:0'', so_data_host = None,
     so_http_timeout = from_secs 30\<rparr>"

record udp_socket =
  us_peer :: socket_addr
  us_sent :: "datagram list"
  us_faults :: "string option list"
  us_arriving :: "(io_error + datagram) list"

record hopr_substrate =
  hp_api :: string
  hp_token :: string
  hp_sock :: udp_socket
  hp_session :: session_resp
  hp_oracle :: oracle_params

datatype hopr_error =
    SessionHttp substrate_error | SessionRefused substrate_error string | MalformedSession | BadSessionAddr string u16
  | SessionSocket io_error

text \<open>A response of the node: its status, its text if readable, and the session its JSON holds, if any.\<close>

record session_response =
  sr_status :: nat
  sr_text :: "string option"
  sr_session :: "session_resp option"

type_synonym session_post = "string \<Rightarrow> string \<Rightarrow> duration \<Rightarrow> create_session_body \<Rightarrow> reqwest_error + session_response"

definition session_body :: "string \<Rightarrow> session_opts \<Rightarrow> create_session_body" where
  "session_body destination opts =
     \<lparr>cs_capabilities = [''Segmentation''], cs_destination = destination, cs_listen_host = so_listen_host opts,
      cs_forward_hops = so_hops opts, cs_return_hops = so_hops opts, cs_target_plain = so_target opts,
      cs_response_buffer = ''4MiB''\<rparr>"

definition data_host :: "session_opts \<Rightarrow> session_resp \<Rightarrow> string" where
  "data_host opts session =
     (case so_data_host opts of
        Some h \<Rightarrow> h
      | None \<Rightarrow> if ss_ip session = ''0.0.0.0'' \<or> ss_ip session = ''::'' then ''127.0.0.1'' else ss_ip session)"

text \<open>The socket is the outcome of binding it and connecting it to the session's address.\<close>

definition hopr_connect ::
  "session_post \<Rightarrow> (socket_addr \<Rightarrow> io_error + udp_socket) \<Rightarrow> string \<Rightarrow> string \<Rightarrow> string \<Rightarrow> session_opts \<Rightarrow> oracle_params \<Rightarrow>
   hopr_error + hopr_substrate" where
  "hopr_connect post udp_connect api token destination opts p =
     (case post (api @ ''/api/v4/session/udp'') token (so_http_timeout opts) (session_body destination opts) of
        Inl e \<Rightarrow> Inl (SessionHttp (map_reqwest e))
      | Inr resp \<Rightarrow>
          (if \<not> is_success (sr_status resp)
           then Inl (SessionRefused (status_error (sr_status resp)) (trim (case sr_text resp of Some t \<Rightarrow> t | None \<Rightarrow> [])))
           else case sr_session resp of
             None \<Rightarrow> Inl MalformedSession
           | Some session \<Rightarrow>
               (let host = data_host opts session in
                case parse_socket_addr (host @ '':'' @ show_nat (unat (ss_port session))) of
                  None \<Rightarrow> Inl (BadSessionAddr host (ss_port session))
                | Some addr \<Rightarrow>
                    (case udp_connect addr of
                       Inl e \<Rightarrow> Inl (SessionSocket e)
                     | Inr sock \<Rightarrow>
                         Inr \<lparr>hp_api = api, hp_token = token, hp_sock = sock, hp_session = session, hp_oracle = p\<rparr>))))"

definition session_endpoint :: "hopr_substrate \<Rightarrow> string \<times> u16" where
  "session_endpoint s = (ss_ip (hp_session s), ss_port (hp_session s))"

text \<open>The request that \<open>close\<close> makes; its outcome is ignored.\<close>

definition close_url :: "hopr_substrate \<Rightarrow> string" where
  "close_url s = hp_api s @ ''/api/v4/session/'' @ ss_protocol (hp_session s) @ ''/'' @ ss_ip (hp_session s) @ ''/'' @
     show_nat (unat (ss_port (hp_session s)))"

section \<open>Datagrams\<close>

definition udp_send :: "datagram \<Rightarrow> (udp_socket, string, unit) io" where
  "udp_send dg s =
     (case us_faults s of
        Some e # fs \<Rightarrow> (Inl e, s\<lparr>us_faults := fs\<rparr>)
      | fs \<Rightarrow> (Inr (), s\<lparr>us_sent := us_sent s @ [dg], us_faults := tl fs\<rparr>))"

text \<open>A receive into a buffer of \<open>n\<close> bytes; \<open>None\<close> while nothing has arrived.\<close>

definition udp_recv :: "nat \<Rightarrow> udp_socket \<Rightarrow> ((io_error + datagram) \<times> udp_socket) option" where
  "udp_recv n s =
     (case us_arriving s of
        [] \<Rightarrow> None
      | x # xs \<Rightarrow> Some (map_sum id (take n) x, s\<lparr>us_arriving := xs\<rparr>))"

definition hopr_try_send :: "datagram \<Rightarrow> hopr_substrate \<Rightarrow> (substrate_error + unit) \<times> hopr_substrate" where
  "hopr_try_send dg s =
     (case udp_send dg (hp_sock s) of
        (Inl e, k) \<Rightarrow> (Inl (Io (''hopr session send: '' @ e)), s\<lparr>hp_sock := k\<rparr>)
      | (Inr _, k) \<Rightarrow> (Inr (), s\<lparr>hp_sock := k\<rparr>))"

definition hopr_try_recv :: "hopr_substrate \<Rightarrow> ((substrate_error + datagram) \<times> hopr_substrate) option" where
  "hopr_try_recv s =
     map_option (\<lambda>(x, k). (map_sum (\<lambda>_. Closed) id x, s\<lparr>hp_sock := k\<rparr>)) (udp_recv 65535 (hp_sock s))"

definition hopr_send :: "datagram \<Rightarrow> hopr_substrate \<Rightarrow> hopr_substrate" where
  "hopr_send dg s = snd (hopr_try_send dg s)"

definition hopr_recv :: "hopr_substrate \<Rightarrow> (datagram option \<times> hopr_substrate) option" where
  "hopr_recv s = map_option (\<lambda>(x, s'). (case x of Inr dg \<Rightarrow> Some dg | Inl _ \<Rightarrow> None, s')) (hopr_try_recv s)"

section \<open>Opening a session\<close>

lemma show_v4_not_wild6: "show_v4 a b c d \<noteq> ''::''"
proof -
  have pos: "0 < length (show_nat n)" for n by simp
  have "length (show_v4 a b c d) \<ge> 7"
    using pos [of "unat a"] pos [of "unat b"] pos [of "unat c"] pos [of "unat d"]
    unfolding show_v4_def length_append list.size by linarith
  then show ?thesis by auto
qed

lemma wildcard_v4: "show_v4 a b c d = ''0.0.0.0'' \<longleftrightarrow> a = 0 \<and> b = 0 \<and> c = 0 \<and> d = 0"
proof
  have z: "''0.0.0.0'' = show_v4 0 0 0 0" by (simp add: show_v4_def) code_simp
  assume "show_v4 a b c d = ''0.0.0.0''"
  then have "read_ipv4 (show_v4 a b c d @ []) = read_ipv4 (show_v4 0 0 0 0 @ [])" by (simp only: z)
  moreover have "non_digit []" by simp
  ultimately show "a = 0 \<and> b = 0 \<and> c = 0 \<and> d = 0" by (simp only: read_ipv4_show prod.inject option.inject)
qed (simp add: show_v4_def, code_simp)

lemma hopr_send_all:
  "us_faults (hp_sock s) = [] \<Longrightarrow> us_sent (hp_sock (fold hopr_send dgs s)) = us_sent (hp_sock s) @ dgs"
  by (induction dgs arbitrary: s) (simp_all add: hopr_send_def hopr_try_send_def udp_send_def)

lemma hopr_connect_v4:
  assumes "post (api @ ''/api/v4/session/udp'') token (so_http_timeout opts) (session_body destination opts) = Inr resp"
    and "is_success (sr_status resp)" and "sr_session resp = Some session" and "ss_ip session = show_v4 a b c d"
    and "so_data_host opts = None"
    and "udp_connect (SockAddr (if a = 0 \<and> b = 0 \<and> c = 0 \<and> d = 0 then V4 127 0 0 1 else V4 a b c d) (ss_port session)) = Inr sock"
  shows "hopr_connect post udp_connect api token destination opts p =
    Inr \<lparr>hp_api = api, hp_token = token, hp_sock = sock, hp_session = session, hp_oracle = p\<rparr>"
proof -
  define ip where "ip = (if a = 0 \<and> b = 0 \<and> c = 0 \<and> d = 0 then V4 127 0 0 1 else V4 a b c d)"
  have lo: "''127.0.0.1'' = show_v4 127 0 0 1" by (simp add: show_v4_def) code_simp
  have host: "data_host opts session = show_v4 (if ip = V4 a b c d then a else 127) (if ip = V4 a b c d then b else 0)
      (if ip = V4 a b c d then c else 0) (if ip = V4 a b c d then d else 1)"
    unfolding ip_def using assms(4,5) by (auto simp: data_host_def wildcard_v4 show_v4_not_wild6 lo)
  have "parse_socket_addr (data_host opts session @ '':'' @ show_nat (unat (ss_port session))) = Some (SockAddr ip (ss_port session))"
    unfolding host by (simp only: parse_show_socket_v4 flip: show_socket_v4_def) (auto simp: ip_def)
  with assms show ?thesis by (simp add: hopr_connect_def Let_def flip: ip_def)
qed

text \<open>Opening a session. A node that answers with a session on an IPv4 address is reached exactly there, or on
  the loopback address when it answered with the wildcard, and on the port it gave; the substrate then
  hands over exactly the datagrams sent, in order.\<close>

theorem hopr_session_opens:
  assumes "post (api @ ''/api/v4/session/udp'') token (so_http_timeout opts) (session_body destination opts) = Inr resp"
    and "is_success (sr_status resp)" and "sr_session resp = Some session" and "ss_ip session = show_v4 a b c d"
    and "so_data_host opts = None"
    and "udp_connect (SockAddr (if a = 0 \<and> b = 0 \<and> c = 0 \<and> d = 0 then V4 127 0 0 1 else V4 a b c d) (ss_port session)) = Inr sock"
    and "us_faults sock = []" and "us_sent sock = []"
  shows "\<exists>s. hopr_connect post udp_connect api token destination opts p = Inr s \<and> hp_session s = session \<and>
    us_sent (hp_sock (fold hopr_send dgs s)) = dgs"
  using hopr_connect_v4 [where post = post and udp_connect = udp_connect, OF assms(1-6)] assms(7,8) by (simp add: hopr_send_all)

definition demo_session :: session_resp where
  "demo_session = \<lparr>ss_protocol = ''udp'', ss_ip = show_v4 0 0 0 0, ss_port = 9999\<rparr>"

theorem hopr_session_opens_witness:
  "\<exists>s. hopr_connect (\<lambda>_ _ _ _. Inr \<lparr>sr_status = 201, sr_text = None, sr_session = Some demo_session\<rparr>)
      (\<lambda>a. Inr \<lparr>us_peer = a, us_sent = [], us_faults = [], us_arriving = []\<rparr>) ''http://n'' ''t'' ''0x1'' default_session_opts (hopr_oracle 1) = Inr s \<and>
    hp_session s = demo_session \<and> us_sent (hp_sock (fold hopr_send [[1], [2, 3]] s)) = [[1], [2, 3]]"
  by (rule hopr_session_opens [where resp = "\<lparr>sr_status = 201, sr_text = None, sr_session = Some demo_session\<rparr>" and a = 0 and b = 0 and c = 0 and d = 0 and
        sock = "\<lparr>us_peer = SockAddr (V4 127 0 0 1) 9999, us_sent = [], us_faults = [], us_arriving = []\<rparr>"])
     (simp_all add: is_success_def demo_session_def default_session_opts_def)

text \<open>
  An address that begins as an IPv6 address does (digits, then a colon or a letter) and is not bracketed
  is no socket address: a session on an IPv6 address is refused.
\<close>

lemma unbracketed_refused:
  assumes "list_all (\<lambda>x. to_digit 10 x \<noteq> None) ds" and "to_digit 10 c = None" and "c \<noteq> CHR ''.''" and "hd (ds @ [c]) \<noteq> CHR ''[''"
  shows "parse_socket_addr (ds @ c # rest) = None"
proof -
  have "take_digits 10 (ds @ c # rest) = (map (\<lambda>x. the (to_digit 10 x)) ds, c # rest)"
    using assms(1,2) by (intro take_digits_append) (simp_all add: non_digit_def)
  then have "read_octet False (ds @ c # rest) = None \<or> (\<exists>v. read_octet False (ds @ c # rest) = Some (v, c # rest))"
    by (auto simp: read_octet_def read_sep_def read_number_def Let_def)
  then have v4: "read_ipv4 (ds @ c # rest) = None"
    using assms(3) by (auto simp: read_ipv4_def read_octet_def read_sep_def read_char_def)
  have "read_char CHR ''['' (ds @ c # rest) = None" using assms(4) by (cases ds) (auto simp: read_char_def)
  with v4 show ?thesis by (simp add: parse_socket_addr_def parse_all_def or_else_def read_socket_v4_def read_socket_v6_def)
qed

lemma ipv6_session_refused:
  assumes "so_data_host opts = None" and "ss_ip session = ''2001:db8::1''" and "is_success (sr_status resp)" and "sr_session resp = Some session"
  shows "hopr_connect (\<lambda>_ _ _ _. Inr resp) udp_connect api token destination opts p = Inl (BadSessionAddr ''2001:db8::1'' (ss_port session))"
proof -
  have "parse_socket_addr (''2001'' @ CHR '':'' # ''db8::1'' @ '':'' @ show_nat (unat (ss_port session))) = None"
    by (rule unbracketed_refused) (simp_all add: to_digit_def)
  with assms show ?thesis by (simp add: hopr_connect_def data_host_def)
qed

end
