(* ===== verification/Nym.thy ===== *)
theory Nym
  imports Relay
begin

text \<open>
  The Nym substrate, \<^verbatim>\<open>substrates/quicmix-nym/src/lib.rs\<close>: the client transport, its UDP bridge and front
  factory, and the gateway that gives every anonymous sender a socket of its own towards the QUIC server
  and ships the server's answers back through the reply blocks of that sender.

  The Nym client is a library: recipients and sender tags are type parameters, parsing an address and
  starting a client are parameters. What a client sent is a list, with the outcomes of its sends to come;
  what reaches it is a list that ends when the client shuts down.
\<close>

definition nym_oracle :: oracle_params where
  "nym_oracle = \<lparr>hops = 3, mean_hop_delay = from_millis 470, drop_prob = 0, slot_interval = from_millis 158, mtu = 1200\<rparr>"

section \<open>The client\<close>

record 'r nym_client =
  nc_sent :: "('r \<times> datagram \<times> nat) list"
  nc_faults :: "string option list"
  nc_incoming :: "datagram list"
  nc_shut_down :: bool

record 'r nym_substrate =
  ns_client :: "'r nym_client"
  ns_recipient :: 'r
  ns_surbs :: nat
  ns_oracle :: oracle_params

datatype nym_error = InvalidRecipient string | ClientFailed string

text \<open>The address is parsed before a client is started.\<close>

definition nym_connect ::
  "(string \<Rightarrow> 'r option) \<Rightarrow> ('w, string, 'r nym_client) io \<Rightarrow> string \<Rightarrow> nat \<Rightarrow> oracle_params \<Rightarrow> ('w, nym_error, 'r nym_substrate) io" where
  "nym_connect parse_recipient build_client gateway surbs p =
     (case parse_recipient gateway of
        None \<Rightarrow> io_fail (InvalidRecipient gateway)
      | Some r \<Rightarrow>
          io_bind (io_context ClientFailed build_client) (\<lambda>c.
          io_return \<lparr>ns_client = c, ns_recipient = r, ns_surbs = surbs, ns_oracle = p\<rparr>))"

definition nym_try_send :: "datagram \<Rightarrow> 'r nym_substrate \<Rightarrow> (substrate_error + unit) \<times> 'r nym_substrate" where
  "nym_try_send dg s =
     (let c = ns_client s in
      case nc_faults c of
        Some e # fs \<Rightarrow> (Inl (Io (''nym send_message: '' @ e)), s\<lparr>ns_client := c\<lparr>nc_faults := fs\<rparr>\<rparr>)
      | fs \<Rightarrow> (Inr (), s\<lparr>ns_client := c\<lparr>nc_sent := nc_sent c @ [(ns_recipient s, dg, ns_surbs s)], nc_faults := tl fs\<rparr>\<rparr>))"

definition nym_try_recv :: "'r nym_substrate \<Rightarrow> ((substrate_error + datagram) \<times> 'r nym_substrate) option" where
  "nym_try_recv s =
     (let c = ns_client s in
      case nc_incoming c of
        m # ms \<Rightarrow> Some (Inr m, s\<lparr>ns_client := c\<lparr>nc_incoming := ms\<rparr>\<rparr>)
      | [] \<Rightarrow> if nc_shut_down c then Some (Inl Closed, s) else None)"

definition nym_send :: "datagram \<Rightarrow> 'r nym_substrate \<Rightarrow> 'r nym_substrate" where
  "nym_send dg s = snd (nym_try_send dg s)"

definition nym_recv :: "'r nym_substrate \<Rightarrow> (datagram option \<times> 'r nym_substrate) option" where
  "nym_recv s = map_option (\<lambda>(x, s'). (case x of Inr dg \<Rightarrow> Some dg | Inl _ \<Rightarrow> None, s')) (nym_try_recv s)"

text \<open>
  The client bridge: its two loops are those of the front in theory Relay (\<open>fb_recv\<close>, \<open>fb_send\<close>,
  \<open>fb_reply\<close>).
\<close>

definition spawn_client_bridge ::
  "nat \<Rightarrow> 'r nym_substrate \<Rightarrow> io_error + socket_addr \<Rightarrow> (io_error + 'r nym_substrate front_bridge) may_panic" where
  "spawn_client_bridge now s bound =
     (let p = ns_oracle s in
      do {
        depth \<leftarrow> bdp_packets p;
        let sub = new_substrate now Datagram p s depth;
        Some (case bound of
                Inl e \<Rightarrow> Inl e
              | Inr front_addr \<Rightarrow> Inr \<lparr>fb_addr = front_addr, fb_sub = sub, fb_port = new_port, fb_running = True\<rparr>)
      })"

text \<open>A front factory: every call starts a client of its own behind a bridge of its own.\<close>

definition nym_front ::
  "(string \<Rightarrow> 'r option) \<Rightarrow> ('w, string, 'r nym_client) io \<Rightarrow> ('w \<Rightarrow> (io_error + socket_addr) \<times> 'w) \<Rightarrow> nat \<Rightarrow> string \<Rightarrow> nat \<Rightarrow>
   oracle_params \<Rightarrow> 'w \<Rightarrow> ((nym_error + io_error + socket_addr) \<times> 'w) may_panic" where
  "nym_front parse_recipient build_client bind_udp now gateway surbs p w =
     (case nym_connect parse_recipient build_client gateway surbs p w of
        (Inl e, w1) \<Rightarrow> Some (Inl e, w1)
      | (Inr sub, w1) \<Rightarrow>
          (case bind_udp w1 of (bound, w2) \<Rightarrow>
             map_option (\<lambda>r. (Inr (map_sum id fb_addr r), w2)) (spawn_client_bridge now sub bound)))"

section \<open>The reply leg\<close>

record 't reply_leg =
  rg_tag :: 't
  rg_shipped :: "('t \<times> datagram) list"
  rg_faults :: "string option list"

definition reply_try_send :: "datagram \<Rightarrow> 't reply_leg \<Rightarrow> (substrate_error + unit) \<times> 't reply_leg" where
  "reply_try_send dg s =
     (case rg_faults s of
        Some e # fs \<Rightarrow> (Inl (Io (''nym send_reply: '' @ e)), s\<lparr>rg_faults := fs\<rparr>)
      | fs \<Rightarrow> (Inr (), s\<lparr>rg_shipped := rg_shipped s @ [(rg_tag s, dg)], rg_faults := tl fs\<rparr>))"

text \<open>Nothing comes in on this leg: the receive never returns.\<close>

definition reply_try_recv :: "'t reply_leg \<Rightarrow> ((substrate_error + datagram) \<times> 't reply_leg) option" where
  "reply_try_recv s = None"

section \<open>The gateway\<close>

record 't nym_peer =
  np_sock :: socket_addr
  np_reader :: udp_port
  np_reply :: "'t reply_leg substrate"

record 't nym_gateway =
  ng_server :: socket_addr
  ng_peers :: "'t \<rightharpoonup> 't nym_peer"

definition new_nym_gateway :: "socket_addr \<Rightarrow> 't nym_gateway" where
  "new_nym_gateway server = \<lparr>ng_server = server, ng_peers = Map.empty\<rparr>"

definition new_peer :: "nat \<Rightarrow> 't \<Rightarrow> string option list \<Rightarrow> socket_addr \<Rightarrow> nat \<Rightarrow> 't nym_peer" where
  "new_peer now tag faults a depth =
     \<lparr>np_sock = a, np_reader = new_port,
      np_reply = new_substrate now Datagram nym_oracle \<lparr>rg_tag = tag, rg_shipped = [], rg_faults = faults\<rparr> depth\<rparr>"

text \<open>
  One turn of \<open>run\<close>: a message without a tag is ignored; \<open>bound\<close> is the outcome of binding and connecting a
  socket for a new sender, \<open>sent\<close> that of the send on the sender's socket, of which an error loses the datagram and is ignored. The result
  is what goes out on which socket, or the error that ends the loop.
\<close>

definition ng_message ::
  "nat \<Rightarrow> io_error + socket_addr \<Rightarrow> string option list \<Rightarrow> bool \<Rightarrow> 't option \<Rightarrow> datagram \<Rightarrow> 't nym_gateway \<Rightarrow>
   ((io_error + (socket_addr \<times> datagram) list) \<times> 't nym_gateway) may_panic" where
  "ng_message now bound faults sent sender_tag msg g =
     (case sender_tag of
        None \<Rightarrow> Some (Inr [], g)
      | Some tag \<Rightarrow>
          (case ng_peers g tag of
             Some p \<Rightarrow> Some (Inr (if sent then [(np_sock p, msg)] else []), g)
           | None \<Rightarrow>
               (case bound of
                  Inl e \<Rightarrow> Some (Inl e, g)
                | Inr a \<Rightarrow>
                    map_option (\<lambda>depth. (Inr (if sent then [(a, msg)] else []), g\<lparr>ng_peers := (ng_peers g)(tag \<mapsto> new_peer now tag faults a depth)\<rparr>))
                      (bdp_packets nym_oracle))))"

definition on_peer :: "'t \<Rightarrow> ('t nym_peer \<Rightarrow> 't nym_peer option) \<Rightarrow> 't nym_gateway \<Rightarrow> 't nym_gateway option" where
  "on_peer tag f g =
     Option.bind (ng_peers g tag) (\<lambda>p. map_option (\<lambda>p'. g\<lparr>ng_peers := (ng_peers g)(tag \<mapsto> p')\<rparr>) (f p))"

text \<open>The reader of one sender's socket: a datagram of the server, then its place on the paced reply leg.\<close>

definition ng_reader_recv :: "nat \<Rightarrow> 't \<Rightarrow> datagram \<Rightarrow> 't nym_gateway \<Rightarrow> 't nym_gateway option" where
  "ng_reader_recv now tag dg g =
     on_peer tag (\<lambda>p. map_option (\<lambda>u. p\<lparr>np_reader := u\<rparr>) (port_recv now (ng_server g) dg (np_reader p))) g"

definition ng_reader_send :: "'t \<Rightarrow> 't nym_gateway \<Rightarrow> 't nym_gateway option" where
  "ng_reader_send tag g =
     on_peer tag (\<lambda>p. map_option (\<lambda>(u, s). p\<lparr>np_reader := u, np_reply := s\<rparr>) (port_send (np_reader p) (np_reply p))) g"

text \<open>A receive that fails ends the reader; the socket stays in the table.\<close>

definition ng_reader_fails :: "'t \<Rightarrow> 't nym_gateway \<Rightarrow> 't nym_gateway option" where
  "ng_reader_fails tag g = on_peer tag (\<lambda>p. map_option (\<lambda>u. p\<lparr>np_reader := u\<rparr>) (port_fail (np_reader p))) g"

section \<open>Senders are kept apart\<close>

definition shipped :: "'t reply_leg \<Rightarrow> datagram multiset" where
  "shipped s = mset (map snd (rg_shipped s))"

text \<open>The reply leg as a transport that keeps what it ships: the facts of the boundary apply to it.\<close>

interpretation reply_boundary: boundary_over reply_try_send reply_try_recv "\<lambda>_ _. False" shipped
  by (rule boundary_over.intro, standard)
     (auto simp: reply_try_send_def reply_try_recv_def shipped_def split: list.splits option.splits)

text \<open>The history: the messages with their sender and whether the send on its socket succeeded, and the traffic of the sockets.\<close>

record 't nym_log =
  nl_messages :: "('t \<times> datagram \<times> bool) list"
  nl_to_server :: "(socket_addr \<times> datagram) list"
  nl_from_server :: "'t \<Rightarrow> datagram list"

definition empty_log :: "'t nym_log" where
  "empty_log = \<lparr>nl_messages = [], nl_to_server = [], nl_from_server = (\<lambda>_. [])\<rparr>"

text \<open>
  Executions: messages of the mixnet, datagrams of the server on a sender's socket, and the steps of the
  reply boundaries. The operating system binds a new socket to an address that no open socket has.
\<close>

inductive nym_exec :: "socket_addr \<Rightarrow> 't nym_log \<Rightarrow> 't nym_gateway \<Rightarrow> bool" for server where
  ne_start: "nym_exec server empty_log (new_nym_gateway server)"
| ne_message: "nym_exec server l g \<Longrightarrow> ng_message now bound faults sent (Some tag) msg g = Some (Inr out, g') \<Longrightarrow>
    (\<And>a. bound = Inr a \<Longrightarrow> a \<notin> np_sock ` ran (ng_peers g)) \<Longrightarrow>
    nym_exec server (l\<lparr>nl_messages := nl_messages l @ [(tag, msg, sent)], nl_to_server := nl_to_server l @ out\<rparr>) g'"
| ne_untagged: "nym_exec server l g \<Longrightarrow> ng_message now bound faults sent None msg g = Some (Inr out, g') \<Longrightarrow>
    nym_exec server (l\<lparr>nl_to_server := nl_to_server l @ out\<rparr>) g'"
| ne_recv: "nym_exec server l g \<Longrightarrow> ng_reader_recv now tag dg g = Some g' \<Longrightarrow>
    nym_exec server (l\<lparr>nl_from_server := (nl_from_server l)(tag := nl_from_server l tag @ [take 65535 dg])\<rparr>) g'"
| ne_reader_fails: "nym_exec server l g \<Longrightarrow> ng_reader_fails tag g = Some g' \<Longrightarrow> nym_exec server l g'"
| ne_send: "nym_exec server l g \<Longrightarrow> ng_reader_send tag g = Some g' \<Longrightarrow> nym_exec server l g'"
| ne_pump: "nym_exec server l g \<Longrightarrow> ng_peers g tag = Some p \<Longrightarrow>
    sb_step reply_try_send reply_try_recv (\<lambda>_ _. False) (np_reply p) s \<Longrightarrow>
    nym_exec server l (g\<lparr>ng_peers := (ng_peers g)(tag \<mapsto> p\<lparr>np_reply := s\<rparr>)\<rparr>)"

definition peer_inv :: "'t nym_log \<Rightarrow> 't \<Rightarrow> 't nym_peer \<Rightarrow> bool" where
  "peer_inv l tag p \<longleftrightarrow>
     dir_inv shipped (nl_from_server l tag) [] (np_reader p) (np_reply p) \<and>
     rg_tag (sb_inner (np_reply p)) = tag \<and> set (map fst (rg_shipped (sb_inner (np_reply p)))) \<subseteq> {tag} \<and>
     map snd (filter (\<lambda>(a, _). a = np_sock p) (nl_to_server l)) = map (fst \<circ> snd) (filter (\<lambda>(t, _, sent). t = tag \<and> sent) (nl_messages l))"

definition gateway_inv :: "'t nym_log \<Rightarrow> 't nym_gateway \<Rightarrow> bool" where
  "gateway_inv l g \<longleftrightarrow>
     (\<forall>tag p. ng_peers g tag = Some p \<longrightarrow> peer_inv l tag p) \<and>
     (\<forall>tag. ng_peers g tag = None \<longrightarrow> nl_from_server l tag = [] \<and> tag \<notin> fst ` set (nl_messages l)) \<and>
     inj_on (\<lambda>tag. np_sock (the (ng_peers g tag))) (dom (ng_peers g)) \<and>
     fst ` set (nl_to_server l) \<subseteq> np_sock ` ran (ng_peers g)"

lemma reply_try_send_tag:
  assumes "reply_try_send dg s = (r, s')"
  shows "rg_tag s' = rg_tag s" and "set (map fst (rg_shipped s')) \<subseteq> insert (rg_tag s) (set (map fst (rg_shipped s)))"
  using assms by (auto simp: reply_try_send_def split: list.splits option.splits)

lemma reply_step_tag:
  assumes "sb_step reply_try_send reply_try_recv (\<lambda>_ _. False) s s'"
  shows "rg_tag (sb_inner s') = rg_tag (sb_inner s) \<and>
    set (map fst (rg_shipped (sb_inner s'))) \<subseteq> insert (rg_tag (sb_inner s)) (set (map fst (rg_shipped (sb_inner s))))"
  using assms
proof (induction rule: sb_step.induct)
  case (sb_step_send t s s')
  then obtain enq dg rest where q: "sb_send_q s = (enq, dg) # rest" by (auto simp: pump_send_def split: if_splits list.splits)
  obtain r i where i: "reply_try_send dg (sb_inner s) = (r, i)" by fastforce
  then have "sb_inner s' = i" using sb_step_send q by (auto simp: pump_send_def Let_def split: if_splits)
  with reply_try_send_tag [OF i] show ?case by simp
qed (auto simp: pump_take_def pump_push_def reply_try_recv_def update_oracle_def send_pump_dies_def recv_pump_dies_def
      split: if_splits option.splits)


lemma gateway_invD:
  assumes "gateway_inv l g"
  shows "ng_peers g tag = Some p \<Longrightarrow> peer_inv l tag p"
    and "ng_peers g tag = None \<Longrightarrow> nl_from_server l tag = []" and "ng_peers g tag = None \<Longrightarrow> tag \<notin> fst ` set (nl_messages l)"
    and "fst ` set (nl_to_server l) \<subseteq> np_sock ` ran (ng_peers g)"
  using assms by (auto simp: gateway_inv_def)

lemma sock_inj:
  assumes "gateway_inv l g" and "ng_peers g t = Some p" and "ng_peers g t' = Some p'" and "t \<noteq> t'"
  shows "np_sock p \<noteq> np_sock p'"
  using assms unfolding gateway_inv_def inj_on_def by (metis domI option.sel)

lemma gateway_inv_update:
  assumes inv: "gateway_inv l g" and p: "ng_peers g tag = Some p" and sock: "np_sock p' = np_sock p" and new: "peer_inv l' tag p'"
    and log: "nl_messages l' = nl_messages l" "nl_to_server l' = nl_to_server l" "\<And>t. t \<noteq> tag \<Longrightarrow> nl_from_server l' t = nl_from_server l t"
  shows "gateway_inv l' (g\<lparr>ng_peers := (ng_peers g)(tag \<mapsto> p')\<rparr>)"
  unfolding gateway_inv_def
proof (intro conjI allI impI)
  let ?g = "g\<lparr>ng_peers := (ng_peers g)(tag \<mapsto> p')\<rparr>"
  have socks: "np_sock (the (ng_peers ?g t)) = np_sock (the (ng_peers g t))" for t using p sock by simp
  have dom: "dom (ng_peers ?g) = dom (ng_peers g)" using p by auto
  show "inj_on (\<lambda>t. np_sock (the (ng_peers ?g t))) (dom (ng_peers ?g))"
    using inv unfolding gateway_inv_def socks dom by blast
  have "np_sock ` ran (ng_peers g) = (\<lambda>t. np_sock (the (ng_peers g t))) ` dom (ng_peers g)" for g :: "'a nym_gateway"
    by (force simp: ran_def image_iff)
  then have "np_sock ` ran (ng_peers ?g) = np_sock ` ran (ng_peers g)" by (simp only: socks dom)
  with gateway_invD(4) [OF inv] log show "fst ` set (nl_to_server l') \<subseteq> np_sock ` ran (ng_peers ?g)" by simp
next
  fix t q assume "ng_peers (g\<lparr>ng_peers := (ng_peers g)(tag \<mapsto> p')\<rparr>) t = Some q"
  then show "peer_inv l' t q"
    using new gateway_invD(1) [OF inv, of t q] log by (cases "t = tag") (auto simp: peer_inv_def)
next
  fix t assume "ng_peers (g\<lparr>ng_peers := (ng_peers g)(tag \<mapsto> p')\<rparr>) t = None"
  then have "t \<noteq> tag" "ng_peers g t = None" by (auto split: if_splits)
  with gateway_invD(2,3) [OF inv, of t] log show "nl_from_server l' t = []" "t \<notin> fst ` set (nl_messages l')" by simp_all
qed

lemma inv_known_sender:
  assumes inv: "gateway_inv l g" and p: "ng_peers g tag = Some p"
  shows "gateway_inv (l\<lparr>nl_messages := nl_messages l @ [(tag, msg, sent)], nl_to_server := nl_to_server l @ (if sent then [(np_sock p, msg)] else [])\<rparr>) g"
  unfolding gateway_inv_def
proof (intro conjI allI impI)
  fix t q assume q: "ng_peers g t = Some q"
  then show "peer_inv (l\<lparr>nl_messages := nl_messages l @ [(tag, msg, sent)], nl_to_server := nl_to_server l @ (if sent then [(np_sock p, msg)] else [])\<rparr>) t q"
    using gateway_invD(1) [OF inv q] p sock_inj [OF inv q p] by (cases "t = tag") (auto simp: peer_inv_def)
qed (use inv p in \<open>auto simp: gateway_inv_def intro: ranI\<close>)

lemma inv_new_sender:
  assumes inv: "gateway_inv l g" and none: "ng_peers g tag = None" and fresh: "a \<notin> np_sock ` ran (ng_peers g)"
  shows "gateway_inv (l\<lparr>nl_messages := nl_messages l @ [(tag, msg, sent)], nl_to_server := nl_to_server l @ (if sent then [(a, msg)] else [])\<rparr>)
    (g\<lparr>ng_peers := (ng_peers g)(tag \<mapsto> new_peer now tag faults a depth)\<rparr>)"
  unfolding gateway_inv_def
proof (intro conjI allI impI)
  let ?l = "l\<lparr>nl_messages := nl_messages l @ [(tag, msg, sent)], nl_to_server := nl_to_server l @ (if sent then [(a, msg)] else [])\<rparr>"
  let ?g = "g\<lparr>ng_peers := (ng_peers g)(tag \<mapsto> new_peer now tag faults a depth)\<rparr>"
  have a: "np_sock (new_peer now tag faults a depth) = a" by (simp add: new_peer_def)
  have old: "a \<notin> fst ` set (nl_to_server l)" using gateway_invD(4) [OF inv] fresh by blast
  then have out: "filter (\<lambda>(b, _). b = a) (nl_to_server l) = []" by (auto simp: filter_empty_conv image_iff)
  have msgs: "filter (\<lambda>(t, _, sent). t = tag \<and> sent) (nl_messages l) = []"
    using gateway_invD(3) [OF inv none] by (auto simp: filter_empty_conv image_iff)
  fix t q assume q: "ng_peers ?g t = Some q"
  show "peer_inv ?l t q"
  proof (cases "t = tag")
    case True
    with q out msgs gateway_invD(2) [OF inv none] show ?thesis
      by (auto simp: peer_inv_def dir_inv_def new_peer_def new_port_def hand_mset_def new_substrate_def sb_held_def shipped_def)
  next
    case False
    with q have q': "ng_peers g t = Some q" by simp
    then have "np_sock q \<noteq> a" using fresh by (auto intro: ranI)
    with False gateway_invD(1) [OF inv q'] show ?thesis by (auto simp: peer_inv_def)
  qed
next
  show "inj_on (\<lambda>t. np_sock (the (ng_peers (g\<lparr>ng_peers := (ng_peers g)(tag \<mapsto> new_peer now tag faults a depth)\<rparr>) t)))
      (dom (ng_peers (g\<lparr>ng_peers := (ng_peers g)(tag \<mapsto> new_peer now tag faults a depth)\<rparr>)))"
    using inv none fresh unfolding gateway_inv_def inj_on_def
    by (auto simp: new_peer_def) (metis imageI ranI)+
next
  show "fst ` set (nl_to_server (l\<lparr>nl_messages := nl_messages l @ [(tag, msg, sent)], nl_to_server := nl_to_server l @ (if sent then [(a, msg)] else [])\<rparr>)) \<subseteq>
      np_sock ` ran (ng_peers (g\<lparr>ng_peers := (ng_peers g)(tag \<mapsto> new_peer now tag faults a depth)\<rparr>))"
    using gateway_invD(4) [OF inv] none by (auto simp: new_peer_def)
qed (use gateway_invD(2,3) [OF inv] in \<open>auto split: if_splits\<close>)


lemma nym_exec_inv: "nym_exec server l g \<Longrightarrow> gateway_inv l g"
proof (induction rule: nym_exec.induct)
  case ne_start
  show ?case by (simp add: gateway_inv_def new_nym_gateway_def empty_log_def)
next
  case (ne_message l g now bound faults sent tag msg out g')
  show ?case
  proof (cases "ng_peers g tag")
    case None
    with ne_message.hyps(2) obtain a depth where "bound = Inr a" "out = (if sent then [(a, msg)] else [])"
      "g' = g\<lparr>ng_peers := (ng_peers g)(tag \<mapsto> new_peer now tag faults a depth)\<rparr>"
      by (auto simp: ng_message_def split: sum.splits)
    with inv_new_sender [OF ne_message.IH None] ne_message.hyps(3) show ?thesis by simp
  next
    case (Some p)
    with ne_message.hyps(2) inv_known_sender [OF ne_message.IH Some] show ?thesis by (auto simp: ng_message_def)
  qed
next
  case (ne_untagged l g now bound faults sent msg out g')
  then show ?case by (simp add: ng_message_def)
next
  case (ne_recv l g now tag dg g')
  then obtain p u where p: "ng_peers g tag = Some p" "port_recv now (ng_server g) dg (np_reader p) = Some u"
    "g' = g\<lparr>ng_peers := (ng_peers g)(tag \<mapsto> p\<lparr>np_reader := u\<rparr>)\<rparr>"
    by (auto simp: ng_reader_recv_def on_peer_def split: Option.bind_splits)
  have "peer_inv (l\<lparr>nl_from_server := (nl_from_server l)(tag := nl_from_server l tag @ [take 65535 dg])\<rparr>) tag (p\<lparr>np_reader := u\<rparr>)"
    using gateway_invD(1) [OF ne_recv.IH p(1)] by (auto simp: peer_inv_def intro: port_recv_inv(1) [OF p(2)])
  from gateway_inv_update [OF ne_recv.IH p(1) _ this] show ?case by (simp add: p(3))
next
  case (ne_reader_fails l g tag g')
  then obtain p u where p: "ng_peers g tag = Some p" "port_fail (np_reader p) = Some u" "g' = g\<lparr>ng_peers := (ng_peers g)(tag \<mapsto> p\<lparr>np_reader := u\<rparr>)\<rparr>"
    by (auto simp: ng_reader_fails_def on_peer_def split: Option.bind_splits)
  have "peer_inv l tag (p\<lparr>np_reader := u\<rparr>)"
    using gateway_invD(1) [OF ne_reader_fails.IH p(1)] by (auto simp: peer_inv_def dest: port_fail_inv [OF p(2)])
  from gateway_inv_update [OF ne_reader_fails.IH p(1) _ this] show ?case by (simp add: p(3))
next
  case (ne_send l g tag g')
  then obtain p u s where p: "ng_peers g tag = Some p" "port_send (np_reader p) (np_reply p) = Some (u, s)"
    "g' = g\<lparr>ng_peers := (ng_peers g)(tag \<mapsto> p\<lparr>np_reader := u, np_reply := s\<rparr>)\<rparr>"
    by (auto simp: ng_reader_send_def on_peer_def split: Option.bind_splits)
  have "sb_inner s = sb_inner (np_reply p)"
    using p(2) by (auto simp: port_send_def sb_send_def sb_enqueue_def split: option.splits if_splits)
  then have "peer_inv l tag (p\<lparr>np_reader := u, np_reply := s\<rparr>)"
    using gateway_invD(1) [OF ne_send.IH p(1)] by (auto simp: peer_inv_def intro: port_send_inv [OF p(2)])
  from gateway_inv_update [OF ne_send.IH p(1) _ this] show ?case by (simp add: p(3))
next
  case (ne_pump l g tag p s)
  note inv = gateway_invD(1) [OF ne_pump.IH ne_pump.hyps(2)]
  have "peer_inv l tag (p\<lparr>np_reply := s\<rparr>)"
    using inv reply_step_tag [OF ne_pump.hyps(3)] by (auto simp: peer_inv_def intro: reply_boundary.dir_inv_step [OF ne_pump.hyps(3)])
  from gateway_inv_update [OF ne_pump.IH ne_pump.hyps(2) _ this] show ?case by simp
qed

text \<open>C21: the Nym gateway keeps its anonymous senders apart. In every interleaving of messages, server datagrams
  and reply pumps, with failing sends and receives: two senders never share a socket; what goes to the QUIC server on a sender's socket is, in order,
  exactly those of that sender's datagrams whose send succeeded, and nothing of any other sender; and every reply shipped for a sender carries that sender's
  tag and was received on that sender's socket, none twice.\<close>

theorem nym_senders_isolated:
  assumes "nym_exec server l g" and "ng_peers g tag = Some p"
  shows "(\<forall>tag' p'. ng_peers g tag' = Some p' \<and> tag' \<noteq> tag \<longrightarrow> np_sock p' \<noteq> np_sock p) \<and>
    map snd (filter (\<lambda>(a, _). a = np_sock p) (nl_to_server l)) = map (fst \<circ> snd) (filter (\<lambda>(t, _, sent). t = tag \<and> sent) (nl_messages l)) \<and>
    set (map fst (rg_shipped (sb_inner (np_reply p)))) \<subseteq> {tag} \<and>
    mset (map snd (rg_shipped (sb_inner (np_reply p)))) \<subseteq># mset (nl_from_server l tag)"
proof -
  note inv = nym_exec_inv [OF assms(1)]
  note peer = gateway_invD(1) [OF inv assms(2)]
  have "shipped (sb_inner (np_reply p)) \<subseteq># sb_held shipped (np_reply p)" by (simp add: sb_held_def)
  then have "shipped (sb_inner (np_reply p)) \<subseteq># mset (nl_from_server l tag)"
    using peer by (simp add: peer_inv_def dir_inv_def) (metis subset_mset.add_increasing2 subset_mset.order_trans subset_mset.le_add_same_cancel2 subset_mset.zero_le)
  with peer sock_inj [OF inv _ assms(2)] show ?thesis by (auto simp: peer_inv_def shipped_def)
qed


lemma nym_depth: "\<exists>depth\<ge>16. bdp_packets nym_oracle = Some depth"
  by (simp add: bdp_packets_def bdp_bytes_def rtt_def nym_oracle_def dur_mul_def dur_limit_def from_millis_def)

definition demo_peer :: "nat \<Rightarrow> nat \<Rightarrow> nat nym_peer" where
  "demo_peer depth tag = new_peer 0 tag [] (SockAddr (V4 127 0 0 1) (5000 + of_nat tag)) depth"

text \<open>Two senders, a datagram of the first lost by its socket, and one answer of the server shipped back to it.\<close>

theorem nym_senders_isolated_witness:
  "\<exists>l g p. nym_exec (SockAddr (V4 127 0 0 1) 9000) l g \<and> ng_peers g (1 :: nat) = Some p \<and> ng_peers g 2 \<noteq> None \<and>
    rg_shipped (sb_inner (np_reply p)) = [(1, [9])] \<and> map (fst \<circ> snd) (nl_messages l) = [[5], [6], [7]] \<and>
    map snd (filter (\<lambda>(a, _). a = np_sock p) (nl_to_server l)) = [[5]] \<and>
    map snd (filter (\<lambda>(a, _). a = np_sock p) (nl_to_server l)) = map (fst \<circ> snd) (filter (\<lambda>(t, _, sent). t = 1 \<and> sent) (nl_messages l)) \<and>
    mset (map snd (rg_shipped (sb_inner (np_reply p)))) \<subseteq># mset (nl_from_server l 1)"
proof -
  obtain d where d: "16 \<le> d" "bdp_packets nym_oracle = Some d" using nym_depth by blast
  let ?server = "SockAddr (V4 127 0 0 1) 9000"
  let ?a = "\<lambda>tag. SockAddr (V4 127 0 0 1) (5000 + of_nat tag)"
  let ?l1 = "\<lparr>nl_messages = [(1, [5], True)], nl_to_server = [(?a 1, [5])], nl_from_server = (\<lambda>_. [])\<rparr>"
  let ?l2 = "\<lparr>nl_messages = [(1, [5], True), (2, [6], True), (1, [7], False)], nl_to_server = [(?a 1, [5]), (?a 2, [6])], nl_from_server = (\<lambda>_. [])\<rparr>"
  let ?l3 = "?l2\<lparr>nl_from_server := (\<lambda>_. [])(1 := [[9]])\<rparr>"
  let ?g2 = "\<lparr>ng_server = ?server, ng_peers = [1 \<mapsto> demo_peer d 1, 2 \<mapsto> demo_peer d 2]\<rparr>"
  have e1: "nym_exec ?server ?l1 \<lparr>ng_server = ?server, ng_peers = [1 \<mapsto> demo_peer d 1]\<rparr>"
    using ne_message [OF ne_start [of ?server], of 0 "Inr (?a 1)" "[]" True 1 "[5]" "[(?a 1, [5])]"
        "\<lparr>ng_server = ?server, ng_peers = [1 \<mapsto> demo_peer d 1]\<rparr>"]
    by (simp add: ng_message_def new_nym_gateway_def empty_log_def d(2) demo_peer_def)
  have "nym_exec ?server (?l2\<lparr>nl_messages := [(1, [5], True), (2, [6], True)]\<rparr>) ?g2"
    using ne_message [OF e1, of 0 "Inr (?a 2)" "[]" True 2 "[6]" "[(?a 2, [6])]" ?g2]
    by (simp add: ng_message_def d(2) demo_peer_def new_peer_def)
  from ne_message [OF this, of 0 "Inl UnexpectedEof" "[]" False 1 "[7]" "[]" ?g2] have e2: "nym_exec ?server ?l2 ?g2"
    by (simp add: ng_message_def)
  obtain g3 where g3: "ng_reader_recv 0 1 [9] ?g2 = Some g3" by (simp add: ng_reader_recv_def on_peer_def port_recv_def demo_peer_def new_peer_def new_port_def)
  have e3: "nym_exec ?server ?l3 g3" using ne_recv [OF e2 g3] by simp
  obtain g4 where g4: "ng_reader_send 1 g3 = Some g4"
    using g3 d(1) by (auto simp: ng_reader_recv_def ng_reader_send_def on_peer_def port_recv_def port_send_def sb_send_def sb_enqueue_def
        demo_peer_def new_peer_def new_port_def new_substrate_def)
  have e4: "nym_exec ?server ?l3 g4" by (rule ne_send [OF e3 g4])
  obtain p where p: "ng_peers g4 1 = Some p" "ng_peers g4 2 \<noteq> None" and q: "sb_send_q (np_reply p) = [(0, [9])]"
    "sb_send_up (np_reply p)" "sb_now (np_reply p) = 0" "sb_wake (np_reply p) = 0"
    "sb_inner (np_reply p) = \<lparr>rg_tag = 1, rg_shipped = [], rg_faults = []\<rparr>"
    using g3 g4 d(1) by (auto simp: ng_reader_recv_def ng_reader_send_def on_peer_def port_recv_def port_send_def sb_send_def sb_enqueue_def
        demo_peer_def new_peer_def new_port_def new_substrate_def)
  from q obtain s where s: "pump_send reply_try_send 0 (np_reply p) = Some s" "rg_shipped (sb_inner s) = [(1, [9])]"
    by (simp add: pump_send_def reply_try_send_def Let_def)
  let ?g5 = "g4\<lparr>ng_peers := (ng_peers g4)(1 \<mapsto> p\<lparr>np_reply := s\<rparr>)\<rparr>"
  have e5: "nym_exec ?server ?l3 ?g5" by (rule ne_pump [OF e4 p(1) sb_step_send [OF s(1)]])
  have peer: "ng_peers ?g5 1 = Some (p\<lparr>np_reply := s\<rparr>)" by simp
  from nym_senders_isolated [OF e5 peer] e5 peer p(2) s(2) show ?thesis
    by (intro exI [of _ ?l3] exI [of _ ?g5] exI [of _ "p\<lparr>np_reply := s\<rparr>"]) simp
qed


end
