(* ===== verification/Node.thy ===== *)
theory Node
  imports Front Autopilot Katzenpost Hopr Nym
begin

text \<open>
  The binaries that put the parts together: the node binary with its linked substrates,
  \<^verbatim>\<open>crates/quicmix-node/src/main.rs\<close>, and the two sidecars,
  \<^verbatim>\<open>substrates/quicmix-tor/src/bin/tor_sidecar.rs\<close> and \<^verbatim>\<open>substrates/quicmix-nym/src/bin/nym_sidecar.rs\<close>.

  The compile-time features of the node binary are a record. Connections, the HTTP client, CBOR and the
  Nym client are arguments, as in the theories of the substrates. What a sidecar prints is a list of lines.
\<close>

section \<open>Linked substrates\<close>

record features =
  ft_katzenpost :: bool
  ft_hopr :: bool

text \<open>A transport of either kind behind the trait object; the Katzenpost one carries the token counter.\<close>

datatype linked_transport = LinkedKatzenpost katzenpost_substrate u64 | LinkedHopr hopr_substrate

datatype build_error =
    UnsetVar string
  | UnknownSubstrate string "string list"
  | KatzenpostFailed kp_error
  | HoprFailed hopr_error

record node_io =
  io_cbor :: cbor
  io_dial :: "string \<Rightarrow> io_error + tcp_stream"
  io_post :: session_post
  io_udp :: "socket_addr \<Rightarrow> io_error + udp_socket"
  io_ctr :: u64

definition supported :: "features \<Rightarrow> string list" where
  "supported ft = (if ft_katzenpost ft then [''katzenpost''] else []) @ (if ft_hopr ft then [''hopr''] else [])"

definition build_katzenpost :: "node_io \<Rightarrow> environment \<Rightarrow> build_error + substrate_kind \<times> oracle_params \<times> linked_transport" where
  "build_katzenpost io env =
     (case env ''QUICMIX_KP_DAEMON'' of
        None \<Rightarrow> Inl (UnsetVar ''QUICMIX_KP_DAEMON'')
      | Some daemon \<Rightarrow>
          (let capability = (case env ''QUICMIX_KP_CAPABILITY'' of Some c \<Rightarrow> c | None \<Rightarrow> ''quicmix'') in
           case connect_service (io_cbor io) (io_dial io daemon) capability katzenpost_oracle (io_ctr io) of
             (Inl e, _) \<Rightarrow> Inl (KatzenpostFailed e)
           | (Inr (sub, _), ctr) \<Rightarrow> Inr (Datagram, kp_oracle sub, LinkedKatzenpost sub ctr)))"

definition hopr_hops :: "environment \<Rightarrow> byte" where
  "hopr_hops env = (case Option.bind (env ''QUICMIX_HOPR_HOPS'') (from_str_radix 10 (2 ^ 8)) of Some n \<Rightarrow> of_nat n | None \<Rightarrow> 1)"

definition build_hopr :: "node_io \<Rightarrow> environment \<Rightarrow> socket_addr \<Rightarrow> build_error + substrate_kind \<times> oracle_params \<times> linked_transport" where
  "build_hopr io env gateway =
     (case env ''QUICMIX_HOPR_API'' of
        None \<Rightarrow> Inl (UnsetVar ''QUICMIX_HOPR_API'')
      | Some api \<Rightarrow>
     (case env ''QUICMIX_HOPR_TOKEN'' of
        None \<Rightarrow> Inl (UnsetVar ''QUICMIX_HOPR_TOKEN'')
      | Some token \<Rightarrow>
     (case env ''QUICMIX_HOPR_DESTINATION'' of
        None \<Rightarrow> Inl (UnsetVar ''QUICMIX_HOPR_DESTINATION'')
      | Some destination \<Rightarrow>
          (let hops = hopr_hops env;
               opts = default_session_opts\<lparr>so_hops := hops, so_target := show_socket_addr gateway\<rparr> in
           case hopr_connect (io_post io) (io_udp io) api token destination opts (hopr_oracle hops) of
             Inl e \<Rightarrow> Inl (HoprFailed e)
           | Inr sub \<Rightarrow> Inr (Datagram, hp_oracle sub, LinkedHopr sub)))))"

definition build :: "node_io \<Rightarrow> environment \<Rightarrow> features \<Rightarrow> string \<Rightarrow> socket_addr \<Rightarrow>
    build_error + substrate_kind \<times> oracle_params \<times> linked_transport" where
  "build io env ft name gateway =
     (let n = to_ascii_lowercase name in
      if ft_katzenpost ft \<and> (n = ''katzenpost'' \<or> n = ''kp'') then build_katzenpost io env
      else if ft_hopr ft \<and> n = ''hopr'' then build_hopr io env gateway
      else Inl (UnknownSubstrate n (supported ft)))"

definition injected_builder :: "(build_error \<Rightarrow> string) \<Rightarrow> node_io \<Rightarrow> environment \<Rightarrow> features \<Rightarrow> linked_transport substrate_builder option" where
  "injected_builder show_error io env ft =
     (if ft_katzenpost ft \<or> ft_hopr ft
      then Some \<lparr>bl_build = (\<lambda>name gateway. map_sum show_error id (build io env ft name gateway)), bl_supported = supported ft\<rparr>
      else None)"

section \<open>Sidecars\<close>

datatype sidecar_error = NoTarget | NoNymGateway | TorFailed tor_error | NymFailed nym_error | FrontFailed io_error

record 's sidecar =
  sc_front :: "'s front_bridge"
  sc_stdout :: "string list"

definition announce_front :: "'s front_bridge \<Rightarrow> 's sidecar" where
  "announce_front f = \<lparr>sc_front = f, sc_stdout = [''FRONT '' @ show_socket_addr (fb_addr f)]\<rparr>"

definition tor_sidecar_oracle :: oracle_params where
  "tor_sidecar_oracle = \<lparr>hops = 3, mean_hop_delay = from_millis 100, drop_prob = 0, slot_interval = 0, mtu = 1200\<rparr>"

definition tor_sidecar ::
  "environment \<Rightarrow> tor_error + tor_daemon \<Rightarrow> (socket_addr \<Rightarrow> io_error + tcp_stream) \<Rightarrow> nat \<Rightarrow> io_error + socket_addr \<Rightarrow>
   (sidecar_error + tor_substrate sidecar) may_panic" where
  "tor_sidecar env launched connect now bound =
     (case (case env SIDECAR_TARGET_ENV of Some t \<Rightarrow> Some t | None \<Rightarrow> env ''QUICMIX_TOR_GATEWAY'') of
        None \<Rightarrow> Some (Inl NoTarget)
      | Some target \<Rightarrow>
          (case tor_connect_managed launched connect target tor_sidecar_oracle of
             Inl e \<Rightarrow> Some (Inl (TorFailed e))
           | Inr sub \<Rightarrow>
               map_option (map_sum FrontFailed announce_front)
                 (spawn_substrate_front now (Stream, Tor.tor_oracle sub, sub) bound)))"

definition nym_surbs :: "environment \<Rightarrow> nat" where
  "nym_surbs env = (case Option.bind (env ''QUICMIX_NYM_SURBS'') (from_str_radix 10 (2 ^ 32)) of Some n \<Rightarrow> n | None \<Rightarrow> 4)"

definition nym_sidecar ::
  "environment \<Rightarrow> (string \<Rightarrow> 'r option) \<Rightarrow> ('w, string, 'r nym_client) io \<Rightarrow> nat \<Rightarrow> io_error + socket_addr \<Rightarrow> 'w \<Rightarrow>
   (sidecar_error + 'r nym_substrate sidecar) may_panic" where
  "nym_sidecar env parse_recipient build_client now bound w =
     (case env ''QUICMIX_NYM_GATEWAY'' of
        None \<Rightarrow> Some (Inl NoNymGateway)
      | Some gateway \<Rightarrow>
          (case nym_connect parse_recipient build_client gateway (nym_surbs env) nym_oracle w of
             (Inl e, _) \<Rightarrow> Some (Inl (NymFailed e))
           | (Inr sub, _) \<Rightarrow> map_option (map_sum FrontFailed announce_front) (spawn_client_bridge now sub bound)))"

section \<open>The sidecar contract\<close>

lemma length_show_byte: "length (show_nat (unat (b :: byte))) \<le> 3"
proof -
  have "unat b < 256" using unsigned_less [of b, where ?'a = nat] by simp
  then have "unat b div 10 div 10 < 10" by simp
  then show ?thesis by (simp add: show_nat.simps [of "unat b"] show_nat.simps [of "unat b div 10"] show_nat.simps [of "unat b div 10 div 10"] del: div_div_eq_right)
qed

lemma length_show_v4: "length (show_v4 a b c d) \<le> 15"
  using length_show_byte [of a] length_show_byte [of b] length_show_byte [of c] length_show_byte [of d]
  by (simp add: show_v4_def)

lemma show_nat_no_colon: "CHR '':'' \<notin> set (show_nat n)"
  using show_nat_digits [of "CHR '':''" n] by auto

lemma split_host_port_v4: "split_host_port (show_socket_v4 a b c d p) = Inr (show_v4 a b c d, p)"
proof -
  have "rsplit_once CHR '':'' (show_socket_v4 a b c d p) = Some (show_v4 a b c d, show_nat (unat p))"
    by (simp add: rsplit_once_eq_Some show_socket_v4_def show_nat_no_colon)
  moreover have "unat p < 65536" using unsigned_less [of p, where ?'a = nat] by simp
  ultimately show ?thesis by (simp add: split_host_port_def parse_u16_def parse_show_nat)
qed

lemma await_announced:
  assumes "fb_addr f = SockAddr (V4 a b c d) p"
  shows "await_front program (map Line (sc_stdout (announce_front f)) @ evs) = Some (Inr (fb_addr f, evs))"
  using assms by (simp add: announce_front_def FRONT_LINE_def parse_show_socket_v4 strip_prefix_eq_Some)

lemma tor_circuit_opens:
  assumes "connect (td_socks daemon) = Inr s" and "w_faults (t_write s) = []" and "socks_accepts reply"
    and "r_bytes (t_read s) = reply @ bs" and "split_host_port target = Inr (host, port)" and "length host \<le> 255"
  shows "tor_connect_managed (Inr daemon) connect target p =
    Inr \<lparr>ts_inner = \<lparr>sd_read = (t_read s)\<lparr>r_bytes := bs\<rparr>,
                     sd_write = (t_write s)\<lparr>w_out := w_out (t_write s) @ [5, 1, 0] @ socks_request host port\<rparr>, sd_oracle = p\<rparr>,
         ts_daemon = Some daemon\<rparr>"
proof -
  define s' where "s' = s\<lparr>t_read := (t_read s)\<lparr>r_bytes := bs\<rparr>,
    t_write := (t_write s)\<lparr>w_out := w_out (t_write s) @ [5, 1, 0] @ socks_request host port\<rparr>\<rparr>"
  have "socks5_dialogue host port s = (Inr (), s')"
    using assms(2-4,6) by (subst socks5_dialogue_ok) (auto simp: s'_def)
  with assms(1,5) show ?thesis
    by (simp add: tor_connect_managed_def tor_stream_to_def socks5_connect_def new_stream_datagram_def s'_def)
qed

lemma tor_sidecar_depth: "\<exists>depth\<ge>16. bdp_packets tor_sidecar_oracle = Some depth"
  by (simp add: bdp_packets_def bdp_bytes_def rtt_def tor_sidecar_oracle_def dur_mul_def dur_limit_def from_millis_def)

lemma SIDECAR_TARGET_set: "(env ++ map_of [(SIDECAR_TARGET_ENV, v)]) SIDECAR_TARGET_ENV = Some v"
  by simp

lemma tor_sidecar_circuit:
  assumes "connect (td_socks daemon) = Inr s" and "w_faults (t_write s) = []" and "socks_accepts reply"
    and "r_bytes (t_read s) = reply @ bs" and "gateway = SockAddr (V4 a b c d) p"
  shows "\<exists>f. tor_sidecar (env ++ map_of [(SIDECAR_TARGET_ENV, show_socket_addr gateway)]) (Inr daemon) connect now (Inr addr) =
      Some (Inr (announce_front f)) \<and> fb_addr f = addr \<and>
    ts_inner (sb_inner (fb_sub f)) = \<lparr>sd_read = (t_read s)\<lparr>r_bytes := bs\<rparr>,
      sd_write = (t_write s)\<lparr>w_out := w_out (t_write s) @ [5, 1, 0] @ socks_request (show_v4 a b c d) p\<rparr>,
      sd_oracle = tor_sidecar_oracle\<rparr>"
proof -
  have len: "length (show_v4 a b c d) \<le> 255" using length_show_v4 [of a b c d] by simp
  obtain depth where depth: "bdp_packets tor_sidecar_oracle = Some depth" using tor_sidecar_depth by blast
  have split: "split_host_port (show_socket_addr gateway) = Inr (show_v4 a b c d, p)" by (simp add: assms(5) split_host_port_v4)
  note circuit = tor_circuit_opens [where p = tor_sidecar_oracle and connect = connect and daemon = daemon, OF assms(1-4) split len]
  show ?thesis unfolding tor_sidecar_def SIDECAR_TARGET_set
    by (auto simp: circuit depth spawn_substrate_front_def Tor.tor_oracle_def new_substrate_def)
qed

text \<open>C19: client and Tor sidecar together. The client spawns the sidecar with the printed address of the gateway in
  its environment; when the sidecar's daemon is up and its proxy accepts, the client's front is the UDP
  front that the sidecar bound, and the sidecar's circuit is a CONNECT to exactly the gateway's address
  and port, whatever \<open>QUICMIX_TOR_GATEWAY\<close> says.\<close>

theorem tor_sidecar_attached:
  assumes "\<And>args added. spawn program args added = Inr (Some (case tor_sidecar (env ++ map_of added) (Inr daemon) connect now (Inr (SockAddr (V4 a' b' c' d') p')) of
        Some (Inr sc) \<Rightarrow> map Line (sc_stdout sc) @ evs | _ \<Rightarrow> [EndOfOutput]))"
    and "connect (td_socks daemon) = Inr s" and "w_faults (t_write s) = []" and "socks_accepts reply"
    and "r_bytes (t_read s) = reply @ bs" and "gateway = SockAddr (V4 a b c d) p"
  shows "\<exists>sc. tor_sidecar (env ++ map_of [(SIDECAR_TARGET_ENV, show_socket_addr gateway)]) (Inr daemon) connect now
      (Inr (SockAddr (V4 a' b' c' d') p')) = Some (Inr sc) \<and>
    resolve spawn now' bound (SidecarCmd name program args) gateway builder =
      Some (Some (Inr \<lparr>fr_addr = fb_addr (sc_front sc), fr_keep = ChildGuard [(SIDECAR_TARGET_ENV, show_socket_addr gateway)] evs\<rparr>)) \<and>
    fb_addr (sc_front sc) = SockAddr (V4 a' b' c' d') p' \<and>
    (let circuit = ts_inner (sb_inner (fb_sub (sc_front sc))) in
     w_out (sd_write circuit) = w_out (t_write s) @ [5, 1, 0] @ socks_request (show_v4 a b c d) p \<and>
     r_bytes (sd_read circuit) = bs)"
proof -
  obtain f where f: "tor_sidecar (env ++ map_of [(SIDECAR_TARGET_ENV, show_socket_addr gateway)]) (Inr daemon) connect now
      (Inr (SockAddr (V4 a' b' c' d') p')) = Some (Inr (announce_front f))" "fb_addr f = SockAddr (V4 a' b' c' d') p'"
    "ts_inner (sb_inner (fb_sub f)) = \<lparr>sd_read = (t_read s)\<lparr>r_bytes := bs\<rparr>,
      sd_write = (t_write s)\<lparr>w_out := w_out (t_write s) @ [5, 1, 0] @ socks_request (show_v4 a b c d) p\<rparr>,
      sd_oracle = tor_sidecar_oracle\<rparr>"
    using tor_sidecar_circuit [where connect = connect and daemon = daemon, OF assms(2-6)] by blast
  with await_announced [OF f(2)] show ?thesis
    by (intro exI [of _ "announce_front f"]) (simp add: resolve_def spawn_sidecar_def assms(1) Let_def announce_front_def)
qed

definition demo_daemon :: tor_daemon where
  "demo_daemon = \<lparr>td_socks = socks_local, td_args = [], td_pending = [], td_killed = False\<rparr>"

text \<open>The first bytes of the certificate endpoint's answer, read as a frame length.\<close>

lemma cert_answer_malformed:
  assumes "w_faults (t_write peer) = []" and "w_out (t_write peer) = []"
  shows "\<exists>r. sd_try_recv \<lparr>r_bytes = w_out (t_write (serve_cert_conn cert peer)), r_end = e\<rparr> = (Inl Malformed, r)"
proof -
  obtain tail where "w_out (t_write (serve_cert_conn cert peer)) = string_bytes ''HTTP'' @ tail"
    using assms by (simp add: serve_cert_conn_def Let_def tcp_write_all_def write_all_def cert_head_def string_bytes_def)
  then have "w_out (t_write (serve_cert_conn cert peer)) = [72, 84, 84, 80] @ tail" by (simp add: string_bytes_def)
  then show ?thesis by (simp add: sd_try_recv_def read_exact_def be_nat_def)
qed


text \<open>C20: what the spawned Tor sidecar reaches. A promoted node answers TCP on the port it announces with its
  certificate endpoint, and that is where the circuit of a spawned sidecar ends: the first receive of
  the circuit reads the endpoint's answer as a frame and fails as malformed, for every certificate.\<close>

theorem tor_sidecar_reaches_cert_endpoint:
  assumes "start_roles t cfg discovered cert gw_err cert_err bridge_err = Inr (services, dir)"
    and "self_public cfg discovered = Some gateway" and "gateway = SockAddr (V4 a b c d) p"
    and "connect (td_socks daemon) = Inr s" and "w_faults (t_write s) = []" and "socks_accepts reply"
    and "r_bytes (t_read s) = reply @ w_out (t_write (serve_cert_conn cert peer))"
    and "w_faults (t_write peer) = []" and "w_out (t_write peer) = []"
  shows "CertEndpoint (gw_bind cfg) \<in> set services \<and> sa_port (gw_bind cfg) = p \<and>
    (\<exists>sc. tor_sidecar (env ++ map_of [(SIDECAR_TARGET_ENV, show_socket_addr gateway)]) (Inr daemon) connect now (Inr addr) = Some (Inr sc) \<and>
      fst (tor_try_recv (sb_inner (fb_sub (sc_front sc)))) = Inl Malformed)"
proof -
  have "CertEndpoint (gw_bind cfg) \<in> set services" "sa_port (gw_bind cfg) = p"
    using assms(1-3) by (auto simp: start_roles_def self_public_def Let_def split: option.splits if_splits)
  moreover obtain f where f: "tor_sidecar (env ++ map_of [(SIDECAR_TARGET_ENV, show_socket_addr gateway)]) (Inr daemon) connect now
      (Inr addr) = Some (Inr (announce_front f))"
    "sd_read (ts_inner (sb_inner (fb_sub f))) = (t_read s)\<lparr>r_bytes := w_out (t_write (serve_cert_conn cert peer))\<rparr>"
    using tor_sidecar_circuit [where connect = connect and daemon = daemon, OF assms(4-7,3)] by fastforce
  moreover have "(t_read s)\<lparr>r_bytes := bs\<rparr> = \<lparr>r_bytes = bs, r_end = r_end (t_read s)\<rparr>" for bs by (cases "t_read s") simp
  ultimately show ?thesis
    using cert_answer_malformed [OF assms(8,9), of cert "r_end (t_read s)"] by (auto simp: tor_try_recv_def announce_front_def)
qed


definition demo_proxy :: tcp_stream where
  "demo_proxy = proxy_socket ([5, 0, 5, 0, 0, 1, 0, 0, 0, 0, 0, 0] @ w_out (t_write (serve_cert_conn [48, 130] quiet_socket)))"

lemma demo_reply: "socks_accepts [5, 0, 5, 0, 0, 1, 0, 0, 0, 0, 0, 0]"
  by (simp add: socks_accepts_def bound_address_def)

lemma demo_proxy_fields:
  "w_faults (t_write demo_proxy) = []" "w_out (t_write demo_proxy) = []"
  "r_bytes (t_read demo_proxy) = [5, 0, 5, 0, 0, 1, 0, 0, 0, 0, 0, 0] @ w_out (t_write (serve_cert_conn [48, 130] quiet_socket))"
  by (simp_all add: demo_proxy_def proxy_socket_def)

theorem tor_sidecar_attached_witness:
  "\<exists>sc. tor_sidecar (Map.empty ++ map_of [(SIDECAR_TARGET_ENV, show_socket_addr (SockAddr (V4 64 226 93 43) 4433))]) (Inr demo_daemon)
      (\<lambda>_. Inr demo_proxy) 0 (Inr (SockAddr (V4 127 0 0 1) 7000)) = Some (Inr sc) \<and>
    fb_addr (sc_front sc) = SockAddr (V4 127 0 0 1) 7000 \<and>
    w_out (sd_write (ts_inner (sb_inner (fb_sub (sc_front sc))))) = [5, 1, 0] @ socks_request (show_v4 64 226 93 43) 4433"
  using tor_sidecar_attached [where program = "''tor_sidecar''" and env = Map.empty and daemon = demo_daemon and
      connect = "\<lambda>_. Inr demo_proxy" and now = 0 and a' = 127 and b' = 0 and c' = 0 and d' = 1 and p' = 7000 and evs = "[]" and s = demo_proxy and
      spawn = "\<lambda>_ _ added. Inr (Some (case tor_sidecar (Map.empty ++ map_of added) (Inr demo_daemon) (\<lambda>_. Inr demo_proxy) 0
          (Inr (SockAddr (V4 127 0 0 1) 7000)) of Some (Inr sc) \<Rightarrow> map Line (sc_stdout sc) @ [] | _ \<Rightarrow> [EndOfOutput]))" and
      now' = 0 and bound = "Inl UnexpectedEof" and name = "''tor''" and args = "[]" and builder = "None :: emulator substrate_builder option",
      OF refl refl demo_proxy_fields(1) demo_reply demo_proxy_fields(3) refl, of 64 226 93 43 4433]
  by (auto simp: demo_proxy_fields(2) Let_def)

definition demo_gateway_config :: config where
  "demo_gateway_config = \<lparr>gw_bind = SockAddr (V4 0 0 0 0) 4433, ingress_bind = [], bootstrap = [],
     public_ip = Some (V4 64 226 93 43), cert_out = None, cfg_substrate = Direct, metrics_ws_bind = None, stream_bridge_bind = None\<rparr>"

theorem tor_sidecar_reaches_cert_endpoint_witness:
  "CertEndpoint (SockAddr (V4 0 0 0 0) 4433) \<in> set [QuicGateway (SockAddr (V4 0 0 0 0) 4433), CertEndpoint (SockAddr (V4 0 0 0 0) 4433)] \<and>
   (\<exists>sc. tor_sidecar (Map.empty ++ map_of [(SIDECAR_TARGET_ENV, show_socket_addr (SockAddr (V4 64 226 93 43) 4433))]) (Inr demo_daemon)
      (\<lambda>_. Inr demo_proxy) 0 (Inr (SockAddr (V4 127 0 0 1) 7000)) = Some (Inr sc) \<and>
      fst (tor_try_recv (sb_inner (fb_sub (sc_front sc)))) = Inl Malformed)"
proof -
  have self: "self_public demo_gateway_config None = Some (SockAddr (V4 64 226 93 43) 4433)"
    by (simp add: self_public_def demo_gateway_config_def) code_simp
  have "start_roles 0 demo_gateway_config None [48, 130] None None None =
      Inr ([QuicGateway (SockAddr (V4 0 0 0 0) 4433), CertEndpoint (SockAddr (V4 0 0 0 0) 4433)],
           announce 0 (SockAddr (V4 64 226 93 43) 4433) [48, 130] (new_directory DIR_TTL))"
    by (simp add: start_roles_def self Let_def) (simp add: demo_gateway_config_def)
  from tor_sidecar_reaches_cert_endpoint [where connect = "\<lambda>_. Inr demo_proxy" and daemon = demo_daemon and s = demo_proxy and env = Map.empty and
      now = 0 and addr = "SockAddr (V4 127 0 0 1) 7000", OF this self refl refl demo_proxy_fields(1) demo_reply demo_proxy_fields(3)]
  show ?thesis by (simp add: quiet_socket_def demo_gateway_config_def)
qed


section \<open>Linked substrates behind a front\<close>

lemma hopr_depth: "\<exists>depth\<ge>16. bdp_packets (hopr_oracle h) = Some depth"
proof -
  have "unat h < 256" using unsigned_less [of h, where ?'a = nat] by simp
  then show ?thesis
    by (simp add: bdp_packets_def bdp_bytes_def rtt_def hopr_oracle_def dur_mul_def dur_limit_def from_millis_def unat_of_nat)
qed

text \<open>The node binary over HOPR. With the feature compiled in, the name \<open>hopr\<close> in any case and the three variables
  set, a node that answers with a session on an IPv4 address gives a front at the address that was bound:
  its boundary wraps the session's socket, and the session was asked to tunnel to exactly the gateway.\<close>

theorem linked_hopr_front:
  assumes "ft_hopr ft" and "to_ascii_lowercase name = ''hopr''"
    and "env ''QUICMIX_HOPR_API'' = Some api" and "env ''QUICMIX_HOPR_TOKEN'' = Some token"
    and "env ''QUICMIX_HOPR_DESTINATION'' = Some destination"
    and "opts = default_session_opts\<lparr>so_hops := hopr_hops env, so_target := show_socket_addr gateway\<rparr>"
    and "io_post io (api @ ''/api/v4/session/udp'') token (so_http_timeout opts) (session_body destination opts) = Inr resp"
    and "is_success (sr_status resp)" and "sr_session resp = Some session" and "ss_ip session = show_v4 a b c d"
    and "io_udp io (SockAddr (if a = 0 \<and> b = 0 \<and> c = 0 \<and> d = 0 then V4 127 0 0 1 else V4 a b c d) (ss_port session)) = Inr sock"
  shows "\<exists>s depth. hp_sock s = sock \<and> hp_session s = session \<and> 16 \<le> depth \<and>
    resolve spawn now (Inr front) (Named name) gateway (injected_builder show_error io env ft) =
      Some (Some (Inr \<lparr>fr_addr = front, fr_keep = BridgeGuard
        \<lparr>fb_addr = front, fb_sub = new_substrate now Datagram (hopr_oracle (hopr_hops env)) (LinkedHopr s) depth,
         fb_port = new_port, fb_running = True\<rparr>\<rparr>)) \<and>
    cs_target_plain (session_body destination opts) = show_socket_addr gateway"
proof -
  obtain depth where depth: "16 \<le> depth" "bdp_packets (hopr_oracle (hopr_hops env)) = Some depth"
    using hopr_depth by blast
  let ?s = "\<lparr>hp_api = api, hp_token = token, hp_sock = sock, hp_session = session, hp_oracle = hopr_oracle (hopr_hops env)\<rparr>"
  have "so_data_host opts = None" by (simp add: assms(6) default_session_opts_def)
  then have "hopr_connect (io_post io) (io_udp io) api token destination opts (hopr_oracle (hopr_hops env)) = Inr ?s"
    by (rule hopr_connect_v4 [where post = "io_post io" and udp_connect = "io_udp io", OF assms(7-10) _ assms(11)])
  then have "build io env ft name gateway = Inr (Datagram, hopr_oracle (hopr_hops env), LinkedHopr ?s)"
    using assms(1-6) by (simp add: build_def build_hopr_def Let_def)
  with assms(1,6) depth show ?thesis
    by (intro exI [of _ ?s] exI [of _ depth])
       (simp add: resolve_def injected_builder_def spawn_substrate_front_def session_body_def)
qed


definition demo_io :: node_io where
  "demo_io = \<lparr>io_cbor = undefined, io_dial = (\<lambda>_. Inl UnexpectedEof),
     io_post = (\<lambda>_ _ _ _. Inr \<lparr>sr_status = 201, sr_text = None, sr_session = Some demo_session\<rparr>),
     io_udp = (\<lambda>a. Inr \<lparr>us_peer = a, us_sent = [], us_faults = [], us_arriving = []\<rparr>), io_ctr = 0\<rparr>"

theorem linked_hopr_front_witness:
  "\<exists>s depth. us_peer (hp_sock s) = SockAddr (V4 127 0 0 1) 9999 \<and> 16 \<le> depth \<and>
    resolve (\<lambda>_ _ _. Inl UnexpectedEof) 0 (Inr (SockAddr (V4 127 0 0 1) 7000)) (Named ''HOPR'') (SockAddr (V4 64 226 93 43) 4433)
      (injected_builder (\<lambda>_. []) demo_io
        [''QUICMIX_HOPR_API'' \<mapsto> ''http://n'', ''QUICMIX_HOPR_TOKEN'' \<mapsto> ''t'', ''QUICMIX_HOPR_DESTINATION'' \<mapsto> ''0x1'']
        \<lparr>ft_katzenpost = False, ft_hopr = True\<rparr>) =
    Some (Some (Inr \<lparr>fr_addr = SockAddr (V4 127 0 0 1) 7000, fr_keep = BridgeGuard
      \<lparr>fb_addr = SockAddr (V4 127 0 0 1) 7000, fb_sub = new_substrate 0 Datagram (hopr_oracle 1) (LinkedHopr s) depth,
       fb_port = new_port, fb_running = True\<rparr>\<rparr>))"
proof -
  let ?env = "[''QUICMIX_HOPR_API'' \<mapsto> ''http://n'', ''QUICMIX_HOPR_TOKEN'' \<mapsto> ''t'', ''QUICMIX_HOPR_DESTINATION'' \<mapsto> ''0x1'']"
  have hops: "hopr_hops ?env = 1" by (simp add: hopr_hops_def)
  have low: "to_ascii_lowercase ''HOPR'' = ''hopr''" by code_simp
  have "\<exists>s depth. hp_sock s = \<lparr>us_peer = SockAddr (V4 127 0 0 1) 9999, us_sent = [], us_faults = [], us_arriving = []\<rparr> \<and>
      hp_session s = demo_session \<and> 16 \<le> depth \<and>
      resolve (\<lambda>_ _ _. Inl UnexpectedEof) 0 (Inr (SockAddr (V4 127 0 0 1) 7000)) (Named ''HOPR'') (SockAddr (V4 64 226 93 43) 4433)
        (injected_builder (\<lambda>_. []) demo_io ?env \<lparr>ft_katzenpost = False, ft_hopr = True\<rparr>) =
      Some (Some (Inr \<lparr>fr_addr = SockAddr (V4 127 0 0 1) 7000, fr_keep = BridgeGuard
        \<lparr>fb_addr = SockAddr (V4 127 0 0 1) 7000, fb_sub = new_substrate 0 Datagram (hopr_oracle (hopr_hops ?env)) (LinkedHopr s) depth,
         fb_port = new_port, fb_running = True\<rparr>\<rparr>)) \<and>
      cs_target_plain (session_body ''0x1'' (default_session_opts\<lparr>so_hops := hopr_hops ?env,
        so_target := show_socket_addr (SockAddr (V4 64 226 93 43) 4433)\<rparr>)) = show_socket_addr (SockAddr (V4 64 226 93 43) 4433)"
    by (rule linked_hopr_front [OF _ low _ _ _ refl,
          where resp = "\<lparr>sr_status = 201, sr_text = None, sr_session = Some demo_session\<rparr>" and session = demo_session and
          a = 0 and b = 0 and c = 0 and d = 0 and api = "''http://n''" and token = "''t''"])
       (simp_all add: demo_io_def is_success_def demo_session_def)
  then show ?thesis unfolding hops by (elim ex_forward) simp
qed

end
