(* ===== verification/Bridge.thy ===== *)
theory Bridge
  imports Rust_Io
begin

text \<open>
  One connection of the gateway's stream bridge, \<open>handle\<close> of
  \<^verbatim>\<open>crates/quicmix/src/stream_bridge.rs\<close>, as the interleaving of its two loops: the frames of the
  TCP stream go to a UDP socket of the connection's own, and what that socket receives goes back framed.
  When either loop ends, \<open>select!\<close> drops the other, which may be in the middle of a write.
\<close>

record bridge_conn =
  bc_udp :: socket_addr
  bc_quic :: socket_addr
  bc_rd :: rstream
  bc_wr :: wstream
  bc_pending :: "byte list list"
  bc_open :: bool

text \<open>\<open>bound\<close> is the outcome of binding the UDP socket and connecting it to the local QUIC listener.\<close>

definition bridge_handle :: "io_error + socket_addr \<Rightarrow> tcp_stream \<Rightarrow> socket_addr \<Rightarrow> io_error + bridge_conn" where
  "bridge_handle bound tcp quic_local =
     (case bound of
        Inl e \<Rightarrow> Inl e
      | Inr a \<Rightarrow> Inr \<lparr>bc_udp = a, bc_quic = quic_local, bc_rd = t_read tcp, bc_wr = t_write tcp, bc_pending = [], bc_open = True\<rparr>)"

text \<open>The other loop is dropped: of the write it was making, \<open>k\<close> bytes are out.\<close>

definition bridge_drop :: "nat \<Rightarrow> bridge_conn \<Rightarrow> bridge_conn" where
  "bridge_drop k c =
     (case bc_pending c of
        [] \<Rightarrow> c\<lparr>bc_open := False\<rparr>
      | bs # _ \<Rightarrow> c\<lparr>bc_open := False, bc_wr := (bc_wr c)\<lparr>w_out := w_out (bc_wr c) @ take k bs\<rparr>\<rparr>)"

text \<open>A turn of the TCP to UDP loop; \<open>ok\<close> is the outcome of \<open>udp.send\<close>. The result is what was sent.\<close>

definition up_turn :: "bool \<Rightarrow> nat \<Rightarrow> bridge_conn \<Rightarrow> (datagram list \<times> bridge_conn) option" where
  "up_turn ok k c =
     (if \<not> bc_open c then None
      else case bridge_next (bc_rd c) of
        None \<Rightarrow> Some ([], bridge_drop k c)
      | Some (buf, r) \<Rightarrow>
          (if ok then Some ([buf], c\<lparr>bc_rd := r\<rparr>) else Some ([], bridge_drop k (c\<lparr>bc_rd := r\<rparr>))))"

text \<open>The UDP to TCP loop: a receive, then the writes of the length and of the datagram, and the flush.\<close>

definition down_recv :: "datagram option \<Rightarrow> bridge_conn \<Rightarrow> bridge_conn option" where
  "down_recv x c =
     (if \<not> bc_open c \<or> bc_pending c \<noteq> [] then None
      else case x of
        None \<Rightarrow> Some (c\<lparr>bc_open := False\<rparr>)
      | Some dg \<Rightarrow> (let buf = take 65535 dg in Some (c\<lparr>bc_pending := [to_be 4 (length buf), buf, []]\<rparr>)))"

definition down_write :: "bridge_conn \<Rightarrow> bridge_conn option" where
  "down_write c =
     (if \<not> bc_open c then None
      else case bc_pending c of
        [] \<Rightarrow> None
      | bs # rest \<Rightarrow>
          (case write_all bs (bc_wr c) of
             (Inl _, w) \<Rightarrow> Some (c\<lparr>bc_wr := w, bc_open := False\<rparr>)
           | (Inr _, w) \<Rightarrow> Some (c\<lparr>bc_wr := w, bc_pending := rest\<rparr>)))"

section \<open>Executions\<close>

text \<open>What was sent on the UDP socket and what was received on it so far.\<close>

inductive bridge_exec :: "bridge_conn \<Rightarrow> datagram list \<Rightarrow> datagram list \<Rightarrow> bridge_conn \<Rightarrow> bool" for c0 where
  bx_start: "bridge_exec c0 [] [] c0"
| bx_up: "bridge_exec c0 sent rcvd c \<Longrightarrow> up_turn ok k c = Some (out, c') \<Longrightarrow> bridge_exec c0 (sent @ out) rcvd c'"
| bx_recv: "bridge_exec c0 sent rcvd c \<Longrightarrow> down_recv (Some dg) c = Some c' \<Longrightarrow> bridge_exec c0 sent (rcvd @ [take 65535 dg]) c'"
| bx_recv_error: "bridge_exec c0 sent rcvd c \<Longrightarrow> down_recv None c = Some c' \<Longrightarrow> bridge_exec c0 sent rcvd c'"
| bx_write: "bridge_exec c0 sent rcvd c \<Longrightarrow> down_write c = Some c' \<Longrightarrow> bridge_exec c0 sent rcvd c'"

definition bridge_inv :: "bridge_conn \<Rightarrow> datagram list \<Rightarrow> datagram list \<Rightarrow> bridge_conn \<Rightarrow> bool" where
  "bridge_inv c0 sent rcvd c \<longleftrightarrow>
     (let goal = w_out (bc_wr c0) @ concat (map frame rcvd) in
      if bc_open c
      then to_udp [] (bc_rd c0) = sent @ to_udp [] (bc_rd c) \<and> w_out (bc_wr c) @ concat (bc_pending c) = goal
      else prefix sent (to_udp [] (bc_rd c0)) \<and> prefix (w_out (bc_wr c)) goal)"

lemma bridge_drop_inv:
  assumes "bridge_inv c0 sent rcvd c" and "bc_open c" and "bc_wr c' = bc_wr c" and "bc_pending c' = bc_pending c"
  shows "bridge_inv c0 sent rcvd (bridge_drop k c')"
proof -
  have "prefix (w_out (bc_wr c) @ take k bs) (w_out (bc_wr c) @ concat (bs # rest))" for bs rest
    by (simp add: prefix_def) (metis append_take_drop_id append.assoc)
  then show ?thesis
    using assms by (auto simp: bridge_inv_def bridge_drop_def Let_def prefix_def split: list.splits) metis+
qed

lemma up_turn_inv:
  assumes "up_turn ok k c = Some (out, c')" and "bridge_inv c0 sent rcvd c"
  shows "bridge_inv c0 (sent @ out) rcvd c'"
proof (cases "bridge_next (bc_rd c)")
  case None
  with assms show ?thesis by (auto simp: up_turn_def intro: bridge_drop_inv split: if_splits)
next
  case (Some a)
  then obtain buf r where n: "bridge_next (bc_rd c) = Some (buf, r)" by (cases a) auto
  then have step: "to_udp [] (bc_rd c) = buf # to_udp [] r" by (subst to_udp.simps) simp
  show ?thesis
  proof (cases ok)
    case True
    with assms n step show ?thesis by (auto simp: up_turn_def bridge_inv_def Let_def split: if_splits)
  next
    case False
    with assms n show ?thesis by (auto simp: up_turn_def intro: bridge_drop_inv split: if_splits)
  qed
qed

lemma down_recv_inv:
  assumes "down_recv x c = Some c'" and "bridge_inv c0 sent rcvd c"
  shows "bridge_inv c0 sent (rcvd @ (case x of Some dg \<Rightarrow> [take 65535 dg] | None \<Rightarrow> [])) c'"
  using assms by (auto simp: down_recv_def bridge_inv_def Let_def frame_def len_prefix_def split: if_splits option.splits)

lemma down_write_inv:
  assumes "down_write c = Some c'" and "bridge_inv c0 sent rcvd c"
  shows "bridge_inv c0 sent rcvd c'"
proof -
  obtain bs rest where o: "bc_open c" and p: "bc_pending c = bs # rest"
    using assms(1) by (auto simp: down_write_def split: if_splits list.splits)
  show ?thesis
  proof (cases "write_all bs (bc_wr c)")
    case (Pair r w)
    then have "\<exists>j. w_out w = w_out (bc_wr c) @ take j bs \<and> (r = Inr () \<longrightarrow> j = length bs)"
      by (auto simp: write_all_def split: list.splits option.splits prod.splits intro: exI [of _ "length bs"])
    then obtain j where j: "w_out w = w_out (bc_wr c) @ take j bs" "r = Inr () \<Longrightarrow> j = length bs" by blast
    have "prefix (w_out (bc_wr c) @ take j bs) (w_out (bc_wr c) @ bs @ concat rest)"
      by (simp add: prefix_def) (metis append_take_drop_id append.assoc)
    with assms o p Pair j show ?thesis
      by (cases r) (auto simp: down_write_def bridge_inv_def Let_def)
  qed
qed

lemma bridge_exec_inv: "bridge_exec c0 sent rcvd c \<Longrightarrow> bc_open c0 \<Longrightarrow> bc_pending c0 = [] \<Longrightarrow> bridge_inv c0 sent rcvd c"
proof (induction rule: bridge_exec.induct)
  case bx_start
  then show ?case by (simp add: bridge_inv_def)
next
  case (bx_recv sent rcvd c dg c')
  then show ?case using down_recv_inv [of "Some dg"] by simp
next
  case (bx_recv_error sent rcvd c c')
  then show ?case using down_recv_inv [of None] by simp
qed (auto dest: up_turn_inv down_write_inv)

section \<open>What arrives of a cut stream\<close>

lemma cut_frame_fails:
  assumes "strict_prefix bs (frame d)" and "sd_ok d"
  shows "fst (sd_recv_all \<lparr>r_bytes = bs, r_end = e\<rparr>) = []"
proof -
  have len: "length bs < 4 + length d" using prefix_length_less [OF assms(1)] by (simp add: frame_def)
  obtain tail where tail: "frame d = bs @ tail" using assms(1) by (auto simp: strict_prefix_def prefix_def)
  have "isl (fst (sd_try_recv \<lparr>r_bytes = bs, r_end = e\<rparr>))"
  proof (cases "4 \<le> length bs")
    case True
    have "take 4 bs = take 4 (frame d)" using True by (simp add: tail)
    then have "be_nat (take 4 bs) = length d" using assms(2) by (simp add: frame_def sd_ok_def)
    moreover have "\<not> length d \<le> length bs - 4" using True len by linarith
    ultimately show ?thesis using True assms(2) by (simp add: sd_try_recv_def read_exact_def sd_ok_def Let_def)
  qed (simp add: sd_try_recv_def read_exact_def)
  then show ?thesis by (subst sd_recv_all.simps) (auto split: prod.splits sum.splits)
qed

lemma sd_recv_cut:
  "list_all sd_ok ds \<Longrightarrow> prefix bs (concat (map frame ds)) \<Longrightarrow> prefix (fst (sd_recv_all \<lparr>r_bytes = bs, r_end = e\<rparr>)) ds"
proof (induction ds arbitrary: bs)
  case Nil
  then show ?case by (simp add: sd_recv_all_end)
next
  case (Cons d ds)
  show ?case
  proof (cases "prefix (frame d) bs")
    case True
    then obtain bs' where bs: "bs = frame d @ bs'" by (auto simp: prefix_def)
    with Cons.prems have "prefix bs' (concat (map frame ds))" by simp
    with Cons have "prefix (fst (sd_recv_all \<lparr>r_bytes = bs', r_end = e\<rparr>)) ds" by simp
    moreover have "sd_recv_all \<lparr>r_bytes = bs, r_end = e\<rparr> = (let (ds, err) = sd_recv_all \<lparr>r_bytes = bs', r_end = e\<rparr> in (d # ds, err))"
      using sd_recv_all_frames [of "[d]" bs' e] Cons.prems(1) by (simp add: bs)
    ultimately show ?thesis by (simp split: prod.splits)
  next
    case False
    with Cons.prems(2) have "strict_prefix bs (frame d)"
      using prefix_same_cases [of bs "frame d @ concat (map frame ds)" "frame d"] by (auto simp: strict_prefix_def)
    then show ?thesis using cut_frame_fails [of bs d e] Cons.prems(1) by simp
  qed
qed

lemma bridge_rcvd_ok: "bridge_exec c0 sent rcvd c \<Longrightarrow> list_all sd_ok rcvd"
  by (induction rule: bridge_exec.induct) (simp_all add: sd_ok_def)

lemma bridge_handle_start:
  assumes "bridge_handle (Inr a) tcp quic_local = Inr c0"
  shows "bc_open c0" "bc_pending c0 = []" "bc_rd c0 = t_read tcp" "bc_wr c0 = t_write tcp"
  using assms by (auto simp: bridge_handle_def)

lemma bridge_out:
  assumes "bridge_handle (Inr a) tcp quic_local = Inr c0" and "w_out (t_write tcp) = []" and "bridge_exec c0 sent rcvd c"
  shows "prefix (w_out (bc_wr c)) (concat (map frame rcvd))"
  using bridge_exec_inv [OF assms(3) bridge_handle_start(1,2) [OF assms(1)]] bridge_handle_start(4) [OF assms(1)] assms(2)
  by (auto simp: bridge_inv_def Let_def prefix_def split: if_splits) (metis append_Nil)+

lemma bridge_run:
  assumes "bridge_handle (Inr a) tcp quic_local = Inr c0" and "w_out (t_write tcp) = []" and "bridge_exec c0 sent rcvd c"
  shows "prefix sent (to_udp [] (t_read tcp)) \<and>
    prefix (fst (sd_recv_all \<lparr>r_bytes = w_out (bc_wr c), r_end = e\<rparr>)) rcvd \<and>
    (bc_open c \<and> bc_pending c = [] \<longrightarrow> sd_recv_all \<lparr>r_bytes = w_out (bc_wr c), r_end = e\<rparr> = (rcvd, map_io e))"
proof -
  note c0 = bridge_handle_start [OF assms(1)]
  note inv = bridge_exec_inv [OF assms(3) c0(1,2)]
  note ok = bridge_rcvd_ok [OF assms(3)]
  have "sd_recv_all \<lparr>r_bytes = w_out (bc_wr c), r_end = e\<rparr> = (rcvd, map_io e)" if "bc_open c" "bc_pending c = []"
    using sd_recv_all_frames [OF ok, of "[]" e] inv that c0(4) assms(2) by (simp add: bridge_inv_def sd_recv_all_end)
  moreover have "prefix sent (to_udp [] (t_read tcp))" using inv c0(3) by (auto simp: bridge_inv_def Let_def split: if_splits)
  ultimately show ?thesis using sd_recv_cut [OF ok bridge_out [OF assms]] by blast
qed

text \<open>One connection of the stream bridge, in every interleaving of its two loops, with any failure of either
  side and whatever is cut off when a loop ends. The QUIC listener receives the frames of the
  stream in order and without gaps, as far as they went, and the client's receive loop gets the listener's
  datagrams in order and without gaps, as far as they went; while the connection is open and no write is
  pending, it gets all of them.\<close>

theorem bridge_conn_faithful:
  assumes "bridge_handle (Inr a) tcp quic_local = Inr c0" and "w_out (t_write tcp) = []" and "bridge_exec c0 sent rcvd c"
  shows "prefix sent (to_udp [] (t_read tcp)) \<and>
    prefix (fst (sd_recv_all \<lparr>r_bytes = w_out (bc_wr c), r_end = e\<rparr>)) rcvd \<and>
    (bc_open c \<and> bc_pending c = [] \<longrightarrow> sd_recv_all \<lparr>r_bytes = w_out (bc_wr c), r_end = e\<rparr> = (rcvd, map_io e))"
  using assms by (rule bridge_run)

definition demo_bridge_tcp :: tcp_stream where
  "demo_bridge_tcp = \<lparr>t_read = \<lparr>r_bytes = frame [1, 2], r_end = UnexpectedEof\<rparr>, t_write = \<lparr>w_out = [], w_faults = []\<rparr>\<rparr>"

text \<open>A datagram up, then a receive whose length is written when the end of the stream cuts the datagram off after one byte.\<close>

theorem bridge_conn_faithful_witness:
  "\<exists>c :: bridge_conn. prefix [[1, 2]] (to_udp [] (t_read demo_bridge_tcp)) \<and> w_out (bc_wr c) = [0, 0, 0, 2, 7] \<and>
    prefix (fst (sd_recv_all \<lparr>r_bytes = w_out (bc_wr c), r_end = UnexpectedEof\<rparr>)) [[7, 8]]"
proof -
  let ?a = "SockAddr (V4 127 0 0 1) 5000" and ?q = "SockAddr (V4 127 0 0 1) 4433"
  obtain c0 where c0: "bridge_handle (Inr ?a) demo_bridge_tcp ?q = Inr c0" by (simp add: bridge_handle_def)
  have next1: "bridge_next \<lparr>r_bytes = frame [1, 2], r_end = UnexpectedEof\<rparr> = Some ([1, 2], \<lparr>r_bytes = [], r_end = UnexpectedEof\<rparr>)"
    using bridge_next_frame [of "[1, 2]" "[]" UnexpectedEof] by (simp add: bridge_ok_def MAX_DATAGRAM_def)
  have next2: "bridge_next \<lparr>r_bytes = [], r_end = UnexpectedEof\<rparr> = None" by (simp add: bridge_next_def read_exact_def)
  define c1 where "c1 = c0\<lparr>bc_rd := \<lparr>r_bytes = [], r_end = UnexpectedEof\<rparr>\<rparr>"
  define c2 where "c2 = c1\<lparr>bc_pending := [[0, 0, 0, 2], [7, 8], []]\<rparr>"
  define c3 where "c3 = c2\<lparr>bc_pending := [[7, 8], []], bc_wr := \<lparr>w_out = [0, 0, 0, 2], w_faults = []\<rparr>\<rparr>"
  define c4 where "c4 = c3\<lparr>bc_open := False, bc_wr := \<lparr>w_out = [0, 0, 0, 2, 7], w_faults = []\<rparr>\<rparr>"
  have f0: "bc_open c0" "bc_pending c0 = []" "bc_rd c0 = \<lparr>r_bytes = frame [1, 2], r_end = UnexpectedEof\<rparr>" "bc_wr c0 = \<lparr>w_out = [], w_faults = []\<rparr>"
    using c0 by (auto simp: bridge_handle_def demo_bridge_tcp_def)
  have len: "to_be 4 (Suc (Suc 0)) = [0, 0, 0, 2]" by code_simp
  have "up_turn True 0 c0 = Some ([[1, 2]], c1)" by (simp add: up_turn_def f0 next1 c1_def)
  then have "bridge_exec c0 ([] @ [[1, 2]]) [] c1" by (rule bx_up [OF bx_start])
  moreover have "down_recv (Some [7, 8]) c1 = Some c2" by (simp add: down_recv_def f0 c1_def c2_def len)
  ultimately have "bridge_exec c0 ([] @ [[1, 2]]) ([] @ [take 65535 [7, 8]]) c2" by (rule bx_recv)
  moreover have "down_write c2 = Some c3" by (simp add: down_write_def c3_def c2_def c1_def f0)
  ultimately have "bridge_exec c0 ([] @ [[1, 2]]) ([] @ [take 65535 [7, 8]]) c3" by (rule bx_write)
  moreover have "up_turn True 1 c3 = Some ([], c4)"
    by (simp add: up_turn_def bridge_drop_def c4_def c3_def c2_def c1_def f0 next2)
  ultimately have run: "bridge_exec c0 (([] @ [[1, 2]]) @ []) ([] @ [take 65535 [7, 8]]) c4" by (rule bx_up)
  have "w_out (t_write demo_bridge_tcp) = []" by (simp add: demo_bridge_tcp_def)
  from bridge_conn_faithful [OF c0 this run, of UnexpectedEof]
  have "prefix [[1, 2]] (to_udp [] (t_read demo_bridge_tcp))"
    "prefix (fst (sd_recv_all \<lparr>r_bytes = w_out (bc_wr c4), r_end = UnexpectedEof\<rparr>)) [[7, 8]]" by simp_all
  moreover have "w_out (bc_wr c4) = [0, 0, 0, 2, 7]" by (simp add: c4_def)
  ultimately show ?thesis by (intro exI [of _ c4] conjI)
qed


end
