(* ===== verification/Serving.thy ===== *)
theory Serving
  imports WarmPool Gateway
begin

text \<open>
  The proxy over the warm pool, \<open>WarmPool::serve\<close> of \<^verbatim>\<open>crates/quicmix-eval/src/proxy.rs\<close> with
  the service of \<^verbatim>\<open>crates/quicmix/src/ingress.rs\<close>: one lease per request. A forwarded request gives
  its lease back when \<open>forward\<close> returns, which is when the response head has arrived; a tunnel keeps it.
\<close>

record served =
  sd_response :: http_response
  sd_tunnel :: "(string \<times> lease) option"

definition pool_request ::
  "('w \<Rightarrow> nat \<Rightarrow> bool) \<Rightarrow> (nat \<Rightarrow> string \<Rightarrow> http_request \<Rightarrow> string + http_response) \<Rightarrow> http_request \<Rightarrow> 'w warm_pool \<Rightarrow> served \<times> 'w warm_pool" where
  "pool_request dead upstream req p =
     (case pick dead p of (l, p1) \<Rightarrow>
        (case serve_request (map_option ls_conn l) upstream req of (resp, line) \<Rightarrow>
           (case (l, line) of
              (Some l, Some t) \<Rightarrow> (\<lparr>sd_response = resp, sd_tunnel = Some (t, l)\<rparr>, p1)
            | (Some l, None) \<Rightarrow> (\<lparr>sd_response = resp, sd_tunnel = None\<rparr>, drop_lease l p1)
            | (None, _) \<Rightarrow> (\<lparr>sd_response = resp, sd_tunnel = None\<rparr>, p1))))"

text \<open>The tunnel ends: its lease is dropped.\<close>

definition end_tunnel :: "served \<Rightarrow> 'w warm_pool \<Rightarrow> 'w warm_pool" where
  "end_tunnel s p = (case sd_tunnel s of Some (_, l) \<Rightarrow> drop_lease l p | None \<Rightarrow> p)"

lemma pick_counters:
  "wp_counters (snd (pick dead p)) = (case fst (pick dead p) of Some l \<Rightarrow> (wp_counters p)(ls_active l := wp_counters p (ls_active l) + 1) | None \<Rightarrow> wp_counters p)"
  by (simp add: pick_def Let_def)

text \<open>C29: requests over the pool. Without a ready circuit the answer is 503 and nothing is leased. Otherwise the
  request runs over the connection of the ready circuit whose turn it is, the answer is the proxy's, and
  once the request, and its tunnel if it started one, is over, every lease count is what it was.\<close>

theorem pool_serves:
  assumes "pool_request dead upstream req p = (s, p')"
  shows "(if ready_list dead p = []
      then sd_response s = status_response 503 ''no warm circuit available'' \<and> sd_tunnel s = None
      else (\<exists>sl. sl = ready_list dead p ! (unat (wp_rr p) mod length (ready_list dead p)) \<and>
        sd_response s = fst (proxy (upstream (ci_conn (sl_circuit sl))) req) \<and>
        (case snd (proxy (upstream (ci_conn (sl_circuit sl))) req) of
           None \<Rightarrow> sd_tunnel s = None
         | Some line \<Rightarrow> \<exists>l. sd_tunnel s = Some (line, l) \<and> ls_conn l = ci_conn (sl_circuit sl) \<and>
             wp_counters p' (sl_active sl) = wp_counters p (sl_active sl) + 1))) \<and>
    wp_counters (end_tunnel s p') = wp_counters p"
proof (cases "ready_list dead p = []")
  case True
  with pick_none [OF True] pick_counters [of dead p] assms show ?thesis
    by (auto simp: pool_request_def serve_request_def end_tunnel_def split: prod.splits)
next
  case False
  define sl where "sl = ready_list dead p ! (unat (wp_rr p) mod length (ready_list dead p))"
  obtain p1 where p1: "pick dead p = (Some \<lparr>ls_conn = ci_conn (sl_circuit sl), ls_active = sl_active sl\<rparr>, p1)"
    using pick_ready(1) [OF False] by (metis prod.collapse sl_def)
  have "wp_counters p1 = (wp_counters p)(sl_active sl := wp_counters p (sl_active sl) + 1)"
    using pick_counters [of dead p] by (simp add: p1)
  with False assms p1 show ?thesis
    by (auto simp: pool_request_def serve_request_def end_tunnel_def drop_lease_def simp flip: sl_def split: prod.splits option.splits)
qed

text \<open>
  A forwarded request holds no lease once its response head is there, while its body still arrives: a
  retired circuit can be reaped under it.
\<close>

lemma forward_releases_lease:
  assumes "rq_method req \<noteq> ''CONNECT''"
  shows "wp_counters (snd (pool_request dead upstream req p)) = wp_counters p"
proof -
  obtain l p1 where pk: "pick dead p = (l, p1)" by fastforce
  have "snd (proxy u req) = None" for u using assms by (simp add: proxy_def split: sum.split)
  then have "snd (serve_request (map_option ls_conn l) upstream req) = None" by (cases l) (simp_all add: serve_request_def)
  then show ?thesis
    using pick_counters [of dead p] by (cases l) (auto simp: pool_request_def pk drop_lease_def split: prod.splits)
qed

definition demo_connect :: http_request where
  "demo_connect = \<lparr>rq_method = ''CONNECT'', rq_authority = Some ''a:443'', rq_host = None, rq_port = None,
     rq_path_and_query = None, rq_headers = no_headers, rq_body = []\<rparr>"

theorem pool_serves_witness:
  "let (s, p') = pool_request (\<lambda>_ _. False) (\<lambda>_ _ _. Inl []) demo_connect warm_demo
   in rs_status (sd_response s) = 200 \<and> sd_tunnel s \<noteq> None \<and> wp_counters p' 0 = 1 \<and> wp_counters (end_tunnel s p') 0 = 0"
proof -
  obtain s p' where e: "pool_request (\<lambda>_ _. False) (\<lambda>_ _ _. Inl []) demo_connect warm_demo = (s, p')" by fastforce
  have r: "ready_list (\<lambda>_ _. False) warm_demo = [one_slot]"
    by (simp add: ready_list_def ready_slot_def warm_demo_def one_slot_def)
  have "proxy u demo_connect = (\<lparr>rs_status = 200, rs_headers = no_headers, rs_body = []\<rparr>, Some (''a:443'' @ [CHR 0x0A]))" for u
    by (simp add: proxy_def demo_connect_def)
  moreover have "wp_counters warm_demo 0 = 0" "sl_active one_slot = 0" by (simp_all add: warm_demo_def one_slot_def)
  ultimately show ?thesis using pool_serves [OF e] unfolding r by (auto simp: e)
qed


end
