(* ===== verification/Sessions.thy ===== *)
theory Sessions
  imports Relay Rotation Katzenpost
begin

text \<open>
  Rotation over the emulator and over Nym. The evaluation crate's fronts and circuits over the emulator, at the end of
  \<^verbatim>\<open>crates/quicmix-eval/src/emulator.rs\<close>, and the session-recording server, the session ids and
  the verdict of the two rotation programs, \<^verbatim>\<open>crates/quicmix-eval/examples/rotate.rs\<close> and
  \<^verbatim>\<open>substrates/quicmix-nym/src/bin/nym_rotate.rs\<close>.
\<close>

section \<open>Fronts over the emulator\<close>

text \<open>
  A front factory: every call binds the two sockets of a relay (\<open>binds\<close>) and starts it over two fresh
  emulators. A panic depends on the parameters only.
\<close>

definition emulated_front ::
  "('w \<Rightarrow> (io_error + socket_addr) \<times> (io_error + socket_addr) \<times> 'w) \<Rightarrow> (io_error \<Rightarrow> string) \<Rightarrow> nat \<Rightarrow> socket_addr \<Rightarrow> oracle_params \<Rightarrow>
   'w \<Rightarrow> ((string + socket_addr) \<times> 'w) may_panic" where
  "emulated_front binds show_io now server p w =
     (case binds w of (front, back, w') \<Rightarrow>
        map_option (\<lambda>r. (map_sum show_io rl_front r, w'))
          (start_relay now server (Datagram, p, new_emulator now p) (Datagram, p, new_emulator now p) front back))"

text \<open>The factory as a computation, where the parameters do not panic.\<close>

definition emulated_factory ::
  "('w \<Rightarrow> (io_error + socket_addr) \<times> (io_error + socket_addr) \<times> 'w) \<Rightarrow> (io_error \<Rightarrow> string) \<Rightarrow> nat \<Rightarrow> socket_addr \<Rightarrow> oracle_params \<Rightarrow>
   ('w, string, socket_addr) io may_panic" where
  "emulated_factory binds show_io now server p =
     map_option (\<lambda>_ w. the (emulated_front binds show_io now server p w)) (bdp_packets p)"

definition connect_fresh ::
  "('w, string, socket_addr) io may_panic \<Rightarrow> 'w quic_stack \<Rightarrow> byte list \<Rightarrow> ('w, circuit_error, circuit) io may_panic" where
  "connect_fresh factory qs cert = map_option (\<lambda>mf. connect_fresh_with qs mf cert None) factory"

definition prewarm ::
  "('w, string, socket_addr) io may_panic \<Rightarrow> nat \<Rightarrow> 'w quic_stack \<Rightarrow> byte list \<Rightarrow> ('w, circuit_error, circuit list) io may_panic" where
  "prewarm factory n qs cert = map_option (\<lambda>mf. prewarm_with n qs mf cert None) factory"

lemma emulated_front_total: "bdp_packets p = Some d \<Longrightarrow> \<exists>r. emulated_front binds show_io now server p w = Some r"
  by (simp add: emulated_front_def start_relay_def split: prod.split)

section \<open>The session server\<close>

type_synonym sessions = "byte list \<rightharpoonup> socket_addr list"

text \<open>
  One stream of a connection from \<open>remote\<close>: what was read to its end, or an error that ends the
  connection's loop. The result is the new table and the answer.
\<close>

definition session_stream :: "socket_addr \<Rightarrow> io_error + byte list \<Rightarrow> sessions \<Rightarrow> (sessions \<times> byte list) option" where
  "session_stream remote read ss =
     (case read of
        Inl _ \<Rightarrow> None
      | Inr data \<Rightarrow>
          (if 2 ^ 20 < length data then None
           else Some (if 8 \<le> length data
                      then ss(take 8 data \<mapsto> (case ss (take 8 data) of Some l \<Rightarrow> l | None \<Rightarrow> []) @ [remote])
                      else ss, string_bytes ''k'')))"

section \<open>Session ids, medians, verdict\<close>

definition NYM_CTR_INIT :: u64 where
  "NYM_CTR_INIT = 0x123456789ABCDEF0"

definition rand_id :: "u64 \<Rightarrow> byte list \<times> u64" where
  "rand_id ctr =
     (let x1 = ctr XOR drop_bit 30 ctr;
          x2 = x1 * 0xBF58476D1CE4E5B9;
          x3 = x2 XOR drop_bit 27 x2
      in (to_le 8 (unat x3), ctr + 0x9E3779B97F4A7C15))"

definition median_secs :: "duration list \<Rightarrow> f64" where
  "median_secs v = (let s = sort v in if s = [] then 0 else as_secs_f64 (s ! (length s div 2)))"

text \<open>The verdict on one session: the sources the server saw, and the local addresses of the two circuits.\<close>

definition rotation_ok :: "sessions \<Rightarrow> byte list \<Rightarrow> socket_addr \<Rightarrow> socket_addr \<Rightarrow> bool" where
  "rotation_ok ss sid local1 local2 \<longleftrightarrow>
     (let addrs = (case ss sid of Some l \<Rightarrow> l | None \<Rightarrow> []) in
      length addrs = 2 \<and> card (set addrs) = 2 \<and> local1 \<noteq> local2)"

section \<open>Continuity\<close>

fun rand_ids :: "nat \<Rightarrow> u64 \<Rightarrow> byte list list" where
  "rand_ids 0 ctr = []"
| "rand_ids (Suc n) ctr = (case rand_id ctr of (i, ctr') \<Rightarrow> i # rand_ids n ctr')"

lemma rand_id_half: "rand_id ctr = (token_half ctr, ctr + CTR_STEP)"
  by (simp add: rand_id_def token_half_def CTR_STEP_def Let_def)

lemma rand_ids_nth: "i < n \<Longrightarrow> rand_ids n ctr ! i = token_half (ctr + of_nat i * CTR_STEP)"
proof (induction n arbitrary: ctr i)
  case (Suc n)
  then show ?case by (cases i) (simp_all add: rand_id_half algebra_simps)
qed simp

lemma length_rand_ids [simp]: "length (rand_ids n ctr) = n"
  by (induction n arbitrary: ctr) (simp_all add: rand_id_half)

lemma rand_ids_distinct:
  assumes "n \<le> 2 ^ 64"
  shows "distinct (rand_ids n ctr)"
  unfolding distinct_conv_nth
proof (intro allI impI notI)
  fix i j assume ij: "i < length (rand_ids n ctr)" "j < length (rand_ids n ctr)" "i \<noteq> j" and "rand_ids n ctr ! i = rand_ids n ctr ! j"
  then have "token_half (ctr + of_nat i * CTR_STEP) = token_half (ctr + of_nat j * CTR_STEP)"
    by (simp add: rand_ids_nth)
  then have "of_nat i * CTR_STEP = of_nat j * CTR_STEP" by (auto dest!: token_half_inj)
  then have eq: "(of_nat i :: u64) = of_nat j" by (rule odd_mult_inj [OF step_inverse])
  have "i < 2 ^ 64" "j < 2 ^ 64" using ij assms by simp_all
  with arg_cong [OF eq, of unat] have "i = j" by (simp add: unat_of_nat take_bit_nat_eq_self)
  with ij show False by simp
qed

text \<open>Streams in the order in which the server handles them, each what \<open>session_send\<close> wrote.\<close>

fun record_all :: "(socket_addr \<times> byte list \<times> byte list) list \<Rightarrow> sessions \<Rightarrow> sessions" where
  "record_all [] ss = ss"
| "record_all ((remote, sid, msg) # rest) ss =
     record_all rest (case session_stream remote (Inr (sid @ msg)) ss of Some (ss', _) \<Rightarrow> ss' | None \<Rightarrow> ss)"

definition carried :: "byte list \<Rightarrow> (socket_addr \<times> byte list \<times> byte list) list \<Rightarrow> socket_addr list" where
  "carried sid msgs = map fst (filter (\<lambda>(_, s, _). s = sid) msgs)"

definition small_send :: "socket_addr \<times> byte list \<times> byte list \<Rightarrow> bool" where
  "small_send s \<longleftrightarrow> length (fst (snd s)) = 8 \<and> length (fst (snd s) @ snd (snd s)) \<le> 2 ^ 20"

lemma record_all_carried:
  "list_all small_send msgs \<Longrightarrow>
   (case record_all msgs ss sid of Some l \<Rightarrow> l | None \<Rightarrow> []) = (case ss sid of Some l \<Rightarrow> l | None \<Rightarrow> []) @ carried sid msgs"
proof (induction msgs arbitrary: ss)
  case (Cons a msgs)
  obtain remote s msg where a: "a = (remote, s, msg)" by (cases a)
  let ?ss = "ss(s \<mapsto> (case ss s of Some l \<Rightarrow> l | None \<Rightarrow> []) @ [remote])"
  have "session_stream remote (Inr (s @ msg)) ss = Some (?ss, string_bytes ''k'')"
    using Cons.prems by (simp add: session_stream_def a small_send_def)
  then have "record_all (a # msgs) ss = record_all msgs ?ss" by (simp add: a)
  with Cons show ?case by (simp add: a carried_def)
qed (simp add: carried_def)

text \<open>A session over rotated circuits. The ids of one run are pairwise different, so when the last one drawn is sent
  over two circuits after any earlier traffic, in whatever order the server handled it, the server has
  recorded for it exactly the sources of these two circuits, in order; and the verdict is positive
  exactly when both the sources and the local addresses differ.\<close>

theorem rotation_verdict:
  assumes "rand_ids (Suc n) ctr = ids @ [sid]" and "Suc n \<le> 2 ^ 64" and "list_all small_send earlier"
    and "(\<lambda>(_, s, _). s) ` set earlier \<subseteq> set ids" and "length m1 \<le> 2 ^ 20 - 8" and "length m2 \<le> 2 ^ 20 - 8"
    and "ss = record_all (earlier @ [(r1, sid, m1), (r2, sid, m2)]) Map.empty"
  shows "ss sid = Some [r1, r2] \<and> (rotation_ok ss sid l1 l2 \<longleftrightarrow> r1 \<noteq> r2 \<and> l1 \<noteq> l2)"
proof -
  have "sid \<notin> set ids" using rand_ids_distinct [OF assms(2), of ctr] unfolding assms(1) by simp
  then have "carried sid earlier = []" using assms(4) by (force simp: carried_def filter_empty_conv)
  then have carried: "carried sid (earlier @ [(r1, sid, m1), (r2, sid, m2)]) = [r1, r2]" by (simp add: carried_def)
  have "length ids = n" using arg_cong [OF assms(1), of length] by (simp del: rand_ids.simps)
  then have "sid = rand_ids (Suc n) ctr ! n" unfolding assms(1) by (metis nth_append_length)
  then have "length sid = 8" by (simp add: rand_ids_nth del: rand_ids.simps)
  then have small: "list_all small_send (earlier @ [(r1, sid, m1), (r2, sid, m2)])" using assms(3,5,6) by (simp add: small_send_def)
  have "(case ss sid of Some l \<Rightarrow> l | None \<Rightarrow> []) = [r1, r2]"
    using record_all_carried [OF small, of Map.empty sid] by (simp add: assms(7) carried)
  then have "ss sid = Some [r1, r2]" by (cases "ss sid") simp_all
  then show ?thesis by (auto simp: rotation_ok_def card_insert_if)
qed

theorem rotation_verdict_witness:
  "let ids = rand_ids 2 NYM_CTR_INIT; a = (\<lambda>p. SockAddr (V4 127 0 0 1) p);
       ss = record_all ([(a 1, ids ! 0, [120])] @ [(a 2, ids ! 1, [97]), (a 3, ids ! 1, [98])]) Map.empty
   in ss (ids ! 1) = Some [a 2, a 3] \<and> rotation_ok ss (ids ! 1) (a 8) (a 9)"
proof -
  have ids: "rand_ids (Suc 1) NYM_CTR_INIT = [rand_ids 2 NYM_CTR_INIT ! 0] @ [rand_ids 2 NYM_CTR_INIT ! 1]"
    by (simp add: numeral_2_eq_2 rand_id_half)
  have len: "length (rand_ids 2 NYM_CTR_INIT ! 0) = 8" by (simp add: rand_ids_nth)
  show ?thesis
    unfolding Let_def
    using rotation_verdict [OF ids _ _ _ _ _ refl, of "[(SockAddr (V4 127 0 0 1) 1, rand_ids 2 NYM_CTR_INIT ! 0, [120])]" "[97]" "[98]"
        "SockAddr (V4 127 0 0 1) 2" "SockAddr (V4 127 0 0 1) 3" "SockAddr (V4 127 0 0 1) 8" "SockAddr (V4 127 0 0 1) 9"]
    by (simp add: small_send_def len)
qed


end
