(* ===== verification/Probes.thy ===== *)
theory Probes
  imports Katzenpost Hopr Tor
begin

text \<open>
  The probes of the substrates that end with a verdict: \<^verbatim>\<open>kp_echo.rs\<close> and \<^verbatim>\<open>kp_probe.rs\<close>
  (Katzenpost), \<^verbatim>\<open>hopr_probe.rs\<close> (HOPR) and \<^verbatim>\<open>tor_probe.rs\<close> (Tor). What they
  print, apart from the numbers they compute, is left out; arguments are the words after the program name.
\<close>

definition nth_arg :: "nat \<Rightarrow> string list \<Rightarrow> string option" where
  "nth_arg n args = (if n < length args then Some (args ! n) else None)"

definition arg_or :: "string list \<Rightarrow> nat \<Rightarrow> string \<Rightarrow> string" where
  "arg_or args n d = (case nth_arg n args of Some a \<Rightarrow> a | None \<Rightarrow> d)"

section \<open>Katzenpost\<close>

definition echo_nonce :: "byte list" where
  "echo_nonce = map (\<lambda>i. of_nat i * 37 + 11) [0..<32]"

definition echoed :: "byte list \<Rightarrow> reply \<Rightarrow> bool" where
  "echoed nonce r \<longleftrightarrow> rp_error_code r = 0 \<and> find_sub nonce (rp_payload r) \<noteq> None"

datatype echo_error = EchoRequest kp_error | NotEchoed byte nat

text \<open>\<open>args\<close> are the arguments after the program name; \<open>dial\<close> connects to the daemon.\<close>

definition kp_echo :: "cbor \<Rightarrow> (string \<Rightarrow> io_error + tcp_stream) \<Rightarrow> bool \<Rightarrow> string list \<Rightarrow> u64 \<Rightarrow> (echo_error + service_id) \<times> u64" where
  "kp_echo cb dial in_time args ctr =
     (let daemon = arg_or args 0 ''127.0.0.1:64331''; capability = arg_or args 1 ''echo'' in
      case request_reply cb (dial daemon) in_time capability echo_nonce ctr of
        (Inl e, ctr') \<Rightarrow> (Inl (EchoRequest e), ctr')
      | (Inr (sv, r), ctr') \<Rightarrow>
          (if echoed echo_nonce r then Inr sv else Inl (NotEchoed (rp_error_code r) (length (rp_payload r))), ctr'))"

definition kp_probe :: "cbor \<Rightarrow> (string \<Rightarrow> io_error + tcp_stream) \<Rightarrow> string list \<Rightarrow> u64 \<Rightarrow> (kp_error + bool \<times> nat \<times> bool) \<times> u64" where
  "kp_probe cb dial args ctr =
     (case connect_and_handshake cb (dial (arg_or args 0 ''127.0.0.1:64331'')) ctr of
        (Inl e, ctr') \<Rightarrow> (Inl e, ctr')
      | (Inr (_, hs), ctr') \<Rightarrow> (Inr (hs_is_connected hs, length (hs_pki_doc hs), hs_session_resumed hs), ctr'))"

section \<open>HOPR\<close>

datatype hopr_probe_end = Usage | OpenError hopr_error | SendError substrate_error | RecvError substrate_error | NoEcho | RoundTrip datagram

text \<open>The session is closed before the verdict, whatever it is: the result carries the URL of the request that closes it.\<close>

definition hopr_probe ::
  "session_post \<Rightarrow> (socket_addr \<Rightarrow> io_error + udp_socket) \<Rightarrow> string list \<Rightarrow> hopr_probe_end \<times> string option" where
  "hopr_probe post udp_connect args =
     (case args of
        api # token # dest # target # opt \<Rightarrow>
          (let hops = (case Option.bind (nth_arg 0 opt) (from_str_radix 10 (2 ^ 8)) of Some n \<Rightarrow> of_nat n | None \<Rightarrow> 0);
               opts = default_session_opts\<lparr>so_hops := hops, so_target := target, so_data_host := nth_arg 1 opt,
                        so_listen_host := arg_or opt 2 ''127.0.0.1:0''\<rparr>
           in case hopr_connect post udp_connect api token dest opts (hopr_oracle hops) of
                Inl e \<Rightarrow> (OpenError e, None)
              | Inr h \<Rightarrow>
                  (case hopr_try_send (string_bytes ''quicmix-hopr-probe'') h of
                     (Inl e, _) \<Rightarrow> (SendError e, None)
                   | (Inr _, h1) \<Rightarrow>
                       (case hopr_try_recv h1 of
                          None \<Rightarrow> (NoEcho, Some (close_url h1))
                        | Some (Inl e, h2) \<Rightarrow> (RecvError e, Some (close_url h2))
                        | Some (Inr got, h2) \<Rightarrow> (RoundTrip got, Some (close_url h2)))))
      | _ \<Rightarrow> (Usage, None))"

section \<open>Tor\<close>

definition tor_probe_target :: "string list \<Rightarrow> string \<times> u16" where
  "tor_probe_target args =
     (let target = arg_or args 0 ''check.torproject.org:80'';
          (host, port) = (case rsplit_once CHR '':'' target of Some hp \<Rightarrow> hp | None \<Rightarrow> (target, ''80''))
      in (host, case parse_u16 port of Some p \<Rightarrow> of_nat p | None \<Rightarrow> 80))"

definition tor_probe ::
  "tor_error + tor_daemon \<Rightarrow> (socket_addr \<Rightarrow> io_error + tcp_stream) \<Rightarrow> string list \<Rightarrow> tor_error + (io_error + byte list)" where
  "tor_probe launched connect args =
     (let (host, port) = tor_probe_target args in
      case launched of
        Inl e \<Rightarrow> Inl e
      | Inr tor \<Rightarrow>
          (case socks5_connect connect (td_socks tor) host port of
             Inl e \<Rightarrow> Inl e
           | Inr s \<Rightarrow>
               (let crlf = [CHR 0x0D, CHR 0x0A];
                    req = ''GET / HTTP/1.0'' @ crlf @ ''Host: '' @ host @ crlf @ crlf
                in Inr (case tcp_write_all (string_bytes req) s of
                     (Inl e, _) \<Rightarrow> Inl e
                   | (Inr _, s1) \<Rightarrow>
                       (case flush (t_write s1) of
                          (Inl e, _) \<Rightarrow> Inl e
                        | (Inr _, _) \<Rightarrow>
                            (if r_bytes (t_read s1) = [] \<and> r_end (t_read s1) \<noteq> UnexpectedEof then Inl (r_end (t_read s1))
                             else Inr (take 256 (r_bytes (t_read s1)))))))))"

section \<open>Verdicts\<close>

lemma echoed_iff: "echoed nonce r \<longleftrightarrow> rp_error_code r = 0 \<and> sublist nonce (rp_payload r)"
  by (simp add: echoed_def find_sub_eq_None)

lemma length_echo_nonce: "length echo_nonce = 32"
  by (simp add: echo_nonce_def)

text \<open>
  A session that carries datagrams back unchanged: the probe reports the round trip of its own payload
  and closes the session.
\<close>

lemma hopr_probe_echo:
  assumes "hopr_connect post udp_connect api token dest (default_session_opts\<lparr>so_hops := 0, so_target := target, so_data_host := None,
      so_listen_host := ''127.0.0.1:0''\<rparr>) (hopr_oracle 0) = Inr h"
    and "us_faults (hp_sock h) = []" and "us_arriving (hp_sock h) = [Inr (string_bytes ''quicmix-hopr-probe'')]"
  shows "hopr_probe post udp_connect [api, token, dest, target] = (RoundTrip (string_bytes ''quicmix-hopr-probe''), Some (close_url h))"
  using assms
  by (simp add: hopr_probe_def nth_arg_def arg_or_def hopr_try_send_def udp_send_def hopr_try_recv_def udp_recv_def Let_def close_url_def string_bytes_def)

end
