(* ===== verification/Carrier.thy ===== *)
theory Carrier
  imports Hopr Nym "HOL-Library.Sublist"
begin

text \<open>
  The boundary over a network that takes datagrams one at a time: the session socket of HOPR
  (\<^verbatim>\<open>substrates/quicmix-hopr\<close>), the client and the reply leg of Nym (\<^verbatim>\<open>substrates/quicmix-nym\<close>). Their common
  contract is the locale \<open>carrier\<close>: what is handed over is kept in an outbox, a send that succeeds adds its
  datagram at the end and nothing else touches it. What the send pump of \<open>Substrate\<close> then guarantees is
  proved once, over the executions of theory Substrate.
\<close>

section \<open>Executions, seen from the inner transport\<close>

text \<open>
  Only the two pumps and the transport's own steps touch the inner transport, and only the send pump the
  history of sends and their counter: an invariant of those three is one of every execution.
\<close>

lemma accepts_frame:
  "accepts r dg s s' \<Longrightarrow> sb_inner s' = sb_inner s \<and> sb_metrics s' = sb_metrics s \<and> lg_out (log_accept r dg l) = lg_out l"
  by (auto simp: accepts_def log_accept_def split: if_splits)

lemma pump_send_inner:
  assumes "pump_send try_send t s = Some s'"
  obtains r where "try_send (snd (hd (sb_send_q s))) (sb_inner s) = (r, sb_inner s')"
    and "mt_sent (sb_metrics s') = mt_sent (sb_metrics s) + (if r = Inr () then 1 else 0)"
proof -
  let ?dg = "snd (hd (sb_send_q s))"
  obtain r y where i: "try_send ?dg (sb_inner s) = (r, y)" by fastforce
  with assms have "y = sb_inner s'" "mt_sent (sb_metrics s') = mt_sent (sb_metrics s) + (if r = Inr () then 1 else 0)"
    by (auto simp: pump_send_def Let_def split: if_splits list.splits sum.splits)
  with i that show ?thesis by blast
qed

lemma pump_take_inner:
  assumes "pump_take try_recv s = Some s'"
  obtains r where "try_recv (sb_inner s) = Some (r, sb_inner s')" and "mt_sent (sb_metrics s') = mt_sent (sb_metrics s)"
  using assms that by (auto simp: pump_take_def split: if_splits option.splits sum.splits)

lemma sb_recv_frame: "sb_recv s = Some (x, s') \<Longrightarrow> sb_inner s' = sb_inner s \<and> sb_metrics s' = sb_metrics s"
  by (auto simp: sb_recv_def split: list.splits if_splits)

lemma pump_push_frame: "pump_push s = Some s' \<Longrightarrow> sb_inner s' = sb_inner s \<and> sb_metrics s' = sb_metrics s"
  by (auto simp: pump_push_def split: option.splits if_splits)

lemma sb_lossy_send_frame:
  "sb_inner (sb_lossy_send dg s) = sb_inner s \<and> mt_sent (sb_metrics (sb_lossy_send dg s)) = mt_sent (sb_metrics s)"
  by (simp add: sb_lossy_send_def sb_enqueue_def)

lemma exec_inner_induct [consumes 1, case_names start send recv step]:
  assumes "sb_exec try_send try_recv step s0 l s"
    and start: "P [] (sb_inner s0) (mt_sent (sb_metrics s0))"
    and send: "\<And>out x n t d dg r y. P out x n \<Longrightarrow> try_send dg x = (r, y) \<Longrightarrow>
      P (out @ [(t, d, dg)]) y (n + (if r = Inr () then 1 else 0))"
    and recv: "\<And>out x n r y. P out x n \<Longrightarrow> try_recv x = Some (r, y) \<Longrightarrow> P out y n"
    and step: "\<And>out x n y. P out x n \<Longrightarrow> step x y \<Longrightarrow> P out y n"
  shows "P (lg_out l) (sb_inner s) (mt_sent (sb_metrics s))"
  using assms(1)
proof (induction rule: sb_exec.induct)
  case ex_start
  show ?case using start by simp
next
  case (ex_send l s called dg r s')
  then show ?case using accepts_frame [OF accepts_ops(1), of called dg s r s' l] by simp
next
  case (ex_send_timeout l s called dg d r s')
  then show ?case using accepts_frame [OF accepts_ops(2), of called dg d s r s' l] by simp
next
  case (ex_try_send l s dg r s')
  then show ?case using accepts_frame [OF accepts_ops(3), of dg s r s' l] by simp
next
  case (ex_lossy l s dg r s')
  then show ?case by (simp add: sb_lossy_send_frame log_accept_def)
next
  case (ex_recv l s x s')
  then show ?case by (simp add: sb_recv_frame)
next
  case (ex_pump l s t s')
  from ex_pump.hyps(2) show ?case
    by (rule pump_send_inner) (use send [OF ex_pump.IH] in simp)
next
  case (ex_take l s s')
  from ex_take.hyps(2) show ?case
    by (rule pump_take_inner) (use recv [OF ex_take.IH] in simp)
next
  case (ex_push l s s')
  then show ?case by (simp add: pump_push_frame)
qed (simp_all add: update_oracle_def step)

section \<open>Carriers\<close>

locale carrier =
  fixes try_send :: "datagram \<Rightarrow> 's \<Rightarrow> (substrate_error + unit) \<times> 's"
    and try_recv :: "'s \<Rightarrow> ((substrate_error + datagram) \<times> 's) option"
    and step :: "'s \<Rightarrow> 's \<Rightarrow> bool"
    and outbox :: "'s \<Rightarrow> datagram list"
  assumes send_outbox: "try_send dg x = (r, y) \<Longrightarrow> outbox y = outbox x @ (if r = Inr () then [dg] else [])"
    and recv_outbox: "try_recv x = Some (r', y) \<Longrightarrow> outbox y = outbox x"
    and step_outbox: "step x y \<Longrightarrow> outbox y = outbox x"
begin

lemma exec_carried:
  assumes "sb_exec try_send try_recv step (new_substrate now kind oracle inner depth) l s" and "outbox inner = []"
  shows "subseq (outbox (sb_inner s)) (map (snd \<circ> snd) (lg_out l)) \<and>
    mt_sent (sb_metrics s) = of_nat (length (outbox (sb_inner s)))"
  using assms(1)
proof (induction rule: exec_inner_induct)
  case start
  show ?case by (simp add: new_substrate_def new_metrics_def assms(2))
next
  case (send out x n t d dg r y)
  then show ?case by (auto simp: send_outbox list_emb_append_mono)
qed (simp_all add: recv_outbox step_outbox)

text \<open>What the boundary makes of a carrier.\<close>

lemma exec_in_order:
  assumes "sb_exec try_send try_recv step (new_substrate now kind oracle inner depth) l s" and "outbox inner = []"
  shows "subseq (outbox (sb_inner s)) (lg_enq l) \<and>
    mt_sent (metrics_snapshot s) = of_nat (length (outbox (sb_inner s))) \<and>
    mt_send_errors (metrics_snapshot s) = of_nat (length (lg_out l) - length (outbox (sb_inner s)))"
proof -
  note c = exec_carried [OF assms]
  have i: "send_inv l s" using exec_inv [OF assms(1) refl] by blast
  have "length (outbox (sb_inner s)) \<le> length (lg_out l)"
    using c list_emb_length by fastforce
  then show ?thesis
    using c i by (simp add: send_inv_def metrics_snapshot_def of_nat_diff algebra_simps subseq_rev_drop_many)
qed

end

text \<open>A carrier that is healthy takes every datagram and stays healthy.\<close>

locale healthy_carrier = carrier try_send try_recv step outbox
  for try_send :: "datagram \<Rightarrow> 's \<Rightarrow> (substrate_error + unit) \<times> 's" and try_recv and step and outbox +
  fixes healthy :: "'s \<Rightarrow> bool"
  assumes healthy_send: "healthy x \<Longrightarrow> try_send dg x = (r, y) \<Longrightarrow> r = Inr () \<and> healthy y"
    and healthy_recv: "healthy x \<Longrightarrow> try_recv x = Some (r', y) \<Longrightarrow> healthy y"
    and healthy_step: "healthy x \<Longrightarrow> step x y \<Longrightarrow> healthy y"
begin

lemma exec_all_carried:
  assumes "sb_exec try_send try_recv step (new_substrate now kind oracle inner depth) l s"
    and "outbox inner = []" and "healthy inner"
  shows "outbox (sb_inner s) @ map snd (sb_send_q s) = lg_enq l"
proof -
  from assms(1) have "healthy (sb_inner s) \<and> outbox (sb_inner s) = map (snd \<circ> snd) (lg_out l)"
  proof (induction rule: exec_inner_induct)
    case (send out x n t d dg r y)
    then show ?case using healthy_send send_outbox by fastforce
  qed (auto simp: new_substrate_def assms recv_outbox step_outbox intro: healthy_recv healthy_step)
  then show ?thesis using exec_inv [OF assms(1) refl] by (simp add: send_inv_def)
qed

end

section \<open>The networks\<close>

text \<open>Datagrams and errors arrive at the session socket; messages at the client, until it shuts down.\<close>

definition hopr_arrives :: "hopr_substrate \<Rightarrow> hopr_substrate \<Rightarrow> bool" where
  "hopr_arrives s s' \<longleftrightarrow> (\<exists>x. s' = s\<lparr>hp_sock := (hp_sock s)\<lparr>us_arriving := us_arriving (hp_sock s) @ [x]\<rparr>\<rparr>)"

definition nym_arrives :: "'r nym_substrate \<Rightarrow> 'r nym_substrate \<Rightarrow> bool" where
  "nym_arrives s s' \<longleftrightarrow>
     (\<exists>m. s' = s\<lparr>ns_client := (ns_client s)\<lparr>nc_incoming := nc_incoming (ns_client s) @ [m]\<rparr>\<rparr>) \<or>
     s' = s\<lparr>ns_client := (ns_client s)\<lparr>nc_shut_down := True\<rparr>\<rparr>"

interpretation hopr_carrier: healthy_carrier hopr_try_send hopr_try_recv hopr_arrives "us_sent \<circ> hp_sock" "\<lambda>s. us_faults (hp_sock s) = []"
  by unfold_locales
     (auto simp: hopr_try_send_def udp_send_def hopr_try_recv_def udp_recv_def hopr_arrives_def split: list.splits option.splits)

interpretation nym_carrier: healthy_carrier nym_try_send nym_try_recv nym_arrives
    "\<lambda>s. map (fst \<circ> snd) (nc_sent (ns_client s))" "\<lambda>s. nc_faults (ns_client s) = []"
  by unfold_locales
     (auto simp: nym_try_send_def nym_try_recv_def nym_arrives_def Let_def split: list.splits option.splits if_splits)

interpretation reply_carrier: healthy_carrier reply_try_send reply_try_recv "\<lambda>_ _. False" "\<lambda>s. map snd (rg_shipped s)" "\<lambda>s. rg_faults s = []"
  by unfold_locales (auto simp: reply_try_send_def reply_try_recv_def split: list.splits option.splits)

section \<open>Properties\<close>

text \<open>HOPR behind the boundary: what the session socket got is what was accepted, in order, less the sends that
  failed, which are counted; on a socket without faults it is everything but what is still queued.\<close>

theorem hopr_in_order:
  assumes "sb_exec hopr_try_send hopr_try_recv hopr_arrives (new_substrate now kind oracle inner depth) l s"
    and "us_sent (hp_sock inner) = []"
  shows "subseq (us_sent (hp_sock (sb_inner s))) (lg_enq l) \<and>
    mt_sent (metrics_snapshot s) = of_nat (length (us_sent (hp_sock (sb_inner s)))) \<and>
    mt_send_errors (metrics_snapshot s) = of_nat (length (lg_out l) - length (us_sent (hp_sock (sb_inner s)))) \<and>
    (us_faults (hp_sock inner) = [] \<longrightarrow> us_sent (hp_sock (sb_inner s)) @ map snd (sb_send_q s) = lg_enq l)"
  using hopr_carrier.exec_in_order [OF assms(1)] hopr_carrier.exec_all_carried [OF assms(1)] assms(2) by simp

text \<open>Every message of the Nym client goes to the recipient it was built for, with the reply blocks asked for.\<close>

lemma nym_exec_addressed:
  assumes "sb_exec nym_try_send nym_try_recv nym_arrives (new_substrate now kind oracle inner depth) l s"
    and "nc_sent (ns_client inner) = []"
  shows "set (nc_sent (ns_client (sb_inner s))) \<subseteq> {ns_recipient inner} \<times> UNIV \<times> {ns_surbs inner}"
proof -
  from assms(1) have "ns_recipient (sb_inner s) = ns_recipient inner \<and> ns_surbs (sb_inner s) = ns_surbs inner \<and>
    set (nc_sent (ns_client (sb_inner s))) \<subseteq> {ns_recipient inner} \<times> UNIV \<times> {ns_surbs inner}"
  proof (induction rule: exec_inner_induct)
    case start
    show ?case by (simp add: new_substrate_def assms(2))
  next
    case (send out x n t d dg r y)
    then show ?case by (auto simp: nym_try_send_def Let_def split: list.splits option.splits)
  next
    case (recv out x n r y)
    then show ?case by (auto simp: nym_try_recv_def Let_def split: list.splits if_splits)
  next
    case (step out x n y)
    then show ?case by (auto simp: nym_arrives_def)
  qed
  then show ?thesis by blast
qed

lemma addressed_map:
  assumes "set ms \<subseteq> {r} \<times> UNIV \<times> {k}"
  shows "ms = map (\<lambda>dg. (r, dg, k)) (map (fst \<circ> snd) ms)"
  using assms by (induction ms) auto

text \<open>C22: the Nym client bridge. Whatever the application does at the bridge and the network at the client, the
  messages the client sent are, in order, datagrams the boundary accepted, each once, each to the recipient the
  substrate was built for and with the configured number of reply blocks; the counters are the numbers of
  sends that succeeded and that failed; and while the client does not fail, only what is still queued has not
  been sent.\<close>

theorem nym_bridge_in_order:
  assumes "spawn_client_bridge now s bound = Some (Inr fb)" and "nc_sent (ns_client s) = []"
    and "sb_exec nym_try_send nym_try_recv nym_arrives (fb_sub fb) l b"
  shows "\<exists>ds. nc_sent (ns_client (sb_inner b)) = map (\<lambda>dg. (ns_recipient s, dg, ns_surbs s)) ds \<and> subseq ds (lg_enq l) \<and>
    mt_sent (metrics_snapshot b) = of_nat (length ds) \<and>
    mt_send_errors (metrics_snapshot b) = of_nat (length (lg_out l) - length ds) \<and>
    (nc_faults (ns_client s) = [] \<longrightarrow> ds @ map snd (sb_send_q b) = lg_enq l)"
proof -
  obtain depth where "fb_sub fb = new_substrate now Datagram (ns_oracle s) s depth"
    using assms(1) by (auto simp: spawn_client_bridge_def Let_def split: Option.bind_splits sum.splits)
  note exec = assms(3) [unfolded this]
  let ?ds = "map (fst \<circ> snd) (nc_sent (ns_client (sb_inner b)))"
  show ?thesis
  proof (intro exI [of _ ?ds] conjI impI)
    show "nc_sent (ns_client (sb_inner b)) = map (\<lambda>dg. (ns_recipient s, dg, ns_surbs s)) ?ds"
      by (rule addressed_map [OF nym_exec_addressed [OF exec assms(2)]])
  qed (use nym_carrier.exec_in_order [OF exec] nym_carrier.exec_all_carried [OF exec] assms(2) in simp_all)
qed

definition demo_nym :: "nat nym_substrate" where
  "demo_nym = \<lparr>ns_client = \<lparr>nc_sent = [], nc_faults = [], nc_incoming = [], nc_shut_down = False\<rparr>, ns_recipient = 7,
     ns_surbs = 2, ns_oracle = nym_oracle\<rparr>"

theorem nym_bridge_in_order_witness:
  "\<exists>fb l b. spawn_client_bridge 0 demo_nym (Inr (SockAddr (V4 127 0 0 1) 7000)) = Some (Inr fb) \<and>
     sb_exec nym_try_send nym_try_recv nym_arrives (fb_sub fb) l b \<and>
     nc_sent (ns_client (sb_inner b)) = [(7, [1, 2], 2)] \<and> mt_sent (metrics_snapshot b) = 1"
proof -
  obtain d where d: "16 \<le> d" "bdp_packets nym_oracle = Some d" using nym_depth by blast
  define s0 where "s0 = new_substrate 0 Datagram nym_oracle demo_nym d"
  define s1 where "s1 = s0\<lparr>sb_send_q := [(0, [1, 2])]\<rparr>"
  let ?fb = "\<lparr>fb_addr = SockAddr (V4 127 0 0 1) 7000, fb_sub = s0, fb_port = new_port, fb_running = True\<rparr>"
  have fb: "spawn_client_bridge 0 demo_nym (Inr (SockAddr (V4 127 0 0 1) 7000)) = Some (Inr ?fb)"
    by (simp add: spawn_client_bridge_def demo_nym_def d(2) s0_def)
  have "sb_try_send [1, 2] s0 = (Inr (), s1)"
    using d(1) by (simp add: sb_try_send_def sb_enqueue_def s0_def s1_def new_substrate_def)
  note ex1 = ex_try_send [OF ex_start this, of nym_try_send nym_try_recv nym_arrives]
  obtain b where b: "pump_send nym_try_send 0 s1 = Some b" "sb_send_q b = []"
    by (simp add: pump_send_def s1_def s0_def new_substrate_def demo_nym_def nym_try_send_def Let_def)
  note ex2 = ex_pump [OF ex1 b(1)]
  from ex2 have ex3: "\<exists>l. sb_exec nym_try_send nym_try_recv nym_arrives (fb_sub ?fb) l b" by auto
  have "\<exists>ds. nc_sent (ns_client (sb_inner b)) = map (\<lambda>dg. (ns_recipient demo_nym, dg, ns_surbs demo_nym)) ds \<and>
      mt_sent (metrics_snapshot b) = of_nat (length ds) \<and> ds @ map snd (sb_send_q b) = [[1, 2]]"
    using nym_bridge_in_order [OF fb, simplified, OF _ ex2] by (auto simp: log_accept_def demo_nym_def)
  with b(2) have "nc_sent (ns_client (sb_inner b)) = [(7, [1, 2], 2)]" "mt_sent (metrics_snapshot b) = 1"
    by (auto simp: demo_nym_def)
  with fb ex3 show ?thesis by blast
qed

end
