(* ===== verification/Calibration.thy ===== *)
theory Calibration
  imports Probes Utf8 Nym "HOL-Library.Sublist"
begin

text \<open>
  The calibration of the Nym substrate, \<^verbatim>\<open>substrates/quicmix-nym/src/bin/nym_probe.rs\<close>: self-addressed
  pings are fired, their replies matched by tag within a window, and the parameters of an oracle derived.

  Clock readings are nanoseconds and arguments; \<open>arrival\<close> is what a turn of the collecting loop gets. An
  \<open>f64\<close> that may not be a number is an option.
\<close>

definition parse_arg :: "(string \<Rightarrow> nat option) \<Rightarrow> string list \<Rightarrow> nat \<Rightarrow> nat \<Rightarrow> nat" where
  "parse_arg parse args n d = (case Option.bind (nth_arg (n - 1) args) parse of Some v \<Rightarrow> v | None \<Rightarrow> d)"

section \<open>Firing\<close>

definition ping_tag :: "nat \<Rightarrow> string" where
  "ping_tag i = ''ping-'' @ show_nat i"

text \<open>\<open>Vec::resize\<close>: cut off or padded.\<close>

definition resize :: "nat \<Rightarrow> 'a \<Rightarrow> 'a list \<Rightarrow> 'a list" where
  "resize n v xs = take n xs @ replicate (n - length xs) v"

definition ping_body :: "nat \<Rightarrow> nat \<Rightarrow> byte list" where
  "ping_body len i = resize len 0 (string_bytes (ping_tag i))"

text \<open>\<open>send i\<close> is when ping \<open>i\<close> is sent and the error of sending it, if any.\<close>

fun fire ::
  "nat \<Rightarrow> (nat \<Rightarrow> nat \<times> string option) \<Rightarrow> nat \<Rightarrow> nat \<Rightarrow> (string \<rightharpoonup> nat) \<times> byte list list \<Rightarrow> string + (string \<rightharpoonup> nat) \<times> byte list list" where
  "fire len send 0 i acc = Inr acc"
| "fire len send (Suc k) i (sent_at, out) =
     (case send i of
        (t, Some e) \<Rightarrow> Inl e
      | (t, None) \<Rightarrow> fire len send k (Suc i) (sent_at(ping_tag i \<mapsto> t), out @ [ping_body len i]))"

section \<open>Collecting\<close>

definition read_tag :: "byte list \<Rightarrow> string option" where
  "read_tag msg =
     (let lead = bytes_string (take (min (length msg) 16) msg)
      in if is_utf8 lead then Some (hd (split_char (CHR 0x00) lead)) else None)"

record probe =
  pr_sent_at :: "string \<rightharpoonup> nat"
  pr_rtts :: "duration list"
  pr_arrivals :: "nat list"

text \<open>A message with the clock readings for its round trip and its arrival, the end of the client, or the timeout.\<close>

datatype arrival = Arrived nat nat "byte list" | ClientEnded | WindowElapsed

definition note_reply :: "nat \<Rightarrow> nat \<Rightarrow> byte list \<Rightarrow> probe \<Rightarrow> probe" where
  "note_reply t1 t2 msg s =
     (case read_tag msg of
        None \<Rightarrow> s
      | Some tag \<Rightarrow>
          (case pr_sent_at s tag of
             None \<Rightarrow> s
           | Some t \<Rightarrow> \<lparr>pr_sent_at = (pr_sent_at s)(tag := None), pr_rtts = pr_rtts s @ [t1 - t], pr_arrivals = pr_arrivals s @ [t2]\<rparr>))"

text \<open>
  The loop, over the turns that have happened: the clock at its head and what the turn got. The result says
  whether the loop is over.
\<close>

fun drain :: "nat \<Rightarrow> duration \<Rightarrow> nat \<Rightarrow> (nat \<times> arrival) list \<Rightarrow> probe \<Rightarrow> bool \<times> probe" where
  "drain n limit start [] s = (n \<le> length (pr_rtts s), s)"
| "drain n limit start ((now, a) # rest) s =
     (if n \<le> length (pr_rtts s) \<or> limit \<le> now - start then (True, s)
      else case a of
        Arrived t1 t2 msg \<Rightarrow> drain n limit start rest (note_reply t1 t2 msg s)
      | ClientEnded \<Rightarrow> (True, s)
      | WindowElapsed \<Rightarrow> (True, s))"

section \<open>Statistics\<close>

definition pct :: "duration list \<Rightarrow> rat \<Rightarrow> duration may_panic" where
  "pct rtts p =
     (if rtts = [] then Some 0
      else index rtts (f64_round (fl64 (fl64 (fl64 (of_nat (length rtts)) - 1) * fl64 p))))"

definition loss_rate :: "nat \<Rightarrow> nat \<Rightarrow> f64 option" where
  "loss_rate received n =
     (if n = 0 then None else Some (fl64 (1 - fl64 (fl64 (of_nat received) / fl64 (of_nat n)))))"

definition throughput :: "nat \<Rightarrow> nat list \<Rightarrow> f64 \<times> f64" where
  "throughput len arrivals =
     (let v = sort arrivals in
      if 2 \<le> length v
      then (let span = max (as_secs_f64 (last v - hd v)) (fl64 (1 / 1000000));
                r = fl64 (fl64 (of_nat (length v - 1)) / span)
            in (r, fl64 (r * fl64 (of_nat len))))
      else (0, 0))"

record calibration =
  cb_received :: nat
  cb_p50 :: duration
  cb_p90 :: duration
  cb_max :: duration
  cb_loss :: "f64 option"
  cb_msgs_s :: f64
  cb_bytes_s :: f64
  cb_mean_hop_delay :: duration
  cb_slot_interval :: duration

text \<open>The divisor \<open>2 * hops.max(1)\<close> is a \<open>u32\<close> and wraps; dividing a duration by zero panics.\<close>

definition calibrate :: "nat \<Rightarrow> nat \<Rightarrow> u32 \<Rightarrow> probe \<Rightarrow> calibration may_panic" where
  "calibrate n len h s =
     (let received = length (pr_rtts s); rtts = sort (pr_rtts s); (msgs, bytes) = throughput len (pr_arrivals s) in
      do {
        p50 \<leftarrow> pct rtts (50 / 100);
        p90 \<leftarrow> pct rtts (90 / 100);
        p100 \<leftarrow> pct rtts 1;
        mean \<leftarrow> checked_div p50 (unat (2 * max h 1));
        slot \<leftarrow> (if 0 < msgs then from_secs_f64 (fl64 (1 / msgs)) else Some 0);
        Some \<lparr>cb_received = received, cb_p50 = p50, cb_p90 = p90, cb_max = p100, cb_loss = loss_rate received n,
              cb_msgs_s = msgs, cb_bytes_s = bytes, cb_mean_hop_delay = mean, cb_slot_interval = slot\<rparr>
      })"

text \<open>What is printed for pasting, with whole milliseconds; \<open>shown_loss\<close> is the loss as printed.\<close>

definition pasted :: "u32 \<Rightarrow> nat \<Rightarrow> f64 \<Rightarrow> calibration \<Rightarrow> oracle_params" where
  "pasted h len shown_loss c =
     \<lparr>hops = h, mean_hop_delay = from_millis (cb_mean_hop_delay c div 1000000), drop_prob = shown_loss,
      slot_interval = from_millis (cb_slot_interval c div 1000000), mtu = of_nat len\<rparr>"

text \<open>
  The whole program: the outcome of connecting, the sends, the time at which collecting starts and the turns of the
  collecting loop. \<open>Some None\<close>: still collecting.
\<close>

definition nym_probe ::
  "string option \<Rightarrow> (nat \<Rightarrow> nat \<times> string option) \<Rightarrow> nat \<Rightarrow> (nat \<times> arrival) list \<Rightarrow> string list \<Rightarrow> (string + calibration) option may_panic" where
  "nym_probe connect_err send start turns args =
     (let n = parse_arg parse_u64 args 1 30; limit = from_secs (parse_arg parse_u64 args 2 120);
          len = parse_arg parse_u64 args 3 1200; h = of_nat (parse_arg (from_str_radix 10 u32_limit) args 4 3) in
      case connect_err of
        Some e \<Rightarrow> Some (Some (Inl e))
      | None \<Rightarrow>
          (case fire len send n 0 (Map.empty, []) of
             Inl e \<Rightarrow> Some (Some (Inl e))
           | Inr (sent_at, _) \<Rightarrow>
               (case drain n limit start turns \<lparr>pr_sent_at = sent_at, pr_rtts = [], pr_arrivals = []\<rparr> of
                  (False, _) \<Rightarrow> Some None
                | (True, s) \<Rightarrow> map_option (\<lambda>c. Some (Inr c)) (calibrate n len h s))))"

section \<open>Tags\<close>

lemma show_nat_inj: "show_nat i = show_nat j \<Longrightarrow> i = j"
  by (metis less_add_Suc1 less_add_Suc2 option.inject parse_show_nat)

lemma ping_tag_inj: "ping_tag i = ping_tag j \<longleftrightarrow> i = j"
  by (auto simp: ping_tag_def dest: show_nat_inj)

lemma bytes_string_append [simp]: "bytes_string (xs @ ys) = bytes_string xs @ bytes_string ys"
  by (simp add: bytes_string_def)

lemma bytes_string_zeros [simp]: "bytes_string (replicate k 0) = replicate k (CHR 0x00)"
  by (simp add: bytes_string_def) code_simp

lemma split_char_head: "c \<notin> set s \<Longrightarrow> hd (split_char c (s @ c # t)) = s" "c \<notin> set s \<Longrightarrow> split_char c s = [s]"
  by (induction s) (auto split: list.splits)

lemma ping_tag_chars: "CHR 0x00 \<notin> set (ping_tag i)" "ascii (ping_tag i)"
  using show_nat_digits [of "CHR 0x00" i] show_nat_digits [of _ i]
  by (fastforce simp: ping_tag_def ascii_def list_all_iff)+

text \<open>A tag that fits the payload and the sixteen bytes that are looked at is read back from the padded body.\<close>

lemma read_tag_body:
  assumes "length (ping_tag i) \<le> len" and "length (ping_tag i) \<le> 16"
  shows "read_tag (ping_body len i) = Some (ping_tag i)"
proof -
  define k where "k = min len 16 - length (ping_tag i)"
  have "length (ping_body len i) = len" by (simp add: ping_body_def resize_def)
  then have "take (min (length (ping_body len i)) 16) (ping_body len i) = string_bytes (ping_tag i) @ replicate k 0"
    using assms by (cases "len \<le> 16") (simp_all add: ping_body_def resize_def k_def)
  then have lead: "bytes_string (take (min (length (ping_body len i)) 16) (ping_body len i)) = ping_tag i @ replicate k (CHR 0x00)"
    by simp
  have "ascii (ping_tag i @ replicate k (CHR 0x00))" using ping_tag_chars(2) [of i] by (auto simp: ascii_def list_all_iff)
  then have "is_utf8 (ping_tag i @ replicate k (CHR 0x00))" by (rule ascii_utf8)
  moreover have "hd (split_char (CHR 0x00) (ping_tag i @ replicate k (CHR 0x00))) = ping_tag i"
    using ping_tag_chars(1) [of i] by (cases k) (simp_all add: split_char_head)
  ultimately show ?thesis by (simp add: read_tag_def lead Let_def)
qed

text \<open>A payload shorter than the tag cuts it off, and the reply of one ping is taken for that of another.\<close>

lemma short_payload_mistaken: "read_tag (ping_body 6 12) = Some (ping_tag 1)"
  by code_simp

section \<open>Every ping is counted once\<close>

definition sent_times :: "(nat \<Rightarrow> nat \<times> string option) \<Rightarrow> nat list \<Rightarrow> string \<rightharpoonup> nat" where
  "sent_times send is = map_of (map (\<lambda>j. (ping_tag j, fst (send j))) is)"

lemma sent_times_None: "sent_times send is (ping_tag i) = None \<longleftrightarrow> i \<notin> set is"
  by (auto simp: sent_times_def map_of_eq_None_iff ping_tag_inj image_iff)

lemma dom_sent_times: "dom (sent_times send is) = ping_tag ` set is"
  by (simp add: sent_times_def dom_map_of_conv_image_fst image_image)

lemma fire_sent:
  "fire len send k i (S, out) = Inr (sent_at, out') \<Longrightarrow>
   sent_at = S ++ sent_times send [i..<i + k] \<and> out' = out @ map (ping_body len) [i..<i + k]"
proof (induction k arbitrary: i S out)
  case (Suc k)
  obtain t where t: "send i = (t, None)"
    using Suc.prems by (cases "send i"; cases "snd (send i)") auto
  have up: "[i..<i + Suc k] = i # [Suc i..<Suc i + k]" by (simp add: upt_conv_Cons del: upt_Suc)
  have "S(ping_tag i \<mapsto> t) ++ sent_times send [Suc i..<Suc i + k] = S ++ sent_times send (i # [Suc i..<Suc i + k])"
    using sent_times_None [of send "[Suc i..<Suc i + k]" i]
    by (auto simp: fun_eq_iff sent_times_def map_add_def t split: option.splits)
  with Suc.IH [of "Suc i" "S(ping_tag i \<mapsto> t)" "out @ [ping_body len i]"] Suc.prems t show ?case
    unfolding up by (simp del: upt_Suc fun_upd_apply)
qed (simp add: sent_times_def)

text \<open>
  What the loop knows: which replies were matched, in order, each with the reading of the clock; the pings not
  yet answered are the others.
\<close>

definition counted :: "(string \<rightharpoonup> nat) \<Rightarrow> (string \<times> nat) list \<Rightarrow> probe \<Rightarrow> bool" where
  "counted S ms s \<longleftrightarrow> distinct (map fst ms) \<and> fst ` set ms \<subseteq> dom S \<and> pr_rtts s = map (\<lambda>(tag, t). t - the (S tag)) ms \<and>
     length (pr_arrivals s) = length ms \<and> pr_sent_at s = S |` (- fst ` set ms)"

lemma note_reply_counted:
  assumes "counted S ms s"
  shows "\<exists>new. counted S (ms @ new) (note_reply t1 t2 msg s) \<and> (new = [] \<or> (\<exists>tag. read_tag msg = Some tag \<and> new = [(tag, t1)]))"
proof (cases "\<exists>tag t. read_tag msg = Some tag \<and> pr_sent_at s tag = Some t")
  case True
  then obtain tag t where tag: "read_tag msg = Some tag" "pr_sent_at s tag = Some t" by blast
  then have S: "S tag = Some t" "tag \<notin> fst ` set ms" using assms by (auto simp: counted_def restrict_map_def split: if_splits)
  moreover have "(S |` (- fst ` set ms))(tag := None) = S |` (- fst ` set (ms @ [(tag, t1)]))"
    by (auto simp: fun_eq_iff restrict_map_def)
  ultimately have "counted S (ms @ [(tag, t1)]) (note_reply t1 t2 msg s)"
    using assms tag by (auto simp: counted_def note_reply_def)
  with tag(1) show ?thesis by blast
next
  case False
  then have "note_reply t1 t2 msg s = s" by (auto simp: note_reply_def split: option.splits)
  with assms show ?thesis by (intro exI [of _ "[]"]) simp
qed

definition replies_to :: "(nat \<times> arrival) list \<Rightarrow> (string \<times> nat) list" where
  "replies_to turns = List.map_filter (\<lambda>(_, a). case a of Arrived t1 _ msg \<Rightarrow> map_option (\<lambda>tag. (tag, t1)) (read_tag msg) | _ \<Rightarrow> None) turns"

lemma drain_counted:
  assumes "drain n limit start turns s = (fin, s')" and "counted S ms s" and "length ms \<le> n"
  shows "\<exists>new. counted S (ms @ new) s' \<and> length (ms @ new) \<le> n \<and> subseq new (replies_to turns)"
  using assms
proof (induction turns arbitrary: s ms)
  case Nil
  then show ?case by (intro exI [of _ "[]"]) simp
next
  case (Cons turn turns)
  obtain now a where turn: "turn = (now, a)" by (cases turn)
  have stop: ?case if "s' = s" using that Cons.prems by (intro exI [of _ "[]"]) simp
  show ?case
  proof (cases "(n \<le> length (pr_rtts s) \<or> limit \<le> now - start) \<or> a = ClientEnded \<or> a = WindowElapsed")
    case True
    then have "s' = s" using Cons.prems(1) by (auto simp: turn split: if_splits)
    then show ?thesis by (rule stop)
  next
    case False
    then obtain t1 t2 msg where a: "a = Arrived t1 t2 msg" by (cases a) auto
    obtain new where new: "counted S (ms @ new) (note_reply t1 t2 msg s)" "new = [] \<or> (\<exists>tag. read_tag msg = Some tag \<and> new = [(tag, t1)])"
      using note_reply_counted [OF Cons.prems(2)] by blast
    have "length ms < n" using False Cons.prems(2) by (simp add: counted_def)
    then have "length (ms @ new) \<le> n" using new(2) by auto
    moreover have "drain n limit start turns (note_reply t1 t2 msg s) = (fin, s')" using False Cons.prems(1) by (simp add: turn a)
    ultimately obtain more where more: "counted S ((ms @ new) @ more) s'" "length ((ms @ new) @ more) \<le> n" "subseq more (replies_to turns)"
      using Cons.IH [OF _ new(1)] by blast
    have "subseq (new @ more) (replies_to (turn # turns))"
      using new(2) more(3) by (auto simp: replies_to_def turn a List.map_filter_simps split: option.split)
    with more show ?thesis by (intro exI [of _ "new @ more"]) simp
  qed
qed

text \<open>The loop is over as soon as every ping is answered.\<close>

lemma drain_over: "drain n limit start turns s = (fin, s') \<Longrightarrow> n \<le> length (pr_rtts s') \<Longrightarrow> fin"
  by (induction turns arbitrary: s) (auto split: if_splits arrival.splits)

lemma counted_full:
  assumes "counted S ms s" and "card (dom S) \<le> length ms" and "finite (dom S)"
  shows "pr_sent_at s = Map.empty"
proof -
  have "card (fst ` set ms) = length ms"
    using assms(1) by (metis counted_def distinct_card length_map set_map)
  then have "fst ` set ms = dom S"
    using assms by (intro card_seteq) (auto simp: counted_def)
  then show ?thesis using assms(1) by (auto simp: counted_def fun_eq_iff restrict_map_def dom_def)
qed

lemma note_reply_answers: "read_tag msg = Some tag \<Longrightarrow> pr_sent_at (note_reply t1 t2 msg s) tag = None"
  by (auto simp: note_reply_def split: option.split)

lemma note_reply_keeps: "pr_sent_at s tag = None \<Longrightarrow> pr_sent_at (note_reply t1 t2 msg s) tag = None"
  by (auto simp: note_reply_def split: option.split)

lemma drain_keeps: "drain n limit start turns s = (fin, s') \<Longrightarrow> pr_sent_at s tag = None \<Longrightarrow> pr_sent_at s' tag = None"
  by (induction turns arbitrary: s) (auto simp: note_reply_keeps split: if_splits arrival.splits)

definition in_window :: "duration \<Rightarrow> nat \<Rightarrow> nat \<times> arrival \<Rightarrow> bool" where
  "in_window limit start turn \<longleftrightarrow> fst turn - start < limit \<and> (case snd turn of Arrived _ _ _ \<Rightarrow> True | _ \<Rightarrow> False)"

lemma drain_answers:
  assumes "drain (card (dom S)) limit start turns s = (fin, s')" and "finite (dom S)" and "counted S ms s"
    and "list_all (in_window limit start) turns" and "tag \<in> fst ` set (replies_to turns)"
  shows "pr_sent_at s' tag = None"
  using assms(1,3-5)
proof (induction turns arbitrary: s ms)
  case Nil
  then show ?case by (simp add: replies_to_def List.map_filter_simps)
next
  case (Cons turn turns)
  obtain now t1 t2 msg where turn: "turn = (now, Arrived t1 t2 msg)" "now - start < limit"
    using Cons.prems(3) by (cases turn; cases "snd turn") (auto simp: in_window_def)
  show ?case
  proof (cases "card (dom S) \<le> length (pr_rtts s)")
    case True
    then have "s' = s" using Cons.prems(1) by (simp add: turn)
    then show ?thesis using counted_full [OF Cons.prems(2) _ assms(2)] True Cons.prems(2) by (simp add: counted_def)
  next
    case False
    then have d: "drain (card (dom S)) limit start turns (note_reply t1 t2 msg s) = (fin, s')"
      using Cons.prems(1) turn by simp
    show ?thesis
    proof (cases "read_tag msg = Some tag")
      case True
      then show ?thesis using drain_keeps [OF d] note_reply_answers by blast
    next
      case False
      then have "tag \<in> fst ` set (replies_to turns)"
        using Cons.prems(4) by (auto simp: replies_to_def turn List.map_filter_simps split: option.splits)
      moreover obtain ms' where "counted S ms' (note_reply t1 t2 msg s)" using note_reply_counted [OF Cons.prems(2)] by blast
      ultimately show ?thesis using Cons.IH [OF d] Cons.prems(3) by simp
    qed
  qed
qed

lemma counted_start: "counted S [] \<lparr>pr_sent_at = S, pr_rtts = [], pr_arrivals = []\<rparr>"
  by (simp add: counted_def restrict_map_def)

lemma card_dom_sent: "card (dom (sent_times send [0..<n])) = n" "finite (dom (sent_times send [0..<n]))"
  by (simp_all add: dom_sent_times card_image inj_on_def ping_tag_inj)

text \<open>Every ping is counted once. Whatever messages arrive, foreign and repeated ones included, and in whatever
  order, the round trips collected are those of different pings, each from its sending to a reply that carries its
  tag; the pings not counted are those left over, so that received and missing add up; and when
  a reply to every ping arrives within the window, all are counted and the loop is over.\<close>

theorem probe_counts_once:
  assumes "fire len send n 0 (Map.empty, []) = Inr (sent_at, msgs)"
    and "drain n limit start turns \<lparr>pr_sent_at = sent_at, pr_rtts = [], pr_arrivals = []\<rparr> = (fin, s)"
  shows "(\<exists>ms. subseq ms (replies_to turns) \<and> distinct (map fst ms) \<and> fst ` set ms \<subseteq> ping_tag ` {..<n} \<and>
      pr_rtts s = map (\<lambda>(tag, t). t - the (sent_at tag)) ms) \<and>
    (\<forall>i < n. sent_at (ping_tag i) = Some (fst (send i))) \<and>
    length (pr_rtts s) + card (dom (pr_sent_at s)) = n \<and>
    (list_all (in_window limit start) turns \<and> ping_tag ` {..<n} \<subseteq> fst ` set (replies_to turns) \<longrightarrow>
      fin \<and> length (pr_rtts s) = n)"
proof -
  have S: "sent_at = sent_times send [0..<n]" using fire_sent [OF assms(1)] by simp
  note fin_dom = card_dom_sent [of send n, folded S]
  obtain ms where ms: "counted sent_at ms s" "length ms \<le> n" "subseq ms (replies_to turns)"
    using drain_counted [OF assms(2) counted_start] by auto
  have dom: "dom sent_at = ping_tag ` {..<n}" by (simp add: S dom_sent_times atLeast0LessThan)
  have "sent_at (ping_tag i) = Some (fst (send i))" if "i < n" for i
    unfolding S sent_times_def using that by (intro map_of_is_SomeI) (auto simp: distinct_map inj_on_def ping_tag_inj)
  moreover have sum: "length (pr_rtts s) + card (dom (pr_sent_at s)) = n"
  proof -
    have "card (fst ` set ms) = length ms" using ms(1) by (metis counted_def distinct_card length_map set_map)
    moreover have "dom (pr_sent_at s) = dom sent_at - fst ` set ms" using ms(1) by (auto simp: counted_def)
    moreover have "fst ` set ms \<subseteq> dom sent_at" using ms(1) by (simp add: counted_def)
    ultimately show ?thesis using ms(1,2) fin_dom by (simp add: counted_def card_Diff_subset finite_subset)
  qed
  moreover have "fin \<and> length (pr_rtts s) = n"
    if w: "list_all (in_window limit start) turns" "ping_tag ` {..<n} \<subseteq> fst ` set (replies_to turns)"
  proof -
    have "pr_sent_at s tag = None" for tag
    proof (cases "tag \<in> dom sent_at")
      case True
      then have "tag \<in> fst ` set (replies_to turns)" using w(2) dom by auto
      with drain_answers [of sent_at limit start turns _ fin s "[]" tag] assms(2) fin_dom counted_start w(1)
      show ?thesis by metis
    next
      case False
      then show ?thesis using ms(1) by (auto simp: counted_def restrict_map_def)
    qed
    then have "dom (pr_sent_at s) = {}" by auto
    with sum have "length (pr_rtts s) = n" by simp
    then show ?thesis using drain_over [OF assms(2)] by simp
  qed
  moreover have "pr_rtts s = map (\<lambda>(tag, t). t - the (sent_at tag)) ms" "distinct (map fst ms)" "fst ` set ms \<subseteq> ping_tag ` {..<n}"
    using ms(1) dom by (simp_all add: counted_def)
  ultimately show ?thesis using ms(3) by blast
qed

definition demo_turns :: "(nat \<times> arrival) list" where
  "demo_turns = [(10, Arrived 25 26 (ping_body 8 1)), (30, Arrived 31 32 [255]), (33, Arrived 34 35 (ping_body 8 1)), (36, Arrived 47 48 (ping_body 8 0))]"

lemma demo_replies: "replies_to demo_turns = [(ping_tag 1, 25), (ping_tag 1, 34), (ping_tag 0, 47)]"
  by code_simp

theorem probe_counts_once_witness:
  "\<exists>sent_at msgs fin s. fire 8 (\<lambda>i. (i, None)) 2 0 (Map.empty, []) = Inr (sent_at, msgs) \<and>
     drain 2 100 5 demo_turns \<lparr>pr_sent_at = sent_at, pr_rtts = [], pr_arrivals = []\<rparr> = (fin, s) \<and> fin \<and> length (pr_rtts s) = 2"
proof -
  obtain sent_at msgs where f: "fire 8 (\<lambda>i. (i, None)) 2 0 (Map.empty, []) = Inr (sent_at, msgs)"
    by (simp add: numeral_2_eq_2)
  obtain fin s where d: "drain 2 100 5 demo_turns \<lparr>pr_sent_at = sent_at, pr_rtts = [], pr_arrivals = []\<rparr> = (fin, s)"
    by fastforce
  have "list_all (in_window 100 5) demo_turns" by (simp add: demo_turns_def in_window_def)
  moreover have "ping_tag ` {..<2} \<subseteq> fst ` set (replies_to demo_turns)"
    by (simp add: demo_replies numeral_2_eq_2 lessThan_Suc)
  ultimately show ?thesis using probe_counts_once [OF f d] f d by blast
qed

section \<open>The derived parameters\<close>

lemma pct_eq:
  assumes "rtts \<noteq> []" and "length rtts < 2 ^ 53" and "0 \<le> p" and "p \<le> 1"
  shows "pct rtts p = Some (rtts ! quantile_index (length rtts) p)"
proof -
  have "fl64 (of_nat (length rtts)) - 1 = of_nat (length rtts - 1)"
    using assms(1,2) by (simp add: fl_of_nat of_nat_diff Suc_leI)
  then have "pct rtts p = index rtts (quantile_index (length rtts) p)"
    using assms(1) by (simp add: pct_def quantile_index_def)
  moreover have "quantile_index (length rtts) p < length rtts"
    using assms by (intro quantile_index_less) auto
  ultimately show ?thesis by simp
qed

lemma max_span:
  assumes "2000 \<le> d"
  shows "max (as_secs_f64 d) (fl64 (1 / 1000000)) = as_secs_f64 d"
proof -
  have "\<bar>fl64 (1 / 1000000) - 1 / 1000000\<bar> \<le> 1 / 1000000 / 2 ^ 53" by (rule fl_error) simp
  then have "fl64 (1 / 1000000) \<le> 1 / 1000000 + 1 / 1000000 / 2 ^ 53" by (simp only: abs_le_iff) linarith
  moreover have "of_nat d / 1000000000 * (1 - eps64) ^ 2 \<le> as_secs_f64 d"
    using as_secs_f64_rel_err [of d] by (simp add: rel_err_def)
  moreover have "(2000 :: rat) / 1000000000 * (1 - eps64) ^ 2 \<le> of_nat d / 1000000000 * (1 - eps64) ^ 2"
    using assms by (intro mult_right_mono divide_right_mono) simp_all
  moreover have "(1 :: rat) / 1000000 + 1 / 1000000 / 2 ^ 53 \<le> 2000 / 1000000000 * (1 - eps64) ^ 2"
    by (simp add: power2_eq_square)
  ultimately show ?thesis by linarith
qed

text \<open>The interval between replies: the span of the arrivals over their number, to one part in \<open>2^50\<close>.\<close>

lemma interval_rel_err:
  assumes "2000 \<le> d" and "0 < k" and "k < 2 ^ 53"
  shows "rel_err (1 - 1 / 2 ^ 50) (1 + 1 / 2 ^ 50) (of_nat d / of_nat k / 1000000000)
    (fl64 (1 / fl64 (fl64 (of_nat k) / as_secs_f64 d)))"
proof -
  let ?l = "1 - eps64" and ?h = "1 + eps64"
  have k: "rel_err 1 1 (of_nat k) (fl64 (of_nat k))" using assms(3) by (simp add: fl_of_nat rel_err_refl)
  have s: "rel_err (1 / ?h ^ 2) (1 / ?l ^ 2) (1 / (of_nat d / 1000000000)) (1 / as_secs_f64 d)"
    using assms(1) by (intro rel_err_inverse as_secs_f64_rel_err) simp_all
  note rate = rel_err_fl [OF rel_err_mult [OF k s], of 53]
  have "rel_err (1 / (1 * (1 / ?l ^ 2) * ?h)) (1 / (1 * (1 / ?h ^ 2) * ?l)) (1 / (of_nat k * (1 / (of_nat d / 1000000000))))
      (1 / fl64 (fl64 (of_nat k) * (1 / as_secs_f64 d)))"
    using assms by (intro rel_err_inverse [OF rate]) simp_all
  note inv = rel_err_fl [OF this, of 53]
  have e: "1 / (of_nat k * (1 / (of_nat d / 1000000000))) = of_nat d / of_nat k / (1000000000 :: rat)" by simp
  have e': "fl64 (of_nat k) * (1 / as_secs_f64 d) = fl64 (of_nat k) / as_secs_f64 d" by simp
  have lo: "1 - 1 / 2 ^ 50 \<le> 1 / (1 * (1 / ?l ^ 2) * ?h) * ?l"
    and hi: "1 / (1 * (1 / ?h ^ 2) * ?l) * ?h \<le> 1 + 1 / 2 ^ 50"
    by (simp_all add: power2_eq_square)
  show ?thesis
    by (rule rel_err_weaken [OF inv [unfolded e e'] _ lo hi]) simp
qed

lemma span_bounds:
  assumes "d < 2 ^ 64"
  shows "0 < max (as_secs_f64 d) (fl64 (1 / 1000000))" and "max (as_secs_f64 d) (fl64 (1 / 1000000)) \<le> 2 ^ 35"
proof -
  show "0 < max (as_secs_f64 d) (fl64 (1 / 1000000))" using fl_pos [of "1 / 1000000" 53] by (simp add: less_max_iff_disj)
  have "as_secs_f64 d \<le> of_nat d / 1000000000 * (1 + eps64) ^ 2"
    using as_secs_f64_rel_err [of d] by (simp add: rel_err_def)
  also have "(of_nat d :: rat) \<le> of_nat (2 ^ 64)" using assms by (simp only: of_nat_le_iff)
  then have "of_nat d / 1000000000 * (1 + eps64) ^ 2 \<le> of_nat (2 ^ 64) / 1000000000 * (1 + eps64) ^ 2"
    by (intro mult_right_mono divide_right_mono) simp_all
  also have "\<dots> \<le> 2 ^ 35" by (simp add: power2_eq_square)
  finally have "as_secs_f64 d \<le> 2 ^ 35" .
  moreover have "fl64 (1 / 1000000) \<le> fl64 1" by (rule fl_mono) simp_all
  then have "fl64 (1 / 1000000) \<le> 2 ^ 35" by simp
  ultimately show "max (as_secs_f64 d) (fl64 (1 / 1000000)) \<le> 2 ^ 35" by simp
qed

lemma slot_total:
  assumes "0 < w" and "w \<le> 2 ^ 35" and "0 < k"
  defines "msgs \<equiv> fl64 (fl64 (of_nat k) / w)"
  shows "0 < msgs" and "from_secs_f64 (fl64 (1 / msgs)) = Some (nat (rne (fl64 (1 / msgs) * 1000000000)))"
proof -
  have k: "1 \<le> fl64 (of_nat k)"
    using fl_mono [of 1 "of_nat k" 53] assms(3) by simp
  have "1 / 2 ^ 35 \<le> fl64 (of_nat k) / w"
    using k assms(1,2) by (intro frac_le) simp_all
  then have "fl64 (1 / 2 ^ 35) \<le> msgs" unfolding msgs_def by (intro fl_mono) simp_all
  moreover have "fl64 (1 / 2 ^ 35) = 1 / 2 ^ 35"
    by (rule fl_exact [where m = 1 and e = "- 35"]) (simp_all add: power_int_def field_simps)
  ultimately have m: "1 / 2 ^ 35 \<le> msgs" by simp
  then show "0 < msgs" by (rule less_le_trans [rotated]) simp
  then have "1 / msgs \<le> 2 ^ 35" using m by (simp add: field_simps)
  then have "fl64 (1 / msgs) \<le> fl64 (2 ^ 35)" using \<open>0 < msgs\<close> by (intro fl_mono) simp_all
  also have "fl64 (2 ^ 35) = 2 ^ 35" using fl_of_nat [of "2 ^ 35" 53] by simp
  finally have "fl64 (1 / msgs) * 1000000000 \<le> of_int (2 ^ 35 * 1000000000)" by simp
  then have "rne (fl64 (1 / msgs) * 1000000000) \<le> 2 ^ 35 * 1000000000" using rne_mono rne_of_int by metis
  then have "nat (rne (fl64 (1 / msgs) * 1000000000)) < dur_limit" by (simp add: dur_limit_def)
  then show "from_secs_f64 (fl64 (1 / msgs)) = Some (nat (rne (fl64 (1 / msgs) * 1000000000)))"
    by (simp add: from_secs_f64_def Let_def)
qed

lemma slot_accurate:
  assumes "2000 \<le> d" and "0 < k" and "k < 2 ^ 53"
  shows "\<bar>of_nat (nat (rne (fl64 (1 / fl64 (fl64 (of_nat k) / as_secs_f64 d)) * 1000000000))) - of_nat d / of_nat k\<bar>
    \<le> of_nat d / of_nat k / 2 ^ 50 + (1 / 2 :: rat)"
proof -
  define x where "x = fl64 (1 / fl64 (fl64 (of_nat k) / as_secs_f64 d)) * 1000000000"
  define q where "q = (of_nat d / of_nat k :: rat)"
  have re: "rel_err (1 - 1 / 2 ^ 50) (1 + 1 / 2 ^ 50) (q / 1000000000) (x / 1000000000)"
    using interval_rel_err [OF assms] by (simp add: x_def q_def)
  have "q * (1 - 1 / 2 ^ 50) \<le> x" "x \<le> q * (1 + 1 / 2 ^ 50)"
    using re by (simp_all only: rel_err_def) (simp_all add: field_simps)
  then have "\<bar>x - q\<bar> \<le> q / 2 ^ 50" by (simp only: abs_le_iff right_diff_distrib distrib_left mult_1_right times_divide_eq_right) linarith
  moreover have "0 \<le> x" using rel_err_nonneg [OF re] by simp
  then have "0 \<le> rne x" using rne_mono [of 0 x] rne_of_int [of 0] by simp
  then have "of_nat (nat (rne x)) = (of_int (rne x) :: rat)" by simp
  ultimately show ?thesis unfolding x_def [symmetric] q_def [symmetric]
    using rne_error [of x] by linarith
qed

lemma sort_span:
  fixes xs :: "nat list"
  assumes "xs \<noteq> []"
  shows "last (sort xs) - hd (sort xs) = Max (set xs) - Min (set xs)"
proof -
  have ne: "sort xs \<noteq> []" using assms by (metis length_0_conv length_sort)
  have "Max (set (sort xs)) = last (sort xs)"
  proof (rule Max_eqI)
    fix y assume "y \<in> set (sort xs)"
    then show "y \<le> last (sort xs)"
      using ne by (auto simp: last_conv_nth in_set_conv_nth simp del: set_sort intro!: sorted_nth_mono)
  qed (use last_in_set [OF ne] in simp_all)
  moreover have "Min (set (sort xs)) = hd (sort xs)"
  proof (rule Min_eqI)
    fix y assume "y \<in> set (sort xs)"
    then show "hd (sort xs) \<le> y"
      using ne by (auto simp: hd_conv_nth in_set_conv_nth simp del: set_sort intro!: sorted_nth_mono)
  qed (use hd_in_set [OF ne] in simp_all)
  ultimately show ?thesis by simp
qed

lemma per_hop_division:
  fixes p h :: nat
  assumes "1 \<le> h"
  defines "m \<equiv> p div (2 * h) div 1000000 * 1000000"
  shows "m * h * 2 \<le> p" and "p < m * h * 2 + 2 * h * 1000000"
proof -
  have "p div (2 * h) div 1000000 = p div (2 * h * 1000000)" by (rule div_mult2_eq [symmetric])
  then have m: "m * h * 2 = p div (2 * h * 1000000) * (2 * h * 1000000)" by (simp add: m_def)
  have "p = p div (2 * h * 1000000) * (2 * h * 1000000) + p mod (2 * h * 1000000)"
    by (rule div_mult_mod_eq [symmetric])
  moreover have "p mod (2 * h * 1000000) < 2 * h * 1000000" using assms(1) by simp
  ultimately show "m * h * 2 \<le> p" "p < m * h * 2 + 2 * h * 1000000" unfolding m by linarith+
qed

text \<open>C31: the derived oracle follows the measurement. With at least one reply, one hop and fewer than \<open>2^31\<close>, and clock
  readings that fit 64 bits, deriving never panics; the median is one of the round trips collected, and the round trip of
  the printed parameters falls short of it by less than two milliseconds per hop, the precision of the printed form; and
  with two replies at least two microseconds apart the slot is the mean interval between replies to
  one part in \<open>2^50\<close> and half a nanosecond.\<close>

theorem probe_calibrates:
  assumes "pr_rtts s \<noteq> []" and "length (pr_rtts s) < 2 ^ 53" and "length (pr_arrivals s) = length (pr_rtts s)"
    and "list_all (\<lambda>t. t < 2 ^ 64) (pr_rtts s)" and "list_all (\<lambda>t. t < 2 ^ 64) (pr_arrivals s)" and "1 \<le> h" and "h < 2 ^ 31"
    and "d = Max (set (pr_arrivals s)) - Min (set (pr_arrivals s))" and "k = length (pr_rtts s) - 1"
  shows "\<exists>c q. calibrate n len h s = Some c \<and> cb_received c = length (pr_rtts s) \<and> cb_p50 c \<in> set (pr_rtts s) \<and>
    cb_p50 c \<le> cb_p90 c \<and> cb_p90 c \<le> cb_max c \<and>
    rtt (pasted h len shown_loss c) = Some q \<and> q \<le> cb_p50 c \<and> cb_p50 c < q + 2 * unat h * 1000000 \<and>
    (2000 \<le> d \<and> 0 < k \<longrightarrow> \<bar>of_nat (cb_slot_interval c) - of_nat d / of_nat k\<bar> \<le> of_nat d / of_nat k / 2 ^ 50 + (1 / 2 :: rat))"
proof -
  define v where "v = sort (pr_rtts s)"
  have v: "sorted v" "set v = set (pr_rtts s)" "length v = length (pr_rtts s)" "v \<noteq> []"
    using assms(1) by (simp_all add: v_def) (metis length_0_conv length_sort)
  let ?i = "quantile_index (length v)"
  have i: "?i q < length v" if "0 \<le> q" "q \<le> 1" for q
    using quantile_index_less [of "length v" q] that v(3) assms(1,2) by simp
  have p: "pct v q = Some (v ! ?i q)" if "0 \<le> q" "q \<le> 1" for q
    using pct_eq [OF v(4)] that v(3) assms(2) by simp
  have mono: "v ! ?i q \<le> v ! ?i r" if "0 \<le> q" "q \<le> r" "r \<le> 1" for q r
    using sorted_nth_mono [OF v(1) quantile_index_mono [OF that(1,2)] i] that by auto
  define p50 where "p50 = v ! ?i (50 / 100)"
  have p50: "p50 \<in> set (pr_rtts s)" using nth_mem [OF i] v(2) by (simp add: p50_def)
  have h: "unat (2 * max h 1) = 2 * unat h" "1 \<le> unat h"
    using unat_legs [OF assms(7)] assms(6) by (simp_all add: word_le_nat_alt max_def)
  define mean where "mean = p50 div (2 * unat h)"
  define msgs where "msgs = fst (throughput len (pr_arrivals s))"
  obtain bytes where tp: "throughput len (pr_arrivals s) = (msgs, bytes)" by (metis msgs_def prod.collapse)
  define w where "w = max (as_secs_f64 d) (fl64 (1 / 1000000))"
  have arr: "pr_arrivals s \<noteq> []" using assms(1,3) by auto
  then have span: "last (sort (pr_arrivals s)) - hd (sort (pr_arrivals s)) = d" using sort_span assms(8) by simp
  have msgs: "msgs = (if 0 < k then fl64 (fl64 (of_nat k) / w) else 0)"
    using assms(3,9) arr by (auto simp: msgs_def throughput_def Let_def span w_def simp flip: length_greater_0_conv)
  have "Max (set (pr_arrivals s)) < 2 ^ 64" using assms(5) arr by (simp add: list_all_iff)
  then have w: "0 < w" "w \<le> 2 ^ 35" using span_bounds [of d] assms(8) by (simp_all add: w_def)
  obtain slot where slot: "(if 0 < msgs then from_secs_f64 (fl64 (1 / msgs)) else Some 0) = Some slot"
    "0 < k \<Longrightarrow> slot = nat (rne (fl64 (1 / msgs) * 1000000000))"
    using slot_total [OF w, of k] msgs by (cases "0 < k") auto
  define c where "c = \<lparr>cb_received = length (pr_rtts s), cb_p50 = p50, cb_p90 = v ! ?i (90 / 100), cb_max = v ! ?i 1,
    cb_loss = loss_rate (length (pr_rtts s)) n, cb_msgs_s = msgs, cb_bytes_s = bytes,
    cb_mean_hop_delay = mean, cb_slot_interval = slot\<rparr>"
  have "calibrate n len h s = Some c"
    using slot(1) h by (simp add: calibrate_def tp p checked_div_def c_def mean_def p50_def Let_def flip: v_def)
  moreover have q: "mean div 1000000 * 1000000 * unat h * 2 \<le> p50"
    "p50 < mean div 1000000 * 1000000 * unat h * 2 + 2 * unat h * 1000000"
    using per_hop_division [OF h(2), of p50] by (simp_all add: mean_def)
  have "p50 < 2 ^ 64" using p50 assms(4) by (simp add: list_all_iff)
  with q(1) have "mean div 1000000 * 1000000 * unat h < dur_limit" "mean div 1000000 * 1000000 * unat h * 2 < dur_limit"
    unfolding dur_limit_def by linarith+
  then have "rtt (pasted h len shown_loss c) = Some (mean div 1000000 * 1000000 * unat h * 2)"
    by (simp add: rtt_def pasted_def c_def from_millis_def dur_mul_def)
  moreover have "\<bar>of_nat slot - of_nat d / of_nat k\<bar> \<le> of_nat d / of_nat k / 2 ^ 50 + (1 / 2 :: rat)" if "2000 \<le> d" "0 < k"
    using slot_accurate [of d k] that slot(2) msgs assms(2,9) max_span [of d] by (simp add: w_def)
  moreover have "p50 \<le> v ! ?i (90 / 100)" "v ! ?i (90 / 100) \<le> v ! ?i 1" unfolding p50_def by (rule mono; simp)+
  ultimately show ?thesis using p50 q by (intro exI [of _ c] exI [of _ "mean div 1000000 * 1000000 * unat h * 2"]) (simp add: c_def)
qed

definition demo_probe :: probe where
  "demo_probe = \<lparr>pr_sent_at = Map.empty, pr_rtts = [60000000, 80000000, 70000000], pr_arrivals = [10000000, 30000000, 20000000]\<rparr>"

theorem probe_calibrates_witness:
  "\<exists>c q. calibrate 4 1200 3 demo_probe = Some c \<and>
    rtt (pasted 3 1200 (1 / 4) c) = Some q \<and> q \<le> cb_p50 c \<and> cb_p50 c < q + 2 * unat (3 :: u32) * 1000000 \<and>
    \<bar>of_nat (cb_slot_interval c) - of_nat 20000000 / of_nat 2\<bar> \<le> of_nat 20000000 / of_nat 2 / 2 ^ 50 + (1 / 2 :: rat)"
proof -
  note [simp] = demo_probe_def
  have "pr_rtts demo_probe \<noteq> []" "length (pr_rtts demo_probe) < 2 ^ 53" "length (pr_arrivals demo_probe) = length (pr_rtts demo_probe)"
    "list_all (\<lambda>t. t < 2 ^ 64) (pr_rtts demo_probe)" "list_all (\<lambda>t. t < 2 ^ 64) (pr_arrivals demo_probe)" "1 \<le> (3 :: u32)" "(3 :: u32) < 2 ^ 31"
    "20000000 = Max (set (pr_arrivals demo_probe)) - Min (set (pr_arrivals demo_probe))" "2 = length (pr_rtts demo_probe) - 1"
    by simp_all
  from probe_calibrates [OF this, of 4 1200 "1 / 4"] show ?thesis by (elim ex_forward) simp
qed

text \<open>
  A zero number of hops is printed as it was given, though the delay was derived for one: the round trip of the
  printed oracle is then zero. At \<open>2^31\<close> hops the divisor wraps to zero and the program panics.
\<close>

lemma zero_hops_no_delay: "rtt (pasted 0 len shown_loss c) = Some 0"
  by (simp add: rtt_def pasted_def dur_mul_def dur_limit_def)

lemma extreme_hops_panic: "calibrate n len (2 ^ 31) s = None"
proof -
  have "unat (2 * max (2 ^ 31) 1 :: u32) = 0" by (simp add: max_def word_le_nat_alt)
  then show ?thesis by (simp add: calibrate_def checked_div_def bind_eq_None_conv case_prod_beta Let_def)
qed

end
