(* ===== verification/Selftest.thy ===== *)
theory Selftest
  imports Serving Autopilot Sessions Nym
begin

text \<open>
  The end-to-end programs: the node demonstration \<^verbatim>\<open>crates/quicmix-eval/examples/selftest.rs\<close>, its version over the
  live Nym network \<^verbatim>\<open>substrates/quicmix-nym/src/bin/nym_e2e.rs\<close>, and the requests of the pool demonstration
  \<^verbatim>\<open>crates/quicmix-eval/examples/proxy.rs\<close>. An application opens a tunnel through the ingress proxy, fetches a page of
  a local origin and judges what came back.
\<close>

section \<open>The origin\<close>

definition origin_response :: "string \<Rightarrow> string" where
  "origin_response body = ''HTTP/1.0 200 OK'' @ crlf @ ''Content-Length: '' @ show_nat (length body) @ crlf @ crlf @ body"

text \<open>One connection: at most \<open>cap\<close> bytes of the request are read and ignored, then the response is written.\<close>

definition origin_conn :: "nat \<Rightarrow> string \<Rightarrow> tcp_stream \<Rightarrow> tcp_stream" where
  "origin_conn cap body s =
     snd (tcp_write_all (string_bytes (origin_response body)) (s\<lparr>t_read := (t_read s)\<lparr>r_bytes := drop cap (r_bytes (t_read s))\<rparr>\<rparr>))"

definition SELFTEST_BODY :: string where
  "SELFTEST_BODY = ''hello from origin via quicmix'' @ [CHR 0x0A]"

definition NYM_BODY :: string where
  "NYM_BODY = ''hello from origin via real Nym + quicmix'' @ [CHR 0x0A]"

definition POOL_BODY :: string where
  "POOL_BODY = ''hello via pooled quicmix proxy'' @ [CHR 0x0A]"

section \<open>The application\<close>

definition connect_request :: "string \<Rightarrow> string" where
  "connect_request origin = ''CONNECT '' @ origin @ '' HTTP/1.1'' @ crlf @ ''Host: '' @ origin @ crlf @ crlf"

definition get_request :: "string \<Rightarrow> string" where
  "get_request origin = ''GET / HTTP/1.0'' @ crlf @ ''Host: '' @ origin @ crlf @ crlf"

text \<open>Byte by byte up to a blank line, the end of the stream, or more than \<open>cap\<close> bytes.\<close>

function read_blank :: "nat \<Rightarrow> byte list \<Rightarrow> rstream \<Rightarrow> byte list \<times> rstream" where
  "read_blank cap out r =
     (case read_exact 1 r of
        (Inl _, r') \<Rightarrow> (out, r')
      | (Inr b, r') \<Rightarrow>
          (let out' = out @ b in
           if suffix (string_bytes (crlf @ crlf)) out' \<or> cap < length out' then (out', r') else read_blank cap out' r'))"
  by pat_completeness auto
termination
  by (relation "measure (\<lambda>(cap, out, r). Suc cap - length out)")
     (auto simp: read_exact_def split: if_splits)

declare read_blank.simps [simp del]

definition read_until_blank :: "nat \<Rightarrow> (tcp_stream, 'e, string) io" where
  "read_until_blank cap s =
     (case read_blank cap [] (t_read s) of (out, r) \<Rightarrow> (Inr (from_utf8_lossy (bytes_string out)), s\<lparr>t_read := r\<rparr>))"

definition read_to_end :: "(tcp_stream, io_error, byte list) io" where
  "read_to_end s =
     (let s' = s\<lparr>t_read := (t_read s)\<lparr>r_bytes := []\<rparr>\<rparr> in
      if r_end (t_read s) = UnexpectedEof then (Inr (r_bytes (t_read s)), s') else (Inl (r_end (t_read s)), s'))"

text \<open>The dialogue over a connection to the proxy: the head of the answer to the CONNECT and the rest.\<close>

definition fetch_through :: "nat \<Rightarrow> string \<Rightarrow> (tcp_stream, io_error, string \<times> byte list) io" where
  "fetch_through cap origin =
     io_bind (tcp_write_all (string_bytes (connect_request origin))) (\<lambda>_.
     io_bind (read_until_blank cap) (\<lambda>head.
     io_bind (tcp_write_all (string_bytes (get_request origin))) (\<lambda>_.
     io_bind read_to_end (\<lambda>resp. io_return (head, resp)))))"

definition contains :: "string \<Rightarrow> string \<Rightarrow> bool" where
  "contains s pat \<longleftrightarrow> find_sub pat s \<noteq> None"

definition body_ok :: "string \<Rightarrow> byte list \<Rightarrow> bool" where
  "body_ok marker resp = contains (from_utf8_lossy (bytes_string resp)) marker"

datatype selftest_error = TestIo io_error | RoundTripFailed bool bool | TestTimeout

definition self_test :: "string \<Rightarrow> string \<Rightarrow> (tcp_stream, selftest_error, byte list) io" where
  "self_test marker origin =
     io_bind (io_context TestIo (fetch_through 8192 origin)) (\<lambda>(head, resp).
     let tunnel_ok = contains head ''200'' in
     if tunnel_ok \<and> body_ok marker resp then io_return resp else io_fail (RoundTripFailed tunnel_ok (body_ok marker resp)))"

text \<open>Over Nym the fetch has three minutes; \<open>in_time\<close> is whether it took less.\<close>

definition e2e_test :: "bool \<Rightarrow> string \<Rightarrow> (tcp_stream, selftest_error, byte list) io" where
  "e2e_test in_time origin = (if in_time then self_test ''hello from origin via real Nym'' origin else io_fail TestTimeout)"

text \<open>A request of the pool demonstration: only the page counts.\<close>

definition fetch_once :: "string \<Rightarrow> (tcp_stream, io_error, bool) io" where
  "fetch_once origin = io_bind (fetch_through 4096 origin) (\<lambda>(_, resp). io_return (body_ok ''hello via pooled quicmix proxy'' resp))"

section \<open>The dialogue\<close>

lemma read_blank_upto:
  assumes "r_bytes r = xs @ rest" and "xs \<noteq> []" and "suffix (string_bytes (crlf @ crlf)) (out @ xs)"
    and "\<And>p. strict_prefix p xs \<Longrightarrow> p \<noteq> [] \<Longrightarrow> \<not> suffix (string_bytes (crlf @ crlf)) (out @ p)"
    and "length out + length xs \<le> Suc cap"
  shows "read_blank cap out r = (out @ xs, r\<lparr>r_bytes := rest\<rparr>)"
  using assms
proof (induction xs arbitrary: out r)
  case (Cons x xs)
  let ?sep = "string_bytes (crlf @ crlf)"
  have rd: "read_exact 1 r = (Inr [x], r\<lparr>r_bytes := xs @ rest\<rparr>)" using Cons.prems(1) by (simp add: read_exact_def)
  show ?case
  proof (cases "xs = []")
    case True
    then show ?thesis using Cons.prems(3) rd by (subst read_blank.simps) (simp del: string_bytes_append)
  next
    case False
    have "strict_prefix [x] (x # xs)" using False by (simp add: strict_prefix_def)
    then have "\<not> suffix ?sep (out @ [x])" using Cons.prems(4) [of "[x]"] by simp
    moreover have "\<not> cap < length (out @ [x])" using False Cons.prems(5) by (cases xs) simp_all
    ultimately have "read_blank cap out r = read_blank cap (out @ [x]) (r\<lparr>r_bytes := xs @ rest\<rparr>)"
      using rd by (subst read_blank.simps) (simp add: Let_def del: string_bytes_append, blast)
    also have "\<dots> = ((out @ [x]) @ xs, r\<lparr>r_bytes := xs @ rest, r_bytes := rest\<rparr>)"
    proof (rule Cons.IH)
      fix p assume "strict_prefix p xs" "p \<noteq> []"
      then show "\<not> suffix ?sep ((out @ [x]) @ p)" using Cons.prems(4) [of "x # p"] by simp
    qed (use False Cons.prems in simp_all)
    finally show ?thesis by simp
  qed
qed simp

text \<open>A head that ends with its first blank line, within the limit, is read exactly.\<close>

lemma read_until_blank_at:
  assumes "find_sub (crlf @ crlf) head = Some (length head - 4)" and "length head \<le> cap"
    and "r_bytes (t_read s) = string_bytes head @ rest" and "ascii head"
  shows "read_until_blank cap s = (Inr head, s\<lparr>t_read := (t_read s)\<lparr>r_bytes := rest\<rparr>\<rparr>)"
proof -
  let ?sep = "string_bytes (crlf @ crlf)"
  have len: "length (crlf @ crlf) = 4" by (simp add: crlf_def)
  have split: "head = take (length head - 4) head @ (crlf @ crlf) @ drop (length head - 4 + 4) head"
    using find_sub_Some [OF assms(1)] by (simp only: len)
  then have "4 \<le> length head" by (metis len le_add1 le_add2 length_append order_trans)
  then have head: "head = take (length head - 4) head @ (crlf @ crlf)" using split by simp
  have f: "find_sub ?sep (string_bytes head) = Some (length head - 4)"
    using assms(1) unfolding string_bytes_def by (simp only: find_sub_map [OF string_bytes_inj])
  have "read_blank cap [] (t_read s) = ([] @ string_bytes head, (t_read s)\<lparr>r_bytes := rest\<rparr>)"
  proof (rule read_blank_upto)
    show "suffix ?sep ([] @ string_bytes head)"
      by (subst head) (simp add: suffix_def del: string_bytes_append, metis string_bytes_append)
    fix p assume p: "strict_prefix p (string_bytes head)" "p \<noteq> []"
    show "\<not> suffix ?sep ([] @ p)"
    proof
      assume "suffix ?sep ([] @ p)"
      then obtain q where q: "p = q @ ?sep" by (auto simp: suffix_def)
      from p(1) obtain z where z: "string_bytes head = p @ z" "z \<noteq> []" by (auto simp: strict_prefix_def prefix_def)
      then have "prefix ?sep (drop (length q) (string_bytes head))" by (simp add: q)
      moreover have "length q < length head - 4"
        using arg_cong [OF z(1), of length] z(2) len by (cases z) (simp_all add: q del: string_bytes_append)
      ultimately show False using find_sub_first [OF f] by blast
    qed
  qed (use assms(2,3) \<open>4 \<le> length head\<close> in \<open>auto simp: string_bytes_def\<close>)
  then show ?thesis using lossy_valid [OF ascii_utf8 [OF assms(4)]] by (simp add: read_until_blank_def)
qed

lemma fetch_through_at:
  assumes "find_sub (crlf @ crlf) head = Some (length head - 4)" and "length head \<le> cap" and "ascii head"
    and "s = \<lparr>t_read = \<lparr>r_bytes = string_bytes head @ page, r_end = UnexpectedEof\<rparr>, t_write = \<lparr>w_out = [], w_faults = []\<rparr>\<rparr>"
  shows "fetch_through cap origin s = (Inr (head, page),
    \<lparr>t_read = \<lparr>r_bytes = [], r_end = UnexpectedEof\<rparr>, t_write = \<lparr>w_out = string_bytes (connect_request origin) @ string_bytes (get_request origin), w_faults = []\<rparr>\<rparr>)"
proof -
  let ?s1 = "s\<lparr>t_write := \<lparr>w_out = string_bytes (connect_request origin), w_faults = []\<rparr>\<rparr>"
  have "r_bytes (t_read ?s1) = string_bytes head @ page" by (simp add: assms(4))
  note rd = read_until_blank_at [OF assms(1,2) this assms(3)]
  have w: "tcp_write_all (string_bytes (connect_request origin)) s = (Inr (), ?s1)"
    by (simp add: assms(4) tcp_write_all_def)
  show ?thesis
    by (simp add: fetch_through_def io_bind_def w rd) (simp add: assms(4) io_bind_def tcp_write_all_def read_to_end_def io_return_def Let_def)
qed

lemma origin_response_ascii: "ascii body \<Longrightarrow> ascii (origin_response body)"
  using visible_ascii [OF show_nat_visible] by (simp add: origin_response_def crlf_def ascii_def)

lemma origin_page:
  assumes "ascii body" and "contains body marker"
  shows "body_ok marker (string_bytes (origin_response body))"
proof -
  have "sublist marker body" using assms(2) by (simp add: contains_def find_sub_eq_None)
  moreover have "origin_response body = (''HTTP/1.0 200 OK'' @ crlf @ ''Content-Length: '' @ show_nat (length body) @ crlf @ crlf) @ body"
    by (simp add: origin_response_def)
  then have "sublist body (origin_response body)" by (metis suffixI suffix_imp_sublist)
  ultimately have "sublist marker (origin_response body)" using sublist_order.order_trans by blast
  then show ?thesis
    using lossy_valid [OF ascii_utf8 [OF origin_response_ascii [OF assms(1)]]] by (simp add: body_ok_def contains_def find_sub_eq_None)
qed


text \<open>C36: the self-test passes over a working system. The application asks the ingress proxy for a tunnel to the origin,
  the proxy answers with a head that ends at its first blank line and names the status, the tunnel's stream
  ends at the gateway and the gateway dials the origin: then the origin receives exactly the request for the page, the
  application receives exactly the origin's response behind the proxy's head, and the test succeeds with it.\<close>

theorem selftest_passes:
  assumes "rq_method req = ''CONNECT''" and "rq_authority req = Some authority" and "authority = show_socket_addr (SockAddr (V4 a b c d) port)"
    and "head = serialise (fst (proxy upstream req))" and "find_sub (crlf @ crlf) head = Some (length head - 4)" and "length head \<le> 8192"
    and "ascii head" and "contains head ''200''"
    and "dial authority = Inr origin" and "w_faults (t_write origin) = []" and "w_faults (t_write srv) = []" and "w_out (t_write srv) = []"
    and "r_bytes (t_read origin) = w_out (t_write (origin_conn 2048 body srv))" and "ascii body" and "contains body marker"
    and "client = \<lparr>t_read = \<lparr>r_bytes = string_bytes (get_request authority), r_end = UnexpectedEof\<rparr>, t_write = \<lparr>w_out = [], w_faults = []\<rparr>\<rparr>"
    and "stream = \<lparr>t_read = \<lparr>r_bytes = r_bytes (t_read origin), r_end = e\<rparr>, t_write = \<lparr>w_out = [], w_faults = []\<rparr>\<rparr>"
  shows "\<exists>r client' stream' origin' back app. tunnel (Inr stream) authority client = (r, client', Some stream') \<and>
    gateway_stream dial \<lparr>r_bytes = w_out (t_write stream'), r_end = UnexpectedEof\<rparr> \<lparr>w_out = [], w_faults = []\<rparr> = (Inr (Spliced authority origin'), back) \<and>
    w_out back = r_bytes (t_read stream) \<and>
    w_out (t_write origin') = w_out (t_write origin) @ string_bytes (get_request authority) \<and>
    self_test marker authority
      \<lparr>t_read = \<lparr>r_bytes = string_bytes head @ w_out (t_write client'), r_end = UnexpectedEof\<rparr>, t_write = \<lparr>w_out = [], w_faults = []\<rparr>\<rparr> =
      (Inr (string_bytes (origin_response body)), app) \<and>
    w_out (t_write app) = string_bytes (connect_request authority) @ r_bytes (t_read client)"
proof -
  have vis: "set authority \<subseteq> Collect visible" "authority \<noteq> []" using show_v4_visible [of a b c d port] by (simp_all add: assms(3))
  have v: "visible (hd authority)" "visible (last authority)" "ascii authority" "CHR 0x0A \<notin> set authority"
    using vis subsetD [OF vis(1) hd_in_set] subsetD [OF vis(1) last_in_set] visible_ascii newline_not_visible by simp_all
  have "\<not> visible (CHR '' '')" by (simp add: visible_def)
  then have m: "\<not> prefix MEASURE_PREFIX authority"
    using vis(1) by (auto simp: MEASURE_PREFIX_def prefix_def)
  have "w_faults (t_write client) = []" by (simp add: assms(16))
  from connect_carries [of req authority dial origin client stream e, OF assms(1,2) vis(2) v m assms(9,10) this assms(17)] obtain r client' stream' origin' bk where
    t: "tunnel (Inr stream) authority client = (r, client', Some stream')"
      "gateway_stream dial \<lparr>r_bytes = w_out (t_write stream'), r_end = UnexpectedEof\<rparr> \<lparr>w_out = [], w_faults = []\<rparr> = (Inr (Spliced authority origin'), bk)"
      "w_out (t_write origin') = w_out (t_write origin) @ r_bytes (t_read client)" "w_out bk = r_bytes (t_read stream)"
      "w_out (t_write client') = w_out (t_write client) @ r_bytes (t_read origin)" by blast
  have page: "w_out (t_write client') = string_bytes (origin_response body)"
    using t(5) assms(11-13,16) by (simp add: origin_conn_def tcp_write_all_def)
  note f = fetch_through_at [OF assms(5,6,7) refl, where origin = authority and page = "string_bytes (origin_response body)"]
  let ?app = "\<lparr>t_read = \<lparr>r_bytes = [], r_end = UnexpectedEof\<rparr>,
    t_write = \<lparr>w_out = string_bytes (connect_request authority) @ string_bytes (get_request authority), w_faults = []\<rparr>\<rparr>"
  have "self_test marker authority
      \<lparr>t_read = \<lparr>r_bytes = string_bytes head @ w_out (t_write client'), r_end = UnexpectedEof\<rparr>, t_write = \<lparr>w_out = [], w_faults = []\<rparr>\<rparr> =
      (Inr (string_bytes (origin_response body)), ?app)"
    unfolding page using assms(8) origin_page [OF assms(14,15)]
    by (simp add: self_test_def io_bind_def io_context_def io_return_def f)
  with t(1-4) show ?thesis
    by (intro exI [of _ r] exI [of _ client'] exI [of _ stream'] exI [of _ origin'] exI [of _ bk] exI [of _ ?app])
       (simp add: assms(16))
qed

definition demo_head :: string where
  "demo_head = ''HTTP/1.1 200 OK'' @ crlf @ ''content-length: 0'' @ crlf @ crlf"

definition demo_origin :: socket_addr where
  "demo_origin = SockAddr (V4 127 0 0 1) 8080"

theorem selftest_passes_witness:
  "\<exists>(client' :: tcp_stream) app. self_test ''hello from origin via quicmix'' (show_socket_addr demo_origin)
      \<lparr>t_read = \<lparr>r_bytes = string_bytes demo_head @ w_out (t_write client'), r_end = UnexpectedEof\<rparr>, t_write = \<lparr>w_out = [], w_faults = []\<rparr>\<rparr> =
      (Inr (string_bytes (origin_response SELFTEST_BODY)), app) \<and>
    w_out (t_write app) = string_bytes (connect_request (show_socket_addr demo_origin)) @ string_bytes (get_request (show_socket_addr demo_origin))"
proof -
  let ?a = "show_socket_addr demo_origin"
  let ?sock = "\<lambda>bs. \<lparr>t_read = \<lparr>r_bytes = bs, r_end = UnexpectedEof\<rparr>, t_write = \<lparr>w_out = [], w_faults = []\<rparr>\<rparr>"
  have head: "find_sub (crlf @ crlf) demo_head = Some (length demo_head - 4)" "length demo_head \<le> 8192" "ascii demo_head" "contains demo_head ''200''"
    by (code_simp, code_simp, code_simp, code_simp)
  have body: "ascii SELFTEST_BODY" "contains SELFTEST_BODY ''hello from origin via quicmix''" by (code_simp, code_simp)
  show ?thesis
    using selftest_passes [where authority = ?a and head = demo_head and serialise = "\<lambda>_. demo_head" and body = SELFTEST_BODY and
        req = "\<lparr>rq_method = ''CONNECT'', rq_authority = Some ?a, rq_host = None, rq_port = None, rq_path_and_query = None, rq_headers = no_headers, rq_body = []\<rparr>" and
        dial = "\<lambda>_. Inr (?sock (w_out (t_write (origin_conn 2048 SELFTEST_BODY (?sock [])))))" and
        origin = "?sock (w_out (t_write (origin_conn 2048 SELFTEST_BODY (?sock []))))" and srv = "?sock []" and
        marker = "''hello from origin via quicmix''" and a = 127 and b = 0 and c = 0 and d = 1 and port = 8080 and e = UnexpectedEof, OF _ _ _ refl head refl _ _ _ _ body refl refl]
    by (simp add: demo_origin_def) blast
qed

end
