(* ===== verification/Programs.thy ===== *)
theory Programs
  imports Selftest Striped Probes
begin

text \<open>
  The programs of the evaluation crate and of the Nym crate that run the system over a substrate:
  \<^verbatim>\<open>selftest.rs\<close>, \<^verbatim>\<open>bench.rs\<close>, \<^verbatim>\<open>multipath.rs\<close> and \<^verbatim>\<open>proxy.rs\<close> under
  \<^verbatim>\<open>crates/quicmix-eval/examples\<close>, \<^verbatim>\<open>nym_e2e.rs\<close> and \<^verbatim>\<open>nym_bench.rs\<close> under
  \<^verbatim>\<open>substrates/quicmix-nym/src/bin\<close>. What they set up is modelled whole; the QUIC transfer they time is
  an argument, given the configuration of both ends and the relay between them.
\<close>

section \<open>Fallible set-up\<close>

definition res_bind :: "('e + 'a) may_panic \<Rightarrow> ('a \<Rightarrow> ('e + 'b) may_panic) \<Rightarrow> ('e + 'b) may_panic" where
  "res_bind m f = Option.bind m (\<lambda>x. case x of Inl e \<Rightarrow> Some (Inl e) | Inr a \<Rightarrow> f a)"

definition res_context :: "('e \<Rightarrow> 'f) \<Rightarrow> ('e + 'a) may_panic \<Rightarrow> ('f + 'a) may_panic" where
  "res_context c m = map_option (map_sum c id) m"

lemma res_bind_Inr [simp]: "res_bind (Some (Inr a)) f = f a"
  by (simp add: res_bind_def)

lemma res_context_Inr [simp]: "res_context c (Some (Inr a)) = Some (Inr a)"
  by (simp add: res_context_def)

lemma res_bind_ok: "res_bind m f = Some (Inr b) \<longleftrightarrow> (\<exists>a. m = Some (Inr a) \<and> f a = Some (Inr b))"
  by (cases m) (auto simp: res_bind_def split: sum.split)

lemma res_context_ok: "res_context c m = Some (Inr a) \<longleftrightarrow> m = Some (Inr a)"
  by (cases m; cases "the m") (auto simp: res_context_def)

datatype lab_error =
    LabIo io_error | LabNode string | LabGateway "string + io_error" | LabCert string | LabQuic string | LabLink circuit_error
  | LabNym nym_error | LabTest selftest_error | LabFailed nat nat

section \<open>selftest.rs and nym\_e2e.rs\<close>

definition lab_params :: oracle_params where
  "lab_params = \<lparr>hops = 3, mean_hop_delay = from_millis 5, drop_prob = fl64 (1 / 100), slot_interval = from_millis 1, mtu = 1200\<rparr>"

record 's lab =
  lb_gateway :: node
  lb_ingress :: node
  lb_server :: server_config
  lb_front :: socket_addr
  lb_mix :: 's

text \<open>Two nodes of the same parameters, the gateway of the first, and a relay over two emulators in front of it.\<close>

definition selftest_lab ::
  "(duration \<Rightarrow> nat option) \<Rightarrow> string + byte list \<times> byte list \<Rightarrow> string + byte list \<times> byte list \<Rightarrow> string option \<Rightarrow> io_error + socket_addr \<Rightarrow>
   io_error + socket_addr \<Rightarrow> io_error + socket_addr \<Rightarrow> nat \<Rightarrow> oracle_params \<Rightarrow> (lab_error + emulator relay lab) may_panic" where
  "selftest_lab idle made_b made_a config_err gw_bound front back now p =
     res_bind (res_context LabNode (new_node idle made_b p)) (\<lambda>b.
     res_bind (res_context LabNode (new_node idle made_a p)) (\<lambda>a.
     res_bind (res_context LabGateway (Some (serve_gateway_at config_err gw_bound b))) (\<lambda>(sc, gw).
     Option.bind (bdp_packets p) (\<lambda>buf.
     res_bind (res_context LabIo
       (start_relay now gw (Datagram, p, with_queue now p buf) (Datagram, p, with_queue now p buf) front back)) (\<lambda>r.
     Some (Inr \<lparr>lb_gateway = b, lb_ingress = a, lb_server = sc, lb_front = rl_front r, lb_mix = r\<rparr>))))))"

text \<open>The same over Nym: the gateway's Nym client (\<open>gw_client\<close>) gives the address that the substrate's client is built for.\<close>

definition e2e_lab ::
  "(duration \<Rightarrow> nat option) \<Rightarrow> string + byte list \<times> byte list \<Rightarrow> string + byte list \<times> byte list \<Rightarrow> string option \<Rightarrow> io_error + socket_addr \<Rightarrow>
   string + string \<Rightarrow> (string \<Rightarrow> 'r option) \<Rightarrow> string + 'r nym_client \<Rightarrow> environment \<Rightarrow> io_error + socket_addr \<Rightarrow> nat \<Rightarrow>
   (lab_error + 'r nym_substrate front_bridge lab) may_panic" where
  "e2e_lab idle made_b made_a config_err gw_bound gw_client parse_recipient client env bound now =
     res_bind (res_context LabNode (new_node idle made_b nym_oracle)) (\<lambda>b.
     res_bind (res_context LabGateway (Some (serve_gateway_at config_err gw_bound b))) (\<lambda>(sc, _).
     res_bind (res_context (LabNym \<circ> ClientFailed) (Some gw_client)) (\<lambda>gw_addr.
     let surbs = (case Option.bind (env ''NYM_SURBS'') (from_str_radix 10 u32_limit) of Some n \<Rightarrow> n | None \<Rightarrow> 8) in
     res_bind (res_context LabNym (Some (fst (nym_connect parse_recipient (\<lambda>w. (client, w)) gw_addr surbs nym_oracle ())))) (\<lambda>sub.
     res_bind (res_context LabIo (spawn_client_bridge now sub bound)) (\<lambda>br.
     res_bind (res_context LabNode (new_node idle made_a nym_oracle)) (\<lambda>a.
     Some (Inr \<lparr>lb_gateway = b, lb_ingress = a, lb_server = sc, lb_front = fb_addr br, lb_mix = br\<rparr>)))))))"

text \<open>The link, the proxy and the test over a laboratory; \<open>test\<close> runs over a connection to the proxy.\<close>

definition lab_test ::
  "'w quic_stack \<Rightarrow> io_error + socket_addr \<Rightarrow> (socket_addr \<Rightarrow> io_error + tcp_stream) \<Rightarrow> (tcp_stream, selftest_error, byte list) io \<Rightarrow> 's lab \<Rightarrow>
   ('w, lab_error, byte list) io" where
  "lab_test qs proxy_bound tcp_connect test lab =
     io_bind (io_context LabLink (connect_via qs (lb_ingress lab) (lb_front lab) (nd_cert (lb_gateway lab)))) (\<lambda>_.
     io_lift (case proxy_bound of
        Inl e \<Rightarrow> Inl (LabIo e)
      | Inr listening \<Rightarrow>
          (case tcp_connect listening of
             Inl e \<Rightarrow> Inl (LabTest (TestIo e))
           | Inr s \<Rightarrow> map_sum LabTest id (fst (test s)))))"

text \<open>Whatever goes wrong, both ends run the transport of the same parameters and the link pins the gateway's certificate.\<close>

lemma new_node_ok:
  "new_node idle made p = Some (Inr nd) \<Longrightarrow>
   \<exists>key t. made = Inr (nd_cert nd, key) \<and> transport idle Quicmix p = Some t \<and> nd_transport nd = t"
  by (auto simp: new_node_def with_congestion_def split: sum.splits)

lemma start_relay_ok:
  "start_relay now server (uk, uo, ut) (dk, do', dt) front back = Some (Inr r) \<longleftrightarrow>
   (\<exists>ud dd f g. bdp_packets uo = Some ud \<and> bdp_packets do' = Some dd \<and> front = Inr f \<and> back = Inr g \<and>
     r = \<lparr>rl_front = f, rl_server = server, rl_up = new_substrate now uk uo ut ud, rl_down = new_substrate now dk do' dt dd,
       rl_client_port = new_port, rl_server_port = new_port, rl_to_server_running = True, rl_to_client_running = True\<rparr>)"
  by (cases front; cases "back"; auto simp: start_relay_def bind_eq_Some_conv)

lemma serve_gateway_ok:
  "serve_gateway_at config_err bound nd = Inr (sc, addr) \<longleftrightarrow>
   config_err = None \<and> bound = Inr addr \<and> sc = \<lparr>sv_cert = nd_cert nd, sv_key = nd_key nd, sv_transport = nd_transport nd\<rparr>"
  by (cases config_err; cases bound; auto simp: serve_gateway_at_def)

lemma lab_ends_agree:
  assumes "selftest_lab idle made_b made_a config_err gw_bound front back now p = Some (Inr lab)"
  shows "nd_transport (lb_ingress lab) = nd_transport (lb_gateway lab) \<and> sv_transport (lb_server lab) = nd_transport (lb_gateway lab) \<and>
    sv_cert (lb_server lab) = nd_cert (lb_gateway lab) \<and> gw_bound = Inr (rl_server (lb_mix lab)) \<and> front = Inr (lb_front lab)"
  using assms
  by (auto simp: selftest_lab_def res_bind_ok res_context_ok bind_eq_Some_conv serve_gateway_ok start_relay_ok dest!: new_node_ok)

text \<open>\<open>nym_e2e\<close>: the origin, the laboratory over Nym, and the test.\<close>

definition nym_e2e ::
  "(duration \<Rightarrow> nat option) \<Rightarrow> io_error + socket_addr \<Rightarrow> string + byte list \<times> byte list \<Rightarrow> string + byte list \<times> byte list \<Rightarrow> string option \<Rightarrow>
   io_error + socket_addr \<Rightarrow> string + string \<Rightarrow> (string \<Rightarrow> 'r option) \<Rightarrow> string + 'r nym_client \<Rightarrow> environment \<Rightarrow> io_error + socket_addr \<Rightarrow> nat \<Rightarrow>
   'w quic_stack \<Rightarrow> io_error + socket_addr \<Rightarrow> (socket_addr \<Rightarrow> io_error + tcp_stream) \<Rightarrow> bool \<Rightarrow> 'w \<Rightarrow> (lab_error + byte list) may_panic" where
  "nym_e2e idle origin_bound made_b made_a config_err gw_bound gw_client parse_recipient client env bound now qs proxy_bound tcp_connect in_time w =
     res_bind (res_context LabIo (Some origin_bound)) (\<lambda>origin.
     res_bind (e2e_lab idle made_b made_a config_err gw_bound gw_client parse_recipient client env bound now) (\<lambda>lab.
     Some (fst (lab_test qs proxy_bound tcp_connect (e2e_test in_time (show_socket_addr origin)) lab w))))"

lemma e2e_ends_agree:
  assumes "e2e_lab idle made_b made_a config_err gw_bound gw_client parse_recipient client env bound now = Some (Inr lab)"
  shows "nd_transport (lb_ingress lab) = nd_transport (lb_gateway lab) \<and> sv_transport (lb_server lab) = nd_transport (lb_gateway lab) \<and>
    sv_cert (lb_server lab) = nd_cert (lb_gateway lab) \<and> bound = Inr (lb_front lab)"
  using assms
  by (cases bound) (auto simp: e2e_lab_def res_bind_ok res_context_ok bind_eq_Some_conv serve_gateway_ok spawn_client_bridge_def Let_def
      dest!: new_node_ok)

section \<open>bench.rs\<close>

record sample =
  sm_fct :: duration
  sm_goodput :: "f64 option"
  sm_lost :: nat
  sm_sent :: nat

text \<open>A payload over a time in seconds; no number when the time is zero.\<close>

definition goodput :: "nat \<Rightarrow> duration \<Rightarrow> f64 option" where
  "goodput len fct = (if fct = 0 then None else Some (fl64 (fl64 (of_nat len) / as_secs_f64 fct)))"

definition loss_pct :: "nat \<Rightarrow> nat \<Rightarrow> f64" where
  "loss_pct lost sent = (if 0 < sent then fl64 (fl64 (100 * fl64 (of_nat lost)) / fl64 (of_nat sent)) else 0)"

text \<open>What is timed: the payload uploaded from a client of the given configuration through the relay to the server.\<close>

type_synonym 's upload = "server_config \<Rightarrow> quic_client_config \<Rightarrow> 's relay \<Rightarrow> nat \<Rightarrow> string + duration \<times> nat \<times> nat"

definition run_transfer ::
  "(duration \<Rightarrow> nat option) \<Rightarrow> string + byte list \<times> byte list \<Rightarrow> string option \<Rightarrow> io_error + socket_addr \<Rightarrow> io_error + socket_addr \<Rightarrow> io_error + socket_addr \<Rightarrow>
   nat \<Rightarrow> 's upload \<Rightarrow> congestion \<Rightarrow> oracle_params \<Rightarrow> ((substrate_kind \<times> oracle_params \<times> 's) \<times> (substrate_kind \<times> oracle_params \<times> 's)) may_panic \<Rightarrow> nat \<Rightarrow>
   (lab_error + duration \<times> nat \<times> nat) may_panic" where
  "run_transfer idle made config_err bound front back now upload cc p mix len =
     res_bind (res_context LabCert (Some made)) (\<lambda>(cert, key).
     Option.bind (transport idle cc p) (\<lambda>tc.
     res_bind (Some (case config_err of Some e \<Rightarrow> Inl (LabQuic e) | None \<Rightarrow> Inr \<lparr>sv_cert = cert, sv_key = key, sv_transport = tc\<rparr>)) (\<lambda>sc.
     res_bind (res_context LabIo (Some bound)) (\<lambda>server.
     Option.bind mix (\<lambda>(up, down).
     res_bind (res_context LabIo (start_relay now server up down front back)) (\<lambda>r.
     Some (map_sum LabQuic id (upload sc \<lparr>qc_roots = [cert], qc_resumption = True, qc_transport = Some tc\<rparr> r len))))))))"

definition run_once ::
  "(duration \<Rightarrow> nat option) \<Rightarrow> string + byte list \<times> byte list \<Rightarrow> string option \<Rightarrow> io_error + socket_addr \<Rightarrow> io_error + socket_addr \<Rightarrow> io_error + socket_addr \<Rightarrow>
   nat \<Rightarrow> emulator upload \<Rightarrow> congestion \<Rightarrow> nat \<Rightarrow> oracle_params \<Rightarrow> (lab_error + sample) may_panic" where
  "run_once idle made config_err bound front back now upload cc len p =
     res_bind (run_transfer idle made config_err bound front back now upload cc p
       (map_option (\<lambda>buf. ((Datagram, p, with_queue now p buf), (Datagram, p, with_queue now p buf))) (bdp_packets p)) len) (\<lambda>(fct, lost, sent).
     Some (Inr \<lparr>sm_fct = fct, sm_goodput = goodput len fct, sm_lost = lost, sm_sent = sent\<rparr>))"

definition bench_params :: oracle_params where
  "bench_params = lab_params\<lparr>drop_prob := fl64 (2 / 100)\<rparr>"

text \<open>\<open>usize\<close> products wrap.\<close>

definition payload_mb :: "string list \<Rightarrow> nat \<Rightarrow> nat" where
  "payload_mb args d = (case Option.bind (nth_arg 0 args) parse_u64 of Some mb \<Rightarrow> mb | None \<Rightarrow> d) * 1024 * 1024 mod u64_limit"

text \<open>A line of the table: the arm, its sample, the loss in percent, and the goodput over that of the first arm.\<close>

record bench_row =
  br_label :: string
  br_sample :: sample
  br_loss :: f64
  br_ratio :: "f64 option option"

definition ratio :: "f64 option \<Rightarrow> f64 option \<Rightarrow> f64 option" where
  "ratio g b = (case (g, b) of (Some x, Some y) \<Rightarrow> if y = 0 then None else Some (fl64 (x / y)) | _ \<Rightarrow> None)"

fun bench_rows ::
  "(congestion \<Rightarrow> (lab_error + sample) may_panic) \<Rightarrow> congestion list \<Rightarrow> f64 option option \<Rightarrow> (lab_error + bench_row list) may_panic" where
  "bench_rows run [] baseline = Some (Inr [])"
| "bench_rows run (cc # ccs) baseline =
     res_bind (run cc) (\<lambda>s.
     res_bind (bench_rows run ccs (case baseline of None \<Rightarrow> Some (sm_goodput s) | Some b \<Rightarrow> Some b)) (\<lambda>rows.
     Some (Inr (\<lparr>br_label = cc_label cc, br_sample = s, br_loss = loss_pct (sm_lost s) (sm_sent s),
                 br_ratio = map_option (ratio (sm_goodput s)) baseline\<rparr> # rows))))"

definition bench_main ::
  "(duration \<Rightarrow> nat option) \<Rightarrow> (congestion \<Rightarrow> string + byte list \<times> byte list) \<Rightarrow> string option \<Rightarrow> io_error + socket_addr \<Rightarrow> io_error + socket_addr \<Rightarrow>
   io_error + socket_addr \<Rightarrow> nat \<Rightarrow> emulator upload \<Rightarrow> string list \<Rightarrow> (lab_error + bench_row list) may_panic" where
  "bench_main idle made config_err bound front back now upload args =
     bench_rows (\<lambda>cc. run_once idle (made cc) config_err bound front back now upload cc (payload_mb args 4) bench_params)
       [Stock, Timers, Quicmix] None"

section \<open>multipath.rs\<close>

definition prof :: "nat \<Rightarrow> u32 \<Rightarrow> nat \<Rightarrow> oracle_params" where
  "prof slot_us h delay_ms =
     \<lparr>hops = h, mean_hop_delay = from_millis delay_ms, drop_prob = fl64 (1 / 100), slot_interval = slot_us * 1000, mtu = 1200\<rparr>"

datatype path = Single emulator | Both "emulator striped"

fun path_oracle :: "path \<Rightarrow> oracle_params" where
  "path_oracle (Single e) = em_params e"
| "path_oracle (Both s) = st_oracle s"

definition as_transport :: "path \<Rightarrow> substrate_kind \<times> oracle_params \<times> path" where
  "as_transport x = (Datagram, path_oracle x, x)"

definition fast :: "nat \<Rightarrow> emulator" where
  "fast now = with_queue now (prof 500 2 3) 128"

definition slow :: "nat \<Rightarrow> emulator" where
  "slow now = with_queue now (prof 2000 5 15) 128"

definition mp_run ::
  "(duration \<Rightarrow> nat option) \<Rightarrow> string + byte list \<times> byte list \<Rightarrow> string option \<Rightarrow> io_error + socket_addr \<Rightarrow> io_error + socket_addr \<Rightarrow> io_error + socket_addr \<Rightarrow>
   nat \<Rightarrow> path upload \<Rightarrow> path \<Rightarrow> path \<Rightarrow> nat \<Rightarrow> (lab_error + f64 option) may_panic" where
  "mp_run idle made config_err bound front back now upload up down len =
     res_bind (run_transfer idle made config_err bound front back now upload Quicmix (path_oracle up)
       (Some (as_transport up, as_transport down)) len) (\<lambda>(fct, _, _).
     Some (Inr (goodput len fct)))"

text \<open>The goodput over the fast path alone, the slow one alone, and both striped.\<close>

definition multipath_main ::
  "(duration \<Rightarrow> nat option) \<Rightarrow> string + byte list \<times> byte list \<Rightarrow> string option \<Rightarrow> io_error + socket_addr \<Rightarrow> io_error + socket_addr \<Rightarrow> io_error + socket_addr \<Rightarrow>
   nat \<Rightarrow> path upload \<Rightarrow> string list \<Rightarrow> (lab_error + f64 option \<times> f64 option \<times> f64 option) may_panic" where
  "multipath_main idle made config_err bound front back now upload args =
     (let run = (\<lambda>up down. mp_run idle made config_err bound front back now upload up down (payload_mb args 2)) in
      res_bind (run (Single (fast now)) (Single (fast now))) (\<lambda>g_fast.
      res_bind (run (Single (slow now)) (Single (slow now))) (\<lambda>g_slow.
      Option.bind (new_striped em_params [fast now, slow now]) (\<lambda>up.
      Option.bind (new_striped em_params [fast now, slow now]) (\<lambda>down.
      res_bind (run (Both up) (Both down)) (\<lambda>g_combo.
      Some (Inr (g_fast, g_slow, g_combo))))))))"

section \<open>proxy.rs\<close>

definition striped_mix :: "nat \<Rightarrow> oracle_params \<Rightarrow> nat \<Rightarrow> path may_panic" where
  "striped_mix now p buf = map_option Both (new_striped em_params [with_queue now p buf, with_queue now p buf])"

text \<open>A front factory: each call starts a relay over two freshly striped pairs of emulators.\<close>

definition striped_front ::
  "('w \<Rightarrow> (io_error + socket_addr) \<times> (io_error + socket_addr) \<times> 'w) \<Rightarrow> (io_error \<Rightarrow> string) \<Rightarrow> nat \<Rightarrow> socket_addr \<Rightarrow> oracle_params \<Rightarrow> nat \<Rightarrow>
   'w \<Rightarrow> ((string + socket_addr) \<times> 'w) may_panic" where
  "striped_front binds show_io now gateway p buf w =
     Option.bind (striped_mix now p buf) (\<lambda>up.
     Option.bind (striped_mix now p buf) (\<lambda>down.
     case binds w of (front, back, w') \<Rightarrow>
       map_option (\<lambda>r. (map_sum show_io rl_front r, w')) (start_relay now gateway (as_transport up) (as_transport down) front back)))"

definition pool_demo_config :: pool_config where
  "pool_demo_config = default_pool_config\<lparr>pc_target := 4, pc_max_uses := Some 3, pc_max_age := None, pc_tick := from_millis 100\<rparr>"

text \<open>The verdict over the outcomes of the requests; a task that panicked is \<open>None\<close>.\<close>

definition pool_verdict :: "(io_error + bool) option list \<Rightarrow> lab_error + unit" where
  "pool_verdict outcomes =
     (let requests = length outcomes; ok = length (filter (\<lambda>o'. o' = Some (Inr True)) outcomes)
      in if ok \<noteq> requests then Inl (LabFailed (requests - ok) requests) else Inr ())"

text \<open>
  The program. The gateway node and its endpoint, the plan's transport, two striped front factories and the pool over them; then the
  listening socket, and the outcomes of the requests (\<open>requests\<close>: what they give over the pool's proxy, for the number asked for).
  A factory panics only where the striping of its parameters does.
\<close>

definition pool_factory ::
  "('w \<Rightarrow> (io_error + socket_addr) \<times> (io_error + socket_addr) \<times> 'w) \<Rightarrow> (io_error \<Rightarrow> string) \<Rightarrow> nat \<Rightarrow> socket_addr \<Rightarrow> oracle_params \<Rightarrow> nat \<Rightarrow>
   ('w, string, socket_addr) io may_panic" where
  "pool_factory binds show_io now gw p buf =
     Option.bind (striped_mix now p buf) (\<lambda>mix.
     map_option (\<lambda>_ w. the (striped_front binds show_io now gw p buf w)) (bdp_packets (path_oracle mix)))"

definition pool_demo ::
  "('w \<Rightarrow> nat \<Rightarrow> bool) \<Rightarrow> (duration \<Rightarrow> nat option) \<Rightarrow> 'w quic_stack \<Rightarrow> ('w \<Rightarrow> (io_error + socket_addr) \<times> (io_error + socket_addr) \<times> 'w) \<Rightarrow>
   (io_error \<Rightarrow> string) \<Rightarrow> string + byte list \<times> byte list \<Rightarrow> string option \<Rightarrow> io_error + socket_addr \<Rightarrow> io_error + socket_addr \<Rightarrow> nat \<Rightarrow>
   ('w warm_pool \<Rightarrow> nat \<Rightarrow> (io_error + bool) option list) \<Rightarrow> string list \<Rightarrow> 'w \<Rightarrow> (lab_error + 'w warm_pool) may_panic" where
  "pool_demo dead idle qs binds show_io made config_err gw_bound proxy_bound now requests args w =
     (let n = (case Option.bind (nth_arg 0 args) parse_u64 of Some n \<Rightarrow> n | None \<Rightarrow> 24); p = lab_params in
      Option.bind (bdp_packets p) (\<lambda>buf.
      res_bind (res_context LabNode (new_node idle made p)) (\<lambda>b.
      res_bind (res_context LabGateway (Some (serve_gateway_at config_err gw_bound b))) (\<lambda>(_, gw).
      Option.bind (transport idle Quicmix p) (\<lambda>tc.
      Option.bind (pool_factory binds show_io now gw p buf) (\<lambda>f.
      res_bind (res_context LabNode (start_pool dead idle qs now w [f, f] (nd_cert b) (Some tc) pool_demo_config)) (\<lambda>pool.
      res_bind (res_context LabIo (Some proxy_bound)) (\<lambda>_.
      Some (map_sum id (\<lambda>_. pool) (pool_verdict (requests pool n)))))))))))"

lemma striped_front_total:
  assumes "pool_factory binds show_io now gw p buf = Some f"
  shows "\<exists>r. striped_front binds show_io now gw p buf w = Some r \<and> f w = r"
proof -
  obtain mix d where m: "striped_mix now p buf = Some mix" "bdp_packets (path_oracle mix) = Some d"
    and f: "f = (\<lambda>w. the (striped_front binds show_io now gw p buf w))"
    using assms by (auto simp: pool_factory_def bind_eq_Some_conv)
  then have "\<exists>r. striped_front binds show_io now gw p buf w = Some r"
    by (simp add: striped_front_def as_transport_def start_relay_def split: prod.split)
  with f show ?thesis by auto
qed

text \<open>A run that succeeds has had every request answered with the page.\<close>

lemma pool_demo_all_ok:
  assumes "pool_demo dead idle qs binds show_io made config_err gw_bound proxy_bound now requests args w = Some (Inr pool)"
  shows "list_all (\<lambda>o'. o' = Some (Inr True)) (requests pool (case Option.bind (nth_arg 0 args) parse_u64 of Some n \<Rightarrow> n | None \<Rightarrow> 24))"
proof -
  let ?P = "\<lambda>o'. o' = Some (Inr True :: io_error + bool)"
  have all: "list_all ?P os" if "pool_verdict os = Inr ()" for os
  proof -
    have "length (filter ?P os) = length os" using that by (simp add: pool_verdict_def Let_def split: if_splits)
    then show ?thesis using length_filter_less [of _ os ?P] unfolding list_all_iff by fastforce
  qed
  have inr: "map_sum id (\<lambda>_. a) x = Inr b \<longleftrightarrow> x = Inr () \<and> b = a" for a b and x :: "lab_error + unit" by (cases x) auto
  show ?thesis
    using assms by (auto simp: pool_demo_def res_bind_ok res_context_ok bind_eq_Some_conv inr Let_def intro!: all)
qed

section \<open>nym\_bench.rs\<close>

definition nym_bench_cc :: "environment \<Rightarrow> congestion" where
  "nym_bench_cc env =
     (if env ''QUICMIX_CC'' = Some ''stock'' then Stock else if env ''QUICMIX_CC'' = Some ''timers'' then Timers else Quicmix)"

definition nym_bench_payload :: "environment \<Rightarrow> nat" where
  "nym_bench_payload env = (case Option.bind (env ''QUICMIX_KB'') parse_u64 of Some kb \<Rightarrow> kb | None \<Rightarrow> 16) * 1024 mod u64_limit"

definition nym_bench ::
  "(duration \<Rightarrow> nat option) \<Rightarrow> string + byte list \<times> byte list \<Rightarrow> string option \<Rightarrow> io_error + socket_addr \<Rightarrow> string + string \<Rightarrow> (string \<Rightarrow> 'r option) \<Rightarrow>
   string + 'r nym_client \<Rightarrow> environment \<Rightarrow> io_error + socket_addr \<Rightarrow> nat \<Rightarrow>
   (server_config \<Rightarrow> quic_client_config \<Rightarrow> 'r nym_substrate front_bridge \<Rightarrow> nat \<Rightarrow> string + duration \<times> nat \<times> nat) \<Rightarrow>
   (lab_error + sample) may_panic" where
  "nym_bench idle made config_err server_bound gw_client parse_recipient client env bound now upload =
     (let len = nym_bench_payload env in
      Option.bind (transport idle (nym_bench_cc env) nym_oracle) (\<lambda>tc.
      res_bind (res_context LabCert (Some made)) (\<lambda>(cert, key).
      res_bind (Some (case config_err of Some e \<Rightarrow> Inl (LabQuic e) | None \<Rightarrow> Inr \<lparr>sv_cert = cert, sv_key = key, sv_transport = tc\<rparr>)) (\<lambda>sc.
      res_bind (res_context LabIo (Some server_bound)) (\<lambda>_.
      res_bind (res_context (LabNym \<circ> ClientFailed) (Some gw_client)) (\<lambda>gw_addr.
      let surbs = (case Option.bind (env ''NYM_SURBS'') (from_str_radix 10 u32_limit) of Some n \<Rightarrow> n | None \<Rightarrow> 8) in
      res_bind (res_context LabNym (Some (fst (nym_connect parse_recipient (\<lambda>w. (client, w)) gw_addr surbs nym_oracle ())))) (\<lambda>sub.
      res_bind (res_context LabIo (spawn_client_bridge now sub bound)) (\<lambda>br.
      res_bind (Some (map_sum LabQuic id (upload sc \<lparr>qc_roots = [cert], qc_resumption = True, qc_transport = Some tc\<rparr> br len))) (\<lambda>(fct, lost, sent).
      Some (Inr \<lparr>sm_fct = fct, sm_goodput = goodput len fct, sm_lost = lost, sm_sent = sent\<rparr>))))))))))"

section \<open>What the benchmark compares\<close>

definition arm_relay :: "nat \<Rightarrow> oracle_params \<Rightarrow> nat \<Rightarrow> socket_addr \<Rightarrow> socket_addr \<Rightarrow> emulator relay" where
  "arm_relay now p depth server front =
     \<lparr>rl_front = front, rl_server = server,
      rl_up = new_substrate now Datagram p (with_queue now p depth) depth, rl_down = new_substrate now Datagram p (with_queue now p depth) depth,
      rl_client_port = new_port, rl_server_port = new_port, rl_to_server_running = True, rl_to_client_running = True\<rparr>"

lemma run_once_ok:
  assumes "run_once idle made config_err bound front back now upload cc len p = Some (Inr s)"
  shows "\<exists>cert key tc server f depth. made = Inr (cert, key) \<and> transport idle cc p = Some tc \<and> bound = Inr server \<and> front = Inr f \<and>
    bdp_packets p = Some depth \<and>
    upload \<lparr>sv_cert = cert, sv_key = key, sv_transport = tc\<rparr> \<lparr>qc_roots = [cert], qc_resumption = True, qc_transport = Some tc\<rparr>
      (arm_relay now p depth server f) len = Inr (sm_fct s, sm_lost s, sm_sent s) \<and> sm_goodput s = goodput len (sm_fct s)"
proof -
  have inr: "map_sum f id x = Inr y \<longleftrightarrow> x = Inr y" for f :: "'e \<Rightarrow> 'f" and x y by (cases x) auto
  show ?thesis
    using assms
    by (cases config_err)
       (auto simp: run_once_def run_transfer_def res_bind_ok res_context_ok bind_eq_Some_conv start_relay_ok arm_relay_def inr)
qed

text \<open>The benchmark compares congestion plans and nothing else. When it succeeds, its table has the three arms in order; in every
  arm the server and the client run the transport of that arm's plan, the client pins the server's certificate, the payload crosses the same
  relay to the same server, and the figures are those of that transfer; the first arm has no ratio, and the
  others' is against the first.\<close>

theorem bench_arms:
  assumes "bench_main idle made config_err bound front back now upload args = Some (Inr rows)"
  shows "map br_label rows = [''cubic'', ''cubic+timers'', ''quicmix''] \<and>
    (\<exists>server f depth. bound = Inr server \<and> front = Inr f \<and> bdp_packets bench_params = Some depth \<and>
      (\<forall>i < 3. \<exists>cert key tc s. s = br_sample (rows ! i) \<and> made ([Stock, Timers, Quicmix] ! i) = Inr (cert, key) \<and>
        transport idle ([Stock, Timers, Quicmix] ! i) bench_params = Some tc \<and>
        upload \<lparr>sv_cert = cert, sv_key = key, sv_transport = tc\<rparr> \<lparr>qc_roots = [cert], qc_resumption = True, qc_transport = Some tc\<rparr>
          (arm_relay now bench_params depth server f) (payload_mb args 4) = Inr (sm_fct s, sm_lost s, sm_sent s) \<and>
        sm_goodput s = goodput (payload_mb args 4) (sm_fct s) \<and> br_loss (rows ! i) = loss_pct (sm_lost s) (sm_sent s) \<and>
        br_ratio (rows ! i) = (if i = 0 then None else Some (ratio (sm_goodput s) (sm_goodput (br_sample (rows ! 0)))))))"
proof -
  let ?run = "\<lambda>cc. run_once idle (made cc) config_err bound front back now upload cc (payload_mb args 4) bench_params"
  obtain s1 s2 s3 where s: "?run Stock = Some (Inr s1)" "?run Timers = Some (Inr s2)" "?run Quicmix = Some (Inr s3)"
    and rows: "rows = [\<lparr>br_label = ''cubic'', br_sample = s1, br_loss = loss_pct (sm_lost s1) (sm_sent s1), br_ratio = None\<rparr>,
      \<lparr>br_label = ''cubic+timers'', br_sample = s2, br_loss = loss_pct (sm_lost s2) (sm_sent s2), br_ratio = Some (ratio (sm_goodput s2) (sm_goodput s1))\<rparr>,
      \<lparr>br_label = ''quicmix'', br_sample = s3, br_loss = loss_pct (sm_lost s3) (sm_sent s3), br_ratio = Some (ratio (sm_goodput s3) (sm_goodput s1))\<rparr>]"
    using assms by (auto simp: bench_main_def res_bind_ok)
  obtain server f depth where env: "bound = Inr server" "front = Inr f" "bdp_packets bench_params = Some depth"
    using run_once_ok [OF s(1)] by blast
  have three: "(\<forall>i < 3. P i) \<longleftrightarrow> P 0 \<and> P 1 \<and> P (2 :: nat)" for P
    by (auto simp: numeral_3_eq_3 numeral_2_eq_2 less_Suc_eq)
  show ?thesis
    using run_once_ok [OF s(1)] run_once_ok [OF s(2)] run_once_ok [OF s(3)]
    by (intro conjI exI [of _ server] exI [of _ f] exI [of _ depth]) (simp_all add: env rows three)
qed



lemma bench_params_transport: "\<exists>tc. transport idle cc bench_params = Some tc"
proof (rule plan_builds)
  show "rtt bench_params = Some (from_millis 30)"
    by (simp add: rtt_def bench_params_def lab_params_def dur_mul_def dur_limit_def from_millis_def)
  show "dur_mul (from_millis 30) 40 = Some (from_millis 1200)" by (simp add: dur_mul_def dur_limit_def from_millis_def)
qed

theorem bench_arms_witness:
  "\<exists>rows. bench_main (\<lambda>_. None) (\<lambda>_. Inr ([1], [2])) None (Inr (SockAddr (V4 127 0 0 1) 4433)) (Inr (SockAddr (V4 127 0 0 1) 5000))
      (Inr (SockAddr (V4 127 0 0 1) 5001)) 0 (\<lambda>_ _ _ _. Inr (from_secs 2, 1, 100)) [''1''] = Some (Inr rows) \<and>
    map br_label rows = [''cubic'', ''cubic+timers'', ''quicmix'']"
proof -
  let ?up = "\<lambda>_ _ _ _. Inr (from_secs 2, 1, 100)"
  obtain d where d: "bdp_packets bench_params = Some d"
    by (simp add: bdp_packets_def bdp_bytes_def rtt_def bench_params_def lab_params_def dur_mul_def dur_limit_def from_millis_def)
  have run: "\<exists>s. run_once (\<lambda>_. None) (Inr ([1], [2])) None (Inr (SockAddr (V4 127 0 0 1) 4433)) (Inr (SockAddr (V4 127 0 0 1) 5000))
      (Inr (SockAddr (V4 127 0 0 1) 5001)) 0 ?up cc len bench_params = Some (Inr s)" for cc len
    using bench_params_transport [of "\<lambda>_. None" cc]
    by (auto simp: run_once_def run_transfer_def d start_relay_def)
  have main: "\<exists>rows. bench_main (\<lambda>_. None) (\<lambda>_. Inr ([1], [2])) None (Inr (SockAddr (V4 127 0 0 1) 4433)) (Inr (SockAddr (V4 127 0 0 1) 5000))
      (Inr (SockAddr (V4 127 0 0 1) 5001)) 0 ?up [''1''] = Some (Inr rows)"
    using run [of Stock "payload_mb [''1''] 4"] run [of Timers "payload_mb [''1''] 4"] run [of Quicmix "payload_mb [''1''] 4"]
    by (elim exE) (simp add: bench_main_def)
  then show ?thesis using bench_arms by blast
qed

end
