(* ===== verification/Rotate_Runs.thy ===== *)
theory Rotate_Runs
  imports Selftest Probes
begin

text \<open>
  The two rotation programs as they run: \<^verbatim>\<open>substrates/quicmix-nym/src/bin/nym_rotate.rs\<close> and
  \<^verbatim>\<open>crates/quicmix-eval/examples/rotate.rs\<close>. Both build circuits on the hot path, pre-warm a pool, time a
  message over either, and then carry one session over two circuits. What they run on is a record of
  operations over one state: the circuits of theory Rotation, \<open>session_send\<close> over their streams, the source of
  session ids, the clock and the table of the session server of theory Sessions.
\<close>

section \<open>The runtime\<close>

datatype rotate_error =
    RotateCert string | RotateQuic string | RotateIo io_error | RotateNym nym_error | RotateCircuit circuit_error
  | RotateSend session_error | RotatePanic

record 's rotator =
  ro_connect :: "('s, circuit_error, circuit) io"
  ro_send :: "nat \<Rightarrow> byte list \<Rightarrow> byte list \<Rightarrow> ('s, session_error, unit) io"
  ro_draw :: "'s \<Rightarrow> byte list \<times> 's"
  ro_clock :: "'s \<Rightarrow> nat"
  ro_sleep :: "duration \<Rightarrow> 's \<Rightarrow> 's"
  ro_sessions :: "'s \<Rightarrow> sessions"

text \<open>
  The streams of the QUIC stack: a connection opens one, or fails; whether finishing it succeeds; and what becomes of the
  state with the stream as it was left.
\<close>

type_synonym 'w streams = "nat \<Rightarrow> 'w \<Rightarrow> (string + tcp_stream) \<times> bool \<times> (tcp_stream option \<Rightarrow> 'w)"

definition send_over :: "'w streams \<Rightarrow> nat \<Rightarrow> byte list \<Rightarrow> byte list \<Rightarrow> ('w, session_error, unit) io" where
  "send_over open_bi conn sid msg w =
     (case open_bi conn w of (opened, finish_ok, after) \<Rightarrow>
        (case session_send opened finish_ok sid msg of (r, s) \<Rightarrow> (r, after s)))"

text \<open>Over Nym the ids are those of the program's counter, kept beside the network's state.\<close>

definition nym_rotator ::
  "'w quic_stack \<Rightarrow> ('w, string, socket_addr) io \<Rightarrow> 'w streams \<Rightarrow> ('w \<Rightarrow> nat) \<Rightarrow> (duration \<Rightarrow> 'w \<Rightarrow> 'w) \<Rightarrow> ('w \<Rightarrow> sessions) \<Rightarrow>
   byte list \<Rightarrow> transport_config \<Rightarrow> ('w \<times> u64) rotator" where
  "nym_rotator qs front open_bi clock sleep table cert tc =
     \<lparr>ro_connect = lift_front (connect_fresh_with qs front cert (Some tc)),
      ro_send = (\<lambda>conn sid msg. lift_front (send_over open_bi conn sid msg)),
      ro_draw = (\<lambda>(w, ctr). case rand_id ctr of (i, ctr') \<Rightarrow> (i, (w, ctr'))),
      ro_clock = (\<lambda>(w, _). clock w), ro_sleep = (\<lambda>d (w, ctr). (sleep d w, ctr)), ro_sessions = (\<lambda>(w, _). table w)\<rparr>"

text \<open>Each of its circuits has a front of its own: a new Nym client to the gateway, with 8 reply blocks a message.\<close>

definition nym_circuit_front ::
  "(string \<Rightarrow> 'r option) \<Rightarrow> ('w, string, 'r nym_client) io \<Rightarrow> ('w \<Rightarrow> (io_error + socket_addr) \<times> 'w) \<Rightarrow> nat \<Rightarrow> (nym_error + io_error \<Rightarrow> string) \<Rightarrow>
   string \<Rightarrow> ('w, string, socket_addr) io" where
  "nym_circuit_front parse_recipient build_client bind_udp now show_error gw w =
     (case nym_front parse_recipient build_client bind_udp now gw 8 nym_oracle w of
        Some (Inl e, w') \<Rightarrow> (Inl (show_error (Inl e)), w')
      | Some (Inr (Inl e), w') \<Rightarrow> (Inl (show_error (Inr e)), w')
      | Some (Inr (Inr a), w') \<Rightarrow> (Inr a, w')
      | None \<Rightarrow> (Inl [], w))"

lemma nym_front_total: "\<exists>r. nym_front parse_recipient build_client bind_udp now gw surbs nym_oracle w = Some r"
proof -
  obtain d where "bdp_packets nym_oracle = Some d" using nym_depth by blast
  then show ?thesis
    by (auto simp: nym_front_def spawn_client_bridge_def nym_connect_def io_fail_def io_bind_def io_return_def
        split: prod.splits sum.splits option.splits)
qed

section \<open>Shared phases\<close>

definition send_new :: "'s rotator \<Rightarrow> circuit \<Rightarrow> ('s, rotate_error, unit) io" where
  "send_new ro c w = (case ro_draw ro w of (sid, w1) \<Rightarrow> io_context RotateSend (ro_send ro (ci_conn c) sid (string_bytes ''x'')) w1)"

text \<open>Cold: a new circuit and a message over it, timed together; the last circuit is kept.\<close>

fun cold_loop :: "'s rotator \<Rightarrow> nat \<Rightarrow> duration list \<Rightarrow> circuit option \<Rightarrow> ('s, rotate_error, duration list \<times> circuit option) io" where
  "cold_loop ro 0 ts kept w = (Inr (ts, kept), w)"
| "cold_loop ro (Suc n) ts kept w =
     io_bind (io_context RotateCircuit (ro_connect ro)) (\<lambda>c.
     io_bind (send_new ro c) (\<lambda>_ w'. cold_loop ro n (ts @ [ro_clock ro w' - ro_clock ro w]) (Some c) w')) w"

text \<open>Warm: a circuit of the pool, if there is one, and a message over it.\<close>

fun warm_loop :: "'s rotator \<Rightarrow> nat \<Rightarrow> circuit list \<Rightarrow> duration list \<Rightarrow> ('s, rotate_error, duration list \<times> circuit list) io" where
  "warm_loop ro 0 pool ts w = (Inr (ts, pool), w)"
| "warm_loop ro (Suc n) pool ts w =
     (case take_circuit pool of
        (None, pool') \<Rightarrow> warm_loop ro n pool' ts w
      | (Some c, pool') \<Rightarrow>
          io_bind (send_new ro c) (\<lambda>_ w'. warm_loop ro n pool' (ts @ [ro_clock ro w' - ro_clock ro w]) w') w)"

text \<open>The emulator's program empties its pool.\<close>

function warm_drain :: "'s rotator \<Rightarrow> circuit list \<Rightarrow> duration list \<Rightarrow> ('s, rotate_error, duration list) io" where
  "warm_drain ro pool ts w =
     (case take_circuit pool of
        (None, _) \<Rightarrow> (Inr ts, w)
      | (Some c, pool') \<Rightarrow>
          io_bind (send_new ro c) (\<lambda>_ w'. warm_drain ro pool' (ts @ [ro_clock ro w' - ro_clock ro w]) w') w)"
  by pat_completeness auto
termination
  by (relation "measure (\<lambda>(_, pool, _, _). length pool)") (auto simp: take_circuit_def split: if_splits)

declare warm_drain.simps [simp del]

definition hex :: "byte list \<Rightarrow> string" where
  "hex b = concat (map (\<lambda>x. [''0123456789abcdef'' ! (unat x div 16), ''0123456789abcdef'' ! (unat x mod 16)]) b)"

text \<open>What is printed.\<close>

record rotation_report =
  rr_cold :: f64
  rr_warm :: f64
  rr_warm_count :: nat
  rr_speedup :: "f64 option"
  rr_session :: string
  rr_addrs :: "socket_addr list"
  rr_local1 :: socket_addr
  rr_local2 :: socket_addr
  rr_ok :: bool

definition speedup :: "f64 \<Rightarrow> f64 \<Rightarrow> f64 option" where
  "speedup cold_med warm_med = (if 0 < warm_med then Some (fl64 (cold_med / warm_med)) else None)"

section \<open>nym\_rotate.rs\<close>

definition spawn_server ::
  "(duration \<Rightarrow> nat option) \<Rightarrow> string option \<Rightarrow> io_error + socket_addr \<Rightarrow> byte list \<Rightarrow> byte list \<Rightarrow> oracle_params \<Rightarrow>
   (rotate_error + server_config \<times> socket_addr) may_panic" where
  "spawn_server idle config_err bound cert key p =
     (case config_err of
        Some e \<Rightarrow> Some (Inl (RotateQuic e))
      | None \<Rightarrow>
          map_option (\<lambda>tc. case bound of Inl e \<Rightarrow> Inl (RotateIo e) | Inr addr \<Rightarrow> Inr (\<lparr>sv_cert = cert, sv_key = key, sv_transport = tc\<rparr>, addr))
            (transport idle Quicmix p))"

text \<open>The connection of one peer: its streams one after the other, until one cannot be read.\<close>

fun session_conn :: "socket_addr \<Rightarrow> (io_error + byte list) list \<Rightarrow> sessions \<Rightarrow> sessions" where
  "session_conn remote [] ss = ss"
| "session_conn remote (read # reads) ss =
     (case session_stream remote read ss of None \<Rightarrow> ss | Some (ss', _) \<Rightarrow> session_conn remote reads ss')"

definition env_count :: "environment \<Rightarrow> string \<Rightarrow> nat \<Rightarrow> nat" where
  "env_count env k d = (case Option.bind (env k) parse_u64 of Some n \<Rightarrow> n | None \<Rightarrow> d)"

text \<open>One session over the last cold circuit and the pool's spare, or a fresh circuit when the pool is empty.\<close>

definition nym_continuity ::
  "'s rotator \<Rightarrow> circuit \<Rightarrow> circuit list \<Rightarrow> ('s, rotate_error, byte list \<times> circuit) io" where
  "nym_continuity ro cold_c pool w =
     (case ro_draw ro w of (sid, w1) \<Rightarrow>
        io_bind (io_context RotateSend (ro_send ro (ci_conn cold_c) sid (string_bytes ''a''))) (\<lambda>_.
        io_bind (case fst (take_circuit pool) of Some c \<Rightarrow> io_return c | None \<Rightarrow> io_context RotateCircuit (ro_connect ro)) (\<lambda>warm_c.
        io_bind (io_context RotateSend (ro_send ro (ci_conn warm_c) sid (string_bytes ''b''))) (\<lambda>_.
        io_return (sid, warm_c)))) w1)"

text \<open>\<open>usize\<close> addition wraps.\<close>

definition nym_rotate_run :: "'s rotator \<Rightarrow> nat \<Rightarrow> nat \<Rightarrow> ('s, rotate_error, rotation_report) io" where
  "nym_rotate_run ro n_cold n_warm =
     io_bind (cold_loop ro (max n_cold 1) [] None) (\<lambda>(cold_samples, kept).
     case kept of
       None \<Rightarrow> io_fail RotatePanic
     | Some cold_c \<Rightarrow>
         io_bind (io_context RotateCircuit (prewarm_loop (ro_connect ro) ((n_warm + 1) mod u64_limit) [])) (\<lambda>pool.
         io_bind (warm_loop ro n_warm pool []) (\<lambda>(warm_samples, pool').
         io_bind (nym_continuity ro cold_c pool') (\<lambda>(sid, warm_c) w.
         let w' = ro_sleep ro (from_secs 2) w; ss = ro_sessions ro w'
         in (Inr \<lparr>rr_cold = median_secs cold_samples, rr_warm = median_secs warm_samples, rr_warm_count = length warm_samples,
                  rr_speedup = speedup (median_secs cold_samples) (median_secs warm_samples), rr_session = hex sid,
                  rr_addrs = (case ss sid of Some l \<Rightarrow> l | None \<Rightarrow> []), rr_local1 = ci_local cold_c, rr_local2 = ci_local warm_c,
                  rr_ok = rotation_ok ss sid (ci_local cold_c) (ci_local warm_c)\<rparr>, w')))))"

text \<open>The whole program; \<open>rotator\<close> is the runtime for a certificate, a transport and the gateway's Nym address.\<close>

definition nym_rotate ::
  "(duration \<Rightarrow> nat option) \<Rightarrow> string + byte list \<times> byte list \<Rightarrow> string option \<Rightarrow> io_error + socket_addr \<Rightarrow> string + string \<Rightarrow> environment \<Rightarrow>
   (byte list \<Rightarrow> transport_config \<Rightarrow> string \<Rightarrow> 's rotator) \<Rightarrow> ('s, rotate_error, rotation_report) io may_panic" where
  "nym_rotate idle made config_err bound gw_client env rotator =
     (case made of
        Inl e \<Rightarrow> Some (io_fail (RotateCert e))
      | Inr (cert, key) \<Rightarrow>
          Option.bind (spawn_server idle config_err bound cert key nym_oracle) (\<lambda>srv.
          case srv of
            Inl e \<Rightarrow> Some (io_fail e)
          | Inr _ \<Rightarrow>
              map_option (\<lambda>tc.
                io_bind (io_lift (map_sum (RotateNym \<circ> ClientFailed) id gw_client)) (\<lambda>gw_addr.
                nym_rotate_run (rotator cert tc gw_addr) (env_count env ''NYM_COLD'' 2) (env_count env ''NYM_WARM'' 4)))
                (transport idle Quicmix nym_oracle)))"

section \<open>rotate.rs\<close>

text \<open>Its server runs the transport of the QUIC library's defaults.\<close>

definition plain_server :: "string option \<Rightarrow> io_error + socket_addr \<Rightarrow> byte list \<Rightarrow> byte list \<Rightarrow> rotate_error + server_config \<times> socket_addr" where
  "plain_server config_err bound cert key =
     (case config_err of
        Some e \<Rightarrow> Inl (RotateQuic e)
      | None \<Rightarrow> (case bound of
          Inl e \<Rightarrow> Inl (RotateIo e)
        | Inr addr \<Rightarrow> Inr (\<lparr>sv_cert = cert, sv_key = key, sv_transport = default_transport\<rparr>, addr)))"

definition rotate_params :: oracle_params where
  "rotate_params = \<lparr>hops = 3, mean_hop_delay = from_millis 10, drop_prob = 0, slot_interval = 0, mtu = 1200\<rparr>"

text \<open>The upper median; indexing an empty slice panics.\<close>

definition median_ms :: "duration list \<Rightarrow> f64 may_panic" where
  "median_ms ts =
     (let s = sort ts in if s = [] then None else Some (fl64 (as_secs_f64 (s ! (length s div 2)) * 1000)))"

definition or_panic :: "'a may_panic \<Rightarrow> ('s, rotate_error, 'a) io" where
  "or_panic m = (case m of None \<Rightarrow> io_fail RotatePanic | Some a \<Rightarrow> io_return a)"

definition rotate_continuity :: "'s rotator \<Rightarrow> ('s, rotate_error, byte list \<times> circuit \<times> circuit) io" where
  "rotate_continuity ro w =
     (case ro_draw ro w of (sid, w1) \<Rightarrow>
        io_bind (io_context RotateCircuit (ro_connect ro)) (\<lambda>cold_c.
        io_bind (io_context RotateSend (ro_send ro (ci_conn cold_c) sid (string_bytes ''a''))) (\<lambda>_.
        io_bind (io_context RotateCircuit (prewarm_loop (ro_connect ro) 1 [])) (\<lambda>pool2.
        io_bind (or_panic (fst (take_circuit pool2))) (\<lambda>warm_c.
        io_bind (io_context RotateSend (ro_send ro (ci_conn warm_c) sid (string_bytes ''b''))) (\<lambda>_.
        io_return (sid, cold_c, warm_c)))))) w1)"

text \<open>The three assertions panic.\<close>

definition rotate_run :: "'s rotator \<Rightarrow> ('s, rotate_error, rotation_report) io" where
  "rotate_run ro =
     io_bind (cold_loop ro 11 [] None) (\<lambda>(cold, _).
     io_bind (io_context RotateCircuit (prewarm_loop (ro_connect ro) 11 [])) (\<lambda>pool.
     io_bind (warm_drain ro pool []) (\<lambda>warm.
     io_bind (or_panic (median_ms cold)) (\<lambda>cold_med.
     io_bind (or_panic (median_ms warm)) (\<lambda>warm_med.
     io_bind (rotate_continuity ro) (\<lambda>(sid, cold_c, warm_c) w.
     let ss = ro_sessions ro w in
     if \<not> rotation_ok ss sid (ci_local cold_c) (ci_local warm_c) then (Inl RotatePanic, w)
     else (Inr \<lparr>rr_cold = cold_med, rr_warm = warm_med, rr_warm_count = length warm, rr_speedup = speedup cold_med warm_med,
                rr_session = hex sid, rr_addrs = (case ss sid of Some l \<Rightarrow> l | None \<Rightarrow> []),
                rr_local1 = ci_local cold_c, rr_local2 = ci_local warm_c, rr_ok = True\<rparr>, w)))))))"

definition rotate_main ::
  "string + byte list \<times> byte list \<Rightarrow> string option \<Rightarrow> io_error + socket_addr \<Rightarrow> (socket_addr \<Rightarrow> byte list \<Rightarrow> oracle_params \<Rightarrow> 's rotator) \<Rightarrow>
   ('s, rotate_error, rotation_report) io may_panic" where
  "rotate_main made config_err bound rotator =
     (case made of
        Inl e \<Rightarrow> Some (io_fail (RotateCert e))
      | Inr (cert, key) \<Rightarrow>
          (case plain_server config_err bound cert key of
             Inl e \<Rightarrow> Some (io_fail e)
           | Inr (_, server) \<Rightarrow>
               Option.bind (dur_mul (mean_hop_delay rotate_params) (unat (hops rotate_params))) (\<lambda>one_way.
               map_option (\<lambda>_. rotate_run (rotator server cert rotate_params)) (dur_mul one_way 2))))"

section \<open>What the phases spend\<close>

lemma rotation_ok_distinct:
  "rotation_ok ss sid a b \<longleftrightarrow>
   length (case ss sid of Some l \<Rightarrow> l | None \<Rightarrow> []) = 2 \<and> distinct (case ss sid of Some l \<Rightarrow> l | None \<Rightarrow> []) \<and> a \<noteq> b"
  by (cases "ss sid") (auto simp: rotation_ok_def card_distinct distinct_card)

text \<open>
  A contract on a runtime: an invariant indexed by the circuits built and the ids drawn so far, kept by building a
  circuit and by sending a message under a new id. The phases then advance it by what they promise.
\<close>

locale rotation_phases =
  fixes ro :: "'s rotator" and inv :: "nat \<Rightarrow> nat \<Rightarrow> 's \<Rightarrow> bool"
  assumes connect_step: "inv d k w \<Longrightarrow> ro_connect ro w = (Inr c, w') \<Longrightarrow> inv (Suc d) k w'"
    and send_step: "inv d k w \<Longrightarrow> ro_draw ro w = (sid, w1) \<Longrightarrow>
      ro_send ro conn sid (string_bytes ''x'') w1 = (Inr (), w') \<Longrightarrow> inv d (Suc k) w'"
begin

lemma send_new_step: "inv d k w \<Longrightarrow> send_new ro c w = (Inr (), w') \<Longrightarrow> inv d (Suc k) w'"
  by (auto simp: send_new_def io_simps split: prod.splits dest: send_step)

lemma cold_loop_phase:
  "inv d k w \<Longrightarrow> cold_loop ro n ts kept w = (Inr (ts', kept'), w') \<Longrightarrow>
   inv (d + n) (k + n) w' \<and> length ts' = length ts + n \<and> (0 < n \<longrightarrow> kept' \<noteq> None)"
proof (induction n arbitrary: d k w ts kept)
  case (Suc n)
  from Suc.prems(2) obtain c w1 w2 where c: "ro_connect ro w = (Inr c, w1)" and s: "send_new ro c w1 = (Inr (), w2)"
    and rest: "cold_loop ro n (ts @ [ro_clock ro w2 - ro_clock ro w]) (Some c) w2 = (Inr (ts', kept'), w')"
    by (auto simp: io_simps)
  have "inv (Suc d) (Suc k) w2" using Suc.prems(1) c s connect_step send_new_step by blast
  from Suc.IH [OF this rest] show ?case using rest by (cases n) auto
qed simp

lemma prewarm_phase:
  "inv d k w \<Longrightarrow> prewarm_loop (ro_connect ro) n pool w = (Inr pool', w') \<Longrightarrow> inv (d + n) k w' \<and> length pool' = length pool + n"
proof (induction n arbitrary: d w pool)
  case (Suc n)
  from Suc.prems(2) obtain c w1 where c: "ro_connect ro w = (Inr c, w1)"
    and rest: "prewarm_loop (ro_connect ro) n (pool @ [c]) w1 = (Inr pool', w')"
    by (auto simp: io_simps)
  have "inv (Suc d) k w1" using Suc.prems(1) c connect_step by blast
  from Suc.IH [OF this rest] show ?case by simp
qed (simp add: io_simps)

lemma warm_loop_phase:
  "inv d k w \<Longrightarrow> n \<le> length pool \<Longrightarrow> warm_loop ro n pool ts w = (Inr (ts', pool'), w') \<Longrightarrow>
   inv d (k + n) w' \<and> length ts' = length ts + n \<and> length pool' = length pool - n"
proof (induction n arbitrary: k w pool ts)
  case (Suc n)
  then have "pool \<noteq> []" by auto
  with Suc.prems(3) obtain w1 where s: "send_new ro (last pool) w = (Inr (), w1)"
    and rest: "warm_loop ro n (butlast pool) (ts @ [ro_clock ro w1 - ro_clock ro w]) w1 = (Inr (ts', pool'), w')"
    by (auto simp: take_circuit_def io_simps)
  have "inv d (Suc k) w1" using Suc.prems(1) s send_new_step by blast
  from Suc.IH [OF this _ rest] show ?case using Suc.prems(2) by simp
qed simp

lemma warm_drain_phase:
  "inv d k w \<Longrightarrow> warm_drain ro pool ts w = (Inr ts', w') \<Longrightarrow> inv d (k + length pool) w' \<and> length ts' = length ts + length pool"
proof (induction "length pool" arbitrary: k w pool ts)
  case 0
  then show ?case by (simp add: warm_drain.simps take_circuit_def)
next
  case (Suc n)
  then have "pool \<noteq> []" by auto
  with Suc.prems(2) obtain w1 where s: "send_new ro (last pool) w = (Inr (), w1)"
    and rest: "warm_drain ro (butlast pool) (ts @ [ro_clock ro w1 - ro_clock ro w]) w1 = (Inr ts', w')"
    by (subst (asm) warm_drain.simps) (auto simp: take_circuit_def io_simps)
  have n: "n = length (butlast pool)" using Suc.hyps(2) by simp
  have "inv d (Suc k) w1" using Suc.prems(1) s send_new_step by blast
  from Suc.hyps(1) [OF n this rest] show ?case unfolding n [symmetric] Suc.hyps(2) [symmetric] by simp
qed

text \<open>The run over Nym: what it has spent when it comes to the continuity check, with a spare circuit in the pool.\<close>

lemma nym_run_phases:
  assumes "inv 0 0 w" and "nym_rotate_run ro n_cold n_warm w = (Inr rep, w')" and "n_warm + 1 < u64_limit"
  shows "\<exists>cold_c c sid w1 w2. inv (max n_cold 1 + n_warm + 1) (max n_cold 1 + n_warm) w1 \<and>
    nym_continuity ro cold_c [c] w1 = (Inr (sid, c), w2) \<and> w' = ro_sleep ro (from_secs 2) w2 \<and> rr_warm_count rep = n_warm \<and>
    rr_addrs rep = (case ro_sessions ro w' sid of Some l \<Rightarrow> l | None \<Rightarrow> []) \<and> rr_local1 rep = ci_local cold_c \<and> rr_local2 rep = ci_local c \<and>
    rr_ok rep = rotation_ok (ro_sessions ro w') sid (ci_local cold_c) (ci_local c)"
proof -
  obtain cs kept wa where a: "cold_loop ro (max n_cold 1) [] None w = (Inr (cs, kept), wa)"
    using assms(2) by (auto simp: nym_rotate_run_def io_simps)
  note A = cold_loop_phase [OF assms(1) a]
  then obtain cold_c where kept: "kept = Some cold_c" by auto
  obtain pool wb where b: "prewarm_loop (ro_connect ro) (n_warm + 1) [] wa = (Inr pool, wb)"
    using assms(2) a kept assms(3) by (auto simp: nym_rotate_run_def io_simps)
  note B = prewarm_phase [OF conjunct1 [OF A] b]
  obtain ws pool' wc where c: "warm_loop ro n_warm pool [] wb = (Inr (ws, pool'), wc)"
    using assms(2) a kept b assms(3) by (auto simp: nym_rotate_run_def io_simps)
  have C: "inv (max n_cold 1 + n_warm + 1) (max n_cold 1 + n_warm) wc" "length ws = n_warm" "length pool' = 1"
    using warm_loop_phase [OF conjunct1 [OF B] _ c] B by (simp_all add: add.assoc)
  then obtain s where s: "pool' = [s]" by (auto simp: length_Suc_conv)
  obtain sid warm_c wd where d: "nym_continuity ro cold_c [s] wc = (Inr (sid, warm_c), wd)"
    using assms(2) a kept b c s assms(3) by (auto simp: nym_rotate_run_def io_simps)
  have w: "warm_c = s" using d by (auto simp: nym_continuity_def take_circuit_def io_simps split: prod.splits)
  show ?thesis
    using assms(2) a kept b c s d w C assms(3)
    by (intro exI [of _ cold_c] exI [of _ s] exI [of _ sid] exI [of _ wc] exI [of _ wd])
       (auto simp: nym_rotate_run_def io_bind_def io_context_def Let_def)
qed

text \<open>The run over the emulator.\<close>

lemma rotate_run_phases:
  assumes "inv 0 0 w" and "rotate_run ro w = (Inr rep, w')"
  shows "rr_warm_count rep = 11 \<and> rr_local1 rep \<noteq> rr_local2 rep \<and> length (rr_addrs rep) = 2 \<and> distinct (rr_addrs rep)"
proof -
  obtain cs kept wa where a: "cold_loop ro 11 [] None w = (Inr (cs, kept), wa)"
    using assms(2) by (auto simp: rotate_run_def io_simps)
  note A = cold_loop_phase [OF assms(1) a]
  obtain pool wb where b: "prewarm_loop (ro_connect ro) 11 [] wa = (Inr pool, wb)"
    using assms(2) a by (auto simp: rotate_run_def io_simps)
  note B = prewarm_phase [OF conjunct1 [OF A] b]
  obtain ws wc where c: "warm_drain ro pool [] wb = (Inr ws, wc)"
    using assms(2) a b by (auto simp: rotate_run_def io_simps)
  have n: "length ws = 11" using warm_drain_phase [OF conjunct1 [OF B] c] B by simp
  show ?thesis
    using assms(2) a b c n
    by (auto simp: rotate_run_def io_bind_def io_context_def Let_def rotation_ok_distinct split: prod.splits sum.splits if_splits)
qed

end


text \<open>A stack that logs its dials, with the streams beside the log.\<close>

definition log_streams :: "'w streams \<Rightarrow> ('w \<times> 'l) streams" where
  "log_streams open_bi conn = (\<lambda>(w, l). case open_bi conn w of (opened, fin, after) \<Rightarrow> (opened, fin, \<lambda>s. (after s, l)))"

definition log_sleep :: "(duration \<Rightarrow> 'w \<Rightarrow> 'w) \<Rightarrow> duration \<Rightarrow> 'w \<times> 'l \<Rightarrow> 'w \<times> 'l" where
  "log_sleep sleep d = (\<lambda>(w, l). (sleep d w, l))"

abbreviation logging_nym where
  "logging_nym qs front open_bi clock sleep table cert tc \<equiv>
     nym_rotator (logging qs) (lift_front front) (log_streams open_bi) (clock \<circ> fst) (log_sleep sleep) (table \<circ> fst) cert tc"

definition dialled :: "byte list \<Rightarrow> transport_config \<Rightarrow> nat \<Rightarrow> nat \<Rightarrow> ('w \<times> quic_client_config list) \<times> u64 \<Rightarrow> bool" where
  "dialled cert tc d k s \<longleftrightarrow> snd (fst s) = replicate d (client_config_for cert (Some tc))"

lemma send_over_log: "send_over (log_streams open_bi) conn sid msg (w, l) = (r, (w', l')) \<Longrightarrow> l' = l \<and> send_over open_bi conn sid msg w = (r, w')"
  by (auto simp: send_over_def log_streams_def split: prod.splits)

lemma replicate_snoc: "replicate n x @ [x] = replicate (Suc n) x"
  by (simp add: replicate_append_same)

interpretation always: rotation_phases ro "\<lambda>_ _ _. True" for ro :: "'s rotator"
  by unfold_locales simp_all

interpretation nd: rotation_phases "logging_nym qs front open_bi clock sleep table cert tc" "dialled cert tc"
  for qs :: "'w quic_stack" and front open_bi clock sleep table cert tc
proof
  fix d k w c w'
  assume i: "dialled cert tc d k w" and c: "ro_connect (logging_nym qs front open_bi clock sleep table cert tc) w = (Inr c, w')"
  obtain v l ctr where w: "w = ((v, l), ctr)" by (metis prod.exhaust)
  from c obtain v' l' where w': "w' = ((v', l'), ctr)"
    and c': "connect_fresh_with (logging qs) (lift_front front) cert (Some tc) (v, l) = (Inr c, (v', l'))"
    by (auto simp: nym_rotator_def w lift_front_def [of "connect_fresh_with _ _ _ _"] split: prod.splits)
  from connect_logs [OF c'] i show "dialled cert tc (Suc d) k w'"
    by (auto simp: dialled_def w w' replicate_snoc)
next
  fix d k w sid w1 conn w'
  assume i: "dialled cert tc d k w" and dr: "ro_draw (logging_nym qs front open_bi clock sleep table cert tc) w = (sid, w1)"
    and s: "ro_send (logging_nym qs front open_bi clock sleep table cert tc) conn sid (string_bytes ''x'') w1 = (Inr (), w')"
  from i dr s show "dialled cert tc d (Suc k) w'"
    by (auto simp: nym_rotator_def dialled_def lift_front_def [of "send_over _ _ _ _"] split: prod.splits dest: send_over_log)
qed

lemma lift_front_ok: "lift_front m (w, l) = (r, (w', l')) \<longleftrightarrow> m w = (r, w') \<and> l' = l"
  by (auto simp: lift_front_def split: prod.split)

lemma nym_continuity_ok:
  assumes "nym_continuity (nym_rotator qs front open_bi clock sleep table cert tc) cold_c [c] (w, ctr) = (Inr (sid, c'), (w2, ctr'))"
  shows "sid = token_half ctr \<and> (\<exists>v. send_over open_bi (ci_conn cold_c) sid (string_bytes ''a'') w = (Inr (), v) \<and>
    send_over open_bi (ci_conn c) sid (string_bytes ''b'') v = (Inr (), w2))"
proof -
  let ?ro = "nym_rotator qs front open_bi clock sleep table cert tc"
  have d: "ro_draw ?ro (w, ctr) = (token_half ctr, (w, ctr + CTR_STEP))" by (simp add: nym_rotator_def rand_id_half)
  from assms obtain s1 s2 where s: "sid = token_half ctr" "ro_send ?ro (ci_conn cold_c) sid (string_bytes ''a'') (w, ctr + CTR_STEP) = (Inr (), s1)"
    "ro_send ?ro (ci_conn c) sid (string_bytes ''b'') s1 = (Inr (), (w2, ctr'))"
    by (auto simp: nym_continuity_def d take_circuit_def io_simps)
  then show ?thesis by (cases s1) (auto simp: nym_rotator_def lift_front_ok)
qed

lemma nym_rotate_ok:
  assumes "nym_rotate idle made config_err bound gw_client env rotator = Some run" and "run w = (Inr rep, w')"
  shows "\<exists>cert key tc gw. made = Inr (cert, key) \<and> transport idle Quicmix nym_oracle = Some tc \<and> gw_client = Inr gw \<and>
    nym_rotate_run (rotator cert tc gw) (env_count env ''NYM_COLD'' 2) (env_count env ''NYM_WARM'' 4) w = (Inr rep, w')"
proof (cases made)
  case (Inr ck)
  obtain cert key where ck: "ck = (cert, key)" by (cases ck)
  obtain srv where srv: "spawn_server idle config_err bound cert key nym_oracle = Some srv"
    using assms(1) by (auto simp: nym_rotate_def Inr ck bind_eq_Some_conv)
  show ?thesis
    using assms by (cases srv; cases gw_client) (auto simp: nym_rotate_def Inr ck srv io_simps)
qed (use assms in \<open>auto simp: nym_rotate_def io_simps\<close>)

text \<open>C30: a run of the Nym rotation program that succeeds builds one circuit for each cold sample (one at least), one for
  each warm sample and one spare, and no other: the pool is never found empty, so no circuit is built on the hot
  path after the cold ones. Every one of them is dialled with the server's certificate as its only root, without TLS
  resumption and with the transport of the Nym oracle; and there are as many warm samples as asked for.\<close>

theorem nym_rotate_spends:
  assumes "nym_rotate idle (Inr (cert, key)) config_err bound gw_client env
      (\<lambda>cert tc gw. logging_nym qs (front gw) open_bi clock sleep table cert tc) = Some run"
    and "run ((w, []), ctr) = (Inr rep, ((w', dials), ctr'))" and "env_count env ''NYM_WARM'' 4 + 1 < u64_limit"
  shows "\<exists>tc. transport idle Quicmix nym_oracle = Some tc \<and>
    dials = replicate (max (env_count env ''NYM_COLD'' 2) 1 + env_count env ''NYM_WARM'' 4 + 1) (client_config_for cert (Some tc)) \<and>
    rr_warm_count rep = env_count env ''NYM_WARM'' 4"
proof -
  obtain tc gw where tc: "transport idle Quicmix nym_oracle = Some tc"
    and run: "nym_rotate_run (logging_nym qs (front gw) open_bi clock sleep table cert tc)
      (env_count env ''NYM_COLD'' 2) (env_count env ''NYM_WARM'' 4) ((w, []), ctr) = (Inr rep, ((w', dials), ctr'))"
    using nym_rotate_ok [OF assms(1,2)] by auto
  have "dialled cert tc 0 0 ((w, []), ctr)" by (simp add: dialled_def)
  from nd.nym_run_phases [OF this run assms(3)] obtain cold_c c sid w1 w2 where
    d: "dialled cert tc (max (env_count env ''NYM_COLD'' 2) 1 + env_count env ''NYM_WARM'' 4 + 1)
          (max (env_count env ''NYM_COLD'' 2) 1 + env_count env ''NYM_WARM'' 4) w1"
    and c: "nym_continuity (logging_nym qs (front gw) open_bi clock sleep table cert tc) cold_c [c] w1 = (Inr (sid, c), w2)"
    and e: "((w', dials), ctr') = ro_sleep (logging_nym qs (front gw) open_bi clock sleep table cert tc) (from_secs 2) w2"
    and n: "rr_warm_count rep = env_count env ''NYM_WARM'' 4" by blast
  obtain v1 l1 k1 v2 l2 k2 where w: "w1 = ((v1, l1), k1)" "w2 = ((v2, l2), k2)" by (metis prod.exhaust)
  have "l2 = l1" using nym_continuity_ok [OF c [unfolded w]] by (metis prod.exhaust send_over_log)
  then show ?thesis using d e n tc by (simp add: dialled_def w nym_rotator_def log_sleep_def)
qed


section \<open>Whose sessions the server has recorded\<close>

text \<open>
  What the program relies on of the network: a message that was acknowledged has been handled by the server, since the
  acknowledgement ends only when the server has finished the stream, which it does after recording it.
\<close>

definition acked_recorded :: "'w streams \<Rightarrow> (nat \<Rightarrow> socket_addr) \<Rightarrow> ('w \<Rightarrow> sessions) \<Rightarrow> bool" where
  "acked_recorded open_bi remote table \<longleftrightarrow>
     (\<forall>conn sid msg w w'. length sid = 8 \<longrightarrow> length (sid @ msg) \<le> 2 ^ 20 \<longrightarrow> send_over open_bi conn sid msg w = (Inr (), w') \<longrightarrow>
        (\<exists>ack. session_stream (remote conn) (Inr (sid @ msg)) (table w) = Some (table w', ack)))"

definition drawn_only :: "('w \<Rightarrow> sessions) \<Rightarrow> u64 \<Rightarrow> nat \<Rightarrow> nat \<Rightarrow> 'w \<times> u64 \<Rightarrow> bool" where
  "drawn_only table c0 d k = (\<lambda>(w, ctr).
     ctr = c0 + of_nat k * CTR_STEP \<and> dom (table w) \<subseteq> (\<lambda>i. token_half (c0 + of_nat i * CTR_STEP)) ` {..<k})"

lemma acked_table:
  assumes "acked_recorded open_bi remote table" and "send_over open_bi conn sid msg w = (Inr (), w')"
    and "length sid = 8" and "length msg \<le> 2 ^ 20 - 8"
  shows "table w' = (table w)(sid \<mapsto> (case table w sid of Some l \<Rightarrow> l | None \<Rightarrow> []) @ [remote conn])"
proof -
  have "length (sid @ msg) \<le> 2 ^ 20" using assms(3,4) by simp
  then obtain ack where "session_stream (remote conn) (Inr (sid @ msg)) (table w) = Some (table w', ack)"
    using assms(1-3) unfolding acked_recorded_def by blast
  then show ?thesis using assms(3,4) by (auto simp: session_stream_def)
qed

lemma fresh_id: "k < 2 ^ 64 \<Longrightarrow> token_half (c0 + of_nat k * CTR_STEP) \<notin> (\<lambda>i. token_half (c0 + of_nat i * CTR_STEP)) ` {..<k}"
proof
  assume k: "k < 2 ^ 64" and "token_half (c0 + of_nat k * CTR_STEP) \<in> (\<lambda>i. token_half (c0 + of_nat i * CTR_STEP)) ` {..<k}"
  then obtain i where "i < k" "rand_ids (Suc k) c0 ! k = rand_ids (Suc k) c0 ! i"
    by (auto simp: rand_ids_nth simp del: rand_ids.simps)
  then show False
    using rand_ids_distinct [of "Suc k" c0] k nth_eq_iff_index_eq [of "rand_ids (Suc k) c0" k i] by (simp del: rand_ids.simps)
qed

lemma drawn_only_phases:
  assumes "acked_recorded open_bi remote table"
    and "\<And>w. table (snd (connect_fresh_with qs front cert (Some tc) w)) = table w"
  shows "rotation_phases (nym_rotator qs front open_bi clock sleep table cert tc) (drawn_only table c0)"
proof
  fix d k w c w'
  assume "drawn_only table c0 d k w" "ro_connect (nym_rotator qs front open_bi clock sleep table cert tc) w = (Inr c, w')"
  then show "drawn_only table c0 (Suc d) k w'"
    using assms(2) [of "fst w"] by (auto simp: drawn_only_def nym_rotator_def lift_front_def split: prod.splits)
next
  fix d k w sid w1 conn w'
  assume i: "drawn_only table c0 d k w" and dr: "ro_draw (nym_rotator qs front open_bi clock sleep table cert tc) w = (sid, w1)"
    and s: "ro_send (nym_rotator qs front open_bi clock sleep table cert tc) conn sid (string_bytes ''x'') w1 = (Inr (), w')"
  obtain v where w: "w = (v, c0 + of_nat k * CTR_STEP)" using i by (auto simp: drawn_only_def)
  have sid: "sid = token_half (c0 + of_nat k * CTR_STEP)" and w1: "w1 = (v, c0 + of_nat k * CTR_STEP + CTR_STEP)"
    using dr by (auto simp: nym_rotator_def w rand_id_half)
  obtain v' where v': "w' = (v', c0 + of_nat k * CTR_STEP + CTR_STEP)" "send_over open_bi conn sid (string_bytes ''x'') v = (Inr (), v')"
    using s by (auto simp: nym_rotator_def w1 lift_front_def split: prod.splits)
  have "dom (table v') = insert sid (dom (table v))"
    using acked_table [OF assms(1) v'(2)] by (simp add: sid)
  then show "drawn_only table c0 d (Suc k) w'"
    using i by (auto simp: drawn_only_def w v'(1) sid algebra_simps lessThan_Suc)
qed


text \<open>The verdict of the Nym rotation program is about the session it sent, over a network where acknowledged messages have been
  recorded and nothing else writes to the server's table. A run that succeeds has built its two circuits and found for the session exactly
  the sources of these two, in order; and it reports an unlinkable session exactly when
  both the sources the server saw and the local addresses differ.\<close>

theorem nym_rotate_verdict:
  assumes "nym_rotate idle (Inr (cert, key)) config_err bound gw_client env
      (\<lambda>cert tc gw. nym_rotator qs (front gw) open_bi clock sleep table cert tc) = Some run"
    and "run (w, ctr) = (Inr rep, w')" and "max (env_count env ''NYM_COLD'' 2) 1 + env_count env ''NYM_WARM'' 4 < 2 ^ 64 - 1"
    and "acked_recorded open_bi remote table" and "table w = Map.empty" and "\<And>d v. table (sleep d v) = table v"
    and "\<And>gw tc v. table (snd (connect_fresh_with qs (front gw) cert (Some tc) v)) = table v"
  shows "\<exists>(c1 :: circuit) (c2 :: circuit). rr_local1 rep = ci_local c1 \<and> rr_local2 rep = ci_local c2 \<and>
    rr_addrs rep = [remote (ci_conn c1), remote (ci_conn c2)] \<and>
    (rr_ok rep \<longleftrightarrow> remote (ci_conn c1) \<noteq> remote (ci_conn c2) \<and> ci_local c1 \<noteq> ci_local c2)"
proof -
  let ?cold = "max (env_count env ''NYM_COLD'' 2) 1" and ?warm = "env_count env ''NYM_WARM'' 4"
  obtain tc gw where run: "nym_rotate_run (nym_rotator qs (front gw) open_bi clock sleep table cert tc)
      (env_count env ''NYM_COLD'' 2) ?warm (w, ctr) = (Inr rep, w')"
    using nym_rotate_ok [OF assms(1,2)] by auto
  let ?ro = "nym_rotator qs (front gw) open_bi clock sleep table cert tc"
  have "drawn_only table ctr 0 0 (w, ctr)" by (simp add: drawn_only_def assms(5))
  moreover have "?warm + 1 < u64_limit" using assms(3) by simp
  ultimately obtain c1 c2 sid w1 w2 where inv: "drawn_only table ctr (?cold + ?warm + 1) (?cold + ?warm) w1"
    and c: "nym_continuity ?ro c1 [c2] w1 = (Inr (sid, c2), w2)" and w': "w' = ro_sleep ?ro (from_secs 2) w2"
    and rep: "rr_addrs rep = (case ro_sessions ?ro w' sid of Some l \<Rightarrow> l | None \<Rightarrow> [])" "rr_local1 rep = ci_local c1" "rr_local2 rep = ci_local c2"
      "rr_ok rep = rotation_ok (ro_sessions ?ro w') sid (ci_local c1) (ci_local c2)"
    using rotation_phases.nym_run_phases [OF drawn_only_phases [OF assms(4,7)] _ run] by metis
  obtain v1 k1 v2 k2 where w: "w1 = (v1, k1)" "w2 = (v2, k2)" by (metis prod.exhaust)
  obtain v where sid: "sid = token_half k1"
    and a: "send_over open_bi (ci_conn c1) sid (string_bytes ''a'') v1 = (Inr (), v)"
    and b: "send_over open_bi (ci_conn c2) sid (string_bytes ''b'') v = (Inr (), v2)"
    using nym_continuity_ok [OF c [unfolded w]] by blast
  have "table v1 sid = None"
    using inv fresh_id [of "?cold + ?warm" ctr] assms(3) by (auto simp: drawn_only_def w sid)
  then have "table v2 sid = Some [remote (ci_conn c1), remote (ci_conn c2)]"
    using acked_table [OF assms(4) a] acked_table [OF assms(4) b] by (simp add: sid)
  then have "ro_sessions ?ro w' sid = Some [remote (ci_conn c1), remote (ci_conn c2)]"
    by (simp add: w' w nym_rotator_def assms(6))
  with rep show ?thesis by (intro exI [of _ c1] exI [of _ c2]) (auto simp: rotation_ok_def card_insert_if)
qed

text \<open>
  A network on which both programs run: connections and ports are numbered, and the server handles a stream when the
  client has finished it.
\<close>

definition demo_remote :: "nat \<Rightarrow> socket_addr" where
  "demo_remote conn = SockAddr (V4 127 0 0 1) (of_nat conn)"

definition demo_quic :: "(nat \<times> sessions) quic_stack" where
  "demo_quic = \<lparr>qs_root_ok = (\<lambda>c. c \<noteq> []), qs_config_error = None,
     qs_endpoint = (\<lambda>w. (Inr (SockAddr (V4 10 0 0 1) (of_nat (fst w))), w)), qs_dial = (\<lambda>c a n (w, ss). (Inr w, (Suc w, ss)))\<rparr>"

definition demo_streams :: "(nat \<times> sessions) streams" where
  "demo_streams conn = (\<lambda>(n, ss).
     (Inr \<lparr>t_read = \<lparr>r_bytes = string_bytes ''k'', r_end = UnexpectedEof\<rparr>, t_write = \<lparr>w_out = [], w_faults = []\<rparr>\<rparr>, True,
      \<lambda>s. (n, case session_stream (demo_remote conn) (Inr (w_out (t_write (the s)))) ss of Some (ss', _) \<Rightarrow> ss' | None \<Rightarrow> ss)))"

definition demo_gw :: "string \<Rightarrow> (nat \<times> sessions, string, socket_addr) io" where
  "demo_gw gw w = (Inr (SockAddr (V4 127 0 0 1) 9), w)"

lemma demo_connect_fresh:
  "connect_fresh_with demo_quic (demo_gw gw) [7] t (n, ss) =
   (Inr \<lparr>ci_conn = n, ci_local = SockAddr (V4 10 0 0 1) (of_nat n)\<rparr>, (Suc n, ss))"
  by (simp add: connect_fresh_with_def demo_quic_def demo_gw_def io_bind_def io_context_def io_return_def)

lemma demo_send:
  "send_over demo_streams conn sid msg (n, ss) =
   (Inr (), (n, case session_stream (demo_remote conn) (Inr (sid @ msg)) ss of Some (ss', _) \<Rightarrow> ss' | None \<Rightarrow> ss))"
  by (simp add: send_over_def demo_streams_def session_send_def tcp_write_all_def string_bytes_def)

lemma demo_acked: "acked_recorded demo_streams demo_remote snd"
  by (auto simp: acked_recorded_def demo_send session_stream_def)


lemma nym_transport_some: "\<exists>tc. transport idle cc nym_oracle = Some tc"
proof (rule plan_builds)
  show "rtt nym_oracle = Some (from_millis 2820)"
    by (simp add: rtt_def nym_oracle_def dur_mul_def dur_limit_def from_millis_def)
  show "dur_mul (from_millis 2820) 40 = Some (from_millis 112800)" by (simp add: dur_mul_def dur_limit_def from_millis_def)
qed

definition demo_env :: environment where
  "demo_env = [''NYM_COLD'' \<mapsto> ''0'', ''NYM_WARM'' \<mapsto> ''1'']"

lemma demo_env_counts: "env_count demo_env ''NYM_COLD'' 2 = 0" "env_count demo_env ''NYM_WARM'' 4 = 1"
  by (simp_all add: env_count_def demo_env_def parse_u64_def from_str_radix_def to_digit_def)

lemma demo_nym_rotate:
  assumes "transport (\<lambda>_. None) Quicmix nym_oracle = Some tc"
  shows "nym_rotate (\<lambda>_. None) (Inr ([7], [8])) None (Inr (SockAddr (V4 127 0 0 1) 1)) (Inr ''gw'') demo_env rotator =
    Some (nym_rotate_run (rotator [7] tc ''gw'') 0 1)"
  using assms by (simp add: nym_rotate_def spawn_server_def demo_env_counts io_bind_def io_lift_def fun_eq_iff)


lemma demo_logged_connect:
  "connect_fresh_with (logging demo_quic) (lift_front (demo_gw gw)) [7] t ((n, ss), l) =
   (Inr \<lparr>ci_conn = n, ci_local = SockAddr (V4 10 0 0 1) (of_nat n)\<rparr>, ((Suc n, ss), l @ [client_config_for [7] t]))"
  by (simp add: connect_fresh_with_def logging_def lift_front_def demo_quic_def demo_gw_def io_bind_def io_context_def io_return_def)

lemma demo_logged_send:
  "send_over (log_streams demo_streams) conn sid msg ((n, ss), l) =
   (Inr (), ((n, case session_stream (demo_remote conn) (Inr (sid @ msg)) ss of Some (ss', _) \<Rightarrow> ss' | None \<Rightarrow> ss), l))"
  by (simp add: send_over_def log_streams_def demo_streams_def session_send_def tcp_write_all_def string_bytes_def)

text \<open>A runtime on which nothing fails, and that the program then comes to its report.\<close>

definition never_fails :: "'s rotator \<Rightarrow> bool" where
  "never_fails ro \<longleftrightarrow> (\<forall>w. \<exists>c w'. ro_connect ro w = (Inr c, w')) \<and> (\<forall>conn sid msg w. \<exists>w'. ro_send ro conn sid msg w = (Inr (), w'))"

lemma send_new_total: "never_fails ro \<Longrightarrow> \<exists>w'. send_new ro c w = (Inr (), w')"
  by (auto simp: never_fails_def send_new_def io_simps split: prod.split)

lemma cold_loop_total: "never_fails ro \<Longrightarrow> \<exists>ts' kept' w'. cold_loop ro n ts kept w = (Inr (ts', kept'), w') \<and> (kept' = None \<longrightarrow> n = 0 \<and> kept = None)"
proof (induction n arbitrary: ts kept w)
  case (Suc n)
  obtain c w1 where c: "ro_connect ro w = (Inr c, w1)" using Suc.prems unfolding never_fails_def by blast
  obtain w2 where s: "send_new ro c w1 = (Inr (), w2)" using send_new_total [OF Suc.prems] by blast
  show ?case
    using Suc.IH [OF Suc.prems, of "ts @ [ro_clock ro w2 - ro_clock ro w]" "Some c" w2] by (auto simp: io_bind_def io_context_def c s)
qed simp

lemma prewarm_total: "never_fails ro \<Longrightarrow> \<exists>pool' w'. prewarm_loop (ro_connect ro) n pool w = (Inr pool', w')"
proof (induction n arbitrary: pool w)
  case (Suc n)
  obtain c w1 where c: "ro_connect ro w = (Inr c, w1)" using Suc.prems unfolding never_fails_def by blast
  show ?case using Suc.IH [OF Suc.prems] by (simp add: io_bind_def c)
qed (simp add: io_return_def)

lemma warm_loop_total: "never_fails ro \<Longrightarrow> \<exists>ts' pool' w'. warm_loop ro n pool ts w = (Inr (ts', pool'), w')"
proof (induction n arbitrary: pool ts w)
  case (Suc n)
  obtain w2 where s: "send_new ro (last pool) w = (Inr (), w2)" using send_new_total [OF Suc.prems] by blast
  show ?case using Suc.IH [OF Suc.prems] by (simp add: io_bind_def take_circuit_def s)
qed simp

lemma nym_continuity_total: "never_fails ro \<Longrightarrow> \<exists>sid c w'. nym_continuity ro cold_c pool w = (Inr (sid, c), w')"
proof -
  assume n: "never_fails ro"
  obtain sid w1 where d: "ro_draw ro w = (sid, w1)" by fastforce
  obtain w2 where a: "ro_send ro (ci_conn cold_c) sid (string_bytes ''a'') w1 = (Inr (), w2)" using n unfolding never_fails_def by blast
  obtain c w3 where c: "(case fst (take_circuit pool) of Some c \<Rightarrow> io_return c | None \<Rightarrow> io_context RotateCircuit (ro_connect ro)) w2 = (Inr c, w3)"
    using n [unfolded never_fails_def, THEN conjunct1, rule_format, of w2]
    by (cases "fst (take_circuit pool)") (auto simp: io_return_def io_context_def)
  obtain w4 where b: "ro_send ro (ci_conn c) sid (string_bytes ''b'') w3 = (Inr (), w4)" using n unfolding never_fails_def by blast
  show ?thesis using a b c by (simp add: nym_continuity_def d io_bind_def io_context_def io_return_def)
qed

lemma nym_rotate_run_total:
  assumes "never_fails ro"
  shows "\<exists>rep w'. nym_rotate_run ro n_cold n_warm w = (Inr rep, w')"
proof -
  obtain cs c1 w1 where a: "cold_loop ro (max n_cold 1) [] None w = (Inr (cs, Some c1), w1)"
    using cold_loop_total [OF assms, of "max n_cold 1" "[]" None w] by auto
  obtain pool w2 where b: "prewarm_loop (ro_connect ro) ((n_warm + 1) mod u64_limit) [] w1 = (Inr pool, w2)"
    using prewarm_total [OF assms] by blast
  obtain ws pool' w3 where c: "warm_loop ro n_warm pool [] w2 = (Inr (ws, pool'), w3)" using warm_loop_total [OF assms] by blast
  obtain sid c2 w4 where d: "nym_continuity ro c1 pool' w3 = (Inr (sid, c2), w4)" using nym_continuity_total [OF assms] by blast
  show ?thesis using a b c d by (simp add: nym_rotate_run_def io_bind_def io_context_def Let_def)
qed

lemma demo_fine: "never_fails (nym_rotator demo_quic (demo_gw gw) demo_streams clock sleep table [7] tc)"
  by (auto simp: never_fails_def nym_rotator_def lift_front_def demo_connect_fresh demo_send)

lemma demo_logged_fine: "never_fails (logging_nym demo_quic (demo_gw gw) demo_streams clock sleep table [7] tc)"
  by (auto simp: never_fails_def nym_rotator_def lift_front_def [of "connect_fresh_with _ _ _ _"] lift_front_def [of "send_over _ _ _ _"]
      demo_logged_connect demo_logged_send)

theorem nym_rotate_spends_witness:
  "\<exists>tc run rep w' dials ctr'. nym_rotate (\<lambda>_. None) (Inr ([7], [8])) None (Inr (SockAddr (V4 127 0 0 1) 1)) (Inr ''gw'') demo_env
      (\<lambda>cert tc gw. logging_nym demo_quic (demo_gw gw) demo_streams fst (\<lambda>_ w. w) snd cert tc) = Some run \<and>
    run (((0, Map.empty), []), NYM_CTR_INIT) = (Inr rep, ((w', dials), ctr')) \<and> env_count demo_env ''NYM_WARM'' 4 + 1 < u64_limit \<and>
    dials = replicate 3 (client_config_for [7] (Some tc)) \<and> rr_warm_count rep = 1"
proof -
  obtain tc where tc: "transport (\<lambda>_. None) Quicmix nym_oracle = Some tc" using nym_transport_some by blast
  let ?ro = "\<lambda>cert tc gw. logging_nym demo_quic (demo_gw gw) demo_streams fst (\<lambda>_ w. w) snd cert tc"
  note run = demo_nym_rotate [OF tc, of ?ro]
  obtain rep w' dials ctr' where ok: "nym_rotate_run (?ro [7] tc ''gw'') 0 1 (((0, Map.empty), []), NYM_CTR_INIT) = (Inr rep, ((w', dials), ctr'))"
    using nym_rotate_run_total [OF demo_logged_fine] by (metis prod.exhaust)
  have "env_count demo_env ''NYM_WARM'' 4 + 1 < u64_limit" by (simp add: demo_env_counts)
  from nym_rotate_spends [OF run ok this] run ok this show ?thesis by (auto simp: demo_env_counts numeral_3_eq_3)
qed

theorem nym_rotate_verdict_witness:
  "\<exists>run rep w' c1 c2. nym_rotate (\<lambda>_. None) (Inr ([7], [8])) None (Inr (SockAddr (V4 127 0 0 1) 1)) (Inr ''gw'') demo_env
      (\<lambda>cert tc gw. nym_rotator demo_quic (demo_gw gw) demo_streams fst (\<lambda>_ w. w) snd cert tc) = Some run \<and>
    run ((0, Map.empty), NYM_CTR_INIT) = (Inr rep, w') \<and> acked_recorded demo_streams demo_remote snd \<and>
    rr_addrs rep = [demo_remote (ci_conn (c1 :: circuit)), demo_remote (ci_conn (c2 :: circuit))] \<and>
    (rr_ok rep \<longleftrightarrow> demo_remote (ci_conn c1) \<noteq> demo_remote (ci_conn c2) \<and> ci_local c1 \<noteq> ci_local c2)"
proof -
  obtain tc where tc: "transport (\<lambda>_. None) Quicmix nym_oracle = Some tc" using nym_transport_some by blast
  let ?ro = "\<lambda>cert tc gw. nym_rotator demo_quic (demo_gw gw) demo_streams fst (\<lambda>_ w. w) snd cert tc"
  note run = demo_nym_rotate [OF tc, of ?ro]
  obtain rep w' where ok: "nym_rotate_run (?ro [7] tc ''gw'') 0 1 ((0, Map.empty), NYM_CTR_INIT) = (Inr rep, w')"
    using nym_rotate_run_total [OF demo_fine] by blast
  have quiet: "snd (snd (connect_fresh_with demo_quic (demo_gw gw) [7] (Some t) v)) = snd v" for gw t v
    by (cases v) (simp add: demo_connect_fresh)
  have "max (env_count demo_env ''NYM_COLD'' 2) 1 + env_count demo_env ''NYM_WARM'' 4 < 2 ^ 64 - 1" by (simp add: demo_env_counts)
  from nym_rotate_verdict [OF run ok this demo_acked _ _ quiet] obtain c1 c2 :: circuit
    where "rr_addrs rep = [demo_remote (ci_conn c1), demo_remote (ci_conn c2)]"
      and "rr_ok rep \<longleftrightarrow> demo_remote (ci_conn c1) \<noteq> demo_remote (ci_conn c2) \<and> ci_local c1 \<noteq> ci_local c2" by auto
  with run ok demo_acked show ?thesis by blast
qed

end
