(* ===== verification/Deployment.thy ===== *)
theory Deployment
  imports Node Gateway
begin

text \<open>
  Whole nodes: the start of a node (\<open>run\<close> in \<^verbatim>\<open>crates/quicmix/src/autopilot.rs\<close> and \<open>main\<close> in
  \<^verbatim>\<open>crates/quicmix-node/src/main.rs\<close>), the discovery of its egress address, and what its two background tasks, the refresh of
  the directory and the ingress loop, do to it in whatever order they are scheduled. The properties are those of a node and of two nodes together.
\<close>

section \<open>Discovery\<close>

text \<open>A UDP socket is bound and connected, and has a local address; every failure counts as no address.\<close>

definition discover_egress_ip :: "io_error + 'sock \<Rightarrow> ('sock \<Rightarrow> io_error + unit) \<Rightarrow> ('sock \<Rightarrow> io_error + socket_addr) \<Rightarrow> ip_addr option" where
  "discover_egress_ip bound connect local_addr =
     (case bound of
        Inl _ \<Rightarrow> None
      | Inr sock \<Rightarrow>
          (case connect sock of
             Inl _ \<Rightarrow> None
           | Inr _ \<Rightarrow> (case local_addr sock of Inl _ \<Rightarrow> None | Inr a \<Rightarrow> Some (sa_ip a))))"

section \<open>Start\<close>

record 's deployment =
  dp_node :: node
  dp_self :: "socket_addr option"
  dp_services :: "service list"
  dp_metrics :: "socket_addr option"
  dp_dir :: gateway_directory
  dp_ingress :: "(gateway_info \<times> 's front \<times> nat \<times> socket_addr) option"

text \<open>What the system answers during the start.\<close>

record start_outcomes =
  so_made :: "string + byte list \<times> byte list"
  so_discovered :: "ip_addr option"
  so_config_error :: "string option"
  so_bound :: "io_error + socket_addr"
  so_cert_error :: "string option"
  so_bridge_error :: "string option"
  so_metrics_error :: "string option"

text \<open>The live-metrics server exists in builds with its feature only; that it fails to start is only logged.\<close>

definition start_metrics :: "bool \<Rightarrow> config \<Rightarrow> start_outcomes \<Rightarrow> socket_addr option" where
  "start_metrics metrics_feature cfg so =
     (if metrics_feature
      then (case metrics_ws_bind cfg of Some b \<Rightarrow> if so_metrics_error so = None then Some b else None | None \<Rightarrow> None)
      else None)"

definition start_node ::
  "(duration \<Rightarrow> nat option) \<Rightarrow> (string + io_error \<Rightarrow> string) \<Rightarrow> bool \<Rightarrow> nat \<Rightarrow> config \<Rightarrow> start_outcomes \<Rightarrow> (string + 's deployment) may_panic" where
  "start_node idle show_error metrics_feature now cfg so =
     Option.bind (new_node idle (so_made so) direct_oracle) (\<lambda>made.
     case made of
       Inl e \<Rightarrow> Some (Inl e)
     | Inr nd \<Rightarrow>
         Some (map_sum id
           (\<lambda>(services, d). \<lparr>dp_node = nd, dp_self = self_public cfg (so_discovered so), dp_services = services,
              dp_metrics = start_metrics metrics_feature cfg so, dp_dir = d, dp_ingress = None\<rparr>)
           (start_roles now cfg (so_discovered so) (nd_cert nd)
              (case serve_gateway_at (so_config_error so) (so_bound so) nd of Inl e \<Rightarrow> Some (show_error e) | Inr _ \<Rightarrow> None)
              (so_cert_error so) (so_bridge_error so))))"

definition node_main ::
  "(duration \<Rightarrow> nat option) \<Rightarrow> (string + io_error \<Rightarrow> string) \<Rightarrow> (config_error \<Rightarrow> string) \<Rightarrow> bool \<Rightarrow> nat \<Rightarrow> environment \<Rightarrow> start_outcomes \<Rightarrow>
   (string + config \<times> 's deployment) may_panic" where
  "node_main idle show_error show_config metrics_feature now env so =
     Option.bind (config_from_env env) (\<lambda>c.
     case c of
       Inl e \<Rightarrow> Some (Inl (show_config e))
     | Inr cfg \<Rightarrow> map_option (map_sum id (Pair cfg)) (start_node idle show_error metrics_feature now cfg so))"

section \<open>The background tasks\<close>

text \<open>
  The world outside: what connecting to an address gives at some time, what is then read to the end, the QUIC stack, what starting a process
  gives, the outcome of binding the front and of listening, and the random choice.
\<close>

record ('w, 's) outside =
  os_connect :: "nat \<Rightarrow> socket_addr \<Rightarrow> (io_error + tcp_stream) option"
  os_read_all :: "nat \<Rightarrow> socket_addr \<Rightarrow> tcp_stream \<Rightarrow> (io_error + byte list) option"
  os_quic :: "'w quic_stack"
  os_spawn :: spawner
  os_bound :: "io_error + socket_addr"
  os_listen :: "string \<Rightarrow> string + socket_addr"
  os_builder :: "'s substrate_builder option"
  os_pick :: "gateway_info list \<Rightarrow> gateway_info option"

text \<open>The refresh of one peer.\<close>

definition fetch_from :: "('w, 's) outside \<Rightarrow> nat \<Rightarrow> socket_addr \<Rightarrow> cert_error + byte list" where
  "fetch_from os t addr = fetch_cert (os_connect os t) (os_read_all os t addr) addr"

definition refresh_step :: "('w, 's) outside \<Rightarrow> nat \<Rightarrow> socket_addr \<Rightarrow> 's deployment \<Rightarrow> 's deployment" where
  "refresh_step os t addr dp = dp\<lparr>dp_dir := refresh_round (dp_self dp) [(addr, t, fetch_from os t addr)] (dp_dir dp)\<rparr>"

text \<open>
  A turn of the ingress loop with the front of the configured substrate, the node's own link and its proxy. A resolution that panics or
  does not come to an end brings no proxy up.
\<close>

definition turn_front :: "(front_error + 's front) option may_panic \<Rightarrow> string + 's front" where
  "turn_front r = (case r of Some (Some (Inr f)) \<Rightarrow> Inr f | _ \<Rightarrow> Inl ''front'')"

definition ingress_step :: "('w, 's) outside \<Rightarrow> nat \<Rightarrow> config \<Rightarrow> 'w \<Rightarrow> 's deployment \<Rightarrow> 's deployment" where
  "ingress_step os t cfg w dp =
     (case ingress_turn (os_pick os) t
        (\<lambda>a. turn_front (resolve (os_spawn os) t (os_bound os) (cfg_substrate cfg) a (os_builder os)))
        (\<lambda>f c. map_sum (\<lambda>_. ''connect'') id (fst (connect_via (os_quic os) (dp_node dp) (fr_addr f) c w)))
        (\<lambda>_. os_listen os (ingress_bind cfg)) (dp_dir dp) of
        (up, d) \<Rightarrow> dp\<lparr>dp_dir := d, dp_ingress := up\<rparr>)"

text \<open>
  A run of a node: refreshes of configured peers and turns of the ingress loop, which ends when the proxy is up, in any order and at any
  time. Beside the node stands what was fetched.
\<close>

inductive node_run :: "('w, 's) outside \<Rightarrow> config \<Rightarrow> 's deployment \<Rightarrow> (socket_addr \<times> byte list) list \<Rightarrow> 's deployment \<Rightarrow> bool"
  for os cfg start where
  nr_start: "node_run os cfg start [] start"
| nr_refresh: "node_run os cfg start fetched dp \<Longrightarrow> addr \<in> set (bootstrap cfg) \<Longrightarrow>
    node_run os cfg start (fetched @ (case fetch_from os t addr of Inr c \<Rightarrow> [(addr, c)] | Inl _ \<Rightarrow> [])) (refresh_step os t addr dp)"
| nr_ingress: "node_run os cfg start fetched dp \<Longrightarrow> dp_ingress dp = None \<Longrightarrow>
    node_run os cfg start fetched (ingress_step os t cfg w dp)"

section \<open>Whom a node trusts\<close>

text \<open>The origin of a pair of address and certificate: the node itself, or what a configured peer answered.\<close>

definition vouched :: "config \<Rightarrow> 's deployment \<Rightarrow> (socket_addr \<times> byte list) list \<Rightarrow> socket_addr \<Rightarrow> byte list \<Rightarrow> bool" where
  "vouched cfg dp fetched a c \<longleftrightarrow>
     (if Some a = dp_self dp then c = nd_cert (dp_node dp) else a \<in> set (bootstrap cfg) \<and> (a, c) \<in> set fetched)"

definition link_sound :: "('w, 's) outside \<Rightarrow> config \<Rightarrow> 's deployment \<Rightarrow> (socket_addr \<times> byte list) list \<Rightarrow> gateway_info \<Rightarrow> 's front \<Rightarrow> nat \<Rightarrow> bool" where
  "link_sound os cfg dp fetched gw f link \<longleftrightarrow>
     vouched cfg dp fetched (g_addr gw) (g_cert gw) \<and>
     (\<exists>t. resolve (os_spawn os) t (os_bound os) (cfg_substrate cfg) (g_addr gw) (os_builder os) = Some (Some (Inr f))) \<and>
     (\<exists>w. fst (connect_via (os_quic os) (dp_node dp) (fr_addr f) (g_cert gw) w) = Inr link)"

definition node_inv :: "('w, 's) outside \<Rightarrow> config \<Rightarrow> 's deployment \<Rightarrow> (socket_addr \<times> byte list) list \<Rightarrow> 's deployment \<Rightarrow> bool" where
  "node_inv os cfg start fetched dp \<longleftrightarrow>
     dp_node dp = dp_node start \<and> dp_self dp = dp_self start \<and> dir_wf (dp_dir dp) \<and>
     (\<forall>(a, g) \<in> set (gateways (dp_dir dp)). vouched cfg dp fetched a (g_cert g)) \<and>
     (\<forall>gw f link proxy_at. dp_ingress dp = Some (gw, f, link, proxy_at) \<longrightarrow> link_sound os cfg dp fetched gw f link)"

lemma announce_entries: "(a, g) \<in> set (gateways (announce t b c d)) \<Longrightarrow> (a, g) \<in> set (gateways d) \<or> a = b \<and> g_cert g = c"
proof -
  have "(a, g) \<in> set (AList.update b x al) \<Longrightarrow> (a, g) \<in> set al \<or> (a, g) = (b, x)" for x al
    by (induction al) (auto split: if_splits)
  then show "(a, g) \<in> set (gateways (announce t b c d)) \<Longrightarrow> (a, g) \<in> set (gateways d) \<or> a = b \<and> g_cert g = c"
    by (force simp: announce_def)
qed

lemma live_entries: "set (gateways (snd (live t d))) \<subseteq> set (gateways d)"
  by (auto simp: live_def Let_def)

lemma entry_vouched: "dir_entry t d a = Some c \<Longrightarrow> \<exists>g. (a, g) \<in> set (gateways d) \<and> g_cert g = c"
  by (auto simp: dir_entry_def split: option.splits if_splits dest: map_of_SomeD)

lemma vouched_mono: "vouched cfg dp fetched a c \<Longrightarrow> vouched cfg dp (fetched @ extra) a c"
  by (simp add: vouched_def split: if_splits)

lemma vouched_cong: "dp_node dp = dp_node dp' \<Longrightarrow> dp_self dp = dp_self dp' \<Longrightarrow> vouched cfg dp fetched a c = vouched cfg dp' fetched a c"
  by (simp add: vouched_def)

lemma start_roles_dir:
  "start_roles now cfg discovered cert gw_err cert_err bridge_err = Inr (services, d) \<Longrightarrow>
   d = (case self_public cfg discovered of None \<Rightarrow> new_directory DIR_TTL | Some a \<Rightarrow> announce now a cert (new_directory DIR_TTL))"
  by (auto simp: start_roles_def Let_def split: option.splits)

lemma start_node_ok:
  assumes "start_node idle show_error metrics_feature now cfg so = Some (Inr dp)"
  shows "new_node idle (so_made so) direct_oracle = Some (Inr (dp_node dp)) \<and> dp_ingress dp = None \<and>
    dp_self dp = self_public cfg (so_discovered so) \<and>
    dp_dir dp = (case dp_self dp of None \<Rightarrow> new_directory DIR_TTL | Some a \<Rightarrow> announce now a (nd_cert (dp_node dp)) (new_directory DIR_TTL))"
proof -
  obtain made where made: "new_node idle (so_made so) direct_oracle = Some made"
    using assms by (auto simp: start_node_def bind_eq_Some_conv)
  then obtain nd where nd: "made = Inr nd" using assms by (cases made) (auto simp: start_node_def)
  let ?roles = "start_roles now cfg (so_discovered so) (nd_cert nd)
    (case serve_gateway_at (so_config_error so) (so_bound so) nd of Inl e \<Rightarrow> Some (show_error e) | Inr _ \<Rightarrow> None)
    (so_cert_error so) (so_bridge_error so)"
  obtain services d where roles: "?roles = Inr (services, d)"
    using assms by (cases ?roles) (auto simp: start_node_def made nd)
  have "dp = \<lparr>dp_node = nd, dp_self = self_public cfg (so_discovered so), dp_services = services,
      dp_metrics = start_metrics metrics_feature cfg so, dp_dir = d, dp_ingress = None\<rparr>"
    using assms by (simp add: start_node_def made nd roles)
  then show ?thesis using start_roles_dir [OF roles] made nd by (cases "self_public cfg (so_discovered so)") simp_all
qed

lemma node_inv_start:
  assumes "start_node idle show_error metrics_feature now cfg so = Some (Inr dp)"
  shows "node_inv os cfg dp [] dp"
proof -
  note ok = start_node_ok [OF assms]
  show ?thesis
  proof (cases "dp_self dp")
    case None
    with ok show ?thesis by (simp add: node_inv_def) (simp add: new_directory_def)
  next
    case (Some a)
    with ok have d: "dp_dir dp = announce now a (nd_cert (dp_node dp)) (new_directory DIR_TTL)" by simp
    have "vouched cfg dp [] b (g_cert g)" if "(b, g) \<in> set (gateways (dp_dir dp))" for b g
      using announce_entries [OF that [unfolded d]] Some by (simp add: vouched_def new_directory_def)
    moreover have "dir_wf (dp_dir dp)" by (simp add: d dir_wf_announce)
    ultimately show ?thesis using ok by (auto simp: node_inv_def)
  qed
qed

lemma node_inv_refresh:
  assumes "node_inv os cfg start fetched dp" and "addr \<in> set (bootstrap cfg)"
  shows "node_inv os cfg start (fetched @ (case fetch_from os t addr of Inr c \<Rightarrow> [(addr, c)] | Inl _ \<Rightarrow> [])) (refresh_step os t addr dp)"
proof -
  let ?more = "case fetch_from os t addr of Inr c \<Rightarrow> [(addr, c)] | Inl _ \<Rightarrow> []"
  let ?dp = "refresh_step os t addr dp"
  have same: "dp_node ?dp = dp_node dp" "dp_self ?dp = dp_self dp" "dp_ingress ?dp = dp_ingress dp" by (simp_all add: refresh_step_def)
  have "vouched cfg dp (fetched @ ?more) a (g_cert g)" if "(a, g) \<in> set (gateways (dp_dir ?dp))" for a g
  proof (cases "(a, g) \<in> set (gateways (dp_dir dp))")
    case True
    then show ?thesis using assms(1) vouched_mono [of cfg dp fetched a "g_cert g"] by (auto simp: node_inv_def)
  next
    case False
    with that have "Some a \<noteq> dp_self dp \<and> a = addr \<and> fetch_from os t addr = Inr (g_cert g)"
      by (auto simp: refresh_step_def split: if_splits sum.splits dest: announce_entries)
    then show ?thesis using assms(2) by (auto simp: vouched_def)
  qed
  moreover have "dir_wf (dp_dir ?dp)" using assms(1) by (simp add: refresh_step_def node_inv_def refresh_wf del: refresh_round.simps)
  ultimately show ?thesis
    using assms(1) unfolding node_inv_def same link_sound_def vouched_cong [OF same(1,2)] using vouched_mono [of cfg dp fetched] by blast
qed

lemma node_inv_ingress:
  assumes "node_inv os cfg start fetched dp" and "\<And>xs x. os_pick os xs = Some x \<Longrightarrow> x \<in> set xs"
  shows "node_inv os cfg start fetched (ingress_step os t cfg w dp)"
proof -
  let ?dp = "ingress_step os t cfg w dp"
  have same: "dp_node ?dp = dp_node dp" "dp_self ?dp = dp_self dp" by (simp_all add: ingress_step_def split: prod.split)
  have wf: "dir_wf (dp_dir dp)" using assms(1) by (simp add: node_inv_def)
  have dir: "dp_dir ?dp = snd (live t (dp_dir dp))"
    by (auto simp: ingress_step_def ingress_turn_def sample_def case_prod_beta split: prod.splits option.splits sum.splits)
  have "link_sound os cfg ?dp fetched gw f link" if up: "dp_ingress ?dp = Some (gw, f, link, proxy_at)" for gw f link proxy_at
  proof -
    let ?res = "\<lambda>a. turn_front (resolve (os_spawn os) t (os_bound os) (cfg_substrate cfg) a (os_builder os))"
    let ?conn = "\<lambda>f c. map_sum (\<lambda>_. ''connect'') id (fst (connect_via (os_quic os) (dp_node dp) (fr_addr f) c w))"
    obtain d' where turn: "ingress_turn (os_pick os) t ?res ?conn (\<lambda>_. os_listen os (ingress_bind cfg)) (dp_dir dp) = (Some (gw, f, link, proxy_at), d')"
      using up by (auto simp: ingress_step_def split: prod.splits)
    note T = ingress_turn_up [OF assms(2) wf turn]
    have "vouched cfg dp fetched (g_addr gw) (g_cert gw)" using T assms(1) entry_vouched by (fastforce simp: node_inv_def)
    moreover have "resolve (os_spawn os) t (os_bound os) (cfg_substrate cfg) (g_addr gw) (os_builder os) = Some (Some (Inr f))"
      using T by (auto simp: turn_front_def split: option.splits sum.splits)
    moreover have "fst (connect_via (os_quic os) (dp_node dp) (fr_addr f) (g_cert gw) w) = Inr link"
      using T by (cases "fst (connect_via (os_quic os) (dp_node dp) (fr_addr f) (g_cert gw) w)") auto
    ultimately show ?thesis unfolding link_sound_def same vouched_cong [OF same] by blast
  qed
  then show ?thesis
    using assms(1) live_entries [of t "dp_dir dp"] dir_wf_live [OF wf, of t] unfolding node_inv_def same dir vouched_cong [OF same] by blast
qed

lemma node_run_inv:
  assumes "node_run os cfg start fetched dp" and "start_node idle show_error metrics_feature now cfg so = Some (Inr start)"
    and "\<And>xs x. os_pick os xs = Some x \<Longrightarrow> x \<in> set xs"
  shows "node_inv os cfg start fetched dp"
  using assms(1)
proof induction
  case nr_start
  show ?case by (rule node_inv_start [OF assms(2)])
next
  case (nr_refresh fetched dp addr t)
  then show ?case by (intro node_inv_refresh)
next
  case (nr_ingress fetched dp t w)
  then show ?case using assms(3) by (intro node_inv_ingress)
qed

text \<open>C7: a node trusts nothing it was not told. In every run of a node, however its refreshes and the turns of its
  ingress loop interleave, every directory entry is its own announcement with its own certificate, or that of a configured bootstrap peer with
  a certificate this peer itself served; and when the proxy is up, its QUIC connection was dialled with exactly such a certificate as the
  only root, through the front of the configured substrate.\<close>

theorem node_trusts_only_bootstrap:
  assumes "node_run os cfg start fetched dp" and "start_node idle show_error metrics_feature now cfg so = Some (Inr start)"
    and "\<And>xs x. os_pick os xs = Some x \<Longrightarrow> x \<in> set xs"
  shows "(\<forall>(a, g) \<in> set (gateways (dp_dir dp)). vouched cfg dp fetched a (g_cert g)) \<and>
    (\<forall>gw f link proxy_at. dp_ingress dp = Some (gw, f, link, proxy_at) \<longrightarrow> link_sound os cfg dp fetched gw f link)"
  using node_run_inv [OF assms] by (simp add: node_inv_def)


section \<open>Two nodes\<close>

lemma fetched_origin: "node_run os cfg start fetched dp \<Longrightarrow> (a, c) \<in> set fetched \<Longrightarrow> \<exists>t. fetch_from os t a = Inr c"
proof (induction rule: node_run.induct)
  case (nr_refresh fetched dp addr t)
  then show ?case by (cases "fetch_from os t addr") auto
qed auto

lemma node_transport:
  "start_node idle show_error metrics_feature now cfg so = Some (Inr dp) \<Longrightarrow> transport idle Quicmix direct_oracle = Some (nd_transport (dp_node dp))"
  by (drule start_node_ok) (auto simp: new_node_def with_congestion_def split: sum.splits dest!: arg_cong [of _ _ nd_transport])

text \<open>C8: two nodes of the program agree with each other. Node \<open>a\<close> has promoted itself at a public address, and what is read from
  that address is what its certificate endpoint writes. When another node has brought up its proxy through that address, in whatever
  order its tasks ran, it has pinned exactly the certificate of \<open>a\<close>, dialled with the very transport settings
  of \<open>a\<close>, and on the direct substrate dialled that address.\<close>

theorem two_nodes_agree:
  assumes "start_node idle show_a metrics_a now_a cfg_a so_a = Some (Inr a)" and "dp_self a = Some pub"
    and "start_node idle show_b metrics_b now_b cfg_b so_b = Some (Inr start)" and "dp_self start \<noteq> Some pub"
    and "\<And>t s bytes. os_read_all os t pub s = Some (Inr bytes) \<Longrightarrow>
      bytes = w_out (t_write (serve_cert_conn (nd_cert (dp_node a)) quiet_socket))"
    and "\<And>xs x. os_pick os xs = Some x \<Longrightarrow> x \<in> set xs"
    and "node_run os cfg_b start fetched b" and "dp_ingress b = Some (gw, f, link, proxy_at)" and "g_addr gw = pub"
  shows "g_cert gw = nd_cert (dp_node a) \<and> nd_transport (dp_node b) = nd_transport (dp_node a) \<and>
    (\<exists>w. fst (connect_via (os_quic os) (dp_node b) (fr_addr f) (nd_cert (dp_node a)) w) = Inr link) \<and>
    (cfg_substrate cfg_b = Direct \<longrightarrow> fr_addr f = pub)"
proof -
  have inv: "node_inv os cfg_b start fetched b" by (rule node_run_inv [OF assms(7,3,6)])
  then have sound: "link_sound os cfg_b b fetched gw f link" and same: "dp_node b = dp_node start" "dp_self b = dp_self start"
    using assms(8) by (auto simp: node_inv_def)
  have "(pub, g_cert gw) \<in> set fetched"
    using sound assms(4,9) by (auto simp: link_sound_def vouched_def same split: if_splits)
  then obtain t where t: "fetch_cert (os_connect os t) (os_read_all os t pub) pub = Inr (g_cert gw)"
    using fetched_origin [OF assms(7)] by (auto simp: fetch_from_def)
  have cert: "g_cert gw = nd_cert (dp_node a)"
    by (rule fetch_served [OF _ _ assms(5) t]) (simp_all add: quiet_socket_def)
  have "nd_transport (dp_node b) = nd_transport (dp_node a)"
    using node_transport [OF assms(1)] node_transport [OF assms(3)] by (simp add: same)
  moreover have "cfg_substrate cfg_b = Direct \<longrightarrow> fr_addr f = pub"
    using sound assms(9) by (auto simp: link_sound_def resolve_def)
  ultimately show ?thesis using sound cert by (auto simp: link_sound_def)
qed

lemma join_steps:
  assumes "start_node idle show_error metrics_feature now cfg so = Some (Inr start)" and "dp_self start = None"
    and "pub \<in> set (bootstrap cfg)" and "cfg_substrate cfg = Direct" and "cert \<noteq> []"
    and "os_connect os t pub = Some (Inr s)" and "w_faults (t_write s) = []"
    and "\<And>s1. os_read_all os t pub s1 = Some (Inr (w_out (t_write (serve_cert_conn cert quiet_socket))))"
    and "t \<le> t'" and "t' - t < from_secs 120" and "\<And>x. os_pick os [x] = Some x"
    and "fst (connect_via (os_quic os) (dp_node start) pub cert w) = Inr link" and "os_listen os (ingress_bind cfg) = Inr proxy_at"
  shows "\<exists>gw f. node_run os cfg start [(pub, cert)] (ingress_step os t' cfg w (refresh_step os t pub start)) \<and>
    dp_ingress (ingress_step os t' cfg w (refresh_step os t pub start)) = Some (gw, f, link, proxy_at) \<and>
    g_addr gw = pub \<and> g_cert gw = cert \<and> fr_addr f = pub"
proof -
  obtain sep where "find_sub (string_bytes (crlf @ crlf)) (w_out (t_write (serve_cert_conn cert quiet_socket))) = Some sep"
    "drop (sep + 4) (w_out (t_write (serve_cert_conn cert quiet_socket))) = cert"
    using served_body [of quiet_socket cert] by (auto simp: quiet_socket_def)
  then have fetch: "fetch_from os t pub = Inr cert"
    using assms(5-8) by (simp add: fetch_from_def fetch_cert_def tcp_write_all_def Let_def)
  have d: "dp_dir start = new_directory DIR_TTL" "dp_ingress start = None"
    using start_node_ok [OF assms(1)] assms(2) by simp_all
  let ?r = "refresh_step os t pub start"
  have run: "node_run os cfg start [(pub, cert)] ?r"
    using nr_refresh [OF nr_start assms(3), of os start t] by (simp add: fetch)
  have r: "?r = start\<lparr>dp_dir := announce t pub cert (new_directory DIR_TTL)\<rparr>"
    by (simp add: refresh_step_def fetch assms(2) d)
  have live: "fst (live t' (dp_dir ?r)) = [\<lparr>g_addr = pub, g_cert = cert, g_last_seen = t\<rparr>]"
    using assms(10) by (simp add: r live_def announce_def new_directory_def DIR_TTL_def)
  have "dp_ingress (ingress_step os t' cfg w ?r) =
      Some (\<lparr>g_addr = pub, g_cert = cert, g_last_seen = t\<rparr>, \<lparr>fr_addr = pub, fr_keep = NoGuard\<rparr>, link, proxy_at)"
    using assms(4,11-13) live
    by (simp add: ingress_step_def ingress_turn_def sample_def turn_front_def resolve_def case_prod_beta) (simp add: r)
  moreover have "node_run os cfg start [(pub, cert)] (ingress_step os t' cfg w ?r)"
    by (rule nr_ingress [OF run]) (simp add: r d)
  ultimately show ?thesis by simp
qed


text \<open>C9: a client node finds its gateway. For a node on the direct path that was not promoted to a gateway itself, and right from its start,
  when its directory is empty: one answered refresh of a configured gateway and one turn of the ingress loop within the two
  minutes that follow bring the proxy of the node up, through that gateway and with its certificate pinned, provided that the
  QUIC connection to it and the listening socket succeed.\<close>

theorem node_joins:
  assumes "start_node idle show_error metrics_feature now cfg so = Some (Inr start)" and "dp_self start = None"
    and "pub \<in> set (bootstrap cfg)" and "cfg_substrate cfg = Direct" and "cert \<noteq> []"
    and "os_connect os t pub = Some (Inr s)" and "w_faults (t_write s) = []"
    and "\<And>s1. os_read_all os t pub s1 = Some (Inr (w_out (t_write (serve_cert_conn cert quiet_socket))))"
    and "t \<le> t'" and "t' - t < from_secs 120" and "\<And>x. os_pick os [x] = Some x"
    and "fst (connect_via (os_quic os) (dp_node start) pub cert w) = Inr link" and "os_listen os (ingress_bind cfg) = Inr proxy_at"
  shows "\<exists>gw f. node_run os cfg start [(pub, cert)] (ingress_step os t' cfg w (refresh_step os t pub start)) \<and>
    dp_ingress (ingress_step os t' cfg w (refresh_step os t pub start)) = Some (gw, f, link, proxy_at) \<and>
    g_addr gw = pub \<and> g_cert gw = cert \<and> fr_addr f = pub"
  by (rule join_steps [OF assms])

section \<open>A gateway and a client\<close>

lemma direct_transport_some: "\<exists>tc. transport idle cc direct_oracle = Some tc"
proof (rule plan_builds)
  show "rtt direct_oracle = Some (from_millis 60)"
    by (simp add: rtt_def direct_oracle_def dur_mul_def dur_limit_def from_millis_def)
  show "dur_mul (from_millis 60) 40 = Some (from_millis 2400)" by (simp add: dur_mul_def dur_limit_def from_millis_def)
qed

definition demo_pub :: socket_addr where
  "demo_pub = SockAddr (V4 64 226 93 43) 4433"

definition demo_node_config :: "ip_addr option \<Rightarrow> config" where
  "demo_node_config ip = \<lparr>gw_bind = SockAddr (V4 0 0 0 0) 4433, ingress_bind = ''127.0.0.1:8888'', bootstrap = [demo_pub],
     public_ip = ip, cert_out = None, cfg_substrate = Direct, metrics_ws_bind = None, stream_bridge_bind = None\<rparr>"

definition demo_outcomes :: "byte list \<Rightarrow> start_outcomes" where
  "demo_outcomes cert = \<lparr>so_made = Inr (cert, [8]), so_discovered = None, so_config_error = None,
     so_bound = Inr (SockAddr (V4 0 0 0 0) 4433), so_cert_error = None, so_bridge_error = None, so_metrics_error = None\<rparr>"

definition demo_outside :: "byte list \<Rightarrow> (nat, unit) outside" where
  "demo_outside cert = \<lparr>os_connect = (\<lambda>_ _. Some (Inr quiet_socket)),
     os_read_all = (\<lambda>_ _ _. Some (Inr (w_out (t_write (serve_cert_conn cert quiet_socket))))), os_quic = demo_stack,
     os_spawn = (\<lambda>_ _ _. Inl UnexpectedEof), os_bound = Inl UnexpectedEof, os_listen = (\<lambda>_. Inr (SockAddr (V4 127 0 0 1) 8888)),
     os_builder = None, os_pick = pick_first\<rparr>"

definition demo_started :: "byte list \<Rightarrow> ip_addr option \<Rightarrow> (string + unit deployment) may_panic" where
  "demo_started cert ip = start_node (\<lambda>_. None) (\<lambda>_. ''gateway'') False 0 (demo_node_config ip) (demo_outcomes cert)"

lemma demo_client: "\<exists>start. demo_started [9] None = Some (Inr start) \<and> dp_self start = None"
  using direct_transport_some [of "\<lambda>_. None" Quicmix]
  by (auto simp: demo_started_def start_node_def new_node_def with_congestion_def demo_outcomes_def start_roles_def self_public_def demo_node_config_def)

lemma demo_promoted: "\<exists>a. demo_started [7] (Some (V4 64 226 93 43)) = Some (Inr a) \<and> dp_self a = Some demo_pub \<and> nd_cert (dp_node a) = [7]"
  using direct_transport_some [of "\<lambda>_. None" Quicmix]
  by (auto simp: demo_started_def start_node_def new_node_def with_congestion_def demo_outcomes_def start_roles_def self_public_def
      demo_node_config_def serve_gateway_at_def qualifies_as_gateway_def demo_pub_def)

lemma demo_connects: "fst (connect_via (os_quic (demo_outside cert)) nd front [7] w) = Inr w"
  by (simp add: connect_via_def demo_outside_def demo_stack_def io_bind_def io_context_def)

lemma demo_picks: "os_pick (demo_outside cert) xs = Some x \<Longrightarrow> x \<in> set xs"
  by (auto simp: demo_outside_def pick_first_def split: list.splits)

lemma demo_outside_simps:
  "os_connect (demo_outside cert) t a = Some (Inr quiet_socket)"
  "os_read_all (demo_outside cert) t a s = Some (Inr (w_out (t_write (serve_cert_conn cert quiet_socket))))"
  "os_pick (demo_outside cert) [x] = Some x" "os_listen (demo_outside cert) l = Inr (SockAddr (V4 127 0 0 1) 8888)"
  by (simp_all add: demo_outside_def pick_first_def)

lemma demo_join:
  assumes "demo_started [9] None = Some (Inr start)" and "dp_self start = None"
  shows "\<exists>gw f. node_run (demo_outside [7]) (demo_node_config None) start [(demo_pub, [7])]
      (ingress_step (demo_outside [7]) 5 (demo_node_config None) 0 (refresh_step (demo_outside [7]) 1 demo_pub start)) \<and>
    dp_ingress (ingress_step (demo_outside [7]) 5 (demo_node_config None) 0 (refresh_step (demo_outside [7]) 1 demo_pub start)) =
      Some (gw, f, 0, SockAddr (V4 127 0 0 1) 8888) \<and> g_addr gw = demo_pub \<and> g_cert gw = [7] \<and> fr_addr f = demo_pub"
proof -
  have t: "(5 :: nat) - 1 < from_secs 120" by (simp add: from_secs_def)
  have faults: "w_faults (t_write quiet_socket) = []" by (simp add: quiet_socket_def)
  show ?thesis
    by (rule join_steps [OF assms [unfolded demo_started_def] _ _ _ demo_outside_simps(1) faults demo_outside_simps(2) _ t demo_outside_simps(3) demo_connects demo_outside_simps(4)])
       (simp_all add: demo_node_config_def)
qed

theorem node_joins_witness:
  "\<exists>start gw f. demo_started [9] None = Some (Inr start) \<and>
    dp_ingress (ingress_step (demo_outside [7]) 5 (demo_node_config None) 0 (refresh_step (demo_outside [7]) 1 demo_pub start)) =
      Some (gw, f, 0, SockAddr (V4 127 0 0 1) 8888) \<and> g_addr gw = demo_pub \<and> g_cert gw = [7]"
proof -
  obtain start where start: "demo_started [9] None = Some (Inr start)" "dp_self start = None" using demo_client by blast
  have t: "(5 :: nat) - 1 < from_secs 120" by (simp add: from_secs_def)
  have faults: "w_faults (t_write quiet_socket) = []" by (simp add: quiet_socket_def)
  have c: "demo_pub \<in> set (bootstrap (demo_node_config None))" "cfg_substrate (demo_node_config None) = Direct" "[7 :: byte] \<noteq> []" "(1 :: nat) \<le> 5"
    by (simp_all add: demo_node_config_def)
  show ?thesis
    using node_joins [OF start [unfolded demo_started_def] c(1-3) demo_outside_simps(1) faults demo_outside_simps(2) c(4) t demo_outside_simps(3)
        demo_connects demo_outside_simps(4)] start(1) by blast
qed

theorem node_trusts_only_bootstrap_witness:
  "\<exists>start gw f dp. node_run (demo_outside [7]) (demo_node_config None) start [(demo_pub, [7])] dp \<and>
    dp_ingress dp = Some (gw, f, 0, SockAddr (V4 127 0 0 1) 8888) \<and> link_sound (demo_outside [7]) (demo_node_config None) dp [(demo_pub, [7])] gw f 0"
proof -
  obtain start where start: "demo_started [9] None = Some (Inr start)" "dp_self start = None" using demo_client by blast
  obtain gw f dp where run: "node_run (demo_outside [7]) (demo_node_config None) start [(demo_pub, [7])] dp"
    and up: "dp_ingress dp = Some (gw, f, 0, SockAddr (V4 127 0 0 1) 8888)"
    using demo_join [OF start] by blast
  have "(\<forall>(a, g) \<in> set (gateways (dp_dir dp)). vouched (demo_node_config None) dp [(demo_pub, [7])] a (g_cert g)) \<and>
    (\<forall>gw f link proxy_at. dp_ingress dp = Some (gw, f, link, proxy_at) \<longrightarrow>
      link_sound (demo_outside [7]) (demo_node_config None) dp [(demo_pub, [7])] gw f link)"
    by (rule node_trusts_only_bootstrap [OF run start(1) [unfolded demo_started_def]]) (rule demo_picks)
  with run up show ?thesis by blast
qed

theorem two_nodes_agree_witness:
  "\<exists>a b gw f. demo_started [7] (Some (V4 64 226 93 43)) = Some (Inr a) \<and>
    dp_ingress b = Some (gw, f, 0, SockAddr (V4 127 0 0 1) 8888) \<and>
    g_cert gw = nd_cert (dp_node a) \<and> nd_transport (dp_node (b :: unit deployment)) = nd_transport (dp_node a) \<and> fr_addr f = demo_pub"
proof -
  obtain start where start: "demo_started [9] None = Some (Inr start)" "dp_self start = None" using demo_client by blast
  obtain gw f b where run: "node_run (demo_outside [7]) (demo_node_config None) start [(demo_pub, [7])] b"
    and up: "dp_ingress b = Some (gw, f, 0, SockAddr (V4 127 0 0 1) 8888)" "g_addr gw = demo_pub"
    using demo_join [OF start] by blast
  obtain a where a: "demo_started [7] (Some (V4 64 226 93 43)) = Some (Inr a)" "dp_self a = Some demo_pub" "nd_cert (dp_node a) = [7]"
    using demo_promoted by blast
  have other: "dp_self start \<noteq> Some demo_pub" by (simp add: start(2))
  have served: "os_read_all (demo_outside [7]) t demo_pub s = Some (Inr bytes) \<Longrightarrow>
      bytes = w_out (t_write (serve_cert_conn (nd_cert (dp_node a)) quiet_socket))" for t s bytes
    by (simp add: demo_outside_simps a(3))
  have "cfg_substrate (demo_node_config None) = Direct" by (simp add: demo_node_config_def)
  moreover have "g_cert gw = nd_cert (dp_node a) \<and> nd_transport (dp_node b) = nd_transport (dp_node a) \<and>
    (\<exists>w. fst (connect_via (os_quic (demo_outside [7])) (dp_node b) (fr_addr f) (nd_cert (dp_node a)) w) = Inr 0) \<and>
    (cfg_substrate (demo_node_config None) = Direct \<longrightarrow> fr_addr f = demo_pub)"
    by (rule two_nodes_agree [OF a(1) [unfolded demo_started_def] a(2) start(1) [unfolded demo_started_def] other _ _ run up])
       (erule served, rule demo_picks)
  ultimately show ?thesis using a(1) up(1) by blast
qed

end
