(* ===== verification/Conformance.thy ===== *)
theory Conformance
  imports Node Striped Selftest
begin

text \<open>
  The repository's own tests, as theorems of the model. Those of the failure matrix
  (\<^verbatim>\<open>crates/quicmix-eval/tests/failure_modes.rs\<close>, \<^verbatim>\<open>crates/quicmix-eval/tests/substrate.rs\<close>) are proved for every execution of the
  boundary over the transports that the tests define; the deterministic ones are replayed on the data of the test: each is a
  proposition that holds what the test asserts.
\<close>

section \<open>Failing transports\<close>

text \<open>A substrate that delivers some datagrams and then disconnects.\<close>

record faulty =
  fy_sent :: u64
  fy_ok_sends :: u64

definition faulty_try_send :: "datagram \<Rightarrow> faulty \<Rightarrow> (substrate_error + unit) \<times> faulty" where
  "faulty_try_send dg f = (if fy_sent f < fy_ok_sends f then Inr () else Inl Closed, f\<lparr>fy_sent := fy_sent f + 1\<rparr>)"

definition faulty_try_recv :: "faulty \<Rightarrow> ((substrate_error + datagram) \<times> faulty) option" where
  "faulty_try_recv f = Some (Inl Closed, f)"

text \<open>A transport whose fallible operations fail.\<close>

definition failing_try_send :: "datagram \<Rightarrow> unit \<Rightarrow> (substrate_error + unit) \<times> unit" where
  "failing_try_send dg s = (Inl RemoteRejected, s)"

definition failing_try_recv :: "unit \<Rightarrow> ((substrate_error + datagram) \<times> unit) option" where
  "failing_try_recv s = Some (Inl AuthFailed, s)"

definition tiny_oracle :: oracle_params where
  "tiny_oracle = \<lparr>hops = 1, mean_hop_delay = from_millis 1, drop_prob = 0, slot_interval = 0, mtu = 1200\<rparr>"

text \<open>
  What both have in common: the outcomes of the sends follow a schedule, and every receive fails with the same error.
\<close>

locale failing_transport =
  fixes try_send :: "datagram \<Rightarrow> 's \<Rightarrow> (substrate_error + unit) \<times> 's" and try_recv :: "'s \<Rightarrow> ((substrate_error + datagram) \<times> 's) option"
    and tried :: "nat \<Rightarrow> 's \<Rightarrow> bool"
    and good :: "nat \<Rightarrow> bool" and e_recv :: substrate_error
  assumes send_scheduled: "tried n s \<Longrightarrow> n < 2 ^ 64 \<Longrightarrow> try_send dg s = (r, s') \<Longrightarrow> tried (Suc n) s' \<and> (isl r \<longleftrightarrow> \<not> good n)"
    and recv_fails: "try_recv s = Some (x, s') \<Longrightarrow> x = Inl e_recv \<and> s' = s" and recv_returns: "try_recv s \<noteq> None"
begin

definition counted :: "nat \<Rightarrow> metrics \<Rightarrow> bool" where
  "counted n m \<longleftrightarrow> mt_sent m = of_nat (card {i. i < n \<and> good i}) \<and> mt_send_errors m = of_nat (card {i. i < n \<and> \<not> good i})"

definition closing :: "'s substrate \<Rightarrow> bool" where
  "closing s \<longleftrightarrow>
     (if sb_hand s = None \<and> \<not> sb_recv_done s then sb_recv_q s = []
      else if sb_recv_done s then sb_hand s = None \<and> set (sb_recv_q s) \<subseteq> {Inl e_recv}
      else sb_hand s = Some (Inl e_recv) \<and> sb_recv_q s = [])"

lemma counted_Suc: "counted n m \<Longrightarrow> m' = (if good n then m\<lparr>mt_sent := mt_sent m + 1\<rparr> else m\<lparr>mt_send_errors := mt_send_errors m + 1\<rparr>) \<Longrightarrow> counted (Suc n) m'"
proof -
  have "{i. i < Suc n \<and> P i} = (if P n then insert n {i. i < n \<and> P i} else {i. i < n \<and> P i})" for P
    by (auto simp: less_Suc_eq)
  then have "card {i. i < Suc n \<and> P i} = card {i. i < n \<and> P i} + (if P n then 1 else 0)" for P by simp
  then show "counted n m \<Longrightarrow> m' = (if good n then m\<lparr>mt_sent := mt_sent m + 1\<rparr> else m\<lparr>mt_send_errors := mt_send_errors m + 1\<rparr>) \<Longrightarrow> counted (Suc n) m'"
    by (simp add: counted_def)
qed

definition failing_inv :: "sb_log \<Rightarrow> 's substrate \<Rightarrow> bool" where
  "failing_inv l s \<longleftrightarrow>
     (length (lg_out l) < 2 ^ 64 \<longrightarrow> tried (length (lg_out l)) (sb_inner s) \<and> counted (length (lg_out l)) (sb_metrics s)) \<and> closing s"

lemma inv_accepts:
  assumes "accepts r dg s s'" and "failing_inv l s"
  shows "failing_inv (log_accept r dg l) s'"
  using assms by (auto simp: accepts_def failing_inv_def closing_def log_accept_def split: if_splits)

lemma inv_lossy:
  assumes "failing_inv l s" and "sb_try_send dg s = (r, s')"
  shows "failing_inv (if r = Inr () then log_accept r dg l else l\<lparr>lg_lost := Suc (lg_lost l)\<rparr>) (sb_lossy_send dg s)"
proof (cases r)
  case (Inl e)
  then show ?thesis using assms by (simp add: sb_lossy_send_conv) (simp add: failing_inv_def closing_def counted_def)
next
  case (Inr u)
  then show ?thesis using inv_accepts [OF accepts_ops(3) [OF assms(2)] assms(1)] by (simp add: sb_lossy_send_conv assms(2))
qed

lemma inv_pump_send:
  assumes "failing_inv l s" and "pump_send try_send t s = Some s'"
  shows "failing_inv (l\<lparr>lg_out := lg_out l @ [x]\<rparr>) s'"
proof -
  let ?n = "length (lg_out l)"
  obtain enq dg rest where q: "sb_send_q s = (enq, dg) # rest"
    using assms(2) by (auto simp: pump_send_def split: if_splits list.splits)
  obtain r i' where i: "try_send dg (sb_inner s) = (r, i')" by fastforce
  define m1 where "m1 = (sb_metrics s)\<lparr>mt_queue_depth := length rest, mt_enqueue_latency_us := of_nat ((sb_now s - enq) div 1000)\<rparr>"
  have s': "sb_inner s' = i'" "sb_hand s' = sb_hand s" "sb_recv_done s' = sb_recv_done s" "sb_recv_q s' = sb_recv_q s"
    "sb_metrics s' = (if isl r then m1\<lparr>mt_send_errors := mt_send_errors m1 + 1\<rparr> else m1\<lparr>mt_sent := mt_sent m1 + 1\<rparr>)"
    using assms(2) q i by (auto simp: pump_send_def m1_def Let_def split: if_splits sum.splits)
  have "tried (Suc ?n) i' \<and> counted (Suc ?n) (sb_metrics s')" if n: "Suc ?n < 2 ^ 64"
  proof -
    have "tried ?n (sb_inner s)" "counted ?n m1" using assms(1) n by (auto simp: failing_inv_def counted_def m1_def)
    with send_scheduled [OF _ _ i, of ?n] n have r: "tried (Suc ?n) i'" "isl r \<longleftrightarrow> \<not> good ?n" by auto
    moreover have "counted (Suc ?n) (sb_metrics s')" using \<open>counted ?n m1\<close> by (rule counted_Suc) (simp add: s' r)
    ultimately show ?thesis by simp
  qed
  then show ?thesis using assms(1) s' by (auto simp: failing_inv_def closing_def)
qed

lemma inv_frame: "failing_inv l (s\<lparr>sb_oracle := q\<rparr>) = failing_inv l s" "failing_inv l (s\<lparr>sb_now := t\<rparr>) = failing_inv l s"
  by (simp_all add: failing_inv_def closing_def)

lemma exec_failing_inv:
  assumes "sb_exec try_send try_recv (\<lambda>_ _. False) (new_substrate now kind p inner depth) l s" and "tried 0 inner"
  shows "failing_inv l s"
  using assms(1)
proof (induction rule: sb_exec.induct)
  case ex_start
  show ?case using assms(2) by (simp add: failing_inv_def closing_def counted_def new_substrate_def new_metrics_def)
next
  case (ex_lossy l s dg r s')
  show ?case by (rule inv_lossy [OF ex_lossy(3,2)])
next
  case (ex_pump l s t s')
  show ?case by (rule inv_pump_send [OF ex_pump(3,2)])
next
  case (ex_take l s s')
  obtain x i where x: "try_recv (sb_inner s) = Some (x, i)" using recv_returns by fastforce
  with recv_fails [OF x] ex_take show ?case
    by (auto simp: pump_take_def failing_inv_def closing_def split: if_splits)
next
  case (ex_push l s s')
  then show ?case by (auto simp: pump_push_def failing_inv_def closing_def split: if_splits option.splits sum.splits)
next
  case (ex_recv l s x s')
  then show ?case by (auto simp: sb_recv_def failing_inv_def closing_def split: if_splits list.splits)
qed (auto simp: update_oracle_def inv_frame intro: inv_accepts [OF accepts_ops(1)] inv_accepts [OF accepts_ops(2)] inv_accepts [OF accepts_ops(3)])

text \<open>The receive side of the boundary is never stuck, and what it gives is the error, or that it is closed.\<close>

lemma recv_surfaces:
  assumes "closing s" and "0 < sb_depth s"
  shows "sb_recv s \<noteq> None \<or> pump_push s \<noteq> None \<or> pump_take try_recv s \<noteq> None"
    and "sb_recv s = Some (x, s') \<Longrightarrow> x = Inl e_recv \<or> x = Inl Closed"
proof -
  obtain y i where "try_recv (sb_inner s) = Some (y, i)" using recv_returns by fastforce
  then show "sb_recv s \<noteq> None \<or> pump_push s \<noteq> None \<or> pump_take try_recv s \<noteq> None"
    using assms by (auto simp: closing_def sb_recv_def pump_push_def pump_take_def split: if_splits list.splits sum.splits)
  show "sb_recv s = Some (x, s') \<Longrightarrow> x = Inl e_recv \<or> x = Inl Closed"
    using assms(1) by (auto simp: closing_def sb_recv_def split: if_splits list.splits)
qed

end

interpretation faulty: failing_transport faulty_try_send faulty_try_recv
    "\<lambda>n f. fy_sent f = of_nat n \<and> fy_ok_sends f = k" "\<lambda>n. n < unat k" Closed for k :: u64
proof
  fix n s dg r s'
  assume s: "fy_sent s = of_nat n \<and> fy_ok_sends s = k" and n: "(n :: nat) < 2 ^ 64" and r: "faulty_try_send dg s = (r, s')"
  have "unat (of_nat n :: u64) = n" using n by (simp add: unat_of_nat take_bit_nat_eq_self)
  with s r show "(fy_sent s' = of_nat (Suc n) \<and> fy_ok_sends s' = k) \<and> (isl r \<longleftrightarrow> \<not> n < unat k)"
    by (auto simp: faulty_try_send_def word_less_nat_alt add.commute split: if_splits)
qed (auto simp: faulty_try_recv_def)

interpretation failing: failing_transport failing_try_send failing_try_recv "\<lambda>_ _. True" "\<lambda>_. False" AuthFailed
  by unfold_locales (auto simp: failing_try_send_def failing_try_recv_def)

text \<open>C15: a substrate that disconnects is counted, typed and bounded. Over a transport that accepts \<open>k\<close> sends and then
  reports \<open>Closed\<close>, in every execution of the boundary: of the datagrams handed over the first \<open>k\<close> are counted as sent and every other
  as a send error, none is lost in between and the queue keeps within its depth; the receive side is never stuck and what it
  gives a receiver is \<open>Closed\<close>.\<close>

theorem disconnect_counted:
  assumes "sb_exec faulty_try_send faulty_try_recv (\<lambda>_ _. False)
      (new_substrate now kind p \<lparr>fy_sent = 0, fy_ok_sends = k\<rparr> depth) l s" and "length (lg_out l) < 2 ^ 64"
  shows "unat (mt_sent (metrics_snapshot s)) = min (unat k) (length (lg_out l)) \<and>
    unat (mt_send_errors (metrics_snapshot s)) = length (lg_out l) - unat k \<and>
    length (lg_enq l) = length (lg_out l) + length (sb_send_q s) \<and> length (sb_send_q s) \<le> sb_depth s \<and>
    (sb_recv s \<noteq> None \<or> pump_push s \<noteq> None \<or> pump_take faulty_try_recv s \<noteq> None) \<and>
    (\<forall>x s'. sb_recv s = Some (x, s') \<longrightarrow> x = Inl Closed)"
proof -
  let ?n = "length (lg_out l)"
  have i: "faulty.failing_inv k l s" by (rule faulty.exec_failing_inv [OF assms(1)]) simp
  have c: "faulty.counted k ?n (sb_metrics s)" and cl: "faulty.closing s"
    using i assms(2) by (auto simp: faulty.failing_inv_def)
  have "{i. i < ?n \<and> i < unat k} = {..<min (unat k) ?n}" "{i. i < ?n \<and> \<not> i < unat k} = {unat k..<?n}" by auto
  then have m: "unat (mt_sent (sb_metrics s)) = min (unat k) ?n" "unat (mt_send_errors (sb_metrics s)) = ?n - unat k"
    using c assms(2) by (simp_all add: faulty.counted_def unat_of_nat take_bit_nat_eq_self)
  have send: "send_inv l s" using exec_inv [OF assms(1) refl] by simp
  then have d: "0 < sb_depth s" by (simp add: send_inv_def)
  show ?thesis
    using m send faulty.recv_surfaces(1) [OF cl d] faulty.recv_surfaces(2) [OF cl d]
    by (auto simp: metrics_snapshot_def send_inv_def)
qed

definition demo_faulty :: "faulty substrate" where
  "demo_faulty = new_substrate 0 Datagram tiny_oracle \<lparr>fy_sent = 0, fy_ok_sends = 0\<rparr> 8"

lemma demo_faulty_exec:
  "\<exists>s. sb_exec faulty_try_send faulty_try_recv (\<lambda>_ _. False) demo_faulty
     \<lparr>lg_enq = [[1]], lg_out = [(0, 0, [1])], lg_took = [], lg_del = [], lg_lost = 0\<rparr> s"
proof -
  note [simp] = demo_faulty_def new_substrate_def sb_try_send_def sb_enqueue_def log_accept_def
  let ?s = "snd (sb_try_send [1] demo_faulty)"
  have e: "sb_exec faulty_try_send faulty_try_recv (\<lambda>_ _. False) demo_faulty
      \<lparr>lg_enq = [[1]], lg_out = [], lg_took = [], lg_del = [], lg_lost = 0\<rparr> ?s"
    using ex_try_send [OF ex_start, of "[1]" demo_faulty "Inr ()" ?s] by simp
  obtain s' where "pump_send faulty_try_send 0 ?s = Some s'"
    by (simp add: pump_send_def faulty_try_send_def Let_def)
  from ex_pump [OF e this] show ?thesis by (intro exI [of _ s']) (simp add: tiny_oracle_def)
qed

theorem disconnect_counted_witness:
  "\<exists>l s. sb_exec faulty_try_send faulty_try_recv (\<lambda>_ _. False)
      (new_substrate 0 Datagram tiny_oracle \<lparr>fy_sent = 0, fy_ok_sends = 0\<rparr> 8) l s \<and>
    unat (mt_sent (metrics_snapshot s)) = 0 \<and> unat (mt_send_errors (metrics_snapshot s)) = 1"
proof -
  obtain s where e: "sb_exec faulty_try_send faulty_try_recv (\<lambda>_ _. False)
      (new_substrate 0 Datagram tiny_oracle \<lparr>fy_sent = 0, fy_ok_sends = 0\<rparr> 8)
      \<lparr>lg_enq = [[1]], lg_out = [(0, 0, [1])], lg_took = [], lg_del = [], lg_lost = 0\<rparr> s"
    using demo_faulty_exec [unfolded demo_faulty_def] by blast
  from disconnect_counted [OF e] e show ?thesis by (auto intro!: exI [of _ s])
qed

text \<open>The same for a transport whose operations all fail: nothing is ever counted as sent, and what a receiver sees is its error.\<close>

lemma failures_surface:
  assumes "sb_exec failing_try_send failing_try_recv (\<lambda>_ _. False) (new_substrate now kind p () depth) l s" and "length (lg_out l) < 2 ^ 64"
  shows "mt_sent (metrics_snapshot s) = 0 \<and> unat (mt_send_errors (metrics_snapshot s)) = length (lg_out l) \<and>
    (sb_recv s \<noteq> None \<or> pump_push s \<noteq> None \<or> pump_take failing_try_recv s \<noteq> None) \<and>
    (\<forall>x s'. sb_recv s = Some (x, s') \<longrightarrow> x = Inl AuthFailed \<or> x = Inl Closed)"
proof -
  have i: "failing.failing_inv l s" by (rule failing.exec_failing_inv [OF assms(1)]) simp
  have c: "failing.counted (length (lg_out l)) (sb_metrics s)" and cl: "failing.closing s"
    using i assms(2) by (auto simp: failing.failing_inv_def)
  have "{i. i < length (lg_out l)} = {..<length (lg_out l)}" by auto
  then have m: "mt_sent (sb_metrics s) = 0" "unat (mt_send_errors (sb_metrics s)) = length (lg_out l)"
    using c assms(2) by (simp_all add: failing.counted_def unat_of_nat take_bit_nat_eq_self)
  have d: "0 < sb_depth s" using exec_inv [OF assms(1) refl] by (simp add: send_inv_def)
  show ?thesis using m failing.recv_surfaces(1) [OF cl d] failing.recv_surfaces(2) [OF cl d] by (auto simp: metrics_snapshot_def)
qed

section \<open>Replayed tests\<close>

definition auto_promotion_gate :: bool where
  "auto_promotion_gate \<longleftrightarrow>
     (let q = (\<lambda>a. map_option qualifies_as_gateway (parse_socket_addr a)) in
      q ''8.8.8.8:443'' = Some True \<and> q ''127.0.0.1:443'' = Some False \<and> q ''192.168.1.5:443'' = Some False \<and> q ''10.0.0.1:443'' = Some False)"

definition directory_announce_live_sample_and_expiry ::
  "(gateway_info list \<Rightarrow> gateway_info option) \<Rightarrow> nat \<Rightarrow> nat \<Rightarrow> nat \<Rightarrow> nat \<Rightarrow> bool" where
  "directory_announce_live_sample_and_expiry pick_rand t0 t1 t2 t3 \<longleftrightarrow>
     (let d0 = new_directory (from_millis 50);
          d1 = announce t0 (SockAddr (V4 8 8 8 8) 443) [1, 2, 3] d0;
          d2 = announce t1 (SockAddr (V4 1 1 1 1) 443) [4, 5, 6] d1;
          (l1, d3) = live t2 d2; (g1, d4) = sample pick_rand t2 d3;
          (l2, d5) = live t3 d4; (g2, _) = sample pick_rand t3 d5
      in length l1 = 2 \<and> g1 \<noteq> None \<and> length l2 = 0 \<and> g2 = None)"

lemma promotion_test: "auto_promotion_gate"
proof -
  have l: "''8.8.8.8:443'' = show_socket_v4 8 8 8 8 443" "''127.0.0.1:443'' = show_socket_v4 127 0 0 1 443"
    "''192.168.1.5:443'' = show_socket_v4 192 168 1 5 443" "''10.0.0.1:443'' = show_socket_v4 10 0 0 1 443"
    by (simp_all add: show_socket_v4_def show_v4_def show_nat.simps) code_simp+
  show ?thesis unfolding auto_promotion_gate_def Let_def l parse_show_socket_v4 by (simp add: qualifies_as_gateway_def)
qed

text \<open>The test holds at whatever times its steps run, within the fifty milliseconds and after the seventy it sleeps.\<close>

lemma directory_test:
  assumes "\<And>xs. pick_rand xs = None \<longleftrightarrow> xs = []" and "t0 \<le> t1" and "t1 \<le> t2" and "t2 - t0 < from_millis 50" and "t2 + from_millis 70 \<le> t3"
  shows "directory_announce_live_sample_and_expiry pick_rand t0 t1 t2 t3"
proof -
  have some: "(\<exists>g. pick_rand xs = Some g) \<longleftrightarrow> xs \<noteq> []" for xs by (simp flip: assms(1))
  have t: "t2 - t1 < 50000000" "\<not> t3 - t0 < 50000000" "\<not> t3 - t1 < 50000000" "t2 - t0 < 50000000"
    using assms(2-5) by (simp_all add: from_millis_def)
  show ?thesis
    by (simp add: directory_announce_live_sample_and_expiry_def new_directory_def announce_def live_def sample_def assms(1) some t from_millis_def Let_def)
qed

definition estimates_per_hop_delay_and_drop :: bool where
  "estimates_per_hop_delay_and_drop \<longleftrightarrow>
     (let est = record_acks 1000 20 (fold (\<lambda>_. record_rtt (from_millis 60)) [0..<50] (new_estimator 3 1200 (from_millis 1))) in
      case estimate est of
        None \<Rightarrow> False
      | Some p \<Rightarrow>
          hops p = 3 \<and> \<bar>fl64 (as_secs_f64 (mean_hop_delay p) * 1000) - 10\<bar> < 1 \<and>
          \<bar>fl64 (drop_prob p - fl64 (2 / 100))\<bar> < 1 / 10 ^ 9 \<and> mtu p = 1200)"

definition empty_estimator_is_safe :: bool where
  "empty_estimator_is_safe \<longleftrightarrow>
     (case estimate (new_estimator 3 1200 0) of None \<Rightarrow> False | Some p \<Rightarrow> mean_hop_delay p = 0 \<and> drop_prob p = 0)"

lemma fold_record_rtt:
  "length (rtt_ns e) + length xs \<le> MAX_RTT_SAMPLES \<Longrightarrow> fold (\<lambda>_. record_rtt d) xs e = e\<lparr>rtt_ns := rtt_ns e @ replicate (length xs) d\<rparr>"
  by (induction xs arbitrary: e) (simp_all add: record_rtt_def)

lemma tenth_second: "\<bar>fl64 (as_secs_f64 10000000 * 1000) - 10\<bar> < 1"
proof -
  define x where "x = fl64 (1 / 100 :: rat)"
  define y where "y = fl64 x"
  have ms: "fl64 (10000000 :: rat) = 10000000" using fl_of_nat [of 10000000 53] by simp
  have y: "as_secs_f64 10000000 = y" by (simp add: as_secs_f64_def ms x_def y_def)
  have pos: "0 \<le> x" "0 \<le> y" by (simp_all add: x_def y_def)
  have e: "\<bar>x - 1 / 100\<bar> \<le> 1 / 100 / 2 ^ 53" "\<bar>y - x\<bar> \<le> x / 2 ^ 53" "\<bar>fl64 (y * 1000) - y * 1000\<bar> \<le> y * 1000 / 2 ^ 53"
    using fl_error [of "1 / 100" 53] fl_error [of x 53] fl_error [of "y * 1000" 53] pos by (simp_all add: x_def y_def)
  have "x \<le> 101 / 10000" "99 / 10000 \<le> x" using abs_le_D1 [OF e(1)] abs_le_D2 [OF e(1)] by simp_all
  moreover have "y \<le> 102 / 10000" "98 / 10000 \<le> y" using calculation abs_le_D1 [OF e(2)] abs_le_D2 [OF e(2)] by simp_all
  ultimately show ?thesis using abs_le_D1 [OF e(3)] abs_le_D2 [OF e(3)] by (simp add: y abs_less_iff)
qed

lemma estimator_tests: "estimates_per_hop_delay_and_drop" "empty_estimator_is_safe"
proof -
  have f: "fold (\<lambda>_. record_rtt (from_millis 60)) [0..<50] (new_estimator 3 1200 (from_millis 1)) =
      (new_estimator 3 1200 (from_millis 1))\<lparr>rtt_ns := replicate 50 60000000\<rparr>"
    by (subst fold_record_rtt) (simp_all add: new_estimator_def MAX_RTT_SAMPLES_def from_millis_def)
  have fl: "fl64 20 = 20" "fl64 1000 = 1000" using fl_of_nat [of 20 53] fl_of_nat [of 1000 53] by simp_all
  have srt: "sort (replicate 50 (60000000 :: nat)) = replicate 50 60000000" by (rule sorted_sort_id) simp
  show "estimates_per_hop_delay_and_drop"
    using tenth_second unfolding estimates_per_hop_delay_and_drop_def f
    by (simp add: new_estimator_def record_acks_def estimate_def median_rtt_ns_def sorted_rtts_def srt
        index_def checked_div_def from_nanos_u64_def fl Let_def)
  show "empty_estimator_is_safe"
    by (simp add: empty_estimator_is_safe_def new_estimator_def estimate_def median_rtt_ns_def sorted_rtts_def checked_div_def from_nanos_u64_def)
qed

definition client_test_params :: oracle_params where
  "client_test_params = \<lparr>hops = 3, mean_hop_delay = from_millis 5, drop_prob = fl64 (2 / 100), slot_interval = from_millis 1, mtu = 1200\<rparr>"

definition oracle_sources_interchangeable :: bool where
  "oracle_sources_interchangeable \<longleftrightarrow>
     source_params (FixedOracle client_test_params) = Some client_test_params \<and>
     map_option hops (source_params (MeasuredOracle (record_rtt (from_millis 60) (new_estimator 3 1200 (from_millis 1))))) = Some 3"

definition every_congestion_plan_builds_and_quicmix_sizes_window :: "(duration \<Rightarrow> nat option) \<Rightarrow> bool" where
  "every_congestion_plan_builds_and_quicmix_sizes_window idle \<longleftrightarrow>
     list_all (\<lambda>c. transport idle c client_test_params \<noteq> None) [Stock, Timers, Quicmix] \<and>
     (case bdp_bytes client_test_params of Some w \<Rightarrow> 2 * 1200 \<le> w | None \<Rightarrow> False)"

definition profile_produces_transport :: "(duration \<Rightarrow> nat option) \<Rightarrow> bool" where
  "profile_produces_transport idle \<longleftrightarrow>
     profile_transport idle \<lparr>cp_oracle = FixedOracle client_test_params, cp_congestion = Quicmix, cp_rotation = default_rotation_policy\<rparr> \<noteq> None"

text \<open>Both ends of a stream: what one writes is what the other reads.\<close>

definition datagrams_frame_over_a_stream :: "io_error \<Rightarrow> bool" where
  "datagrams_frame_over_a_stream e \<longleftrightarrow>
     (let w = sd_send (string_bytes ''world'') (sd_send (string_bytes ''hello'') \<lparr>w_out = [], w_faults = []\<rparr>);
          (x, r1) = sd_recv \<lparr>r_bytes = w_out w, r_end = e\<rparr>; (y, _) = sd_recv r1
      in x = Some (string_bytes ''hello'') \<and> y = Some (string_bytes ''world''))"

definition with_env :: "string option \<Rightarrow> string option \<Rightarrow> string option \<Rightarrow> environment" where
  "with_env sub front cmd =
     (\<lambda>k. if k = ''QUICMIX_SUBSTRATE'' then sub else if k = ''QUICMIX_SIDECAR_FRONT'' then front
          else if k = ''QUICMIX_SIDECAR_CMD'' then cmd else None)"

definition from_env_parses_choices :: bool where
  "from_env_parses_choices \<longleftrightarrow>
     from_env (with_env None None None) = Inr Direct \<and>
     from_env (with_env (Some ''direct'') None None) = Inr Direct \<and>
     from_env (with_env (Some ''nym'') (Some ''127.0.0.1:7000'') None) = Inr (SidecarAt (SockAddr (V4 127 0 0 1) 7000)) \<and>
     from_env (with_env (Some ''tor'') None (Some ''quicmix-tor-sidecar --hops 3'')) = Inr (SidecarCmd ''tor'' ''quicmix-tor-sidecar'' [''--hops'', ''3'']) \<and>
     from_env (with_env (Some ''katzenpost'') None None) = Inr (Named ''katzenpost'')"

definition test_gateway :: socket_addr where
  "test_gateway = SockAddr (V4 203 0 113 7) 4433"

definition named_without_builder_errors :: "spawner \<Rightarrow> nat \<Rightarrow> io_error + socket_addr \<Rightarrow> bool" where
  "named_without_builder_errors spawn now bound \<longleftrightarrow>
     (case resolve spawn now bound (Named ''katzenpost'') test_gateway (None :: unit substrate_builder option) of Some (Some (Inl _)) \<Rightarrow> True | _ \<Rightarrow> False)"

definition direct_front_is_the_gateway :: "spawner \<Rightarrow> nat \<Rightarrow> io_error + socket_addr \<Rightarrow> bool" where
  "direct_front_is_the_gateway spawn now bound \<longleftrightarrow>
     (case resolve spawn now bound Direct test_gateway (None :: unit substrate_builder option) of Some (Some (Inr f)) \<Rightarrow> fr_addr f = test_gateway | _ \<Rightarrow> False)"

text \<open>The stub commands of the sidecar tests, by what they print: a line, the announcement, and nothing more for a while; or a line and the end.\<close>

definition spawns_sidecar_and_reads_announced_front :: "string \<Rightarrow> nat \<Rightarrow> io_error + socket_addr \<Rightarrow> bool" where
  "spawns_sidecar_and_reads_announced_front script now bound \<longleftrightarrow>
     (case resolve (\<lambda>_ _ _. Inr (Some [Line ''booting substrate...'', Line ''FRONT 127.0.0.1:45999''])) now bound
        (SidecarCmd ''stub'' ''sh'' [''-c'', script]) test_gateway (None :: unit substrate_builder option) of
        Some (Some (Inr f)) \<Rightarrow> fr_addr f = SockAddr (V4 127 0 0 1) 45999
      | _ \<Rightarrow> False)"

definition sidecar_that_never_announces_errors :: "nat \<Rightarrow> io_error + socket_addr \<Rightarrow> bool" where
  "sidecar_that_never_announces_errors now bound \<longleftrightarrow>
     (case resolve (\<lambda>_ _ _. Inr (Some [Line ''no front here'', EndOfOutput])) now bound
        (SidecarCmd ''stub'' ''sh'' [''-c'', ''echo no front here; exit 0'']) test_gateway (None :: unit substrate_builder option) of
        Some (Some (Inl _)) \<Rightarrow> True
      | _ \<Rightarrow> False)"

lemma client_tests:
  "oracle_sources_interchangeable" "every_congestion_plan_builds_and_quicmix_sizes_window idle" "profile_produces_transport idle"
proof -
  have r: "rtt client_test_params = Some (from_millis 30)"
    by (simp add: rtt_def client_test_params_def dur_mul_def dur_limit_def from_millis_def)
  have r40: "dur_mul (from_millis 30) 40 = Some (from_millis 1200)" by (simp add: dur_mul_def dur_limit_def from_millis_def)
  have t: "transport idle c client_test_params \<noteq> None" for c using plan_builds [OF r r40, of idle c] by blast
  have "slot_interval client_test_params \<noteq> 0" "mtu client_test_params < 2 ^ 63" by (simp_all add: client_test_params_def from_millis_def)
  from bdp_window [OF r this] obtain w where "bdp_bytes client_test_params = Some w" "2 * 1200 \<le> w"
    by (auto simp: client_test_params_def)
  with t show "every_congestion_plan_builds_and_quicmix_sizes_window idle"
    by (simp add: every_congestion_plan_builds_and_quicmix_sizes_window_def del: transport.simps)
  show "profile_produces_transport idle" using t [of Quicmix] by (simp add: profile_produces_transport_def profile_transport_def)
  show "oracle_sources_interchangeable"
    by (simp add: oracle_sources_interchangeable_def record_rtt_def new_estimator_def estimate_def median_rtt_ns_def sorted_rtts_def index_def
        checked_div_def MAX_RTT_SAMPLES_def Let_def)
qed

lemma framing_test: "datagrams_frame_over_a_stream e"
proof -
  define a b where "a = string_bytes ''hello''" and "b = string_bytes ''world''"
  have ok: "sd_ok a" "sd_ok b" by (simp_all add: a_def b_def sd_ok_def string_bytes_def)
  have "w_out (sd_send b (sd_send a \<lparr>w_out = [], w_faults = []\<rparr>)) = frame a @ frame b"
    using sd_send_healthy [of "\<lparr>w_out = [], w_faults = []\<rparr>" "[a, b]"] by simp
  with ok show ?thesis
    using sd_try_recv_frame [OF ok(2), of "[]" e]
    by (simp add: datagrams_frame_over_a_stream_def sd_recv_def sd_try_recv_frame a_def [symmetric] b_def [symmetric] Let_def)
qed

lemma selection_tests:
  "from_env_parses_choices" "named_without_builder_errors spawn now bound" "direct_front_is_the_gateway spawn now bound"
proof -
  have t: "trim [] = []" "trim ''direct'' = ''direct''" "trim ''nym'' = ''nym''" "trim ''tor'' = ''tor''" "trim ''katzenpost'' = ''katzenpost''"
    by code_simp+
  have d: "eq_ignore_ascii_case ''direct'' ''direct''" "\<not> eq_ignore_ascii_case ''nym'' ''direct''"
    "\<not> eq_ignore_ascii_case ''tor'' ''direct''" "\<not> eq_ignore_ascii_case ''katzenpost'' ''direct''"
    by code_simp+
  have w: "split_whitespace ''quicmix-tor-sidecar --hops 3'' = [''quicmix-tor-sidecar'', ''--hops'', ''3'']" by code_simp
  have l: "''127.0.0.1:7000'' = show_socket_v4 127 0 0 1 7000"
    by (simp add: show_socket_v4_def show_v4_def show_nat.simps) code_simp
  have p: "parse_socket_addr (trim ''127.0.0.1:7000'') = Some (SockAddr (V4 127 0 0 1) 7000)"
    unfolding l trim_show_v4 parse_show_socket_v4 by simp
  show "from_env_parses_choices" by (simp add: from_env_parses_choices_def from_env_def with_env_def Let_def t d w p)
  show "named_without_builder_errors spawn now bound" "direct_front_is_the_gateway spawn now bound"
    by (simp_all add: named_without_builder_errors_def direct_front_is_the_gateway_def resolve_def)
qed

lemma sidecar_tests:
  "spawns_sidecar_and_reads_announced_front script now bound" "sidecar_that_never_announces_errors now bound"
proof -
  have s: "strip_prefix FRONT_LINE ''booting substrate...'' = None" "strip_prefix FRONT_LINE ''FRONT 127.0.0.1:45999'' = Some ''127.0.0.1:45999''"
    "strip_prefix FRONT_LINE ''no front here'' = None"
    by code_simp+
  have l: "''127.0.0.1:45999'' = show_socket_v4 127 0 0 1 45999"
    by (simp add: show_socket_v4_def show_v4_def show_nat.simps) code_simp
  have p: "parse_socket_addr (trim ''127.0.0.1:45999'') = Some (SockAddr (V4 127 0 0 1) 45999)"
    unfolding l trim_show_v4 parse_show_socket_v4 by simp
  show "spawns_sidecar_and_reads_announced_front script now bound" "sidecar_that_never_announces_errors now bound"
    by (simp_all add: spawns_sidecar_and_reads_announced_front_def sidecar_that_never_announces_errors_def resolve_def spawn_sidecar_def s p Let_def)
qed

section \<open>The oracles of the mixnets and the refusals of a HOPR node\<close>

text \<open>The part that the three tests of the substrates' parameters share: every plan builds, and the window of a
  rate-capped mixnet is at least two cells and below a mebibyte.\<close>

definition cc_builds :: "(duration \<Rightarrow> nat option) \<Rightarrow> oracle_params \<Rightarrow> bool" where
  "cc_builds idle p \<longleftrightarrow>
     list_all (\<lambda>c. transport idle c p \<noteq> None) [Stock, Timers, Quicmix] \<and>
     (case bdp_bytes p of Some w \<Rightarrow> unat (mtu p) * 2 \<le> w \<and> w < 2 ^ 20 | None \<Rightarrow> False) \<and>
     (case loss_time_threshold p of Fin x \<Rightarrow> 3 / 2 \<le> x | PInf \<Rightarrow> True)"

definition cc_builds_from_hopr_oracle_rate_capped :: "(duration \<Rightarrow> nat option) \<Rightarrow> bool" where
  "cc_builds_from_hopr_oracle_rate_capped idle \<longleftrightarrow> slot_interval (hopr_oracle 1) \<noteq> 0 \<and> cc_builds idle (hopr_oracle 1)"

definition cc_builds_from_katzenpost_oracle :: "(duration \<Rightarrow> nat option) \<Rightarrow> bool" where
  "cc_builds_from_katzenpost_oracle idle \<longleftrightarrow>
     cc_builds idle katzenpost_oracle \<and> hops katzenpost_oracle = 3 \<and> slot_interval katzenpost_oracle \<noteq> 0"

definition cc_builds_from_nym_oracle :: "(duration \<Rightarrow> nat option) \<Rightarrow> bool" where
  "cc_builds_from_nym_oracle idle \<longleftrightarrow> cc_builds idle nym_oracle \<and> rtt nym_oracle = Some (from_millis (470 * 3 * 2))"

text \<open>The mock node. The HTTP client reports the status it answers with, and a timeout when it says nothing.\<close>

datatype reply = Status nat | Hang

fun mock_hoprd :: "reply \<Rightarrow> session_post" where
  "mock_hoprd (Status c) url token timeout body = Inr \<lparr>sr_status = c, sr_text = Some ''{}'', sr_session = None\<rparr>"
| "mock_hoprd Hang url token timeout body = Inl ReqTimeout"

definition open_session :: "session_post \<Rightarrow> string \<Rightarrow> duration \<Rightarrow> hopr_error + hopr_substrate" where
  "open_session post api http_timeout =
     hopr_connect post (\<lambda>_. Inl UnexpectedEof) api ''test-token'' ''0xdeadbeefdeadbeefdeadbeefdeadbeefdeadbeef''
       (default_session_opts\<lparr>so_http_timeout := http_timeout\<rparr>) (hopr_oracle 1)"

text \<open>The text of an error that reports a failed request or a refusing status; the texts of the others come from libraries.\<close>

fun refusal_text :: "hopr_error \<Rightarrow> string option" where
  "refusal_text (SessionHttp e) = Some (display_error e)"
| "refusal_text (SessionRefused e detail) = Some (''session open failed: '' @ display_error e @ '' ('' @ detail @ '')'')"
| "refusal_text _ = None"

definition refused_with :: "string \<Rightarrow> hopr_error + hopr_substrate \<Rightarrow> bool" where
  "refused_with word r =
     (case r of Inl e \<Rightarrow> (case refusal_text e of Some t \<Rightarrow> contains t word | None \<Rightarrow> False) | Inr _ \<Rightarrow> False)"

definition http_401_maps_to_auth_failed :: "string \<Rightarrow> bool" where
  "http_401_maps_to_auth_failed api \<longleftrightarrow> refused_with ''auth'' (open_session (mock_hoprd (Status 401)) api (from_secs 5))"

definition http_500_maps_to_remote_rejected :: "string \<Rightarrow> bool" where
  "http_500_maps_to_remote_rejected api \<longleftrightarrow> refused_with ''rejected'' (open_session (mock_hoprd (Status 500)) api (from_secs 5))"

definition wedged_node_times_out :: "string \<Rightarrow> bool" where
  "wedged_node_times_out api \<longleftrightarrow> refused_with ''timeout'' (open_session (mock_hoprd Hang) api (from_millis 300))"

definition dead_node_maps_to_closed :: bool where
  "dead_node_maps_to_closed \<longleftrightarrow> refused_with ''closed'' (open_session (\<lambda>_ _ _ _. Inl ReqConnect) ''http://127.0.0.1:1'' (from_secs 2))"

lemma cc_buildsI:
  assumes "rtt p = Some r" and "dur_mul r 40 = Some r40" and "slot_interval p \<noteq> 0" and "mtu p < 2 ^ 63" and "exact_bdp p < 2 ^ 19"
    and "2 * unat (mtu p) < 2 ^ 20"
  shows "cc_builds idle p"
proof -
  obtain w where w: "bdp_bytes p = Some w" "2 * unat (mtu p) \<le> w" "w = 2 * unat (mtu p) \<or> of_nat w \<le> exact_bdp p * (1 + 1 / 2 ^ 50)"
    using bdp_window [OF assms(1,3,4)] by blast
  have "exact_bdp p * (1 + 1 / 2 ^ 50) \<le> 2 ^ 19 * (1 + 1 / 2 ^ 50)"
    using assms(5) by (intro mult_right_mono) simp_all
  then have "(of_nat w :: rat) < 2 ^ 20" if "of_nat w \<le> exact_bdp p * (1 + 1 / 2 ^ 50)" using that by simp
  with w(3) assms(6) have "w < 2 ^ 20" by (metis of_nat_less_iff of_nat_numeral of_nat_power)
  moreover have "case loss_time_threshold p of Fin x \<Rightarrow> 3 / 2 \<le> x | PInf \<Rightarrow> True"
    by (simp add: loss_time_threshold_def Let_def)
  moreover have "transport idle c p \<noteq> None" for c using plan_builds [OF assms(1,2), of idle c] by blast
  ultimately show ?thesis using w(1,2) by (simp add: cc_builds_def mult.commute del: transport.simps)
qed

lemma oracle_tests:
  "cc_builds_from_hopr_oracle_rate_capped idle" "cc_builds_from_katzenpost_oracle idle" "cc_builds_from_nym_oracle idle"
proof -
  note s = rtt_def dur_mul_def dur_limit_def from_millis_def exact_bdp_def
  have h: "cc_builds idle (hopr_oracle 1)"
    by (rule cc_buildsI [where r = "from_millis 200" and ?r40.0 = "from_millis 8000"]) (simp_all add: s hopr_oracle_def)
  have k: "cc_builds idle katzenpost_oracle"
    by (rule cc_buildsI [where r = "from_millis 300" and ?r40.0 = "from_millis 12000"]) (simp_all add: s katzenpost_oracle_def)
  have n: "cc_builds idle nym_oracle"
    by (rule cc_buildsI [where r = "from_millis 2820" and ?r40.0 = "from_millis 112800"]) (simp_all add: s nym_oracle_def)
  show "cc_builds_from_hopr_oracle_rate_capped idle" "cc_builds_from_katzenpost_oracle idle" "cc_builds_from_nym_oracle idle"
    using h k n by (simp_all add: cc_builds_from_hopr_oracle_rate_capped_def cc_builds_from_katzenpost_oracle_def cc_builds_from_nym_oracle_def
        s hopr_oracle_def katzenpost_oracle_def nym_oracle_def)
qed

lemma hopr_tests:
  "http_401_maps_to_auth_failed api" "http_500_maps_to_remote_rejected api" "wedged_node_times_out api" "dead_node_maps_to_closed"
proof -
  note [simp] = refused_with_def open_session_def hopr_connect_def is_success_def status_error_def is_server_error_def
  have "contains ''session open failed: substrate auth failed ({})'' ''auth''" "contains ''session open failed: substrate remote rejected ({})'' ''rejected''"
    "contains ''substrate timeout'' ''timeout''" "contains ''substrate closed'' ''closed''" "trim ''{}'' = ''{}''"
    by code_simp+
  then show "http_401_maps_to_auth_failed api" "http_500_maps_to_remote_rejected api" "wedged_node_times_out api" "dead_node_maps_to_closed"
    by (simp_all add: http_401_maps_to_auth_failed_def http_500_maps_to_remote_rejected_def wedged_node_times_out_def dead_node_maps_to_closed_def)
qed

section \<open>Overload of the boundary and the ingress proxy\<close>

text \<open>A flood from one task: it never waits, so no pump runs meanwhile.\<close>

definition slot_params :: "nat \<Rightarrow> oracle_params" where
  "slot_params slot_ms = \<lparr>hops = 1, mean_hop_delay = from_millis 1, drop_prob = 0, slot_interval = from_millis slot_ms, mtu = 1200\<rparr>"

fun flood :: "datagram list \<Rightarrow> 's substrate \<Rightarrow> (substrate_error + unit) list \<times> 's substrate" where
  "flood [] s = ([], s)"
| "flood (dg # dgs) s = (case sb_try_send dg s of (r, s') \<Rightarrow> (case flood dgs s' of (rs, s'') \<Rightarrow> (r # rs, s'')))"

definition numbered :: "nat \<Rightarrow> datagram list" where
  "numbered n = map (to_le 4) [0..<n]"

definition try_send_signals_backpressure :: "'s \<Rightarrow> bool" where
  "try_send_signals_backpressure inner \<longleftrightarrow>
     Inl Backpressure \<in> set (fst (flood (numbered 200) (new_substrate 0 Datagram (slot_params 100) inner 2)))"

definition overload_is_bounded_and_visible :: "'s \<Rightarrow> bool" where
  "overload_is_bounded_and_visible inner \<longleftrightarrow>
     (let m = metrics_snapshot (fold sb_lossy_send (numbered 2000) (new_substrate 0 Datagram (slot_params 50) inner 4)) in
      mt_queue_depth m \<le> 4 \<and> 0 < mt_dropped m \<and> mt_sent m + mt_dropped m \<le> 2000 + 4)"

definition queue_saturation_is_typed_backpressure_with_dropped_metric :: "'s \<Rightarrow> bool" where
  "queue_saturation_is_typed_backpressure_with_dropped_metric inner \<longleftrightarrow>
     (case flood (numbered 500) (new_substrate 0 Datagram (tiny_oracle\<lparr>slot_interval := from_millis 80\<rparr>) inner 4) of
        (rs, s) \<Rightarrow>
          (let m = metrics_snapshot (fold sb_lossy_send (numbered 2000) s) in
           Inl Backpressure \<in> set rs \<and> mt_queue_depth m \<le> 4 \<and> 0 < mt_dropped m))"

definition oracle_updates_are_observable :: "'s \<Rightarrow> bool" where
  "oracle_updates_are_observable inner \<longleftrightarrow>
     (let s = new_substrate 0 Datagram (slot_params 10) inner 8 in
      slot_interval (sb_oracle s) = from_millis 10 \<and> slot_interval (sb_oracle (update_oracle (slot_params 42) s)) = from_millis 42)"

lemma flood_fills:
  "sb_send_up s \<Longrightarrow> length (sb_send_q s) \<le> sb_depth s \<Longrightarrow>
   fst (flood dgs s) = replicate (min (length dgs) (sb_depth s - length (sb_send_q s))) (Inr ()) @
     replicate (length dgs - (sb_depth s - length (sb_send_q s))) (Inl Backpressure) \<and>
   length (sb_send_q (snd (flood dgs s))) = min (sb_depth s) (length (sb_send_q s) + length dgs) \<and>
   sb_depth (snd (flood dgs s)) = sb_depth s \<and> sb_send_up (snd (flood dgs s)) \<and> sb_metrics (snd (flood dgs s)) = sb_metrics s"
proof (induction dgs arbitrary: s)
  case (Cons dg dgs)
  show ?case
  proof (cases "length (sb_send_q s) < sb_depth s")
    case True
    obtain c where t: "sb_try_send dg s = (Inr (), s\<lparr>sb_send_q := sb_send_q s @ [(c, dg)]\<rparr>)"
      using Cons.prems(1) True by (simp add: sb_try_send_def sb_enqueue_def)
    from True obtain k where "sb_depth s = Suc (length (sb_send_q s) + k)" by (auto dest: less_imp_Suc_add)
    with Cons.IH [of "s\<lparr>sb_send_q := sb_send_q s @ [(c, dg)]\<rparr>"] Cons.prems show ?thesis
      by (auto simp: t split: prod.splits)
  next
    case False
    then have t: "sb_try_send dg s = (Inl Backpressure, s)" using Cons.prems by (simp add: sb_try_send_def sb_enqueue_def)
    from Cons.IH [of s] Cons.prems False show ?thesis by (auto simp: t split: prod.splits)
  qed
qed simp

lemma lossy_flood:
  "sb_send_up s \<Longrightarrow> length (sb_send_q s) \<le> sb_depth s \<Longrightarrow>
   mt_dropped (sb_metrics (fold sb_lossy_send dgs s)) = mt_dropped (sb_metrics s) + of_nat (length dgs - (sb_depth s - length (sb_send_q s))) \<and>
   mt_sent (sb_metrics (fold sb_lossy_send dgs s)) = mt_sent (sb_metrics s) \<and> mt_queue_depth (sb_metrics (fold sb_lossy_send dgs s)) = mt_queue_depth (sb_metrics s)"
proof (induction dgs arbitrary: s)
  case (Cons dg dgs)
  show ?case
  proof (cases "length (sb_send_q s) < sb_depth s")
    case True
    obtain c where t: "sb_lossy_send dg s = s\<lparr>sb_send_q := sb_send_q s @ [(c, dg)]\<rparr>"
      using Cons.prems(1) True by (simp add: sb_lossy_send_def sb_enqueue_def)
    from Cons.IH [of "s\<lparr>sb_send_q := sb_send_q s @ [(c, dg)]\<rparr>"] Cons.prems True show ?thesis
      by (simp add: t Suc_diff_Suc)
  next
    case False
    then have t: "sb_lossy_send dg s = s\<lparr>sb_metrics := (sb_metrics s)\<lparr>mt_dropped := mt_dropped (sb_metrics s) + 1\<rparr>\<rparr>"
      using Cons.prems by (simp add: sb_lossy_send_def sb_enqueue_def)
    from Cons.IH [of "sb_lossy_send dg s"] Cons.prems False show ?thesis by (simp add: t Suc_diff_le)
  qed
qed simp

lemma boundary_tests:
  "try_send_signals_backpressure inner" "overload_is_bounded_and_visible inner"
  "queue_saturation_is_typed_backpressure_with_dropped_metric inner" "oracle_updates_are_observable inner"
proof -
  have n: "length (numbered k) = k" for k by (simp add: numbered_def)
  show "try_send_signals_backpressure inner"
    using flood_fills [of "new_substrate 0 Datagram (slot_params 100) inner 2" "numbered 200"]
    by (simp add: try_send_signals_backpressure_def n new_substrate_def)
  show "overload_is_bounded_and_visible inner"
    using lossy_flood [of "new_substrate 0 Datagram (slot_params 50) inner 4" "numbered 2000"]
    by (simp add: overload_is_bounded_and_visible_def n new_substrate_def metrics_snapshot_def new_metrics_def)
  define s where "s = snd (flood (numbered 500) (new_substrate 0 Datagram (tiny_oracle\<lparr>slot_interval := from_millis 80\<rparr>) inner 4))"
  have f: "Inl Backpressure \<in> set (fst (flood (numbered 500) (new_substrate 0 Datagram (tiny_oracle\<lparr>slot_interval := from_millis 80\<rparr>) inner 4)))"
      "length (sb_send_q s) = 4" "sb_depth s = 4" "sb_send_up s" "sb_metrics s = new_metrics"
    using flood_fills [of "new_substrate 0 Datagram (tiny_oracle\<lparr>slot_interval := from_millis 80\<rparr>) inner 4" "numbered 500"]
    by (simp_all add: s_def n new_substrate_def)
  show "queue_saturation_is_typed_backpressure_with_dropped_metric inner"
    using f lossy_flood [of s "numbered 2000"]
    by (simp add: queue_saturation_is_typed_backpressure_with_dropped_metric_def case_prod_beta Let_def n metrics_snapshot_def new_metrics_def flip: s_def)
  show "oracle_updates_are_observable inner"
    by (simp add: oracle_updates_are_observable_def update_oracle_def new_substrate_def slot_params_def)
qed

text \<open>Requests to the ingress proxy: the gateway cannot dial the target, or the origin answers.\<close>

definition absolute_get :: "string \<Rightarrow> nat \<Rightarrow> http_request" where
  "absolute_get host port = \<lparr>rq_method = ''GET'', rq_authority = Some (host @ '':'' @ show_nat port), rq_host = Some host, rq_port = Some port,
     rq_path_and_query = Some ''/'', rq_headers = no_headers(''host'' := [host]), rq_body = []\<rparr>"

definition bad_upstream_is_502 :: "string \<Rightarrow> bool" where
  "bad_upstream_is_502 e \<longleftrightarrow> rs_status (fst (serve_request (Some ()) (\<lambda>_ _ _. Inl e) (absolute_get ''127.0.0.1'' 9))) = 502"

definition origin_answer :: http_response where
  "origin_answer = \<lparr>rs_status = 200, rs_headers = no_headers(''content-length'' := [''12''], ''connection'' := [''close'']), rs_body = string_bytes ''hello-origin''\<rparr>"

definition forward_absolute_form_and_keep_alive :: "nat \<Rightarrow> bool" where
  "forward_absolute_form_and_keep_alive port \<longleftrightarrow>
     list_all (\<lambda>req. let resp = fst (serve_request (Some ()) (\<lambda>_ _ _. Inr origin_answer) req) in
         rs_status resp = 200 \<and> rs_body resp = string_bytes ''hello-origin'')
       [absolute_get ''127.0.0.1'' port, absolute_get ''127.0.0.1'' port]"

lemma ingress_tests: "bad_upstream_is_502 e" "forward_absolute_form_and_keep_alive port"
  by (simp_all add: bad_upstream_is_502_def forward_absolute_form_and_keep_alive_def serve_request_def proxy_def forward_def absolute_get_def
      status_response_def origin_answer_def Let_def)

section \<open>The failure matrix replayed\<close>

text \<open>Sends that must succeed, and the send pump while it has something to send; without a slot interval it never sleeps.\<close>

fun sends :: "datagram list \<Rightarrow> 's substrate \<Rightarrow> 's substrate option" where
  "sends [] s = Some s"
| "sends (dg # dgs) s = (case sb_send (sb_now s) dg s of Some (Inr _, s') \<Rightarrow> sends dgs s' | _ \<Rightarrow> None)"

fun pump_out :: "(datagram \<Rightarrow> 's \<Rightarrow> (substrate_error + unit) \<times> 's) \<Rightarrow> nat \<Rightarrow> 's substrate \<Rightarrow> 's substrate" where
  "pump_out try_send 0 s = s"
| "pump_out try_send (Suc n) s = (case pump_send try_send (sb_now s) s of Some s' \<Rightarrow> pump_out try_send n s' | None \<Rightarrow> s)"

definition receive_once :: "('s \<Rightarrow> ((substrate_error + datagram) \<times> 's) option) \<Rightarrow> 's substrate \<Rightarrow> (substrate_error + datagram) option" where
  "receive_once try_recv s = map_option fst (Option.bind (Option.bind (pump_take try_recv s) pump_push) sb_recv)"

definition nym_disconnect_send_is_typed_and_counted_not_dropped :: bool where
  "nym_disconnect_send_is_typed_and_counted_not_dropped \<longleftrightarrow>
     (case sends (numbered 40) (new_substrate 0 Datagram tiny_oracle \<lparr>fy_sent = 0, fy_ok_sends = 5\<rparr> 64) of
        None \<Rightarrow> False
      | Some s \<Rightarrow>
          (let m = metrics_snapshot (pump_out faulty_try_send 40 s) in
           mt_sent m = 5 \<and> 1 \<le> mt_send_errors m \<and> mt_sent m + mt_send_errors m \<le> 41))"

definition katz_socket_close_recv_surfaces_typed_error_bounded :: bool where
  "katz_socket_close_recv_surfaces_typed_error_bounded \<longleftrightarrow>
     receive_once faulty_try_recv (new_substrate 0 Datagram tiny_oracle \<lparr>fy_sent = 0, fy_ok_sends = 0\<rparr> 8) = Some (Inl Closed)"

definition inner_failures_are_counted_and_surfaced :: bool where
  "inner_failures_are_counted_and_surfaced \<longleftrightarrow>
     (case sends [string_bytes ''x''] (new_substrate 0 Datagram (slot_params 0) () 8) of
        None \<Rightarrow> False
      | Some s0 \<Rightarrow>
          (let s = pump_out failing_try_send 1 s0; m = metrics_snapshot s; got = receive_once failing_try_recv s in
           1 \<le> mt_send_errors m \<and> mt_sent m = 0 \<and> (got = Some (Inl AuthFailed) \<or> got = Some (Inl Closed))))"

text \<open>The pump takes the first datagram at once and sleeps for a slot; the second fills the queue and the third runs into its deadline.\<close>

definition send_timeout_returns_explicit_backpressure ::
  "(datagram \<Rightarrow> 's \<Rightarrow> (substrate_error + unit) \<times> 's) \<Rightarrow> 's \<Rightarrow> bool" where
  "send_timeout_returns_explicit_backpressure try_send inner \<longleftrightarrow>
     (let dg = replicate 8 0; limit = from_millis 20;
          send = (\<lambda>s. Option.bind (sb_send_timeout (sb_now s) dg limit s) (\<lambda>(r, s'). if r = Inr () then Some s' else None));
          full = Option.bind (Option.bind (send (new_substrate 0 Datagram (slot_params 100) inner 1)) (pump_send try_send 0)) send
      in case full of
           None \<Rightarrow> False
         | Some s \<Rightarrow>
             sb_send_timeout (sb_now s) dg limit s = None \<and> pump_send try_send limit (s\<lparr>sb_now := limit\<rparr>) = None \<and>
             map_option fst (sb_send_timeout (sb_now s) dg limit (s\<lparr>sb_now := limit\<rparr>)) = Some (Inl Backpressure))"

text \<open>Senders and updates of the oracle in some order, with turns of the send pump between them.\<close>

datatype load_event = TrySend datagram | UpdateSlot nat | PumpTurn nat

fun load_step :: "(datagram \<Rightarrow> 's \<Rightarrow> (substrate_error + unit) \<times> 's) \<Rightarrow> load_event \<Rightarrow> 's substrate \<Rightarrow> 's substrate" where
  "load_step try_send (TrySend dg) s = snd (sb_try_send dg s)"
| "load_step try_send (UpdateSlot ms) s = update_oracle (tiny_oracle\<lparr>slot_interval := from_millis ms\<rparr>) s"
| "load_step try_send (PumpTurn t) s = (case pump_send try_send t s of Some s' \<Rightarrow> s' | None \<Rightarrow> s)"

fun updated_slots :: "load_event list \<Rightarrow> nat list" where
  "updated_slots [] = []"
| "updated_slots (UpdateSlot ms # es) = ms # updated_slots es"
| "updated_slots (_ # es) = updated_slots es"

definition oracle_change_under_concurrent_load_is_safe_and_bounded ::
  "(datagram \<Rightarrow> 's \<Rightarrow> (substrate_error + unit) \<times> 's) \<Rightarrow> 's \<Rightarrow> load_event list \<Rightarrow> bool" where
  "oracle_change_under_concurrent_load_is_safe_and_bounded try_send inner es \<longleftrightarrow>
     (let s = fold (load_step try_send) es (new_substrate 0 Datagram tiny_oracle inner 256) in
      slot_interval (sb_oracle s) = from_millis 9 \<and> length (sb_send_q s) \<le> 256)"

lemma sends_queue:
  "sb_send_up s \<Longrightarrow> length (sb_send_q s) + length dgs \<le> sb_depth s \<Longrightarrow> sends dgs s = Some (s\<lparr>sb_send_q := sb_send_q s @ map (Pair (sb_now s)) dgs\<rparr>)"
  by (induction dgs arbitrary: s) (auto simp: sb_send_def sb_enqueue_def)

text \<open>The counters after turns of the pump over the faulty transport: it has tried as many as were counted.\<close>

lemma pump_out_counts:
  assumes "sb_send_up s" and "sb_wake s \<le> sb_now s" and "slot_interval (sb_oracle s) = 0" and "n \<le> length (sb_send_q s)"
    and "fy_sent (sb_inner s) = of_nat i" and "i + n < 2 ^ 64"
    and "mt_sent (sb_metrics s) = of_nat (min (unat (fy_ok_sends (sb_inner s))) i)"
    and "mt_send_errors (sb_metrics s) = of_nat (i - unat (fy_ok_sends (sb_inner s)))"
  shows "mt_sent (sb_metrics (pump_out faulty_try_send n s)) = of_nat (min (unat (fy_ok_sends (sb_inner s))) (i + n)) \<and>
    mt_send_errors (sb_metrics (pump_out faulty_try_send n s)) = of_nat (i + n - unat (fy_ok_sends (sb_inner s)))"
  using assms
proof (induction n arbitrary: s i)
  case (Suc n)
  obtain c dg q where q: "sb_send_q s = (c, dg) # q" using Suc.prems(4) by (cases "sb_send_q s") auto
  have "unat (of_nat i :: u64) = i" using Suc.prems(6) by (simp add: unat_of_nat take_bit_nat_eq_self)
  then have less: "fy_sent (sb_inner s) < fy_ok_sends (sb_inner s) \<longleftrightarrow> i < unat (fy_ok_sends (sb_inner s))"
    using Suc.prems(5) by (simp add: word_less_nat_alt)
  obtain s' where s': "pump_send faulty_try_send (sb_now s) s = Some s'"
    and f: "sb_send_up s'" "sb_wake s' \<le> sb_now s'" "slot_interval (sb_oracle s') = 0" "sb_send_q s' = q" "fy_ok_sends (sb_inner s') = fy_ok_sends (sb_inner s)"
      "fy_sent (sb_inner s') = of_nat (Suc i)"
      "mt_sent (sb_metrics s') = of_nat (min (unat (fy_ok_sends (sb_inner s))) (Suc i))"
      "mt_send_errors (sb_metrics s') = of_nat (Suc i - unat (fy_ok_sends (sb_inner s)))"
    using Suc.prems q less
    by (cases "i < unat (fy_ok_sends (sb_inner s))") (simp_all add: pump_send_def faulty_try_send_def Let_def min_absorb1 min_absorb2 Suc_leI not_less Suc_diff_le)
  show ?case using Suc.IH [OF f(1-3), of "Suc i"] Suc.prems(4,6) f q by (simp add: s')
qed simp

lemma failure_tests:
  "nym_disconnect_send_is_typed_and_counted_not_dropped" "katz_socket_close_recv_surfaces_typed_error_bounded" "inner_failures_are_counted_and_surfaced"
  "send_timeout_returns_explicit_backpressure try_send inner"
proof -
  let ?s0 = "new_substrate 0 Datagram tiny_oracle \<lparr>fy_sent = 0, fy_ok_sends = 5\<rparr> 64"
  have s: "sends (numbered 40) ?s0 = Some (?s0\<lparr>sb_send_q := map (Pair 0) (numbered 40)\<rparr>)"
    by (subst sends_queue) (simp_all add: new_substrate_def numbered_def)
  show "nym_disconnect_send_is_typed_and_counted_not_dropped"
    using pump_out_counts [of "?s0\<lparr>sb_send_q := map (Pair 0) (numbered 40)\<rparr>" 40 0]
    unfolding nym_disconnect_send_is_typed_and_counted_not_dropped_def s
    by (simp add: Let_def metrics_snapshot_def new_substrate_def new_metrics_def numbered_def tiny_oracle_def)
  show "katz_socket_close_recv_surfaces_typed_error_bounded"
    by (simp add: katz_socket_close_recv_surfaces_typed_error_bounded_def receive_once_def pump_take_def pump_push_def sb_recv_def faulty_try_recv_def new_substrate_def)
  show "inner_failures_are_counted_and_surfaced"
    by (simp add: inner_failures_are_counted_and_surfaced_def receive_once_def pump_take_def pump_push_def sb_recv_def failing_try_recv_def failing_try_send_def
        new_substrate_def sb_send_def sb_enqueue_def pump_send_def Let_def metrics_snapshot_def new_metrics_def)
  show "send_timeout_returns_explicit_backpressure try_send inner"
    by (cases "try_send (replicate 8 0) inner")
      (simp add: send_timeout_returns_explicit_backpressure_def new_substrate_def sb_send_timeout_def sb_enqueue_def pump_send_def slot_params_def
        from_millis_def Let_def)
qed

text \<open>Whatever the order of sends, updates and pump turns, the last update is in force and the queue within its depth.\<close>

lemma load_step_frame:
  "length (sb_send_q s) \<le> sb_depth s \<Longrightarrow> length (sb_send_q (load_step try_send e s)) \<le> sb_depth s"
  "sb_depth (load_step try_send e s) = sb_depth s"
  "slot_interval (sb_oracle (load_step try_send e s)) = (case updated_slots [e] of [ms] \<Rightarrow> from_millis ms | _ \<Rightarrow> slot_interval (sb_oracle s))"
  by (cases e; auto simp: sb_try_send_def sb_enqueue_def update_oracle_def pump_send_def Let_def split: option.splits if_splits list.splits sum.splits prod.splits)+

lemma load_run:
  "length (sb_send_q s) \<le> sb_depth s \<Longrightarrow>
   length (sb_send_q (fold (load_step try_send) es s)) \<le> sb_depth s \<and>
   slot_interval (sb_oracle (fold (load_step try_send) es s)) =
     (if updated_slots es = [] then slot_interval (sb_oracle s) else from_millis (last (updated_slots es)))"
proof (induction es arbitrary: s)
  case (Cons e es)
  from Cons.IH [of "load_step try_send e s"] Cons.prems show ?case
    using load_step_frame(1) [of s try_send e] load_step_frame(2,3) [of try_send e s] by (cases e) auto
qed simp

lemma oracle_change_test:
  "updated_slots es = [1, 7, 3, 11, 5, 9] \<Longrightarrow> oracle_change_under_concurrent_load_is_safe_and_bounded try_send inner es"
  using load_run [of "new_substrate 0 Datagram tiny_oracle inner 256" try_send es]
  by (simp add: oracle_change_under_concurrent_load_is_safe_and_bounded_def new_substrate_def)


end
