(* ===== verification/Bridge_Server.thy ===== *)
theory Bridge_Server
  imports Bridge
begin

text \<open>
  The stream bridge as a server, \<open>serve\<close> of \<^verbatim>\<open>crates/quicmix/src/stream_bridge.rs\<close>: its accept loop and all its
  connections (theory Bridge) in every interleaving. The QUIC listener tells the connections apart by the source address of what it
  receives: each has a UDP socket of its own. An address is given to one open socket at a time, and may be given again when that one is
  closed.
\<close>

record bridge_peer =
  bp_tcp :: tcp_stream
  bp_conn :: "io_error + bridge_conn"
  bp_sent :: "datagram list"
  bp_rcvd :: "datagram list"

definition peer_addr :: "bridge_peer \<Rightarrow> socket_addr option" where
  "peer_addr p = (case bp_conn p of Inr c \<Rightarrow> Some (bc_udp c) | Inl _ \<Rightarrow> None)"

definition peer_open :: "bridge_peer \<Rightarrow> bool" where
  "peer_open p \<longleftrightarrow> (case bp_conn p of Inr c \<Rightarrow> bc_open c | Inl _ \<Rightarrow> False)"

text \<open>The server: its tasks in the order they were spawned, and the datagrams that passed its sockets, with the socket's address.\<close>

record bridge_server =
  sv_quic :: socket_addr
  sv_peers :: "bridge_peer list"
  sv_in :: "(socket_addr \<times> datagram) list"
  sv_out :: "(socket_addr \<times> datagram) list"

definition bridge_serve :: "io_error option \<Rightarrow> socket_addr \<Rightarrow> io_error + bridge_server" where
  "bridge_serve bind_error quic_local =
     (case bind_error of
        Some e \<Rightarrow> Inl e
      | None \<Rightarrow> Inr \<lparr>sv_quic = quic_local, sv_peers = [], sv_in = [], sv_out = []\<rparr>)"

text \<open>A turn of the accept loop: a failed accept is skipped, an accepted stream gets a task. \<open>bound\<close> is the outcome of
  binding the task's socket; a bound address is not that of an open socket.\<close>

definition bridge_accept :: "io_error + tcp_stream \<Rightarrow> io_error + socket_addr \<Rightarrow> bridge_server \<Rightarrow> bridge_server" where
  "bridge_accept accepted bound s =
     (case accepted of
        Inl _ \<Rightarrow> s
      | Inr tcp \<Rightarrow>
          s\<lparr>sv_peers := sv_peers s @
            [\<lparr>bp_tcp = tcp, bp_conn = bridge_handle bound tcp (sv_quic s), bp_sent = [], bp_rcvd = []\<rparr>]\<rparr>)"

definition fresh_bound :: "io_error + socket_addr \<Rightarrow> bridge_server \<Rightarrow> bool" where
  "fresh_bound bound s \<longleftrightarrow>
     (case bound of Inr a \<Rightarrow> list_all (\<lambda>p. peer_open p \<longrightarrow> peer_addr p \<noteq> Some a) (sv_peers s) | Inl _ \<Rightarrow> True)"

text \<open>A step of a task: what it sent and what it received go into the logs.\<close>

definition peer_did :: "nat \<Rightarrow> datagram list \<Rightarrow> datagram list \<Rightarrow> bridge_conn \<Rightarrow> bridge_server \<Rightarrow> bridge_server" where
  "peer_did i sent rcvd c s =
     (let p = sv_peers s ! i in
      s\<lparr>sv_peers := (sv_peers s)[i := p\<lparr>bp_conn := Inr c, bp_sent := bp_sent p @ sent, bp_rcvd := bp_rcvd p @ rcvd\<rparr>],
        sv_in := sv_in s @ map (Pair (bc_udp c)) sent, sv_out := sv_out s @ map (Pair (bc_udp c)) rcvd\<rparr>)"

inductive server_exec :: "bridge_server \<Rightarrow> bridge_server \<Rightarrow> bool" for s0 where
  se_start: "server_exec s0 s0"
| se_accept_error: "server_exec s0 s \<Longrightarrow> server_exec s0 (bridge_accept (Inl e) bound s)"
| se_accept: "server_exec s0 s \<Longrightarrow> fresh_bound bound s \<Longrightarrow> w_out (t_write tcp) = [] \<Longrightarrow> server_exec s0 (bridge_accept (Inr tcp) bound s)"
| se_up: "server_exec s0 s \<Longrightarrow> i < length (sv_peers s) \<Longrightarrow> bp_conn (sv_peers s ! i) = Inr c \<Longrightarrow> up_turn ok k c = Some (out, c') \<Longrightarrow>
    server_exec s0 (peer_did i out [] c' s)"
| se_recv: "server_exec s0 s \<Longrightarrow> i < length (sv_peers s) \<Longrightarrow> bp_conn (sv_peers s ! i) = Inr c \<Longrightarrow> down_recv (Some dg) c = Some c' \<Longrightarrow>
    server_exec s0 (peer_did i [] [take 65535 dg] c' s)"
| se_recv_error: "server_exec s0 s \<Longrightarrow> i < length (sv_peers s) \<Longrightarrow> bp_conn (sv_peers s ! i) = Inr c \<Longrightarrow> down_recv None c = Some c' \<Longrightarrow>
    server_exec s0 (peer_did i [] [] c' s)"
| se_write: "server_exec s0 s \<Longrightarrow> i < length (sv_peers s) \<Longrightarrow> bp_conn (sv_peers s ! i) = Inr c \<Longrightarrow> down_write c = Some c' \<Longrightarrow>
    server_exec s0 (peer_did i [] [] c' s)"

section \<open>Each task runs on its own\<close>

lemma conn_frame:
  "up_turn ok k c = Some (out, c') \<Longrightarrow> bc_open c \<and> bc_udp c' = bc_udp c"
  "down_recv x c = Some c' \<Longrightarrow> bc_open c \<and> bc_udp c' = bc_udp c"
  "down_write c = Some c' \<Longrightarrow> bc_open c \<and> bc_udp c' = bc_udp c"
  by (auto simp: up_turn_def bridge_drop_def down_recv_def down_write_def Let_def split: if_splits option.splits list.splits prod.splits sum.splits)

definition task_runs :: "socket_addr \<Rightarrow> bridge_peer \<Rightarrow> bool" where
  "task_runs quic p \<longleftrightarrow> w_out (t_write (bp_tcp p)) = [] \<and>
     (case bp_conn p of
        Inl _ \<Rightarrow> bp_sent p = [] \<and> bp_rcvd p = []
      | Inr c \<Rightarrow> \<exists>c0. bridge_handle (Inr (bc_udp c)) (bp_tcp p) quic = Inr c0 \<and> bridge_exec c0 (bp_sent p) (bp_rcvd p) c)"

text \<open>An open socket is the last one with its address, so that a log of one address is the logs of its tasks one after the other.\<close>

definition server_inv :: "bridge_server \<Rightarrow> bool" where
  "server_inv s \<longleftrightarrow> list_all (task_runs (sv_quic s)) (sv_peers s) \<and>
     sorted_wrt (\<lambda>p q. peer_open p \<longrightarrow> peer_addr q \<noteq> peer_addr p) (sv_peers s)"

definition of_addr :: "(bridge_peer \<Rightarrow> datagram list) \<Rightarrow> socket_addr \<Rightarrow> bridge_peer list \<Rightarrow> datagram list" where
  "of_addr f a ps = concat (map f (filter (\<lambda>p. peer_addr p = Some a) ps))"

lemma of_addr_simps [simp]:
  "of_addr f a [] = []" "of_addr f a (p # ps) = (if peer_addr p = Some a then f p else []) @ of_addr f a ps"
  "of_addr f a (ps @ qs) = of_addr f a ps @ of_addr f a qs"
  by (simp_all add: of_addr_def)

lemma of_addr_update:
  assumes "i < length ps" and "sorted_wrt (\<lambda>p q. peer_open p \<longrightarrow> peer_addr q \<noteq> peer_addr p) ps" and "peer_open (ps ! i)"
    and "peer_addr (ps ! i) = Some b" and "peer_addr p = Some b" and "f p = f (ps ! i) @ out"
  shows "of_addr f a (ps[i := p]) = of_addr f a ps @ (if a = b then out else [])"
proof -
  let ?xs = "take i ps" and ?ys = "drop (Suc i) ps"
  have ps: "ps = ?xs @ ps ! i # ?ys" by (rule id_take_nth_drop [OF assms(1)])
  have upd: "ps[i := p] = ?xs @ p # ?ys" by (rule upd_conv_take_nth_drop [OF assms(1)])
  have "\<forall>q \<in> set ?ys. peer_addr q \<noteq> Some b"
    using assms(2-4) by (subst (asm) ps) (auto simp: sorted_wrt_append)
  then have "of_addr f b ?ys = []" by (auto simp: of_addr_def filter_empty_conv)
  then show ?thesis
    by (subst ps, subst upd) (use assms(4-6) in auto)
qed

lemma sorted_update:
  assumes "sorted_wrt R ps" and "i < length ps" and "\<And>q. R q (ps ! i) \<Longrightarrow> R q p" and "\<And>q. R (ps ! i) q \<Longrightarrow> R p q"
  shows "sorted_wrt R (ps[i := p])"
  using assms by (auto simp: sorted_wrt_iff_nth_less nth_list_update)

lemma peer_did_inv:
  assumes "server_inv s" and "i < length (sv_peers s)" and "bp_conn (sv_peers s ! i) = Inr c" and "bc_open c" and "bc_udp c' = bc_udp c"
    and "\<And>c0 sent rcvd. bridge_exec c0 sent rcvd c \<Longrightarrow> bridge_exec c0 (sent @ out) (rcvd @ rec) c'"
  shows "server_inv (peer_did i out rec c' s)"
    and "of_addr bp_sent a (sv_peers (peer_did i out rec c' s)) = of_addr bp_sent a (sv_peers s) @ (if a = bc_udp c then out else [])"
    and "of_addr bp_rcvd a (sv_peers (peer_did i out rec c' s)) = of_addr bp_rcvd a (sv_peers s) @ (if a = bc_udp c then rec else [])"
proof -
  let ?p = "sv_peers s ! i"
  let ?p' = "?p\<lparr>bp_conn := Inr c', bp_sent := bp_sent ?p @ out, bp_rcvd := bp_rcvd ?p @ rec\<rparr>"
  let ?R = "\<lambda>p q. peer_open p \<longrightarrow> peer_addr q \<noteq> peer_addr p"
  have ps: "sv_peers (peer_did i out rec c' s) = (sv_peers s)[i := ?p']" by (simp add: peer_did_def Let_def)
  have o: "peer_open ?p" "peer_addr ?p = Some (bc_udp c)" "peer_addr ?p' = Some (bc_udp c)"
    using assms(3-5) by (simp_all add: peer_open_def peer_addr_def)
  have tasks: "list_all (task_runs (sv_quic s)) (sv_peers s)" and sorted: "sorted_wrt ?R (sv_peers s)"
    using assms(1) by (simp_all add: server_inv_def)
  have "task_runs (sv_quic s) ?p" using tasks assms(2) by (simp add: list_all_length)
  then have "task_runs (sv_quic s) ?p'" using assms(3,5,6) by (auto simp: task_runs_def)
  then have "list_all (task_runs (sv_quic s)) ((sv_peers s)[i := ?p'])"
    using tasks by (auto simp: list_all_iff dest!: set_update_subset_insert [THEN subsetD])
  moreover have "sorted_wrt ?R ((sv_peers s)[i := ?p'])" by (rule sorted_update [OF sorted assms(2)]) (use o in auto)
  ultimately show "server_inv (peer_did i out rec c' s)" by (simp add: server_inv_def ps) (simp add: peer_did_def Let_def)
  show "of_addr bp_sent a (sv_peers (peer_did i out rec c' s)) = of_addr bp_sent a (sv_peers s) @ (if a = bc_udp c then out else [])"
    "of_addr bp_rcvd a (sv_peers (peer_did i out rec c' s)) = of_addr bp_rcvd a (sv_peers s) @ (if a = bc_udp c then rec else [])"
    unfolding ps by (rule of_addr_update [OF assms(2) sorted o]; simp)+
qed

definition from_addr :: "socket_addr \<Rightarrow> (socket_addr \<times> datagram) list \<Rightarrow> datagram list" where
  "from_addr a xs = map snd (filter (\<lambda>x. fst x = a) xs)"

lemma from_addr_simps [simp]:
  "from_addr a [] = []" "from_addr a (xs @ ys) = from_addr a xs @ from_addr a ys"
  "from_addr a (map (Pair b) ds) = (if a = b then ds else [])"
  by (induction ds) (auto simp: from_addr_def)

lemma accept_inv:
  assumes "server_inv s" and "fresh_bound bound s" and "w_out (t_write tcp) = []"
  shows "server_inv (bridge_accept (Inr tcp) bound s)"
  using assms
  by (cases bound) (auto simp: server_inv_def bridge_accept_def bridge_handle_def task_runs_def fresh_bound_def list_all_iff sorted_wrt_append
      peer_open_def peer_addr_def intro: bx_start split: sum.splits)

lemma peer_did_logs [simp]:
  "sv_in (peer_did i out rec c s) = sv_in s @ map (Pair (bc_udp c)) out" "sv_out (peer_did i out rec c s) = sv_out s @ map (Pair (bc_udp c)) rec"
  by (simp_all add: peer_did_def Let_def)

definition logs_agree :: "bridge_server \<Rightarrow> bool" where
  "logs_agree s \<longleftrightarrow> (\<forall>a. from_addr a (sv_in s) = of_addr bp_sent a (sv_peers s) \<and> from_addr a (sv_out s) = of_addr bp_rcvd a (sv_peers s))"

lemma peer_did_agrees:
  assumes "server_inv s" and "logs_agree s" and "i < length (sv_peers s)" and "bp_conn (sv_peers s ! i) = Inr c" and "bc_open c \<and> bc_udp c' = bc_udp c"
    and "\<And>c0 sent rcvd. bridge_exec c0 sent rcvd c \<Longrightarrow> bridge_exec c0 (sent @ out) (rcvd @ rec) c'"
  shows "server_inv (peer_did i out rec c' s) \<and> logs_agree (peer_did i out rec c' s)"
  using peer_did_inv [OF assms(1,3,4) conjunct1 [OF assms(5)] conjunct2 [OF assms(5)] assms(6)] assms(2,5) by (simp add: logs_agree_def)

lemma server_exec_inv: "server_exec s0 s \<Longrightarrow> bridge_serve None quic = Inr s0 \<Longrightarrow> server_inv s \<and> logs_agree s \<and> sv_quic s = quic"
proof (induction rule: server_exec.induct)
  case se_start
  then show ?case by (auto simp: bridge_serve_def server_inv_def logs_agree_def)
next
  case (se_accept_error s e bound)
  then show ?case by (simp add: bridge_accept_def)
next
  case (se_accept s bound tcp)
  then show ?case using accept_inv [of s bound tcp]
    by (auto simp: logs_agree_def bridge_accept_def)
next
  case (se_up s i c ok k out c')
  then show ?case using peer_did_agrees [OF _ _ se_up.hyps(2,3) conn_frame(1) [OF se_up.hyps(4)], of out "[]"] bx_up [OF _ se_up.hyps(4)]
    by (simp add: peer_did_def Let_def)
next
  case (se_recv s i c dg c')
  then show ?case using peer_did_agrees [OF _ _ se_recv.hyps(2,3) conn_frame(2) [OF se_recv.hyps(4)], of "[]" "[take 65535 dg]"] bx_recv [OF _ se_recv.hyps(4)]
    by (simp add: peer_did_def Let_def)
next
  case (se_recv_error s i c c')
  then show ?case using peer_did_agrees [OF _ _ se_recv_error.hyps(2,3) conn_frame(2) [OF se_recv_error.hyps(4)], of "[]" "[]"] bx_recv_error [OF _ se_recv_error.hyps(4)]
    by (simp add: peer_did_def Let_def)
next
  case (se_write s i c c')
  then show ?case using peer_did_agrees [OF _ _ se_write.hyps(2,3) conn_frame(3) [OF se_write.hyps(4)], of "[]" "[]"] bx_write [OF _ se_write.hyps(4)]
    by (simp add: peer_did_def Let_def)
qed

section \<open>Properties\<close>

text \<open>C2: the stream bridge keeps its clients apart. In every interleaving of its accept loop and its connections, with failed accepts,
  failed binds and any failure of a connection, what the QUIC listener received from an address is, one after the other, what the connections
  that had that address sent, and likewise for what was sent to it; at no time do two open connections have the same
  address; each connection sent the frames of its own client in order and without gaps, as far as they went, and its client gets a prefix of
  what that connection received, all of it while it is open and idle.\<close>

theorem bridge_server_isolates:
  assumes "bridge_serve None quic = Inr s0" and "server_exec s0 s"
  shows "(\<forall>a. from_addr a (sv_in s) = concat (map bp_sent (filter (\<lambda>p. peer_addr p = Some a) (sv_peers s))) \<and>
       from_addr a (sv_out s) = concat (map bp_rcvd (filter (\<lambda>p. peer_addr p = Some a) (sv_peers s)))) \<and>
    distinct (map peer_addr (filter peer_open (sv_peers s))) \<and>
    list_all (\<lambda>p. prefix (bp_sent p) (to_udp [] (t_read (bp_tcp p))) \<and>
      (case bp_conn p of
         Inl _ \<Rightarrow> bp_sent p = [] \<and> bp_rcvd p = []
       | Inr c \<Rightarrow> prefix (fst (sd_recv_all \<lparr>r_bytes = w_out (bc_wr c), r_end = e\<rparr>)) (bp_rcvd p) \<and>
           (bc_open c \<and> bc_pending c = [] \<longrightarrow> sd_recv_all \<lparr>r_bytes = w_out (bc_wr c), r_end = e\<rparr> = (bp_rcvd p, map_io e)))) (sv_peers s)"
proof (intro conjI)
  note inv = server_exec_inv [OF assms(2,1)]
  show "\<forall>a. from_addr a (sv_in s) = concat (map bp_sent (filter (\<lambda>p. peer_addr p = Some a) (sv_peers s))) \<and>
       from_addr a (sv_out s) = concat (map bp_rcvd (filter (\<lambda>p. peer_addr p = Some a) (sv_peers s)))"
    using inv by (simp add: logs_agree_def of_addr_def)
  have "sorted_wrt (\<lambda>p q. peer_open p \<longrightarrow> peer_addr q \<noteq> peer_addr p) ps \<Longrightarrow> distinct (map peer_addr (filter peer_open ps))" for ps
    by (induction ps) auto
  with inv show "distinct (map peer_addr (filter peer_open (sv_peers s)))" by (simp add: server_inv_def)
  have one: "prefix (bp_sent p) (to_udp [] (t_read (bp_tcp p))) \<and>
      (case bp_conn p of
         Inl _ \<Rightarrow> bp_sent p = [] \<and> bp_rcvd p = []
       | Inr c \<Rightarrow> prefix (fst (sd_recv_all \<lparr>r_bytes = w_out (bc_wr c), r_end = e\<rparr>)) (bp_rcvd p) \<and>
           (bc_open c \<and> bc_pending c = [] \<longrightarrow> sd_recv_all \<lparr>r_bytes = w_out (bc_wr c), r_end = e\<rparr> = (bp_rcvd p, map_io e)))"
    if "task_runs quic p" for p
    using that bridge_run [of _ "bp_tcp p" quic] by (auto simp: task_runs_def split: sum.splits)
  with inv show "list_all (\<lambda>p. prefix (bp_sent p) (to_udp [] (t_read (bp_tcp p))) \<and>
      (case bp_conn p of
         Inl _ \<Rightarrow> bp_sent p = [] \<and> bp_rcvd p = []
       | Inr c \<Rightarrow> prefix (fst (sd_recv_all \<lparr>r_bytes = w_out (bc_wr c), r_end = e\<rparr>)) (bp_rcvd p) \<and>
           (bc_open c \<and> bc_pending c = [] \<longrightarrow> sd_recv_all \<lparr>r_bytes = w_out (bc_wr c), r_end = e\<rparr> = (bp_rcvd p, map_io e)))) (sv_peers s)"
    by (auto simp: server_inv_def list_all_iff)
qed

definition second_tcp :: tcp_stream where
  "second_tcp = \<lparr>t_read = \<lparr>r_bytes = frame [3], r_end = UnexpectedEof\<rparr>, t_write = \<lparr>w_out = [], w_faults = []\<rparr>\<rparr>"

definition demo_conn :: "socket_addr \<Rightarrow> byte list \<Rightarrow> byte list list \<Rightarrow> bridge_conn" where
  "demo_conn a out pending = \<lparr>bc_udp = a, bc_quic = SockAddr (V4 127 0 0 1) 4433, bc_rd = \<lparr>r_bytes = [], r_end = UnexpectedEof\<rparr>,
     bc_wr = \<lparr>w_out = out, w_faults = []\<rparr>, bc_pending = pending, bc_open = True\<rparr>"

definition demo_server :: "bridge_peer list \<Rightarrow> (socket_addr \<times> datagram) list \<Rightarrow> (socket_addr \<times> datagram) list \<Rightarrow> bridge_server" where
  "demo_server ps ins outs = \<lparr>sv_quic = SockAddr (V4 127 0 0 1) 4433, sv_peers = ps, sv_in = ins, sv_out = outs\<rparr>"

abbreviation served_peer :: "socket_addr \<Rightarrow> byte list \<Rightarrow> byte list list \<Rightarrow> datagram list \<Rightarrow> bridge_peer" where
  "served_peer a out pending rcvd \<equiv> \<lparr>bp_tcp = demo_bridge_tcp, bp_conn = Inr (demo_conn a out pending), bp_sent = [[1, 2]], bp_rcvd = rcvd\<rparr>"

lemma demo_up:
  assumes "bridge_ok d"
  shows "up_turn True 0 (demo_conn a [] []\<lparr>bc_rd := \<lparr>r_bytes = frame d, r_end = UnexpectedEof\<rparr>\<rparr>) = Some ([d], demo_conn a [] [])"
  using bridge_next_frame [OF assms, of "[]" UnexpectedEof] by (simp add: up_turn_def demo_conn_def)

text \<open>Two clients, with a failed accept between them; the first gets a reply.\<close>

lemma demo_server_run:
  fixes a b :: socket_addr
  assumes "a \<noteq> b"
  shows "server_exec (demo_server [] [] []) (demo_server [served_peer a (frame [9]) [] [[9]],
      \<lparr>bp_tcp = second_tcp, bp_conn = Inr (demo_conn b [] []), bp_sent = [[3]], bp_rcvd = []\<rparr>] [(a, [1, 2]), (b, [3])] [(a, [9])])"
proof -
  let ?q = "SockAddr (V4 127 0 0 1) 4433"
  let ?start = "\<lambda>a d. demo_conn a [] []\<lparr>bc_rd := \<lparr>r_bytes = frame d, r_end = UnexpectedEof\<rparr>\<rparr>"
  let ?p = "\<lparr>bp_tcp = demo_bridge_tcp, bp_conn = Inr (?start a [1, 2]), bp_sent = [], bp_rcvd = []\<rparr>"
  let ?two = "\<lparr>bp_tcp = second_tcp, bp_conn = Inr (?start b [3]), bp_sent = [], bp_rcvd = []\<rparr>"
  have ok: "bridge_ok [1, 2]" "bridge_ok [3]" by (simp_all add: bridge_ok_def MAX_DATAGRAM_def)
  have len: "to_be 4 (Suc 0) = [0, 0, 0, 1]" by code_simp
  have nine: "frame [9] = [0, 0, 0, 1, 9]" by (simp add: frame_def len_prefix_def len)
  have "server_exec (demo_server [] [] []) (demo_server [?p] [] [])"
    using se_accept [OF se_start, of "Inr a" "demo_server [] [] []" demo_bridge_tcp]
    by (simp add: bridge_accept_def bridge_handle_def demo_bridge_tcp_def demo_server_def fresh_bound_def demo_conn_def)
  from se_accept_error [OF this, of "OtherIo ''accept''" "Inr a"] have "server_exec (demo_server [] [] []) (demo_server [?p] [] [])"
    by (simp add: bridge_accept_def)
  from se_accept [OF this, of "Inr b" second_tcp] have "server_exec (demo_server [] [] []) (demo_server [?p, ?two] [] [])"
    using assms by (simp add: bridge_accept_def bridge_handle_def second_tcp_def demo_server_def fresh_bound_def peer_open_def peer_addr_def demo_conn_def)
  from se_up [OF this, of 0, OF _ _ demo_up [OF ok(1)]] have "server_exec (demo_server [] [] []) (demo_server [served_peer a [] [] [], ?two] [(a, [1, 2])] [])"
    by (simp add: demo_server_def peer_did_def) (simp add: demo_conn_def)
  moreover have "down_recv (Some [9]) (demo_conn a [] []) = Some (demo_conn a [] [[0, 0, 0, 1], [9], []])" by (simp add: down_recv_def demo_conn_def len)
  ultimately have "server_exec (demo_server [] [] []) (peer_did 0 [] [take 65535 [9]] (demo_conn a [] [[0, 0, 0, 1], [9], []])
      (demo_server [served_peer a [] [] [], ?two] [(a, [1, 2])] []))" by (intro se_recv) (simp_all add: demo_server_def)
  then have pend: "server_exec (demo_server [] [] []) (demo_server [served_peer a [] [[0, 0, 0, 1], [9], []] [[9]], ?two] [(a, [1, 2])] [(a, [9])])"
    by (simp add: demo_server_def peer_did_def) (simp add: demo_conn_def)
  have w: "down_write (demo_conn a out (bs # rest)) = Some (demo_conn a (out @ bs) rest)" for out bs rest
    by (simp add: down_write_def demo_conn_def)
  have dw: "server_exec (demo_server [] [] []) (demo_server [served_peer a (out @ bs) rest [[9]], ?two] [(a, [1, 2])] [(a, [9])])"
    if "server_exec (demo_server [] [] []) (demo_server [served_peer a out (bs # rest) [[9]], ?two] [(a, [1, 2])] [(a, [9])])" for out bs rest
    using se_write [OF that, of 0, OF _ _ w] by (simp add: demo_server_def peer_did_def)
  have "server_exec (demo_server [] [] []) (demo_server [served_peer a (frame [9]) [] [[9]], ?two] [(a, [1, 2])] [(a, [9])])"
    using dw [OF dw [OF dw [OF pend]]] by (simp add: nine)
  from se_up [OF this, of 1, OF _ _ demo_up [OF ok(2)]] show ?thesis
    by (simp add: demo_server_def peer_did_def) (simp add: demo_conn_def)
qed

theorem bridge_server_isolates_witness:
  "\<exists>s. server_exec (demo_server [] [] []) s \<and>
     from_addr (SockAddr (V4 127 0 0 1) 5000) (sv_in s) = [[1, 2]] \<and> from_addr (SockAddr (V4 127 0 0 1) 5001) (sv_in s) = [[3]] \<and>
     distinct (map peer_addr (filter peer_open (sv_peers s))) \<and> length (sv_peers s) = 2"
proof -
  let ?a = "SockAddr (V4 127 0 0 1) 5000" and ?b = "SockAddr (V4 127 0 0 1) 5001"
  have s0: "bridge_serve None (SockAddr (V4 127 0 0 1) 4433) = Inr (demo_server [] [] [])" by (simp add: bridge_serve_def demo_server_def)
  have "?a \<noteq> ?b" by simp
  note run = demo_server_run [OF this]
  from bridge_server_isolates [OF s0 run] run show ?thesis
    by (intro exI conjI) (assumption, simp_all add: demo_server_def peer_addr_def demo_conn_def)
qed

end
