(* ===== verification/Tor_Path.thy ===== *)
theory Tor_Path
  imports Bridge_Server Node Carrier
begin

text \<open>
  The whole Tor path: the boundary of a Tor sidecar (theories Substrate and Tor), its circuit, and the stream bridge of the
  gateway with all its other clients (theory Bridge_Server), up to the gateway's QUIC listener. The circuit carries bytes: what one end
  reads is what the other wrote, cut off wherever it breaks.
\<close>

section \<open>What the bridge makes of a cut stream\<close>

lemma cut_frame_ends:
  assumes "strict_prefix bs (frame d)" and "bridge_ok d"
  shows "bridge_next \<lparr>r_bytes = bs, r_end = e\<rparr> = None"
proof -
  have len: "length bs < 4 + length d" using prefix_length_less [OF assms(1)] by (simp add: frame_def)
  obtain tail where tail: "frame d = bs @ tail" using assms(1) by (auto simp: strict_prefix_def prefix_def)
  show ?thesis
  proof (cases "4 \<le> length bs")
    case True
    have "take 4 bs = take 4 (frame d)" using True by (simp add: tail)
    then have "be_nat (take 4 bs) = length d" using assms(2) by (simp add: frame_def bridge_ok_def MAX_DATAGRAM_def)
    moreover have "\<not> length d \<le> length bs - 4" using True len by linarith
    ultimately show ?thesis using True by (simp add: bridge_next_def read_exact_def Let_def)
  qed (simp add: bridge_next_def read_exact_def)
qed

lemma to_udp_cut:
  "list_all bridge_ok ds \<Longrightarrow> prefix bs (concat (map frame ds)) \<Longrightarrow> prefix (to_udp [] \<lparr>r_bytes = bs, r_end = e\<rparr>) ds"
proof (induction ds arbitrary: bs)
  case (Cons d ds)
  show ?case
  proof (cases "prefix (frame d) bs")
    case True
    then obtain bs' where bs: "bs = frame d @ bs'" by (auto simp: prefix_def)
    with Cons.prems have "prefix bs' (concat (map frame ds))" by simp
    with Cons have "prefix (to_udp [] \<lparr>r_bytes = bs', r_end = e\<rparr>) ds" by simp
    then show ?thesis using to_udp_frames [of "[d]" bs' e] Cons.prems(1) by (simp add: bs)
  next
    case False
    with Cons.prems(2) have "strict_prefix bs (frame d)"
      using prefix_same_cases [of bs "frame d @ concat (map frame ds)" "frame d"] by (auto simp: strict_prefix_def)
    then have "bridge_next \<lparr>r_bytes = bs, r_end = e\<rparr> = None" using cut_frame_ends Cons.prems(1) by simp
    then show ?thesis by (subst to_udp.simps) simp
  qed
qed simp

section \<open>The boundary over a circuit\<close>

text \<open>A receive on the circuit returns: a datagram, or an error at its end.\<close>

definition circuit_recv :: "tor_substrate \<Rightarrow> ((substrate_error + datagram) \<times> tor_substrate) option" where
  "circuit_recv t = Some (tor_try_recv t)"

abbreviation circuit_out :: "tor_substrate \<Rightarrow> byte list" where
  "circuit_out t \<equiv> w_out (sd_write (ts_inner t))"

abbreviation tor_exec :: "tor_substrate substrate \<Rightarrow> sb_log \<Rightarrow> tor_substrate substrate \<Rightarrow> bool" where
  "tor_exec \<equiv> sb_exec tor_try_send circuit_recv (\<lambda>_ _. False)"

lemma circuit_out_exec:
  assumes "tor_exec (new_substrate now kind oracle t depth) l b" and "w_faults (sd_write (ts_inner t)) = []"
  shows "circuit_out (sb_inner b) = circuit_out t @ concat (map (frame \<circ> snd \<circ> snd) (lg_out l))"
proof -
  from assms(1) have "w_faults (sd_write (ts_inner (sb_inner b))) = [] \<and>
      circuit_out (sb_inner b) = circuit_out t @ concat (map (frame \<circ> snd \<circ> snd) (lg_out l))"
  proof (induction rule: exec_inner_induct)
    case start
    show ?case by (simp add: new_substrate_def assms(2))
  next
    case (send out x n t d dg r y)
    then show ?case by (auto simp: tor_try_send_def sd_try_send_healthy Let_def)
  next
    case (recv out x n r y)
    then show ?case by (auto simp: circuit_recv_def tor_try_recv_def Let_def split: prod.splits)
  qed simp
  then show ?thesis ..
qed

definition received :: "(substrate_error + datagram) list \<Rightarrow> datagram list" where
  "received xs = map projr (filter (\<lambda>x. \<not> isl x) xs)"

lemma received_simps [simp]:
  "received [] = []" "received (xs @ ys) = received xs @ received ys" "received [Inr d] = [d]" "received [Inl e] = []"
  by (simp_all add: received_def)

text \<open>What the receive pump took is the frames of the stream so far; once it took an error it takes no more.\<close>

definition taking :: "datagram list \<Rightarrow> sb_log \<Rightarrow> tor_substrate substrate \<Rightarrow> bool" where
  "taking all l b \<longleftrightarrow>
     (if sb_recv_done b \<or> (\<exists>e. sb_hand b = Some (Inl e)) then received (lg_took l) = all
      else received (lg_took l) @ fst (sd_recv_all (sd_read (ts_inner (sb_inner b)))) = all)"

lemma taking_take:
  assumes "pump_take circuit_recv b = Some b'" and "taking all l b"
  shows "taking all (l\<lparr>lg_took := lg_took l @ [the (sb_hand b')]\<rparr>) b'"
proof -
  obtain r rs where r: "sd_try_recv (sd_read (ts_inner (sb_inner b))) = (r, rs)" by fastforce
  have d: "\<not> sb_recv_done b" "sb_hand b = None" using assms(1) by (auto simp: pump_take_def split: if_splits)
  have b': "sb_hand b' = Some r" "sb_recv_done b' = sb_recv_done b" "sd_read (ts_inner (sb_inner b')) = rs"
    using assms(1) r d by (auto simp: pump_take_def circuit_recv_def tor_try_recv_def split: sum.splits)
  have step: "fst (sd_recv_all (sd_read (ts_inner (sb_inner b)))) = (case r of Inl _ \<Rightarrow> [] | Inr dg \<Rightarrow> dg # fst (sd_recv_all rs))"
    by (subst sd_recv_all.simps) (simp add: r split: sum.split prod.split)
  show ?thesis using assms(2) d b' step by (cases r) (simp_all add: taking_def)
qed

lemma taking_exec:
  assumes "tor_exec (new_substrate now kind oracle t depth) l b"
  shows "taking (fst (sd_recv_all (sd_read (ts_inner t)))) l b"
  using assms
proof (induction rule: sb_exec.induct)
  case ex_start
  show ?case by (simp add: taking_def new_substrate_def)
next
  case (ex_send l s called dg r s')
  then show ?case using accepts_ops(1) by (fastforce simp: taking_def accepts_def log_accept_def split: if_splits)
next
  case (ex_send_timeout l s called dg d r s')
  then show ?case using accepts_ops(2) by (fastforce simp: taking_def accepts_def log_accept_def split: if_splits)
next
  case (ex_try_send l s dg r s')
  then show ?case using accepts_ops(3) by (fastforce simp: taking_def accepts_def log_accept_def split: if_splits)
next
  case (ex_lossy l s dg r s')
  then show ?case by (auto simp: taking_def sb_lossy_send_def sb_enqueue_def log_accept_def)
next
  case (ex_recv l s x s')
  then show ?case by (auto simp: taking_def sb_recv_def split: list.splits if_splits)
next
  case (ex_pump l s u s')
  have "sd_read (ts_inner (sb_inner s')) = sd_read (ts_inner (sb_inner s))" "sb_hand s' = sb_hand s" "sb_recv_done s' = sb_recv_done s"
    using ex_pump.hyps(2) by (auto simp: pump_send_def tor_try_send_def Let_def split: if_splits list.splits prod.splits)
  with ex_pump.IH show ?case by (simp add: taking_def)
next
  case (ex_take l s s')
  then show ?case using taking_take by blast
next
  case (ex_push l s s')
  have "sb_recv_done s \<longrightarrow> sb_hand s = None" using exec_inv [OF ex_push.hyps(1) refl] by (simp add: recv_inv_def)
  with ex_push show ?case by (auto simp: taking_def pump_push_def split: option.splits if_splits sum.splits)
qed (auto simp: taking_def update_oracle_def)

lemma received_delivered:
  assumes "tor_exec (new_substrate now kind oracle t depth) l b"
  shows "prefix (received (lg_del l)) (fst (sd_recv_all (sd_read (ts_inner t))))"
proof -
  have "prefix (received (lg_took l)) (fst (sd_recv_all (sd_read (ts_inner t))))"
    using taking_exec [OF assms] by (auto simp: taking_def split: if_splits intro: prefixI [OF sym])
  moreover have "prefix (received (lg_del l)) (received (lg_took l))"
    using exec_inv [OF assms refl] by (simp add: recv_inv_def)
  ultimately show ?thesis by (rule prefix_order.trans [rotated])
qed

section \<open>Properties\<close>

text \<open>C1: the Tor path end to end. A sidecar connects through Tor to a gateway and serves a front; the gateway's stream bridge serves any number
  of clients. Whatever runs at the sidecar's boundary and at the bridge, and wherever the circuit is cut: the proxy was asked for exactly the
  configured host and port; what the bridge hands to the QUIC listener from this client's socket is, in order and without gaps or duplicates, what
  the sidecar's boundary accepted; and what the boundary delivers is, in order and without gaps or duplicates, what that socket received from the
  listener.\<close>

theorem tor_path_in_order:
  assumes "tor_connect_managed (Inr daemon) connect gw oracle = Inr sub" and "connect (td_socks daemon) = Inr tcp"
    and "t_write tcp = \<lparr>w_out = [], w_faults = []\<rparr>"
    and "spawn_substrate_front now (Stream, tor_oracle sub, sub) (Inr front) = Some (Inr fb)"
    and "tor_exec (fb_sub fb) l b" and "list_all bridge_ok (lg_enq l)"
    and "bridge_serve None quic = Inr s0" and "server_exec s0 s" and "p \<in> set (sv_peers s)" and "bp_conn p = Inr c"
    and "request_of (circuit_out (sb_inner b)) = Some (host, port, wire)" and "prefix (r_bytes (t_read (bp_tcp p))) wire"
    and "prefix (r_bytes (sd_read (ts_inner sub))) (w_out (bc_wr c))"
  shows "split_host_port gw = Inr (host, port) \<and> prefix (bp_sent p) (lg_enq l) \<and> prefix (received (lg_del l)) (bp_rcvd p)"
proof -
  obtain h q stream where hp: "split_host_port gw = Inr (h, q)" and d: "socks5_dialogue h q tcp = (Inr (), stream)"
      and sub: "ts_inner sub = new_stream_datagram stream oracle"
    using assms(1,2) by (auto simp: tor_connect_managed_def tor_stream_to_def socks5_connect_def split: sum.splits prod.splits)
  have dial: "length h \<le> 255" "t_write stream = \<lparr>w_out = [5, 1, 0] @ socks_request h q, w_faults = []\<rparr>"
    using d assms(3) by (simp_all add: socks5_dialogue_ok)
  obtain depth where fb: "fb_sub fb = new_substrate now Stream (tor_oracle sub) sub depth"
    using assms(4) by (auto simp: spawn_substrate_front_def)
  note exec = assms(5) [unfolded fb]
  have "circuit_out (sb_inner b) = [5, 1, 0] @ socks_request h q @ concat (map (frame \<circ> snd \<circ> snd) (lg_out l))"
    using circuit_out_exec [OF exec] dial(2) sub by (simp add: new_stream_datagram_def)
  then have wire: "host = h" "port = q" "wire = concat (map (frame \<circ> snd \<circ> snd) (lg_out l))"
    using assms(11) request_of_dialogue [OF dial(1)] by simp_all
  have enq: "prefix (map (snd \<circ> snd) (lg_out l)) (lg_enq l)" using exec_inv [OF exec refl] by (simp add: send_inv_def)
  then have "list_all bridge_ok (map (snd \<circ> snd) (lg_out l))" using assms(6) by (auto simp: prefix_def)
  then have up: "prefix (to_udp [] (t_read (bp_tcp p))) (map (snd \<circ> snd) (lg_out l))"
    using to_udp_cut [of "map (snd \<circ> snd) (lg_out l)"] assms(12) wire(3) by (cases "t_read (bp_tcp p)") (simp add: comp_assoc)
  have run: "task_runs quic p" using server_exec_inv [OF assms(8,7)] assms(9) by (auto simp: server_inv_def list_all_iff)
  then obtain c0 where c0: "bridge_handle (Inr (bc_udp c)) (bp_tcp p) quic = Inr c0" "bridge_exec c0 (bp_sent p) (bp_rcvd p) c"
      "w_out (t_write (bp_tcp p)) = []"
    using assms(10) by (auto simp: task_runs_def)
  note br = bridge_run [OF c0(1,3,2)]
  have "prefix (bp_sent p) (lg_enq l)" using br up enq by (meson prefix_order.trans)
  moreover have "prefix (received (lg_del l)) (bp_rcvd p)"
  proof -
    have "prefix (r_bytes (sd_read (ts_inner sub))) (concat (map frame (bp_rcvd p)))"
      using assms(13) bridge_out [OF c0(1,3,2)] by (meson prefix_order.trans)
    then have "prefix (fst (sd_recv_all (sd_read (ts_inner sub)))) (bp_rcvd p)"
      using sd_recv_cut [OF bridge_rcvd_ok [OF c0(2)]] by (cases "sd_read (ts_inner sub)") simp
    with received_delivered [OF exec] show ?thesis by (rule prefix_order.trans)
  qed
  ultimately show ?thesis using hp wire by simp
qed

definition path_tcp :: tcp_stream where
  "path_tcp = proxy_socket ([5, 0, 5, 0, 0, 1, 0, 0, 0, 0, 0, 0] @ frame [9])"

definition path_sub :: tor_substrate where
  "path_sub = \<lparr>ts_inner = \<lparr>sd_read = \<lparr>r_bytes = frame [9], r_end = UnexpectedEof\<rparr>,
     sd_write = \<lparr>w_out = [5, 1, 0] @ socks_request ''gw.example'' 4443, w_faults = []\<rparr>, sd_oracle = tor_sidecar_oracle\<rparr>, ts_daemon = Some demo_daemon\<rparr>"

lemma path_connects: "tor_connect_managed (Inr demo_daemon) (\<lambda>_. Inr path_tcp) ''gw.example:4443'' tor_sidecar_oracle = Inr path_sub"
proof -
  have split: "split_host_port ''gw.example:4443'' = Inr (''gw.example'', 4443)"
    by (simp add: split_host_port_def rsplit_once_def parse_u16_def from_str_radix_def to_digit_def)
  show ?thesis
    using tor_circuit_opens [where connect = "\<lambda>_. Inr path_tcp" and s = path_tcp and daemon = demo_daemon and p = tor_sidecar_oracle and bs = "frame [9]",
        OF refl _ demo_reply _ split]
    by (simp add: path_tcp_def proxy_socket_def path_sub_def)
qed

text \<open>The boundary of the sidecar sends one datagram, then takes, passes on and delivers the reply.\<close>

lemma path_exec:
  assumes "16 \<le> depth"
  shows "\<exists>l b. tor_exec (new_substrate 0 Stream tor_sidecar_oracle path_sub depth) l b \<and> lg_enq l = [[1, 2]] \<and> lg_del l = [Inr [9]] \<and>
    circuit_out (sb_inner b) = [5, 1, 0] @ socks_request ''gw.example'' 4443 @ frame [1, 2]"
proof -
  let ?s0 = "new_substrate 0 Stream tor_sidecar_oracle path_sub depth"
  define s1 where "s1 = ?s0\<lparr>sb_send_q := [(0, [1, 2])]\<rparr>"
  have "sb_try_send [1, 2] ?s0 = (Inr (), s1)" using assms by (simp add: sb_try_send_def sb_enqueue_def s1_def new_substrate_def)
  note e1 = ex_try_send [OF ex_start this, of tor_try_send circuit_recv "\<lambda>_ _. False"]
  obtain s2 where s2: "pump_send tor_try_send 0 s1 = Some s2"
    by (simp add: pump_send_def s1_def new_substrate_def Let_def case_prod_beta)
  note e2 = ex_pump [OF e1 s2]
  have f2: "sb_hand s2 = None" "\<not> sb_recv_done s2" "sb_recv_q s2 = []" "sb_depth s2 = max depth 1"
      "circuit_out (sb_inner s2) = [5, 1, 0] @ socks_request ''gw.example'' 4443 @ frame [1, 2]"
      "sd_read (ts_inner (sb_inner s2)) = \<lparr>r_bytes = frame [9], r_end = UnexpectedEof\<rparr>"
    using s2 by (auto simp: pump_send_def s1_def new_substrate_def Let_def path_sub_def tor_try_send_def sd_try_send_healthy)
  have r: "sd_try_recv \<lparr>r_bytes = frame [9], r_end = UnexpectedEof\<rparr> = (Inr [9], \<lparr>r_bytes = [], r_end = UnexpectedEof\<rparr>)"
    using sd_try_recv_frame [of "[9]" "[]" UnexpectedEof] by (simp add: sd_ok_def)
  obtain s3 where s3: "pump_take circuit_recv s2 = Some s3" "sb_hand s3 = Some (Inr [9])" "sb_recv_q s3 = []" "sb_depth s3 = max depth 1"
      "circuit_out (sb_inner s3) = circuit_out (sb_inner s2)"
    using f2 r by (simp add: pump_take_def circuit_recv_def tor_try_recv_def)
  note e3 = ex_take [OF e2 s3(1)]
  obtain s4 where s4: "pump_push s3 = Some s4" "sb_recv_q s4 = [Inr [9]]" "circuit_out (sb_inner s4) = circuit_out (sb_inner s3)"
    using s3 by (simp add: pump_push_def less_max_iff_disj)
  note e4 = ex_push [OF e3 s4(1)]
  obtain s5 where s5: "sb_recv s4 = Some (Inr [9], s5)" "circuit_out (sb_inner s5) = circuit_out (sb_inner s4)"
    using s4 by (simp add: sb_recv_def)
  from ex_recv [OF e4 s5(1)] show ?thesis
    using s5(2) s4(2,3) s3(5) f2(5) by (intro exI conjI) (assumption, simp_all add: log_accept_def)
qed

theorem tor_path_in_order_witness:
  "\<exists>depth l b s p. tor_exec (new_substrate 0 Stream tor_sidecar_oracle path_sub depth) l b \<and> lg_enq l = [[1, 2]] \<and> lg_del l = [Inr [9]] \<and>
     server_exec (demo_server [] [] []) s \<and> p \<in> set (sv_peers s) \<and> bp_sent p = [[1, 2]] \<and> bp_rcvd p = [[9]] \<and>
     prefix (bp_sent p) (lg_enq l) \<and> prefix (received (lg_del l)) (bp_rcvd p)"
proof -
  let ?a = "SockAddr (V4 127 0 0 1) 5000" and ?b = "SockAddr (V4 127 0 0 1) 5001"
  have s0: "bridge_serve None (SockAddr (V4 127 0 0 1) 4433) = Inr (demo_server [] [] [])" by (simp add: bridge_serve_def demo_server_def)
  have "?a \<noteq> ?b" by simp
  note run = demo_server_run [OF this]
  let ?p = "served_peer ?a (frame [9]) [] [[9]]"
  obtain depth where d: "16 \<le> depth" "bdp_packets tor_sidecar_oracle = Some depth" using tor_sidecar_depth by blast
  have fb: "spawn_substrate_front 0 (Stream, tor_oracle path_sub, path_sub) (Inr ?b) =
      Some (Inr \<lparr>fb_addr = ?b, fb_sub = new_substrate 0 Stream tor_sidecar_oracle path_sub depth, fb_port = new_port, fb_running = True\<rparr>)"
    by (simp add: spawn_substrate_front_def tor_oracle_def path_sub_def d(2))
  obtain l b where l: "tor_exec (new_substrate 0 Stream tor_sidecar_oracle path_sub depth) l b" "lg_enq l = [[1, 2]]" "lg_del l = [Inr [9]]"
      "circuit_out (sb_inner b) = [5, 1, 0] @ socks_request ''gw.example'' 4443 @ frame [1, 2]"
    using path_exec [OF d(1)] by auto
  have req: "request_of (circuit_out (sb_inner b)) = Some (''gw.example'', 4443, frame [1, 2])"
    unfolding l(4) by (rule request_of_dialogue) simp
  have "prefix (bp_sent ?p) (lg_enq l) \<and> prefix (received (lg_del l)) (bp_rcvd ?p)"
    using tor_path_in_order [OF path_connects refl _ fb, of l b "SockAddr (V4 127 0 0 1) 4433", OF _ _ _ s0 run, of ?p "demo_conn ?a (frame [9]) []", OF _ _ _ _ _ req]
    using l by (simp add: path_tcp_def proxy_socket_def bridge_ok_def MAX_DATAGRAM_def demo_server_def demo_bridge_tcp_def demo_conn_def path_sub_def)
  with l run show ?thesis by (intro exI [of _ depth] exI [of _ l] exI [of _ b] exI [of _ "demo_server [?p, _] _ _"] exI [of _ ?p] conjI) (assumption | simp add: demo_server_def)+
qed

end
