(* ===== verification/Healing.thy ===== *)
theory Healing
  imports WarmPool Sessions Conformance
begin

text \<open>
  The warm pool through an outage: the loop of \<open>maintain\<close> in \<^verbatim>\<open>crates/quicmix-eval/src/proxy.rs\<close> with the outage
  of \<^verbatim>\<open>crates/quicmix-eval/tests/failure_modes.rs\<close>. The contract of what the pool dials through is the locale
  \<open>dialler\<close>: as long as the gateway is up a dial gives a live connection and it stays up, while it is down a dial
  fails, and no dial closes another connection.
\<close>

section \<open>The loop of the maintainer\<close>

text \<open>A turn is the time at which the task wakes and the state that the QUIC stack has then.\<close>

fun maintain ::
  "('w \<Rightarrow> nat \<Rightarrow> bool) \<Rightarrow> ('w \<Rightarrow> nat \<Rightarrow> conn_stats) \<Rightarrow> (duration \<Rightarrow> nat option) \<Rightarrow> 'w quic_stack \<Rightarrow> (nat \<times> 'w) list \<Rightarrow>
   'w warm_pool \<Rightarrow> 'w warm_pool may_panic" where
  "maintain dead stats idle qs [] p = Some p"
| "maintain dead stats idle qs ((now, w) # turns) p =
     (case maintain_turn dead stats idle qs now (p\<lparr>wp_world := w\<rparr>) of
        None \<Rightarrow> None
      | Some p' \<Rightarrow> maintain dead stats idle qs turns p')"

text \<open>The factory of the tests, which works while \<open>up\<close>.\<close>

definition flippable_front :: "('w \<Rightarrow> bool) \<Rightarrow> ('w, string, socket_addr) io \<Rightarrow> ('w, string, socket_addr) io" where
  "flippable_front up working w = (if up w then working w else (Inl ''gateway down'', w))"

text \<open>The pool is typed if its measurements are; dialling then cannot panic.\<close>

definition pool_typed :: "'w warm_pool \<Rightarrow> bool" where
  "pool_typed p \<longleftrightarrow> (case wp_measured p of Some m \<Rightarrow> mcc_typed m | None \<Rightarrow> True) \<and> wp_fronts p \<noteq> []"

definition same_setup :: "'w warm_pool \<Rightarrow> 'w warm_pool \<Rightarrow> bool" where
  "same_setup p p' \<longleftrightarrow> wp_fronts p' = wp_fronts p \<and> wp_cert p' = wp_cert p \<and> wp_cfg p' = wp_cfg p"

lemma build_one_dials:
  assumes "pool_typed p"
  obtains f tc r p' where "f \<in> set (wp_fronts p)" and "build_one idle qs now p = Some (r, p')"
    and "connect_fresh_with qs f (wp_cert p) tc (wp_world p) = (map_sum id sl_circuit r, wp_world p')"
    and "pool_typed p'" and "same_setup p p'" and "wp_retired p' = wp_retired p"
proof -
  define T where "T = (case wp_measured p of
      Some m \<Rightarrow> map_option (\<lambda>(t, m', _). (Some t, Some m')) (m_transport idle m)
    | None \<Rightarrow> Some (wp_transport p, None))"
  have "\<exists>tc mc. T = Some (tc, mc) \<and> (case mc of Some m \<Rightarrow> mcc_typed m | None \<Rightarrow> True)"
  proof (cases "wp_measured p")
    case (Some m)
    with assms have m: "mcc_typed m" by (simp add: pool_typed_def)
    obtain t p' r logged where "m_transport idle m = Some (t, m\<lparr>m_last := Some p'\<rparr>, logged)" "rtt p' = Some r"
      using typed_transport [OF m] by blast
    with Some m show ?thesis by (simp add: T_def mcc_typed_def)
  qed (simp add: T_def)
  then obtain tc mc where T: "T = Some (tc, mc)" and mc: "case mc of Some m \<Rightarrow> mcc_typed m | None \<Rightarrow> True" by blast
  define f where "f = wp_fronts p ! (unat (wp_front_rr p) mod length (wp_fronts p))"
  have f: "f \<in> set (wp_fronts p)" using assms by (simp add: f_def pool_typed_def)
  obtain r1 w1 where c: "connect_fresh_with qs f (wp_cert p) tc (wp_world p) = (r1, w1)" by fastforce
  show ?thesis
  proof (cases r1)
    case (Inl e)
    have b: "build_one idle qs now p = Some (Inl e, p\<lparr>wp_measured := mc, wp_front_rr := wp_front_rr p + 1, wp_world := w1\<rparr>)"
      unfolding build_one_def T_def [symmetric] using c Inl by (simp add: T next_front_def f_def)
    show ?thesis by (rule that [OF f b]) (use c Inl mc assms in \<open>simp_all add: pool_typed_def same_setup_def\<close>)
  next
    case (Inr ci)
    have b: "build_one idle qs now p = Some (Inr \<lparr>sl_circuit = ci, sl_born = now, sl_uses = 0, sl_active = wp_next_counter p,
          sl_draining = None, sl_last_sampled = None\<rparr>,
        p\<lparr>wp_measured := mc, wp_front_rr := wp_front_rr p + 1, wp_world := w1, wp_built := wp_built p + 1,
          wp_next_counter := Suc (wp_next_counter p), wp_counters := (wp_counters p)(wp_next_counter p := 0)\<rparr>)"
      unfolding build_one_def T_def [symmetric] using c Inr by (simp add: T next_front_def f_def)
    show ?thesis by (rule that [OF f b]) (use c Inr mc assms in \<open>simp_all add: pool_typed_def same_setup_def\<close>)
  qed
qed

lemma sample_slots_typed:
  "mcc_typed m \<Longrightarrow> \<forall>k. fits_u64 (c_rtt (stats w k)) \<Longrightarrow> mcc_typed (snd (sample_slots dead stats w now ss m))"
proof (induction ss arbitrary: m)
  case (Cons s ss)
  have "mcc_typed (m_observe (stats w (ci_conn (sl_circuit s))) m)"
    using mcc_step_typed [OF Cons.prems(1), of "MObserve (stats w (ci_conn (sl_circuit s)))"] Cons.prems(2) by simp
  with Cons show ?case by (simp add: Let_def case_prod_beta)
qed simp

lemma maintain_locked_typed:
  assumes "maintain_locked dead stats now p = Some p'" and "pool_typed p" and "\<forall>w k. fits_u64 (c_rtt (stats w k))"
  shows "pool_typed p'"
proof (cases "wp_measured p")
  case (Some m)
  with assms sample_slots_typed [of m stats "wp_world p" dead now "map (retired_slot (wp_cfg p) now) (wp_slots p)"] show ?thesis
    by (auto simp: maintain_locked_def retire_all pool_typed_def Let_def case_prod_beta comp_def split: if_splits)
qed (use assms in \<open>auto simp: maintain_locked_def pool_typed_def Let_def\<close>)

section \<open>Diallers\<close>

lemma length_filter_mono: "(\<And>x. P x \<Longrightarrow> Q x) \<Longrightarrow> length (filter P xs) \<le> length (filter Q xs)"
  by (induction xs) (auto simp: le_SucI)

definition dials :: "('w \<Rightarrow> nat \<Rightarrow> bool) \<Rightarrow> 'w quic_stack \<Rightarrow> byte list \<Rightarrow> ('w \<Rightarrow> bool) \<Rightarrow> ('w, string, socket_addr) io \<Rightarrow> bool" where
  "dials dead qs cert up f \<longleftrightarrow>
     (\<forall>tc w r w'. connect_fresh_with qs f cert tc w = (r, w') \<longrightarrow>
        (\<forall>k. dead w' k \<longrightarrow> dead w k) \<and>
        (if up w then up w' \<and> (\<exists>c. r = Inr c \<and> \<not> dead w' (ci_conn c)) else isl r))"

text \<open>A circuit with a request in flight, which no turn before \<open>dl\<close> may take away.\<close>

definition in_flight :: "nat \<Rightarrow> circuit \<Rightarrow> 'w warm_pool \<Rightarrow> bool" where
  "in_flight dl c p \<longleftrightarrow>
     (\<exists>s \<in> set (wp_slots p). sl_circuit s = c \<and> sl_active s < wp_next_counter p \<and> wp_counters p (sl_active s) \<noteq> 0 \<and>
        (case sl_draining s of Some t \<Rightarrow> dl \<le> t | None \<Rightarrow> True))"

locale dialler =
  fixes dead :: "'w \<Rightarrow> nat \<Rightarrow> bool" and qs :: "'w quic_stack" and cert :: "byte list" and up :: "'w \<Rightarrow> bool"
    and fronts :: "('w, string, socket_addr) io list"
  assumes dial: "f \<in> set fronts \<Longrightarrow> dials dead qs cert up f"
begin

text \<open>What a step of the pool leaves alone: its set-up, live connections, and the counters that are in use.\<close>

definition set_up :: "'w warm_pool \<Rightarrow> bool" where
  "set_up p \<longleftrightarrow> pool_typed p \<and> wp_fronts p = fronts \<and> wp_cert p = cert"

definition keeps :: "'w warm_pool \<Rightarrow> 'w warm_pool \<Rightarrow> bool" where
  "keeps p p' \<longleftrightarrow> set_up p' \<and> wp_cfg p' = wp_cfg p \<and> (\<forall>k. dead (wp_world p') k \<longrightarrow> dead (wp_world p) k) \<and>
     wp_next_counter p \<le> wp_next_counter p' \<and> (\<forall>a < wp_next_counter p. wp_counters p' a = wp_counters p a)"

lemma keeps_trans: "keeps p q \<Longrightarrow> keeps q r \<Longrightarrow> keeps p r"
  by (auto simp: keeps_def)

lemma build_keeps:
  assumes "set_up p"
  obtains r p' where "build_one idle qs now p = Some (r, p')" and "keeps p p'" and "wp_slots p' = wp_slots p"
    and "wp_build_errors p' = wp_build_errors p" and "if up (wp_world p) then up (wp_world p') else isl r"
    and "up (wp_world p) \<longrightarrow> (\<exists>s. r = Inr s \<and> ready_slot dead (wp_world p') s)"
proof -
  obtain f tc r p' where f: "f \<in> set (wp_fronts p)" and b: "build_one idle qs now p = Some (r, p')"
    and c: "connect_fresh_with qs f (wp_cert p) tc (wp_world p) = (map_sum id sl_circuit r, wp_world p')"
    and t: "pool_typed p'" "same_setup p p'"
    using build_one_dials assms unfolding set_up_def by metis
  note bf = build_one_frame [OF b]
  have d: "(\<forall>k. dead (wp_world p') k \<longrightarrow> dead (wp_world p) k) \<and>
      (if up (wp_world p) then up (wp_world p') \<and> (\<exists>c. map_sum id sl_circuit r = Inr c \<and> \<not> dead (wp_world p') (ci_conn c))
       else isl (map_sum id sl_circuit r))"
    using dial [of f] f assms c by (auto simp: dials_def set_up_def)
  have "wp_next_counter p \<le> wp_next_counter p' \<and> (\<forall>a < wp_next_counter p. wp_counters p' a = wp_counters p a)"
    using bf(2) by (auto split: sum.splits)
  then have k: "keeps p p'" using d t assms by (simp add: keeps_def set_up_def same_setup_def)
  have "\<exists>s. r = Inr s \<and> ready_slot dead (wp_world p') s" if "up (wp_world p)"
    using d that bf(2) by (cases r) (auto simp: ready_slot_def)
  moreover have "if up (wp_world p) then up (wp_world p') else isl r" using d by (cases r) (auto split: if_splits)
  ultimately show ?thesis using that [OF b k bf(1,3)] by blast
qed

lemma ready_mono: "keeps p p' \<Longrightarrow> ready_slot dead (wp_world p) s \<Longrightarrow> ready_slot dead (wp_world p') s"
  by (auto simp: keeps_def ready_slot_def)

lemma keeps_refl: "set_up p \<Longrightarrow> keeps p p"
  by (simp add: keeps_def)

lemma refill_loop_up:
  "set_up p \<Longrightarrow> up (wp_world p) \<Longrightarrow>
   \<exists>p' new. refill_loop idle qs now n p = Some p' \<and> keeps p p' \<and> wp_slots p' = wp_slots p @ new \<and> length new = n \<and>
     list_all (ready_slot dead (wp_world p')) new \<and> wp_build_errors p' = wp_build_errors p"
proof (induction n arbitrary: p)
  case 0
  then show ?case by (simp add: keeps_refl)
next
  case (Suc n)
  obtain r p1 where b: "build_one idle qs now p = Some (r, p1)" "keeps p p1" "wp_slots p1 = wp_slots p"
      "wp_build_errors p1 = wp_build_errors p" "if up (wp_world p) then up (wp_world p1) else isl r"
      "up (wp_world p) \<longrightarrow> (\<exists>s. r = Inr s \<and> ready_slot dead (wp_world p1) s)"
    by (rule build_keeps [OF Suc.prems(1), where idle = idle and now = now])
  then obtain s where s: "r = Inr s" "ready_slot dead (wp_world p1) s" using Suc.prems(2) by blast
  define q where "q = p1\<lparr>wp_slots := wp_slots p1 @ [s]\<rparr>"
  have q: "set_up q" "up (wp_world q)" "keeps p q" "wp_world q = wp_world p1"
    using b(2,5) Suc.prems(2) by (auto simp: q_def keeps_def set_up_def pool_typed_def)
  obtain p' new where p': "refill_loop idle qs now n q = Some p'" "keeps q p'" "wp_slots p' = wp_slots q @ new" "length new = n"
      "list_all (ready_slot dead (wp_world p')) new" "wp_build_errors p' = wp_build_errors q"
    using Suc.IH [OF q(1,2)] by blast
  then have "ready_slot dead (wp_world p') s" using ready_mono [OF p'(2)] s(2) q(4) by simp
  with p' b s keeps_trans [OF q(3) p'(2)] show ?case
    by (intro exI [of _ p'] exI [of _ "s # new"]) (simp add: q_def)
qed

lemma refill_loop_down:
  assumes "set_up p" and "\<not> up (wp_world p)"
  shows "\<exists>p'. refill_loop idle qs now n p = Some p' \<and> keeps p p' \<and> wp_slots p' = wp_slots p \<and>
    wp_build_errors p' = wp_build_errors p + (if n = 0 then 0 else 1)"
proof (cases n)
  case 0
  then show ?thesis using assms by (simp add: keeps_refl)
next
  case (Suc m)
  obtain r p1 where b: "build_one idle qs now p = Some (r, p1)" "keeps p p1" "wp_slots p1 = wp_slots p"
      "wp_build_errors p1 = wp_build_errors p" "if up (wp_world p) then up (wp_world p1) else isl r"
    by (rule build_keeps [OF assms(1), where idle = idle and now = now])
  with assms(2) obtain e where "r = Inl e" by (cases r) auto
  with b Suc show ?thesis
    by (intro exI [of _ "p1\<lparr>wp_build_errors := wp_build_errors p1 + 1\<rparr>"]) (auto simp: keeps_def set_up_def pool_typed_def)
qed

end


context dialler
begin

lemma set_up_world [simp]: "set_up (p\<lparr>wp_world := w\<rparr>) = set_up p"
  by (auto simp: set_up_def pool_typed_def)

lemma locked_keeps:
  assumes "set_up p" and "\<forall>w k. fits_u64 (c_rtt (stats w k))" and "now + pc_drain_timeout (wp_cfg p) < instant_limit"
  obtains q where "maintain_locked dead stats now p = Some q" and "keeps p q" and "wp_world q = wp_world p"
    and "wp_build_errors q = wp_build_errors p"
proof -
  obtain q where q: "maintain_locked dead stats now p = Some q"
    using assms(3) maintain_panics_iff [of dead stats now p] by fastforce
  note mf = maintain_frame [OF q]
  have "keeps p q" using assms(1) mf maintain_locked_typed [OF q _ assms(2)] by (auto simp: keeps_def set_up_def)
  then show ?thesis using that q mf by blast
qed

lemma turn_down:
  assumes "set_up p" and "\<forall>w k. fits_u64 (c_rtt (stats w k))" and "now + pc_drain_timeout (wp_cfg p) < instant_limit" and "\<not> up (wp_world p)"
  shows "\<exists>q p'. maintain_locked dead stats now p = Some q \<and> maintain_turn dead stats idle qs now p = Some p' \<and> keeps p p' \<and>
    wp_slots p' = wp_slots q \<and>
    wp_build_errors p' = wp_build_errors p + (if pc_target (wp_cfg p) \<le> pool_ready dead q then 0 else 1)"
proof -
  obtain q where q: "maintain_locked dead stats now p = Some q" "keeps p q" "wp_world q = wp_world p" "wp_build_errors q = wp_build_errors p"
    using locked_keeps [OF assms(1-3)] by blast
  then have "set_up q" "wp_cfg q = wp_cfg p" by (simp_all add: keeps_def)
  with refill_loop_down [of q idle now "pc_target (wp_cfg p) - pool_ready dead q"] assms(4) keeps_trans [OF q(2)] q show ?thesis
    by (auto simp: maintain_turn_def refill_def)
qed

lemma turn_up:
  assumes "set_up p" and "\<forall>w k. fits_u64 (c_rtt (stats w k))" and "now + pc_drain_timeout (wp_cfg p) < instant_limit" and "up (wp_world p)"
  shows "\<exists>q p' new. maintain_locked dead stats now p = Some q \<and> maintain_turn dead stats idle qs now p = Some p' \<and> keeps p p' \<and>
    wp_slots p' = wp_slots q @ new \<and> wp_build_errors p' = wp_build_errors p \<and> pc_target (wp_cfg p) \<le> pool_ready dead p'"
proof -
  obtain q where q: "maintain_locked dead stats now p = Some q" "keeps p q" "wp_world q = wp_world p" "wp_build_errors q = wp_build_errors p"
    using locked_keeps [OF assms(1-3)] by blast
  then have s: "set_up q" "wp_cfg q = wp_cfg p" by (simp_all add: keeps_def)
  obtain p' new where p': "refill_loop idle qs now (pc_target (wp_cfg p) - pool_ready dead q) q = Some p'" "keeps q p'"
      "wp_slots p' = wp_slots q @ new" "length new = pc_target (wp_cfg p) - pool_ready dead q"
      "list_all (ready_slot dead (wp_world p')) new" "wp_build_errors p' = wp_build_errors q"
    using refill_loop_up [OF s(1), of idle now "pc_target (wp_cfg p) - pool_ready dead q"] assms(4) q(3) by auto
  have "length (filter (ready_slot dead (wp_world q)) (wp_slots q)) \<le> length (filter (ready_slot dead (wp_world p')) (wp_slots q))"
    by (rule length_filter_mono) (rule ready_mono [OF p'(2)])
  then have "pc_target (wp_cfg p) \<le> pool_ready dead p'"
    using p'(3,4,5) by (simp add: pool_ready_def list_all_iff)
  with p' q s keeps_trans [OF q(2) p'(2)] show ?thesis by (auto simp: maintain_turn_def refill_def)
qed

lemma turn_in_flight:
  assumes "in_flight dl c p" and "\<not> dead (wp_world p) (ci_conn c)" and "now < dl" and "dl \<le> now + pc_drain_timeout (wp_cfg p)"
    and "keeps p p'" and "maintain_locked dead stats now p = Some q" and "wp_slots p' = wp_slots q @ new"
  shows "in_flight dl c p'"
proof -
  obtain s where s: "s \<in> set (wp_slots p)" "sl_circuit s = c" "sl_active s < wp_next_counter p" "wp_counters p (sl_active s) \<noteq> 0"
      "case sl_draining s of Some t \<Rightarrow> dl \<le> t | None \<Rightarrow> True"
    using assms(1) by (auto simp: in_flight_def)
  obtain f where f: "\<forall>s. sl_circuit (f s) = sl_circuit s \<and> sl_active (f s) = sl_active s \<and>
        sl_draining (f s) = sl_draining (retired_slot (wp_cfg p) now s)"
    and slots: "wp_slots q = filter (\<lambda>s. \<not> reaped dead (wp_world p) (wp_counters p) now s) (map f (wp_slots p))"
    using maintain_slots [OF assms(6)] by blast
  have d: "case sl_draining (f s) of Some t \<Rightarrow> dl \<le> t | None \<Rightarrow> True"
    using s(5) f assms(4) by (auto simp: retired_slot_def retire_due_def split: option.splits)
  have "\<not> reaped dead (wp_world p) (wp_counters p) now (f s)"
    using f s(2,4) d assms(2,3) by (auto simp: reaped_def split: option.splits)
  then have "f s \<in> set (wp_slots p')" using s(1) by (simp add: assms(7) slots)
  with f s d assms(5) show ?thesis by (auto simp: in_flight_def keeps_def intro!: bexI [of _ "f s"])
qed

text \<open>The turns of an outage and the first one after it, none so late that a drain deadline overflows.\<close>

lemma heals:
  assumes "set_up p" and "\<forall>w k. fits_u64 (c_rtt (stats w k))" and "list_all (\<lambda>(t, w). \<not> up w) outs" and "up w"
    and "list_all (\<lambda>(t, w). t + pc_drain_timeout (wp_cfg p) < instant_limit) (outs @ [(t, w)])"
  shows "\<exists>k p'. maintain dead stats idle qs (outs @ [(t, w)]) p = Some p' \<and> set_up p' \<and> wp_cfg p' = wp_cfg p \<and>
    k \<le> length outs \<and> wp_build_errors p' = wp_build_errors p + of_nat k \<and> pc_target (wp_cfg p) \<le> pool_ready dead p' \<and>
    (case outs of [] \<Rightarrow> True
     | (t1, w1) # _ \<Rightarrow> \<forall>q. maintain_locked dead stats t1 (p\<lparr>wp_world := w1\<rparr>) = Some q \<longrightarrow> pool_ready dead q < pc_target (wp_cfg p) \<longrightarrow> 0 < k) \<and>
    (\<forall>c dl. in_flight dl c p \<longrightarrow>
       list_all (\<lambda>(t, w). \<not> dead w (ci_conn c) \<and> t < dl \<and> dl \<le> t + pc_drain_timeout (wp_cfg p)) (outs @ [(t, w)]) \<longrightarrow> in_flight dl c p')"
  using assms(1,3,5)
proof (induction outs arbitrary: p)
  case Nil
  let ?p = "p\<lparr>wp_world := w\<rparr>"
  have "set_up ?p" "t + pc_drain_timeout (wp_cfg ?p) < instant_limit" using Nil(1,3) by simp_all
  from turn_up [OF this(1) assms(2) this(2), of idle] obtain q p' new where p': "maintain_locked dead stats t ?p = Some q"
      "maintain_turn dead stats idle qs t ?p = Some p'" "keeps ?p p'" "wp_slots p' = wp_slots q @ new"
      "wp_build_errors p' = wp_build_errors p" "pc_target (wp_cfg p) \<le> pool_ready dead p'"
    using assms(4) by auto
  have "in_flight dl c p'" if "in_flight dl c p" "\<not> dead w (ci_conn c)" "t < dl" "dl \<le> t + pc_drain_timeout (wp_cfg p)" for c dl
    using turn_in_flight [OF _ _ _ _ p'(3,1,4)] that by (simp add: in_flight_def)
  then show ?case using p' by (intro exI [of _ 0] exI [of _ p']) (simp add: keeps_def)
next
  case (Cons tw outs)
  obtain t1 w1 where tw: "tw = (t1, w1)" by fastforce
  let ?p = "p\<lparr>wp_world := w1\<rparr>"
  have "set_up ?p" "t1 + pc_drain_timeout (wp_cfg ?p) < instant_limit" using Cons.prems(1,3) tw by simp_all
  from turn_down [OF this(1) assms(2) this(2), of idle] obtain q p1 where p1: "maintain_locked dead stats t1 ?p = Some q"
      "maintain_turn dead stats idle qs t1 ?p = Some p1" "keeps ?p p1" "wp_slots p1 = wp_slots q"
      "wp_build_errors p1 = wp_build_errors p + (if pc_target (wp_cfg p) \<le> pool_ready dead q then 0 else 1)"
    using Cons.prems(2) tw by auto
  have s1: "set_up p1" "wp_cfg p1 = wp_cfg p" using p1(3) by (simp_all add: keeps_def)
  have fl: "in_flight dl c p1" if "in_flight dl c p" "\<not> dead w1 (ci_conn c)" "t1 < dl" "dl \<le> t1 + pc_drain_timeout (wp_cfg p)" for c dl
    using turn_in_flight [OF _ _ _ _ p1(3,1), of dl c "[]"] that p1(4) by (simp add: in_flight_def)
  obtain k p' where p': "maintain dead stats idle qs (outs @ [(t, w)]) p1 = Some p'" "set_up p'" "wp_cfg p' = wp_cfg p1"
      "k \<le> length outs" "wp_build_errors p' = wp_build_errors p1 + of_nat k" "pc_target (wp_cfg p1) \<le> pool_ready dead p'"
      "\<forall>c dl. in_flight dl c p1 \<longrightarrow> list_all (\<lambda>(t, w). \<not> dead w (ci_conn c) \<and> t < dl \<and> dl \<le> t + pc_drain_timeout (wp_cfg p1)) (outs @ [(t, w)]) \<longrightarrow> in_flight dl c p'"
    using Cons.IH [OF s1(1)] Cons.prems(2,3) s1(2) by auto
  show ?case
    using p' p1 s1 fl tw
    by (intro exI [of _ "(if pc_target (wp_cfg p) \<le> pool_ready dead q then 0 else 1) + k"] exI [of _ p'])
       (auto simp: add.assoc)
qed

end

section \<open>The diallers of the tests\<close>

text \<open>A flippable factory over one that works dials as the contract says, whatever the QUIC stack it is used with.\<close>

definition stack_connects :: "('w \<Rightarrow> nat \<Rightarrow> bool) \<Rightarrow> 'w quic_stack \<Rightarrow> byte list \<Rightarrow> ('w \<Rightarrow> bool) \<Rightarrow> bool" where
  "stack_connects dead qs cert up \<longleftrightarrow> qs_root_ok qs cert \<and> qs_config_error qs = None \<and>
     (\<forall>w. \<exists>a w'. qs_endpoint qs w = (Inr a, w') \<and> up w' = up w \<and> (\<forall>k. dead w' k \<longrightarrow> dead w k)) \<and>
     (\<forall>cfg addr name w. \<exists>c w'. qs_dial qs cfg addr name w = (Inr c, w') \<and> up w' = up w \<and> (\<forall>k. dead w' k \<longrightarrow> dead w k) \<and> \<not> dead w' c)"

lemma connected:
  assumes "stack_connects dead qs cert up" and "f w = (Inr a, w1)"
  obtains c w' where "connect_fresh_with qs f cert tc w = (Inr c, w')" and "up w' = up w1"
    and "\<forall>k. dead w' k \<longrightarrow> dead w1 k" and "\<not> dead w' (ci_conn c)"
proof -
  have E: "\<forall>w. \<exists>a w'. qs_endpoint qs w = (Inr a, w') \<and> up w' = up w \<and> (\<forall>k. dead w' k \<longrightarrow> dead w k)"
    and D: "\<forall>cfg addr name w. \<exists>c w'. qs_dial qs cfg addr name w = (Inr c, w') \<and> up w' = up w \<and> (\<forall>k. dead w' k \<longrightarrow> dead w k) \<and> \<not> dead w' c"
    using assms(1) by (simp_all add: stack_connects_def)
  obtain l w2 where e: "qs_endpoint qs w1 = (Inr l, w2)" "up w2 = up w1" "\<forall>k. dead w2 k \<longrightarrow> dead w1 k"
    using E [THEN spec, of w1] by blast
  obtain c w' where d: "qs_dial qs (client_config_for cert tc) a ''localhost'' w2 = (Inr c, w')" "up w' = up w2"
      "\<forall>k. dead w' k \<longrightarrow> dead w2 k" "\<not> dead w' c"
    using D [THEN spec, THEN spec, THEN spec, THEN spec, of "client_config_for cert tc" a "''localhost''" w2] by blast
  have "connect_fresh_with qs f cert tc w = (Inr \<lparr>ci_conn = c, ci_local = l\<rparr>, w')"
    using assms e(1) d(1) by (simp add: connect_fresh_with_def stack_connects_def io_bind_def io_context_def io_return_def)
  then show ?thesis using that e d by simp
qed

lemma not_connected:
  assumes "f w = (Inl e, w1)"
  shows "connect_fresh_with qs f cert tc w = (Inl (FrontError e), w1)"
  using assms by (simp add: connect_fresh_with_def io_bind_def io_context_def)

lemma flippable_dials:
  assumes "stack_connects dead qs cert up"
    and "\<forall>w. \<exists>a w'. working w = (Inr a, w') \<and> up w' = up w \<and> (\<forall>k. dead w' k \<longrightarrow> dead w k)"
  shows "dials dead qs cert up (flippable_front up working)"
  unfolding dials_def
proof (intro allI impI)
  fix tc w r w'
  assume c: "connect_fresh_with qs (flippable_front up working) cert tc w = (r, w')"
  show "(\<forall>k. dead w' k \<longrightarrow> dead w k) \<and> (if up w then up w' \<and> (\<exists>c. r = Inr c \<and> \<not> dead w' (ci_conn c)) else isl r)"
  proof (cases "up w")
    case True
    obtain a w1 where f: "flippable_front up working w = (Inr a, w1)" "up w1 = up w" "\<forall>k. dead w1 k \<longrightarrow> dead w k"
      using assms(2) [THEN spec, of w] True by (auto simp: flippable_front_def)
    obtain c' w2 where "connect_fresh_with qs (flippable_front up working) cert tc w = (Inr c', w2)" "up w2 = up w1"
        "\<forall>k. dead w2 k \<longrightarrow> dead w1 k" "\<not> dead w2 (ci_conn c')"
      by (rule connected [where f = "flippable_front up working", OF assms(1) f(1)])
    with c f True show ?thesis by auto
  next
    case False
    then have "flippable_front up working w = (Inl ''gateway down'', w)" by (simp add: flippable_front_def)
    with c not_connected False show ?thesis by fastforce
  qed
qed

text \<open>The server of the tests accepts and holds: each dial is a new connection, open until it is closed.\<close>

record test_world =
  tw_up :: bool
  tw_conns :: nat
  tw_closed :: "nat list"

definition test_stack :: "test_world quic_stack" where
  "test_stack = \<lparr>qs_root_ok = (\<lambda>c. c \<noteq> []), qs_config_error = None,
     qs_endpoint = (\<lambda>w. (Inr (SockAddr (V4 127 0 0 1) (of_nat (tw_conns w))), w)),
     qs_dial = (\<lambda>c a n w. (Inr (tw_conns w), w\<lparr>tw_conns := Suc (tw_conns w), tw_closed := removeAll (tw_conns w) (tw_closed w)\<rparr>))\<rparr>"

definition test_dead :: "test_world \<Rightarrow> nat \<Rightarrow> bool" where
  "test_dead w k \<longleftrightarrow> k \<in> set (tw_closed w)"

text \<open>The front of the tests: a relay over two emulated mixnets, whose sockets are bound.\<close>

definition test_binds :: "test_world \<Rightarrow> (io_error + socket_addr) \<times> (io_error + socket_addr) \<times> test_world" where
  "test_binds w = (Inr (SockAddr (V4 127 0 0 1) 9), Inr (SockAddr (V4 127 0 0 1) 10), w)"

definition test_front :: "(test_world, string, socket_addr) io" where
  "test_front = flippable_front tw_up (the (emulated_factory test_binds (\<lambda>_. ''bind'') 0 (SockAddr (V4 127 0 0 1) 8) tiny_oracle))"

lemma tiny_depth: "\<exists>depth\<ge>16. bdp_packets tiny_oracle = Some depth"
  by (simp add: bdp_packets_def bdp_bytes_def rtt_def tiny_oracle_def dur_mul_def dur_limit_def from_millis_def)

lemma test_factory: "the (emulated_factory test_binds show_io now server tiny_oracle) w = (Inr (SockAddr (V4 127 0 0 1) 9), w)"
  using tiny_depth by (auto simp: emulated_factory_def emulated_front_def start_relay_def test_binds_def)

lemma test_front_dials: "dials test_dead test_stack [7] tw_up test_front"
  unfolding test_front_def
  by (rule flippable_dials) (auto simp: stack_connects_def test_stack_def test_dead_def test_factory)

interpretation emulated_gateway: dialler test_dead test_stack "[7]" tw_up "[test_front]"
  by unfold_locales (simp add: test_front_dials)

section \<open>Properties\<close>

text \<open>C3: the pool heals. However many turns of the maintainer fall into an outage of the gateway, as long as no turn is so late, or the drain
  timeout so long, that a drain deadline leaves the range of the clock: none panics, and a turn
  counts at most one failed build (at least one in all, if the pool was short when the outage began); a circuit with a request in
  flight is kept throughout as long as it is alive and its drain deadline has not passed; and the first turn after the gateway is back
  leaves at least the target number of circuits ready.\<close>

theorem pool_heals:
  assumes "\<forall>f \<in> set (wp_fronts p). dials dead qs (wp_cert p) up f" and "pool_typed p" and "\<forall>w k. fits_u64 (c_rtt (stats w k))"
    and "list_all (\<lambda>(t, w). \<not> up w) outs" and "up w"
    and "list_all (\<lambda>(t, w). t + pc_drain_timeout (wp_cfg p) < instant_limit) (outs @ [(t, w)])"
  shows "\<exists>k p'. maintain dead stats idle qs (outs @ [(t, w)]) p = Some p' \<and>
    k \<le> length outs \<and> wp_build_errors p' = wp_build_errors p + of_nat k \<and> pc_target (wp_cfg p) \<le> pool_ready dead p' \<and>
    (case outs of [] \<Rightarrow> True
     | (t1, w1) # _ \<Rightarrow> \<forall>q. maintain_locked dead stats t1 (p\<lparr>wp_world := w1\<rparr>) = Some q \<longrightarrow> pool_ready dead q < pc_target (wp_cfg p) \<longrightarrow> 0 < k) \<and>
    (\<forall>c dl. in_flight dl c p \<longrightarrow>
       list_all (\<lambda>(t, w). \<not> dead w (ci_conn c) \<and> t < dl \<and> dl \<le> t + pc_drain_timeout (wp_cfg p)) (outs @ [(t, w)]) \<longrightarrow> in_flight dl c p')"
proof -
  have d: "dialler dead qs (wp_cert p) up (wp_fronts p)" using assms(1) by (simp add: dialler_def)
  have "dialler.set_up (wp_cert p) (wp_fronts p) p" using assms(2) by (simp add: dialler.set_up_def [OF d])
  from dialler.heals [OF d this assms(3-6)] show ?thesis by blast
qed

text \<open>The test of the repository, with the turns at which its maintainer finds the gateway dead and back.\<close>

definition test_cfg :: pool_config where
  "test_cfg = default_pool_config\<lparr>pc_target := 2, pc_max_uses := Some 1, pc_tick := from_millis 30, pc_drain_timeout := from_secs 5\<rparr>"

definition test_stats :: "test_world \<Rightarrow> nat \<Rightarrow> conn_stats" where
  "test_stats w k = \<lparr>c_rtt = from_millis 2, c_sent_packets = 1, c_lost_packets = 0\<rparr>"

definition gateway_dies_with_active_pool_keeps_inflight_and_heals :: bool where
  "gateway_dies_with_active_pool_keeps_inflight_and_heals \<longleftrightarrow>
     (case start_pool test_dead Some test_stack 0 \<lparr>tw_up = True, tw_conns = 0, tw_closed = []\<rparr> [test_front] [7] None test_cfg of
        Some (Inr pool) \<Rightarrow>
          pool_ready test_dead pool = 2 \<and>
          (case pick test_dead pool of
             (Some l, p1) \<Rightarrow>
               (case maintain test_dead test_stats Some test_stack [(from_millis 30, (wp_world p1)\<lparr>tw_up := False\<rparr>)] p1 of
                  Some p2 \<Rightarrow>
                    1 \<le> wp_build_errors p2 \<and> list_ex (\<lambda>s. ci_conn (sl_circuit s) = ls_conn l) (wp_slots p2) \<and>
                    \<not> test_dead (wp_world p2) (ls_conn l) \<and>
                    (case maintain test_dead test_stats Some test_stack [(from_millis 60, (wp_world p2)\<lparr>tw_up := True\<rparr>)] (drop_lease l p2) of
                       Some p3 \<Rightarrow> pool_ready test_dead p3 = 2
                     | None \<Rightarrow> False)
                | None \<Rightarrow> False)
           | _ \<Rightarrow> False)
      | _ \<Rightarrow> False)"

lemmas pool_defs = pool_ready_def ready_slot_def maintain_turn_def maintain_locked_def retire_def retire_due_def instant_add_def instant_limit_def
  reaped_def refill_def build_one_def
  next_front_def connect_fresh_with_def io_bind_def io_context_def io_return_def

lemma test_front_works: "tw_up w \<Longrightarrow> test_front w = (Inr (SockAddr (V4 127 0 0 1) 9), w)" "\<not> tw_up w \<Longrightarrow> test_front w = (Inl ''gateway down'', w)"
  by (simp_all add: test_front_def flippable_front_def test_factory)

definition test_slot :: "nat \<Rightarrow> slot" where
  "test_slot n = \<lparr>sl_circuit = \<lparr>ci_conn = n, ci_local = SockAddr (V4 127 0 0 1) (of_nat n)\<rparr>, sl_born = 0, sl_uses = 0, sl_active = n,
     sl_draining = None, sl_last_sampled = None\<rparr>"

definition test_pool :: "test_world warm_pool" where
  "test_pool = \<lparr>wp_slots = [test_slot 0, test_slot 1], wp_rr = 0, wp_fronts = [test_front], wp_front_rr = 2, wp_cert = [7], wp_transport = None,
     wp_measured = None, wp_cfg = test_cfg, wp_built = 2, wp_retired = 0, wp_build_errors = 0, wp_counters = (\<lambda>_. 0),
     wp_next_counter = 2, wp_world = \<lparr>tw_up = True, tw_conns = 2, tw_closed = []\<rparr>\<rparr>"

lemma test_started:
  "start_pool test_dead Some test_stack 0 \<lparr>tw_up = True, tw_conns = 0, tw_closed = []\<rparr> [test_front] [7] None test_cfg = Some (Inr test_pool)"
  by (simp add: start_pool_def spawn_pool_def pool_defs test_front_works test_stack_def test_pool_def test_slot_def test_cfg_def
      numeral_2_eq_2 fun_eq_iff)

definition busy_pool :: "test_world warm_pool" where
  "busy_pool = test_pool\<lparr>wp_slots := [bump (test_slot 0), test_slot 1], wp_rr := 1, wp_counters := (\<lambda>_. 0)(0 := 1)\<rparr>"

lemma test_picked: "pick test_dead test_pool = (Some \<lparr>ls_conn = 0, ls_active = 0\<rparr>, busy_pool)"
  by (simp add: pick_def busy_pool_def test_pool_def test_dead_def test_slot_def bump_def)

definition down_pool :: "test_world warm_pool" where
  "down_pool = busy_pool\<lparr>wp_slots := [(bump (test_slot 0))\<lparr>sl_draining := Some 5030000000\<rparr>, test_slot 1], wp_front_rr := 3, wp_retired := 1,
     wp_build_errors := 1, wp_world := \<lparr>tw_up = False, tw_conns = 2, tw_closed = []\<rparr>\<rparr>"

lemma test_outage:
  "maintain test_dead test_stats Some test_stack [(from_millis 30, (wp_world busy_pool)\<lparr>tw_up := False\<rparr>)] busy_pool = Some down_pool"
  by (simp add: busy_pool_def down_pool_def pool_defs Let_def test_front_works test_stack_def test_pool_def test_slot_def test_cfg_def
      bump_def test_dead_def from_millis_def from_secs_def default_pool_config_def)

lemma gateway_test: "gateway_dies_with_active_pool_keeps_inflight_and_heals"
proof -
  have r: "pool_ready test_dead test_pool = 2" by (simp add: pool_defs test_pool_def test_slot_def test_dead_def)
  have d: "1 \<le> wp_build_errors down_pool" "list_ex (\<lambda>s. ci_conn (sl_circuit s) = 0) (wp_slots down_pool)" "\<not> test_dead (wp_world down_pool) 0"
    by (simp_all add: down_pool_def test_slot_def bump_def test_dead_def)
  have h: "\<exists>p3. maintain test_dead test_stats Some test_stack [(from_millis 60, (wp_world down_pool)\<lparr>tw_up := True\<rparr>)]
      (drop_lease \<lparr>ls_conn = 0, ls_active = 0\<rparr> down_pool) = Some p3 \<and> pool_ready test_dead p3 = 2"
    by (simp add: busy_pool_def down_pool_def drop_lease_def pool_defs Let_def test_front_works test_stack_def test_pool_def test_slot_def
        test_cfg_def bump_def test_dead_def from_millis_def from_secs_def default_pool_config_def)
  show ?thesis
    unfolding gateway_dies_with_active_pool_keeps_inflight_and_heals_def test_started
    using test_picked r d h by (auto simp: test_outage simp del: maintain.simps)
qed

theorem pool_heals_witness:
  "\<exists>p'. maintain test_dead test_stats Some test_stack [(from_millis 30, \<lparr>tw_up = False, tw_conns = 2, tw_closed = []\<rparr>),
       (from_millis 60, \<lparr>tw_up = True, tw_conns = 2, tw_closed = []\<rparr>)] busy_pool = Some p' \<and>
     wp_build_errors p' = 1 \<and> 2 \<le> pool_ready test_dead p' \<and> in_flight (from_secs 1) (sl_circuit (test_slot 0)) p'"
proof -
  let ?down = "\<lparr>tw_up = False, tw_conns = 2, tw_closed = []\<rparr>" and ?up = "\<lparr>tw_up = True, tw_conns = 2, tw_closed = []\<rparr>"
  note defs = busy_pool_def test_pool_def
  have "\<forall>f \<in> set (wp_fronts busy_pool). dials test_dead test_stack (wp_cert busy_pool) tw_up f" by (simp add: defs test_front_dials)
  moreover have "pool_typed busy_pool" by (simp add: defs pool_typed_def)
  moreover have "\<forall>w k. fits_u64 (c_rtt (test_stats w k))" by (simp add: test_stats_def fits_u64_def from_millis_def)
  moreover have "list_all (\<lambda>(t, w). t + pc_drain_timeout (wp_cfg busy_pool) < instant_limit) ([(from_millis 30, ?down)] @ [(from_millis 60, ?up)])"
    by (simp add: defs test_cfg_def from_millis_def from_secs_def instant_limit_def)
  ultimately obtain k p' where p': "maintain test_dead test_stats Some test_stack ([(from_millis 30, ?down)] @ [(from_millis 60, ?up)]) busy_pool = Some p'"
      "k \<le> length [(from_millis 30, ?down)]" "wp_build_errors p' = wp_build_errors busy_pool + of_nat k"
      "pc_target (wp_cfg busy_pool) \<le> pool_ready test_dead p'"
      "\<forall>q. maintain_locked test_dead test_stats (from_millis 30) (busy_pool\<lparr>wp_world := ?down\<rparr>) = Some q \<longrightarrow>
         pool_ready test_dead q < pc_target (wp_cfg busy_pool) \<longrightarrow> 0 < k"
      "\<forall>c dl. in_flight dl c busy_pool \<longrightarrow> list_all (\<lambda>(t, w). \<not> test_dead w (ci_conn c) \<and> t < dl \<and> dl \<le> t + pc_drain_timeout (wp_cfg busy_pool))
         ([(from_millis 30, ?down)] @ [(from_millis 60, ?up)]) \<longrightarrow> in_flight dl c p'"
    using pool_heals [of busy_pool test_dead test_stack tw_up test_stats "[(from_millis 30, ?down)]" ?up "from_millis 60" Some] by auto
  have "0 < k" using p'(5)
    by (simp add: defs pool_defs Let_def test_slot_def test_cfg_def bump_def test_dead_def from_millis_def from_secs_def default_pool_config_def)
  with p'(2) have "k = 1" by simp
  then have "wp_build_errors p' = 1" using p'(3) by (simp add: defs)
  moreover have "in_flight (from_secs 1) (sl_circuit (test_slot 0)) busy_pool" by (simp add: in_flight_def defs test_slot_def bump_def)
  moreover have "list_all (\<lambda>(t, w). \<not> test_dead w (ci_conn (sl_circuit (test_slot 0))) \<and> t < from_secs 1 \<and> from_secs 1 \<le> t + pc_drain_timeout (wp_cfg busy_pool))
      ([(from_millis 30, ?down)] @ [(from_millis 60, ?up)])"
    by (simp add: defs test_slot_def test_cfg_def test_dead_def from_millis_def from_secs_def)
  moreover have "pc_target (wp_cfg busy_pool) = 2" by (simp add: defs test_cfg_def)
  ultimately show ?thesis using p'(1,4,6) by (auto simp del: maintain.simps)
qed

section \<open>The tests of the pool\<close>

definition slot_uses :: "'w warm_pool \<Rightarrow> u64 list" where
  "slot_uses p = map sl_uses (wp_slots p)"

definition self_heal_cfg :: pool_config where
  "self_heal_cfg = default_pool_config\<lparr>pc_target := 3, pc_tick := from_millis 50\<rparr>"

fun picks :: "nat \<Rightarrow> test_world warm_pool \<Rightarrow> test_world warm_pool option" where
  "picks 0 p = Some p"
| "picks (Suc n) p = (case pick test_dead p of (None, _) \<Rightarrow> None | (Some l, p') \<Rightarrow> picks n (drop_lease l p'))"

definition prewarms_roundrobins_and_self_heals :: bool where
  "prewarms_roundrobins_and_self_heals \<longleftrightarrow>
     (case start_pool test_dead Some test_stack 0 \<lparr>tw_up = True, tw_conns = 0, tw_closed = []\<rparr> [test_front] [7] None self_heal_cfg of
        Some (Inr pool) \<Rightarrow>
          pool_ready test_dead pool = 3 \<and> distinct_sources pool = 3 \<and>
          (case picks 6 pool of
             None \<Rightarrow> False
           | Some p1 \<Rightarrow>
               sort (slot_uses p1) = [2, 2, 2] \<and>
               (case pick test_dead p1 of
                  (Some l, p2) \<Rightarrow>
                    (case maintain test_dead test_stats Some test_stack
                        [(from_millis 50, (wp_world p2)\<lparr>tw_closed := [ls_conn l]\<rparr>)] (drop_lease l p2) of
                       Some p3 \<Rightarrow> pool_ready test_dead p3 = 3 \<and> wp_built p1 < wp_built p3
                     | None \<Rightarrow> False)
                | _ \<Rightarrow> False))
      | _ \<Rightarrow> False)"

definition pool3 :: "u64 \<Rightarrow> u64 \<Rightarrow> u64 \<Rightarrow> u64 \<Rightarrow> test_world warm_pool" where
  "pool3 a b c r = test_pool\<lparr>wp_slots := [(test_slot 0)\<lparr>sl_uses := a\<rparr>, (test_slot 1)\<lparr>sl_uses := b\<rparr>, (test_slot 2)\<lparr>sl_uses := c\<rparr>], wp_rr := r,
     wp_front_rr := 3, wp_cfg := self_heal_cfg, wp_built := 3, wp_next_counter := 3, wp_world := \<lparr>tw_up = True, tw_conns = 3, tw_closed = []\<rparr>\<rparr>"

lemma started3:
  "start_pool test_dead Some test_stack 0 \<lparr>tw_up = True, tw_conns = 0, tw_closed = []\<rparr> [test_front] [7] None self_heal_cfg = Some (Inr (pool3 0 0 0 0))"
  by (simp add: start_pool_def spawn_pool_def pool_defs test_front_works test_stack_def test_pool_def pool3_def test_slot_def self_heal_cfg_def
      numeral_3_eq_3 fun_eq_iff)

lemma pick_all_ready:
  assumes "list_all (ready_slot dead (wp_world p)) (wp_slots p)" and "wp_slots p \<noteq> []" and "unat (wp_rr p) mod length (wp_slots p) = i"
  defines "s \<equiv> wp_slots p ! i"
  shows "pick dead p = (Some \<lparr>ls_conn = ci_conn (sl_circuit s), ls_active = sl_active s\<rparr>,
    p\<lparr>wp_slots := (wp_slots p)[i := bump s], wp_rr := wp_rr p + 1, wp_counters := (wp_counters p)(sl_active s := wp_counters p (sl_active s) + 1)\<rparr>)"
proof -
  have f: "filter (\<lambda>s. \<not> dead (wp_world p) (ci_conn (sl_circuit s))) (wp_slots p) = wp_slots p"
    using assms(1) by (auto simp: list_all_iff ready_slot_def intro: filter_True)
  have g: "filter (\<lambda>i. sl_draining (wp_slots p ! i) = None) [0..<length (wp_slots p)] = [0..<length (wp_slots p)]"
    using assms(1) by (auto simp: list_all_length ready_slot_def intro: filter_True)
  have i: "i < length (wp_slots p)" using assms(2,3) by auto
  show ?thesis unfolding pick_def f Let_def g using assms(2,3) i by (simp add: s_def bump_def)
qed

lemma pick3:
  assumes "unat r mod 3 = i"
  shows "pick test_dead (pool3 a b c r) = (Some \<lparr>ls_conn = i, ls_active = i\<rparr>,
      (pool3 (if i = 0 then a + 1 else a) (if i = 1 then b + 1 else b) (if i = 2 then c + 1 else c) (r + 1))\<lparr>wp_counters := (\<lambda>_. 0)(i := 1)\<rparr>)"
proof -
  have ready: "list_all (ready_slot test_dead (wp_world (pool3 a b c r))) (wp_slots (pool3 a b c r))"
    by (simp add: pool3_def ready_slot_def test_dead_def test_slot_def)
  have "i < 3" using assms by auto
  then consider "i = 0" | "i = 1" | "i = 2" by linarith
  then show ?thesis
    by cases (subst pick_all_ready [OF ready, of i]; use assms in \<open>simp add: pool3_def test_pool_def test_slot_def bump_def\<close>)+
qed

lemma drop3: "drop_lease \<lparr>ls_conn = i, ls_active = i\<rparr> ((pool3 a b c r)\<lparr>wp_counters := (\<lambda>_. 0)(i := 1)\<rparr>) = pool3 a b c r"
  by (simp add: drop_lease_def pool3_def test_pool_def fun_eq_iff)

lemma picks_step:
  assumes "unat r mod 3 = i"
  shows "picks (Suc n) (pool3 a b c r) =
    picks n (pool3 (if i = 0 then a + 1 else a) (if i = 1 then b + 1 else b) (if i = 2 then c + 1 else c) (r + 1))"
  unfolding picks.simps pick3 [OF assms] by (simp only: drop3 prod.case option.case)

lemma picks3: "picks 6 (pool3 0 0 0 0) = Some (pool3 2 2 2 6)"
proof -
  have n: "6 = Suc (Suc (Suc (Suc (Suc (Suc 0)))))" by simp
  have r: "unat (0 :: u64) mod 3 = 0" "unat (1 :: u64) mod 3 = 1" "unat (2 :: u64) mod 3 = 2" "unat (3 :: u64) mod 3 = 0"
    "unat (4 :: u64) mod 3 = 1" "unat (5 :: u64) mod 3 = 2" by simp_all
  show ?thesis unfolding n using picks_step [OF r(1)] picks_step [OF r(2)] picks_step [OF r(3)] picks_step [OF r(4)] picks_step [OF r(5)] picks_step [OF r(6)]
    by (simp del: picks.simps(2))
qed

lemma self_heal_test: "prewarms_roundrobins_and_self_heals"
proof -
  have r: "unat (6 :: u64) mod 3 = 0" by simp
  have w: "pool_ready test_dead (pool3 0 0 0 0) = 3" "distinct_sources (pool3 0 0 0 0) = 3" "slot_uses (pool3 2 2 2 6) = [2, 2, 2]"
    by (simp_all add: pool_ready_def ready_slot_def distinct_sources_def slot_uses_def pool3_def test_pool_def test_slot_def test_dead_def)
  have m: "\<exists>p3. maintain test_dead test_stats Some test_stack [(from_millis 50, \<lparr>tw_up = True, tw_conns = 3, tw_closed = [0]\<rparr>)] (pool3 3 2 2 7) = Some p3 \<and>
      pool_ready test_dead p3 = 3 \<and> wp_built p3 = 4"
    by (simp add: pool3_def pool_defs Let_def test_front_works test_stack_def test_pool_def test_slot_def self_heal_cfg_def bump_def test_dead_def
        from_millis_def from_secs_def default_pool_config_def)
  have wd: "wp_world (pool3 a b c r) = \<lparr>tw_up = True, tw_conns = 3, tw_closed = []\<rparr>" "wp_built (pool3 a b c r) = 3" for a b c r by (simp_all add: pool3_def)
  show ?thesis
    unfolding prewarms_roundrobins_and_self_heals_def started3
    using w m by (auto simp: picks3 pick3 [OF r] drop3 wd simp del: maintain.simps)
qed

definition drain_cfg :: pool_config where
  "drain_cfg = default_pool_config\<lparr>pc_target := 1, pc_max_uses := Some 1, pc_tick := from_millis 30, pc_drain_timeout := from_secs 5\<rparr>"

definition draining_does_not_kill_inflight :: bool where
  "draining_does_not_kill_inflight \<longleftrightarrow>
     (case start_pool test_dead Some test_stack 0 \<lparr>tw_up = True, tw_conns = 0, tw_closed = []\<rparr> [test_front] [7] None drain_cfg of
        Some (Inr pool) \<Rightarrow>
          (case pick test_dead pool of
             (Some l, p1) \<Rightarrow>
               (case maintain test_dead test_stats Some test_stack [(from_millis 30, wp_world p1)] p1 of
                  Some p2 \<Rightarrow>
                    1 \<le> wp_retired p2 \<and> 1 \<le> pool_ready test_dead p2 \<and>
                    list_ex (\<lambda>s. ci_conn (sl_circuit s) = ls_conn l) (wp_slots p2) \<and> \<not> test_dead (wp_world p2) (ls_conn l) \<and>
                    (case maintain test_dead test_stats Some test_stack [(from_millis 60, wp_world p2)] (drop_lease l p2) of
                       Some p3 \<Rightarrow> \<not> list_ex (\<lambda>s. ci_conn (sl_circuit s) = ls_conn l) (wp_slots p3)
                     | None \<Rightarrow> False)
                | None \<Rightarrow> False)
           | _ \<Rightarrow> False)
      | _ \<Rightarrow> False)"

definition drain_pool :: "test_world warm_pool" where
  "drain_pool = test_pool\<lparr>wp_slots := [test_slot 0], wp_front_rr := 1, wp_cfg := drain_cfg, wp_built := 1, wp_next_counter := 1,
     wp_world := \<lparr>tw_up = True, tw_conns = 1, tw_closed = []\<rparr>\<rparr>"

definition drained_pool :: "test_world warm_pool" where
  "drained_pool = drain_pool\<lparr>wp_slots := [(bump (test_slot 0))\<lparr>sl_draining := Some 5030000000\<rparr>, (test_slot 1)\<lparr>sl_born := 30000000\<rparr>], wp_rr := 1, wp_front_rr := 2,
     wp_built := 2, wp_retired := 1, wp_next_counter := 2, wp_counters := (\<lambda>_. 0)(0 := 1), wp_world := \<lparr>tw_up = True, tw_conns = 2, tw_closed = []\<rparr>\<rparr>"

lemma drain_test: "draining_does_not_kill_inflight"
proof -
  note defs = drain_pool_def drained_pool_def test_pool_def test_slot_def drain_cfg_def
  have s: "start_pool test_dead Some test_stack 0 \<lparr>tw_up = True, tw_conns = 0, tw_closed = []\<rparr> [test_front] [7] None drain_cfg = Some (Inr drain_pool)"
    by (simp add: start_pool_def spawn_pool_def pool_defs test_front_works test_stack_def defs fun_eq_iff)
  have p: "pick test_dead drain_pool = (Some \<lparr>ls_conn = 0, ls_active = 0\<rparr>,
      drain_pool\<lparr>wp_slots := [bump (test_slot 0)], wp_rr := 1, wp_counters := (\<lambda>_. 0)(0 := 1)\<rparr>)"
    by (simp add: pick_def defs test_dead_def bump_def)
  have m: "maintain test_dead test_stats Some test_stack [(from_millis 30, \<lparr>tw_up = True, tw_conns = 1, tw_closed = []\<rparr>)]
      (drain_pool\<lparr>wp_slots := [bump (test_slot 0)], wp_rr := 1, wp_counters := (\<lambda>_. 0)(0 := 1)\<rparr>) = Some drained_pool"
    by (simp add: defs pool_defs Let_def test_front_works test_stack_def bump_def test_dead_def from_millis_def from_secs_def default_pool_config_def fun_eq_iff)
  have d: "1 \<le> wp_retired drained_pool" "1 \<le> pool_ready test_dead drained_pool" "list_ex (\<lambda>s. ci_conn (sl_circuit s) = 0) (wp_slots drained_pool)"
      "\<not> test_dead (wp_world drained_pool) 0" "wp_world drain_pool = \<lparr>tw_up = True, tw_conns = 1, tw_closed = []\<rparr>"
    by (simp_all add: defs pool_defs bump_def test_dead_def)
  have r: "\<exists>p3. maintain test_dead test_stats Some test_stack [(from_millis 60, wp_world drained_pool)]
      (drop_lease \<lparr>ls_conn = 0, ls_active = 0\<rparr> drained_pool) = Some p3 \<and> \<not> list_ex (\<lambda>s. ci_conn (sl_circuit s) = 0) (wp_slots p3)"
    by (simp add: drop_lease_def defs pool_defs Let_def test_front_works test_stack_def bump_def test_dead_def from_millis_def from_secs_def default_pool_config_def)
  show ?thesis unfolding draining_does_not_kill_inflight_def s using p m d r by (auto simp del: maintain.simps)
qed

end
