(* ===== verification/Listeners.thy ===== *)
theory Listeners
  imports Autopilot Serving Measure
begin

text \<open>
  The servers of a node around the handlers of one client: the certificate endpoint (\<^verbatim>\<open>autopilot.rs\<close>), the live-metrics
  websocket (\<^verbatim>\<open>metrics_ws.rs\<close>), the gateway's QUIC endpoint (\<^verbatim>\<open>node.rs\<close>) and the ingress proxy
  (\<^verbatim>\<open>ingress.rs\<close>). The first three spawn a task per client that shares nothing with the others but what never changes, which
  is the contract \<open>accept_loop\<close>. The requests of the proxy share the provider of connections, whose state is passed from one to the next.
\<close>

section \<open>Accepting\<close>

text \<open>\<open>let Ok(..) = accept() else continue\<close>: a failed accept is skipped.\<close>

fun accepted :: "('e + 'a) list \<Rightarrow> 'a list" where
  "accepted [] = []"
| "accepted (Inl _ # rs) = accepted rs"
| "accepted (Inr x # rs) = x # accepted rs"

text \<open>\<open>while let Some(..) = accept()\<close> and \<open>while let Ok(..) = accept()\<close>: the loop ends with the first of the others.\<close>

fun while_some :: "'a option list \<Rightarrow> 'a list" where
  "while_some (Some x # rs) = x # while_some rs"
| "while_some _ = []"

fun while_ok :: "('e + 'a) list \<Rightarrow> 'a list" where
  "while_ok (Inr x # rs) = x # while_ok rs"
| "while_ok _ = []"

lemma accepted_append [simp]: "accepted (rs @ rs') = accepted rs @ accepted rs'"
  by (induction rs rule: accepted.induct) simp_all

lemma while_some_append: "while_some (rs @ rs') = while_some rs @ (if None \<in> set rs then [] else while_some rs')"
  by (induction rs rule: while_some.induct) simp_all

lemma while_some_map: "while_some (map Some xs) = xs"
  by (induction xs) simp_all

text \<open>
  The contract of an accept loop: \<open>serve\<close> gives what became of each task, in the order they were spawned, and depends on nothing but
  the clients that were taken. Then a server that lives longer has done the same for its earlier clients, and one client's outcome does
  not depend on the others.
\<close>

locale accept_loop =
  fixes take_all :: "'r list \<Rightarrow> 'c list" and task :: "'c \<Rightarrow> 'o" and serve :: "'r list \<Rightarrow> 'o list"
  assumes serve_conv: "serve rs = map task (take_all rs)"
    and take_append: "\<exists>cs. take_all (rs @ rs') = take_all rs @ cs"
begin

lemma served_each: "i < length (take_all rs) \<Longrightarrow> i < length (serve rs) \<and> serve rs ! i = task (take_all rs ! i)"
  by (simp add: serve_conv)

lemma served_stays: "i < length (take_all rs) \<Longrightarrow> serve (rs @ rs') ! i = task (take_all rs ! i)"
  using take_append [of rs rs'] by (auto simp: serve_conv nth_append)

lemma isolated: "take_all rs ! i = take_all rs' ! i \<Longrightarrow> i < length (take_all rs) \<Longrightarrow> i < length (take_all rs') \<Longrightarrow> serve rs ! i = serve rs' ! i"
  by (simp add: serve_conv)

end

section \<open>The certificate endpoint\<close>

definition serve_cert_http :: "io_error option \<Rightarrow> byte list \<Rightarrow> (io_error + tcp_stream) list \<Rightarrow> io_error + tcp_stream list" where
  "serve_cert_http bind_error cert attempts =
     (case bind_error of Some e \<Rightarrow> Inl e | None \<Rightarrow> Inr (map (serve_cert_conn cert) (accepted attempts)))"

interpretation cert_server: accept_loop accepted "serve_cert_conn cert" "\<lambda>rs. projr (serve_cert_http None cert rs)" for cert
  by unfold_locales (simp_all add: serve_cert_http_def)

text \<open>Every client over a healthy connection gets the certificate, whatever accepts failed and whatever other clients did.\<close>

lemma cert_for_every_client:
  assumes "serve_cert_http None cert (rs @ rs') = Inr served" and "i < length (accepted rs)" and "accepted rs ! i = srv"
    and "w_faults (t_write srv) = []" and "w_out (t_write srv) = []" and "cert \<noteq> []"
    and "connect addr = Some (Inr s)" and "w_faults (t_write s) = []"
    and "\<And>s1. read_all s1 = Some (Inr (w_out (t_write (served ! i))))"
  shows "fetch_cert connect read_all addr = Inr cert"
proof -
  have "served ! i = serve_cert_conn cert srv"
    using cert_server.served_stays [OF assms(2), of cert rs'] assms(1,3) by simp
  with served_body [OF assms(4,5), of cert] assms(6-9) show ?thesis by (auto simp: fetch_cert_def tcp_write_all_def)
qed

section \<open>The live-metrics websocket\<close>

text \<open>A client of the websocket: the outcome of its handshake, its first message, the inputs of its run and its sink. A task that panics
  (\<open>None\<close>) ends alone.\<close>

record 'w ws_client =
  wc_accept :: "string option"
  wc_first :: "first_message option"
  wc_inputs :: "socket_addr \<Rightarrow> 'w run_inputs"
  wc_sink :: ws_sink

definition ws_task ::
  "(string \<Rightarrow> (string \<Rightarrow> string option) option) \<Rightarrow> environment \<Rightarrow> node \<Rightarrow> 'w ws_client \<Rightarrow> ((handle_error + unit) \<times> ws_sink) may_panic" where
  "ws_task json env nd c = handle json env nd (wc_inputs c) (wc_accept c) (wc_first c) (wc_sink c)"

definition serve_metrics_ws ::
  "(string \<Rightarrow> (string \<Rightarrow> string option) option) \<Rightarrow> environment \<Rightarrow> node \<Rightarrow> io_error option \<Rightarrow> (io_error + 'w ws_client) list \<Rightarrow>
   io_error + ((handle_error + unit) \<times> ws_sink) may_panic list" where
  "serve_metrics_ws json env nd bind_error attempts =
     (case bind_error of Some e \<Rightarrow> Inl e | None \<Rightarrow> Inr (map (ws_task json env nd) (accepted attempts)))"

interpretation ws_server: accept_loop accepted "ws_task json env nd" "\<lambda>rs. projr (serve_metrics_ws json env nd None rs)" for json env nd
  by unfold_locales (simp_all add: serve_metrics_ws_def)

section \<open>The gateway's endpoint\<close>

text \<open>A connection: the handshake fails, or its streams are served until no more can be accepted.\<close>

definition serve_connection ::
  "(string \<Rightarrow> io_error + tcp_stream) \<Rightarrow> 'e + ('e + rstream \<times> wstream) list \<Rightarrow> ((io_error + stream_end) \<times> wstream) list" where
  "serve_connection dial incoming = (case incoming of Inl _ \<Rightarrow> [] | Inr bis \<Rightarrow> serve_streams dial (while_ok bis))"

definition serve_endpoint ::
  "(string \<Rightarrow> io_error + tcp_stream) \<Rightarrow> ('e + ('e + rstream \<times> wstream) list) option list \<Rightarrow> ((io_error + stream_end) \<times> wstream) list list" where
  "serve_endpoint dial incomings = map (serve_connection dial) (while_some incomings)"

interpretation endpoint: accept_loop while_some "serve_connection dial" "serve_endpoint dial" for dial
  by unfold_locales (auto simp: serve_endpoint_def while_some_append)

definition serve_gateway :: "string option \<Rightarrow> (socket_addr \<Rightarrow> io_error + socket_addr) \<Rightarrow> node \<Rightarrow> (string + io_error) + server_config \<times> socket_addr" where
  "serve_gateway config_err bind_to nd = serve_gateway_at config_err (bind_to (SockAddr (V4 127 0 0 1) 0)) nd"

section \<open>The ingress proxy\<close>

text \<open>
  The proxy's events: a turn of its accept loop, and a request on the connection of one of its tasks. \<open>provider\<close> is asked once per
  request. The answers are in the order the provider was asked.
\<close>

datatype proxy_event = Accepting "io_error + unit" | Asked nat http_request

record 'w proxy_server =
  px_tasks :: nat
  px_provider :: 'w
  px_answers :: "(nat \<times> http_request \<times> http_response \<times> string option) list"

definition serve_with :: "io_error + socket_addr \<Rightarrow> 'w \<Rightarrow> io_error + socket_addr \<times> 'w proxy_server" where
  "serve_with bound w = (case bound of Inl e \<Rightarrow> Inl e | Inr addr \<Rightarrow> Inr (addr, \<lparr>px_tasks = 0, px_provider = w, px_answers = []\<rparr>))"

fun proxy_step ::
  "('w \<Rightarrow> 'c option \<times> 'w) \<Rightarrow> ('c \<Rightarrow> string \<Rightarrow> http_request \<Rightarrow> string + http_response) \<Rightarrow> proxy_event \<Rightarrow> 'w proxy_server \<Rightarrow> 'w proxy_server" where
  "proxy_step provider upstream (Accepting (Inl _)) s = s"
| "proxy_step provider upstream (Accepting (Inr _)) s = s\<lparr>px_tasks := Suc (px_tasks s)\<rparr>"
| "proxy_step provider upstream (Asked i req) s =
     (if i < px_tasks s
      then (case provider (px_provider s) of (c, w) \<Rightarrow>
        s\<lparr>px_provider := w, px_answers := px_answers s @ [(i, req, serve_request c upstream req)]\<rparr>)
      else s)"

text \<open>\<open>serve\<close>: one fixed connection.\<close>

definition fixed_provider :: "'c \<Rightarrow> unit \<Rightarrow> 'c option \<times> unit" where
  "fixed_provider conn w = (Some conn, w)"

text \<open>The requests that reach a task, and how many tasks there are by then.\<close>

fun asked :: "nat \<Rightarrow> proxy_event list \<Rightarrow> (nat \<times> http_request) list" where
  "asked n [] = []"
| "asked n (Accepting (Inl _) # es) = asked n es"
| "asked n (Accepting (Inr _) # es) = asked (Suc n) es"
| "asked n (Asked i req # es) = (if i < n then [(i, req)] else []) @ asked n es"

lemma proxy_answers:
  "map (\<lambda>(i, req, _). (i, req)) (px_answers (fold (proxy_step provider upstream) es s)) =
   map (\<lambda>(i, req, _). (i, req)) (px_answers s) @ asked (px_tasks s) es"
  by (induction "px_tasks s" es arbitrary: s rule: asked.induct) (auto split: prod.splits)

lemma answered_by_provider:
  assumes "\<And>w. P w \<Longrightarrow> P (snd (provider w)) \<and> Q (fst (provider w))" and "P (px_provider s)"
    and "(i, req, ans) \<in> set (px_answers (fold (proxy_step provider upstream) es s)) - set (px_answers s)"
  shows "\<exists>c. Q c \<and> ans = serve_request c upstream req"
proof -
  have step: "P (px_provider (proxy_step provider upstream e s)) \<and>
      (x \<in> set (px_answers (proxy_step provider upstream e s)) \<longrightarrow> x \<in> set (px_answers s) \<or>
        (\<exists>i req c. Q c \<and> x = (i, req, serve_request c upstream req)))" if "P (px_provider s)" for e x s
    using assms(1) [OF that] that by (induction provider upstream e s rule: proxy_step.induct) (auto split: prod.splits)
  have "x \<in> set (px_answers (fold (proxy_step provider upstream) es s)) \<longrightarrow> x \<in> set (px_answers s) \<or>
      (\<exists>i req c. Q c \<and> x = (i, req, serve_request c upstream req))" for x
    using assms(2) by (induction es arbitrary: s) (auto dest: step)
  with assms(3) show ?thesis by blast
qed

text \<open>
  The proxy answers every request, in every order of connections and requests: each request on a connection it accepted gets exactly
  one answer, in the order the requests were asked. Over a fixed connection the answer is the proxy's over that connection, and never the
  503 of a provider with nothing to give.
\<close>

lemma proxy_answers_all:
  assumes "serve_with (Inr addr) () = Inr (bound, s)"
  shows "bound = addr" and "map (\<lambda>(i, req, _). (i, req)) (px_answers (fold (proxy_step (fixed_provider conn) upstream) es s)) = asked 0 es"
    and "(i, req, ans) \<in> set (px_answers (fold (proxy_step (fixed_provider conn) upstream) es s)) \<Longrightarrow> ans = proxy (upstream conn) req"
proof -
  show "bound = addr" and "map (\<lambda>(i, req, _). (i, req)) (px_answers (fold (proxy_step (fixed_provider conn) upstream) es s)) = asked 0 es"
    using assms by (auto simp: serve_with_def proxy_answers)
  show "ans = proxy (upstream conn) req" if "(i, req, ans) \<in> set (px_answers (fold (proxy_step (fixed_provider conn) upstream) es s))"
    using answered_by_provider [of "\<lambda>_. True" "fixed_provider conn" "\<lambda>c. c = Some conn" s i req ans upstream es] that assms
    by (auto simp: serve_with_def fixed_provider_def serve_request_def)
qed

end
