(* ===== verification/Spec2Isabelle.thy ===== *)
theory Spec2Isabelle
  imports Rust_Std Rust_Float Oracle Congestion Framing Net Directory Rust_Io Tor Transport Emulator Striped Substrate
    Relay Front Rotation WarmPool Autopilot Utf8 Gateway Http Metrics Measure Katzenpost Hopr Nym Node
    Bridge Serving Sessions Probes Carrier
    Calibration Selftest Programs Rotate_Runs Deployment Conformance
    Bridge_Server Tor_Path Healing Listeners
begin

text \<open>
  QUICMIX carries QUIC over mix networks. This development models its Rust sources under
  \<^verbatim>\<open>crates/\<close> and \<^verbatim>\<open>substrates/\<close> and proves what makes them correct.

  \<^bold>\<open>The program.\<close> A node (\<^verbatim>\<open>autopilot.rs\<close>) decides its role from its address: a
  gateway serves QUIC streams (\<^verbatim>\<open>node.rs\<close>), publishes its certificate over HTTP and may run a
  stream bridge (\<^verbatim>\<open>stream_bridge.rs\<close>); an ingress picks a live gateway from its directory
  (\<^verbatim>\<open>directory.rs\<close>), resolves the UDP front of the chosen substrate (\<^verbatim>\<open>front.rs\<close>), pins the
  gateway's certificate and serves an HTTP proxy (\<^verbatim>\<open>ingress.rs\<close>). A substrate implements the trait
  \<open>MixTransport\<close> (\<^verbatim>\<open>lib.rs\<close>): the emulator and the striped paths of the evaluation crate, Tor
  (\<^verbatim>\<open>tor.rs\<close>), Nym, Katzenpost and HOPR. Every substrate sits behind one boundary
  (\<^verbatim>\<open>substrate.rs\<close>) that paces, bounds and counts; relays and fronts (\<^verbatim>\<open>relay.rs\<close>,
  \<^verbatim>\<open>front.rs\<close>) move datagrams between UDP sockets and boundaries. Congestion control
  (\<^verbatim>\<open>sched.rs\<close>, \<^verbatim>\<open>client.rs\<close>) is fed by an oracle of path parameters that an
  estimator (\<^verbatim>\<open>oracle.rs\<close>) measures. Rotation and the warm pool (\<^verbatim>\<open>rotation.rs\<close>,
  \<^verbatim>\<open>proxy.rs\<close>) keep unlinkable circuits ready; \<^verbatim>\<open>metrics.rs\<close> and
  \<^verbatim>\<open>metrics_ws.rs\<close> report.

  \<^bold>\<open>Foundations.\<close>
  \<^item> Rust_Std: integers of fixed width, durations with their panics, strings (white space, trimming,
    splitting, number parsing and printing); the collection \<open>str_simps\<close>. \<open>may_panic\<close> is an option: \<open>None\<close> is a panic.
  \<^item> Rust_Float: IEEE double arithmetic by rounding of reals, with error bounds.
  \<^item> Net: addresses, their parser and printer. Utf8: validity, lossy decoding, lines.
  \<^item> Rust_Io: computations with \<open>?\<close> over a socket; the collection \<open>io_simps\<close>. A socket's read half is the bytes to
    come and how they end, its write half the bytes out and the faults to come.

  \<^bold>\<open>Components.\<close>
  \<^item> Oracle: \<open>OracleParams\<close> and \<open>OracleEstimator\<close>. The window holds the last 256 samples in order, no
    operation panics, the estimate follows the median, quantiles are ordered.
  \<^item> Congestion: the constant-window controller, bandwidth-delay products in floating point with a bound on
    the error, transport plans, \<open>MeasuredCc\<close>.
  \<^item> Transport: the locale \<open>mix_transport\<close>, the contract that a transport invents and duplicates nothing. Emulator
    and Striped interpret it; \<open>boundary_over\<close> in Substrate derives it for the boundary over any transport, and
    interprets it for the emulator and for the Nym reply leg.
  \<^item> Framing and Bridge: the length-prefixed datagrams of Tor streams and of the gateway's bridge; a connection of the
    bridge as the interleaving of its two loops, cut off where \<open>select!\<close> drops one. Bridge\_Server: the accept loop and all connections
    in every interleaving; no client sees another's datagrams, also when an address is used again.
  \<^item> Tor: the SOCKS5 dialogue (success exactly on an accepting reply), the circuit end to end, the supervised daemon.
    Tor\_Path: the whole Tor path from a sidecar's boundary to the gateway's QUIC listener and back, in order wherever the circuit is cut.
  \<^item> Directory and Autopilot: freshness, the promotion gate, configuration, certificate endpoint, refresh, role, ingress turn.
  \<^item> Substrate: queues, pumps, clock and counters as a step relation: order, pacing, accounting, backpressure.
  \<^item> Relay and Front: the forwarding loops as a step relation; environment choice, sidecar handshake, resolution.
  \<^item> Rotation and WarmPool: fresh circuits without resumption; slots, leases, refill, rotation and reaping as reachable states.
    Healing: the loop of the maintainer through an outage of the gateway, over the contract \<open>dialler\<close>, interpreted for the gateway that the repository's tests dial through the emulator.
    Serving: the proxy over the pool, one lease per request. Sessions: fronts over the emulator, session ids, the
    session server and the verdict of the rotation programs.
  \<^item> Gateway: gateway streams, the HTTP proxy and the CONNECT tunnel, and both ends of a tunnel or of a forwarded request together.
  \<^item> Http and Measure: URLs, responses, chunked bodies, redirects, and the websocket handler with its measurement run,
    refined by an automaton of phases and, over a healthy websocket, by the exact frames of each outcome.
  \<^item> Listeners: the accept loops of the certificate endpoint, the live-metrics websocket and the gateway's QUIC endpoint, each an interpretation of the
    contract \<open>accept_loop\<close>, and the proxy's listener, which answers every request once.
  \<^item> Metrics: the snapshot and the Prometheus text, read back by a scraper; floats in their shortest decimal form.
  \<^item> Katzenpost: thin-client frames, handshake, service resolution against a declarative choice, tokens.
  \<^item> Hopr: sessions over the node's API. Nym: client, bridge, and the gateway that keeps anonymous senders apart.
  \<^item> Carrier: the boundary over networks that take datagrams one at a time, once in the locales \<open>carrier\<close> and
    \<open>healthy_carrier\<close>, interpreted for the HOPR socket, the Nym client and the Nym reply leg: in order, none twice.
  \<^item> Node: the node binary with its linked substrates and the two sidecars, composed with Front, Autopilot, Tor and Hopr.
  \<^item> Deployment: whole nodes. The start of a node, and its refresh and ingress tasks in every interleaving (\<open>node_run\<close>): whom a node
    trusts, what two nodes agree on, and that a node finds its gateway.
  \<^item> Probes: the probes of the substrates up to their verdict. Calibration: the Nym probe, from pings to oracle parameters, with its
    floating-point statistics.
  \<^item> Selftest and Programs: the end-to-end fetch through ingress, gateway and origin, and the programs around it: self-test, benchmarks, multipath
    and the pool demonstration. Rotate\_Runs: both rotation programs over the contract \<open>rotation_phases\<close>, interpreted for the Nym runtime.
  \<^item> Conformance: the repository's tests. The failing transports of the failure matrix over the contract \<open>failing_transport\<close>, in every
    execution of the boundary; the deterministic tests replayed on their data.

  \<^bold>\<open>Choices.\<close> Concurrency is an interleaving of the tasks' steps; a step that would wait is \<open>None\<close>. Time is a
  number of nanoseconds carried by the state. Random choices, outcomes of binding, dialling and spawning, and
  third-party libraries (quinn, rustls, hyper, CBOR, the Nym client, HTTP, the operating system) are arguments,
  with what the code relies on as hypotheses of the theorems. Loops are recursive functions with termination
  proofs; no fuel is used. The loops that a program runs forever are step relations.

  \<^bold>\<open>Not modelled.\<close> Printing and signals; TLS, QUIC and HTTP engines, JSON and websocket text, which are libraries;
  the QUIC transfer that a benchmark times, which is an argument of it; making certificates; module declarations; tests that assert the times, rates or
  statistics of a run, or the encodings of a library.

  \<^bold>\<open>Defects shown.\<close> A spawned Tor sidecar is pointed at the certificate endpoint
  (\<open>Node.tor_sidecar_reaches_cert_endpoint\<close>); a hostile chunk size panics the decoder (\<open>Http.dechunk_panics\<close>); redirects lose
  letter case and port (\<open>Http.header_value_lowercases\<close>, \<open>Http.relative_redirect_default_port\<close>); an IPv6 HOPR session is refused
  (\<open>Hopr.ipv6_session_refused\<close>); the loss threshold overflows at extreme hop counts
  (\<open>Oracle.loss_time_threshold_overflow\<close>); the bridge stops at an empty datagram
  (\<open>Framing.bridge_stops_at_empty_datagram\<close>); the promotion gate admits unroutable addresses (\<open>Directory.gate_admits_unroutable\<close>);
  nominated hop-by-hop headers are forwarded (\<open>Gateway.strip_keeps_nominated\<close>); a gateway's own directory entry
  expires (\<open>Autopilot.own_entry_expires\<close>); a forwarded request holds no lease while its body streams
  (\<open>Serving.forward_releases_lease\<close>); the Nym probe takes one ping for another when its payload is too short, prints zero hops as
  given and panics at extreme hop counts (\<open>Calibration.short_payload_mistaken\<close>, \<open>Calibration.zero_hops_no_delay\<close>,
  \<open>Calibration.extreme_hops_panic\<close>); the relay forwards a stranger's datagram to the client (\<open>Relay.stranger_forwarded\<close>); an endless drain
  timeout panics the pool's maintainer (\<open>WarmPool.endless_drain_panics\<close>).
\<close>

end
